(* ===== verification/Stall_Prelude.thy ===== *)
theory Stall_Prelude
  imports Main "HOL-Library.Char_ord" "HOL-Library.List_Lexorder" "HOL-Library.Multiset" "HOL-Library.Product_Lexorder"
begin

text \<open>
  Shared by every component: the fragment of the Go standard library that the program
  uses (byte strings, \<open>strings\<close>, \<open>strconv\<close>, \<open>sort.Slice\<close>, time stamps), the result
  type, and the lemma collections the component proofs rest on.

  A Go string is a \<open>string\<close>: the list of its bytes.  \<open>strings.TrimSpace\<close> is modelled
  on the UTF-8 encodings of all code points of \<open>unicode.IsSpace\<close>; \<open>strings.ToLower\<close>
  and \<open>strings.EqualFold\<close> change ASCII letters only.  A time is the number of
  nanoseconds since the epoch; a time stamp field of a record is either a time
  (\<open>At\<close>: what \<open>time.Format (RFC3339Nano)\<close> prints and \<open>time.Parse\<close> reads back) or a
  text that \<open>time.Parse\<close> rejects.  A Go map that is iterated is the list of its entries
  in the order the iteration happens to produce them; results that must not depend on
  that order have a theorem that says so.
\<close>

named_theorems go_simps "defining equations of the Go library functions used by the code"

subsection \<open>Results\<close>

type_synonym ('e, 'a) result = "'e + 'a"

fun rbind :: "('e, 'a) result \<Rightarrow> ('a \<Rightarrow> ('e, 'b) result) \<Rightarrow> ('e, 'b) result" where
  "rbind (Inl e) f = Inl e"
| "rbind (Inr x) f = f x"

lemma rbind_eq_Inr [simp]: "rbind r f = Inr y \<longleftrightarrow> (\<exists>x. r = Inr x \<and> f x = Inr y)"
  by (cases r) auto

lemma result_okE:
  "(case r of Inl _ \<Rightarrow> False | Inr x \<Rightarrow> P x) \<Longrightarrow> (\<And>x. r = Inr x \<Longrightarrow> P x \<Longrightarrow> thesis) \<Longrightarrow> thesis"
  by (cases r) auto

text \<open>\<open>for\<close> loops that build a list and return at the first error.\<close>

fun rmap :: "('a \<Rightarrow> ('e, 'b) result) \<Rightarrow> 'a list \<Rightarrow> ('e, 'b list) result" where
  "rmap f [] = Inr []"
| "rmap f (x # xs) = rbind (f x) (\<lambda>y. rbind (rmap f xs) (\<lambda>ys. Inr (y # ys)))"

lemma rmap_Inr_iff: "rmap f xs = Inr ys \<longleftrightarrow> list_all2 (\<lambda>x y. f x = Inr y) xs ys"
  by (induction xs arbitrary: ys) (auto simp: list_all2_Cons1)

lemma rmap_Inr_set: "rmap f xs = Inr ys \<Longrightarrow> y \<in> set ys \<Longrightarrow> \<exists>x\<in>set xs. f x = Inr y"
  by (induction xs arbitrary: ys) auto

subsection \<open>Bytes and strings\<close>

definition lower_char :: "char \<Rightarrow> char" where
  "lower_char c = (let n = of_char c :: nat in if 65 \<le> n \<and> n \<le> 90 then char_of (n + 32) else c)"

definition to_lower :: "string \<Rightarrow> string" where
  "to_lower = map lower_char"

definition equal_fold :: "string \<Rightarrow> string \<Rightarrow> bool" where
  "equal_fold s t \<longleftrightarrow> to_lower s = to_lower t"

lemma lower_char_idem [simp]: "lower_char (lower_char c) = lower_char c"
  by (simp add: lower_char_def Let_def)

lemma to_lower_idem [simp]: "to_lower (to_lower s) = to_lower s"
  by (simp add: to_lower_def)

lemma equal_fold_refl [simp]: "equal_fold s s"
  by (simp add: equal_fold_def)

lemma equal_fold_sym: "equal_fold s t \<longleftrightarrow> equal_fold t s"
  by (auto simp: equal_fold_def)

lemma equal_fold_trans: "equal_fold s t \<Longrightarrow> equal_fold t u \<Longrightarrow> equal_fold s u"
  by (simp add: equal_fold_def)

text \<open>The encodings of the code points of \<open>unicode.IsSpace\<close>, by length.\<close>

definition space1 :: "char \<Rightarrow> bool" where
  "space1 a \<longleftrightarrow> (let n = of_char a :: nat in 9 \<le> n \<and> n \<le> 13 \<or> n = 32)"

definition space2 :: "char \<Rightarrow> char \<Rightarrow> bool" where
  "space2 a b \<longleftrightarrow> a = CHR 0xC2 \<and> (b = CHR 0x85 \<or> b = CHR 0xA0)"

definition space3 :: "char \<Rightarrow> char \<Rightarrow> char \<Rightarrow> bool" where
  "space3 a b c \<longleftrightarrow>
     a = CHR 0xE1 \<and> b = CHR 0x9A \<and> c = CHR 0x80
   \<or> a = CHR 0xE2 \<and> b = CHR 0x80 \<and>
       (let n = of_char c :: nat in 128 \<le> n \<and> n \<le> 138 \<or> n = 168 \<or> n = 169 \<or> n = 175)
   \<or> a = CHR 0xE2 \<and> b = CHR 0x81 \<and> c = CHR 0x9F
   \<or> a = CHR 0xE3 \<and> b = CHR 0x80 \<and> c = CHR 0x80"

fun trim_with ::
  "(char \<Rightarrow> char \<Rightarrow> bool) \<Rightarrow> (char \<Rightarrow> char \<Rightarrow> char \<Rightarrow> bool) \<Rightarrow> string \<Rightarrow> string" where
  "trim_with p q [] = []"
| "trim_with p q [a] = (if space1 a then [] else [a])"
| "trim_with p q [a, b] =
     (if space1 a then trim_with p q [b] else if p a b then [] else [a, b])"
| "trim_with p q (a # b # c # s) =
     (if space1 a then trim_with p q (b # c # s)
      else if p a b then trim_with p q (c # s)
      else if q a b c then trim_with p q s
      else a # b # c # s)"

definition trim_left :: "string \<Rightarrow> string" where
  "trim_left = trim_with space2 space3"

definition trim_right :: "string \<Rightarrow> string" where
  "trim_right s = rev (trim_with (\<lambda>b a. space2 a b) (\<lambda>c b a. space3 a b c) (rev s))"

definition trim_space :: "string \<Rightarrow> string" where
  "trim_space s = trim_right (trim_left s)"

lemma trim_with_suffix: "\<exists>p'. s = p' @ trim_with p q s"
proof (induction p q s rule: trim_with.induct)
  case (4 p q a b c s)
  then show ?case
    by (auto) (metis append_Cons)+
qed auto

lemma trim_with_length: "length (trim_with p q s) \<le> length s"
  by (metis trim_with_suffix length_append le_add2)

lemma trim_with_eq_if_length: "length (trim_with p q s) = length s \<Longrightarrow> trim_with p q s = s"
  by (metis trim_with_suffix append_eq_append_conv append_Nil)

lemma trim_with_idem [simp]: "trim_with p q (trim_with p q s) = trim_with p q s"
  by (induction p q s rule: trim_with.induct) auto

lemma trim_with_longer: "length s < length t \<Longrightarrow> trim_with p q s \<noteq> t"
  using trim_with_length [of p q s] by auto

lemma trim_with_fixed_iff:
  "trim_with p q s = s \<longleftrightarrow>
     (case s of [] \<Rightarrow> True
      | a # t \<Rightarrow> \<not> space1 a \<and>
          (case t of [] \<Rightarrow> True
           | b # u \<Rightarrow> \<not> p a b \<and> (case u of [] \<Rightarrow> True | c # v \<Rightarrow> \<not> q a b c)))"
  by (cases "(p, q, s)" rule: trim_with.cases) (auto simp: trim_with_longer)

lemma trim_with_fixed_prefix: "trim_with p q (r @ t) = r @ t \<Longrightarrow> trim_with p q r = r"
  by (auto simp: trim_with_fixed_iff split: list.splits)

lemma trim_left_length: "length (trim_left s) \<le> length s"
  by (simp add: trim_left_def trim_with_length)

lemma trim_right_length: "length (trim_right s) \<le> length s"
  by (simp add: trim_right_def) (metis trim_with_length length_rev)

lemma trim_space_fixed_left: "trim_space s = s \<Longrightarrow> trim_left s = s"
  unfolding trim_space_def
  by (metis trim_left_def trim_left_length trim_right_length trim_with_eq_if_length le_antisym)

lemma trim_space_idem [simp]: "trim_space (trim_space s) = trim_space s"
proof -
  let ?l = "trim_left s"
  obtain t where "rev ?l = t @ trim_with (\<lambda>b a. space2 a b) (\<lambda>c b a. space3 a b c) (rev ?l)"
    using trim_with_suffix by blast
  then have "?l = trim_right ?l @ rev t"
    unfolding trim_right_def by (metis rev_append rev_rev_ident)
  moreover have "trim_left ?l = ?l" by (simp add: trim_left_def)
  ultimately have "trim_left (trim_right ?l) = trim_right ?l"
    unfolding trim_left_def by (metis trim_with_fixed_prefix)
  then show ?thesis by (simp add: trim_space_def trim_right_def)
qed

lemma trim_left_space: "trim_left (CHR '' '' # s) = trim_left s"
  unfolding trim_left_def
  by (cases s; cases "tl s") (auto simp: space1_def Let_def neq_Nil_conv)

text \<open>What a \<open>key: value\<close> line of a lock file carries is recovered by \<open>TrimSpace\<close>.\<close>

lemma trim_space_Cons_space: "trim_space s = s \<Longrightarrow> trim_space (CHR '' '' # s) = s"
  by (metis trim_space_def trim_left_space trim_space_fixed_left)

lemma trim_space_Nil [simp]: "trim_space [] = []"
  by (simp add: trim_space_def trim_left_def trim_right_def)


text \<open>Visible ASCII text has nothing to trim.\<close>

definition plain_char :: "char \<Rightarrow> bool" where
  "plain_char c = (let n = of_char c :: nat in 33 \<le> n \<and> n < 128)"

lemma plain_char_not_space:
  "plain_char a \<Longrightarrow> \<not> space1 a" "plain_char a \<Longrightarrow> \<not> space2 a b" "plain_char b \<Longrightarrow> \<not> space2 a b"
  "plain_char a \<Longrightarrow> \<not> space3 a b c" "plain_char c \<Longrightarrow> \<not> space3 a b c"
  by (auto simp: plain_char_def space1_def space2_def space3_def Let_def)

lemma trim_space_plain:
  assumes "\<forall>c\<in>set s. plain_char c"
  shows "trim_space s = s"
proof -
  have "trim_with p q t = t"
    if "\<forall>c\<in>set t. plain_char c" "\<And>a b. plain_char a \<Longrightarrow> \<not> p a b" "\<And>a b c. plain_char a \<Longrightarrow> \<not> q a b c"
    for p q t
    using that by (auto simp: trim_with_fixed_iff plain_char_not_space split: list.split)
  from this [of s space2 space3] this [of "rev s" "\<lambda>b a. space2 a b" "\<lambda>c b a. space3 a b c"] assms
  show ?thesis
    by (simp add: trim_space_def trim_left_def trim_right_def plain_char_not_space)
qed

lemma plain_char_not_newline: "plain_char c \<Longrightarrow> c \<noteq> CHR 0x0A"
  by (auto simp: plain_char_def)

subsection \<open>Splitting and cutting\<close>

text \<open>\<open>strings.Split (s, sep)\<close> for a one-byte separator.\<close>

fun split_on :: "char \<Rightarrow> string \<Rightarrow> string list" where
  "split_on c [] = [[]]"
| "split_on c (x # xs) =
     (if x = c then [] # split_on c xs
      else (case split_on c xs of [] \<Rightarrow> [[x]] | w # ws \<Rightarrow> (x # w) # ws))"

text \<open>\<open>strings.Join (parts, sep)\<close>.\<close>

fun join_with :: "string \<Rightarrow> string list \<Rightarrow> string" where
  "join_with sep [] = []"
| "join_with sep [w] = w"
| "join_with sep (w # v # ws) = w @ sep @ join_with sep (v # ws)"

text \<open>\<open>strings.Cut (s, sep)\<close> for a one-byte separator: \<open>None\<close> is \<open>ok = false\<close>.\<close>

fun cut_at :: "char \<Rightarrow> string \<Rightarrow> (string \<times> string) option" where
  "cut_at c [] = None"
| "cut_at c (x # xs) =
     (if x = c then Some ([], xs) else map_option (\<lambda>(a, b). (x # a, b)) (cut_at c xs))"

lemma split_on_not_Nil [simp]: "split_on c s \<noteq> []"
  by (induction s) (auto split: list.splits)

lemma split_on_no_sep: "c \<notin> set s \<Longrightarrow> split_on c s = [s]"
  by (induction s) auto

lemma split_on_append_sep: "c \<notin> set s \<Longrightarrow> split_on c (s @ c # t) = s # split_on c t"
  by (induction s) auto

lemma join_split_on: "join_with [c] (split_on c s) = s"
proof (induction s)
  case (Cons x s)
  obtain w ws where ws: "split_on c s = w # ws" by (cases "split_on c s") auto
  with Cons show ?case by (cases ws) auto
qed simp

lemma split_on_parts: "w \<in> set (split_on c s) \<Longrightarrow> c \<notin> set w \<and> set w \<subseteq> set s"
  by (induction s arbitrary: w) (fastforce split: list.splits if_splits)+

lemma split_on_join:
  "ws \<noteq> [] \<Longrightarrow> \<forall>w\<in>set ws. c \<notin> set w \<Longrightarrow> split_on c (join_with [c] ws) = ws"
  by (induction "[c]" ws rule: join_with.induct)
    (auto simp: split_on_no_sep split_on_append_sep)

lemma cut_at_append: "c \<notin> set a \<Longrightarrow> cut_at c (a @ c # b) = Some (a, b)"
  by (induction a) auto

lemma cut_at_Some: "cut_at c s = Some (a, b) \<Longrightarrow> s = a @ c # b \<and> c \<notin> set a"
  by (induction s arbitrary: a) (auto split: if_splits)

text \<open>\<open>strings.HasPrefix\<close>, \<open>strings.CutPrefix\<close> and \<open>strings.TrimSuffix\<close>.\<close>

fun has_prefix :: "string \<Rightarrow> string \<Rightarrow> bool" where
  "has_prefix s [] = True"
| "has_prefix [] (y # ys) = False"
| "has_prefix (x # xs) (y # ys) = (x = y \<and> has_prefix xs ys)"

definition cut_prefix :: "string \<Rightarrow> string \<Rightarrow> string option" where
  "cut_prefix s p = (if has_prefix s p then Some (drop (length p) s) else None)"

definition cut_suffix :: "string \<Rightarrow> string \<Rightarrow> string option" where
  "cut_suffix s p = map_option rev (cut_prefix (rev s) (rev p))"

lemma has_prefix_iff: "has_prefix s p \<longleftrightarrow> (\<exists>t. s = p @ t)"
  by (induction s p rule: has_prefix.induct) auto

lemma cut_prefix_append [simp]: "cut_prefix (p @ t) p = Some t"
  by (simp add: cut_prefix_def has_prefix_iff)

lemma cut_prefix_Some: "cut_prefix s p = Some t \<longleftrightarrow> s = p @ t"
  by (auto simp: cut_prefix_def has_prefix_iff)

lemma cut_suffix_append [simp]: "cut_suffix (t @ p) p = Some t"
  by (simp add: cut_suffix_def)

subsection \<open>Numbers\<close>

text \<open>\<open>strconv.Atoi\<close> on a 64-bit \<open>int\<close>: an optional sign, digits, and the range.\<close>

definition max_int :: int where
  "max_int = 9223372036854775807"

definition is_digit :: "char \<Rightarrow> bool" where
  "is_digit c = (let n = of_char c :: nat in 48 \<le> n \<and> n \<le> 57)"

definition digit_val :: "char \<Rightarrow> nat" where
  "digit_val c = of_char c - 48"

fun digits_val :: "nat \<Rightarrow> string \<Rightarrow> nat option" where
  "digits_val n [] = Some n"
| "digits_val n (c # cs) = (if is_digit c then digits_val (10 * n + digit_val c) cs else None)"

definition parse_digits :: "string \<Rightarrow> nat option" where
  "parse_digits s = (if s = [] then None else digits_val 0 s)"

definition atoi :: "string \<Rightarrow> int option" where
  "atoi s =
     (let (neg, ds) =
        (case s of [] \<Rightarrow> (False, [])
         | c # r \<Rightarrow> if c = CHR ''-'' then (True, r) else if c = CHR ''+'' then (False, r)
                   else (False, s))
      in case parse_digits ds of
           None \<Rightarrow> None
         | Some n \<Rightarrow>
             (let v = (if neg then - int n else int n)
              in if - max_int - 1 \<le> v \<and> v \<le> max_int then Some v else None))"

text \<open>\<open>%d\<close> of \<open>fmt\<close>.\<close>

definition digit_char :: "nat \<Rightarrow> char" where
  "digit_char d = char_of (48 + d)"

fun show_nat :: "nat \<Rightarrow> string" where
  "show_nat n = (if n < 10 then [digit_char n] else show_nat (n div 10) @ [digit_char (n mod 10)])"

definition show_int :: "int \<Rightarrow> string" where
  "show_int i = (if i < 0 then CHR ''-'' # show_nat (nat (- i)) else show_nat (nat i))"

declare show_nat.simps [simp del]

lemma show_nat_not_Nil [simp]: "show_nat n \<noteq> []"
  by (subst show_nat.simps) simp

lemma digit_char_digit: "d < 10 \<Longrightarrow> is_digit (digit_char d) \<and> digit_val (digit_char d) = d"
  by (simp add: is_digit_def digit_val_def digit_char_def)

lemma digits_val_append:
  "digits_val n (s @ t) = (case digits_val n s of None \<Rightarrow> None | Some m \<Rightarrow> digits_val m t)"
  by (induction s arbitrary: n) auto

lemma digits_val_show_nat: "digits_val 0 (show_nat n) = Some n"
proof (induction n rule: show_nat.induct)
  case (1 n)
  show ?case
  proof (cases "n < 10")
    case True
    then show ?thesis by (subst show_nat.simps) (simp add: digit_char_digit)
  next
    case False
    with 1 show ?thesis
      by (subst show_nat.simps) (simp add: digits_val_append digit_char_digit)
  qed
qed

lemma parse_digits_show_nat [simp]: "parse_digits (show_nat n) = Some n"
  by (simp add: parse_digits_def digits_val_show_nat)

lemma show_nat_digits: "c \<in> set (show_nat n) \<Longrightarrow> is_digit c"
proof (induction n rule: show_nat.induct)
  case (1 n)
  then show ?case
    by (cases "n < 10") (auto simp: show_nat.simps [of n] digit_char_digit)
qed

lemma atoi_show_int:
  assumes "0 \<le> i" "i \<le> max_int"
  shows "atoi (show_int i) = Some i"
proof -
  obtain c cs where s: "show_nat (nat i) = c # cs" by (cases "show_nat (nat i)") auto
  have "is_digit c" by (rule show_nat_digits [of _ "nat i"]) (simp add: s)
  then have "c \<noteq> CHR ''-''" "c \<noteq> CHR ''+''" by (auto simp: is_digit_def)
  moreover have "parse_digits (c # cs) = Some (nat i)" by (simp flip: s)
  ultimately show ?thesis using assms by (simp add: atoi_def show_int_def s)
qed

lemma show_nat_mono_length: "m \<le> n \<Longrightarrow> length (show_nat m) \<le> length (show_nat n)"
proof (induction n arbitrary: m rule: show_nat.induct)
  case (1 n)
  show ?case
  proof (cases "m < 10")
    case True
    then show ?thesis
      by (subst show_nat.simps [of m]) (simp add: Suc_le_eq)
  next
    case False
    with "1.prems" have "\<not> n < 10" "m div 10 \<le> n div 10" by (auto simp: div_le_mono)
    with "1.IH" show ?thesis using False
      by (simp add: show_nat.simps [of m] show_nat.simps [of n])
  qed
qed

lemma show_nat_length_bound: "0 < k \<Longrightarrow> n < 10 ^ k \<Longrightarrow> length (show_nat n) \<le> k"
proof (induction k arbitrary: n)
  case (Suc k)
  show ?case
  proof (cases "n < 10")
    case True
    then show ?thesis by (subst show_nat.simps) simp
  next
    case False
    with Suc.prems have "k \<noteq> 0" by (cases k) auto
    moreover have "n div 10 < 10 ^ k" using Suc.prems by (simp add: less_mult_imp_div_less mult.commute)
    ultimately have "length (show_nat (n div 10)) \<le> k" by (intro Suc.IH) auto
    with False show ?thesis by (subst show_nat.simps) simp
  qed
qed simp


subsection \<open>Sorting\<close>

text \<open>
  \<open>sort.Slice\<close> with a comparison function.  The library's sort is an insertion sort up
  to twelve elements and not stable beyond; the model is the insertion sort.  Where the
  comparison orders all elements (\<open>strict_total\<close> below) every sort gives the same list,
  so the model's choice does not matter: that is \<open>sort_by_unique\<close>.
\<close>

fun insert_by :: "('a \<Rightarrow> 'a \<Rightarrow> bool) \<Rightarrow> 'a \<Rightarrow> 'a list \<Rightarrow> 'a list" where
  "insert_by lt x [] = [x]"
| "insert_by lt x (y # ys) = (if lt x y then x # y # ys else y # insert_by lt x ys)"

definition sort_by :: "('a \<Rightarrow> 'a \<Rightarrow> bool) \<Rightarrow> 'a list \<Rightarrow> 'a list" where
  "sort_by lt xs = fold (insert_by lt) xs []"

lemma mset_insert_by [simp]: "mset (insert_by lt x xs) = add_mset x (mset xs)"
  by (induction xs) auto

lemma mset_fold_insert_by: "mset (fold (insert_by lt) xs ys) = mset xs + mset ys"
  by (induction xs arbitrary: ys) auto

lemma mset_sort_by [simp]: "mset (sort_by lt xs) = mset xs"
  by (simp add: sort_by_def mset_fold_insert_by)

lemma set_sort_by [simp]: "set (sort_by lt xs) = set xs"
  by (metis mset_sort_by set_mset_mset)

lemma length_sort_by [simp]: "length (sort_by lt xs) = length xs"
  by (metis mset_sort_by size_mset)

lemma distinct_sort_by [simp]: "distinct (sort_by lt xs) = distinct xs"
  by (metis mset_sort_by mset_eq_imp_distinct_iff)

lemma sort_by_Nil [simp]: "sort_by lt [] = []"
  by (simp add: sort_by_def)

lemma sort_by_cong:
  assumes "\<And>x y. x \<in> set xs \<Longrightarrow> y \<in> set xs \<Longrightarrow> lt x y = lt' x y"
  shows "sort_by lt xs = sort_by lt' xs"
proof -
  have ins: "insert_by lt x ys = insert_by lt' x ys"
    if "x \<in> set xs" "set ys \<subseteq> set xs" for x ys
    using that by (induction ys) (auto simp: assms)
  have "set zs \<subseteq> set xs \<Longrightarrow> set ys \<subseteq> set xs \<Longrightarrow>
      fold (insert_by lt) zs ys = fold (insert_by lt') zs ys" for zs ys
  proof (induction zs arbitrary: ys)
    case (Cons z zs)
    have "set (insert_by lt' z ys) = insert z (set ys)"
      by (metis mset_insert_by set_mset_mset set_mset_add_mset_insert)
    with Cons ins show ?case by auto
  qed simp
  then show ?thesis by (simp add: sort_by_def)
qed

text \<open>
  The contract between \<open>sort.Slice\<close> and a comparison function: a strict weak order.
\<close>

locale strict_weak =
  fixes lt :: "'a \<Rightarrow> 'a \<Rightarrow> bool"
  assumes lt_asym: "lt x y \<Longrightarrow> \<not> lt y x"
    and lt_cotrans: "lt x z \<Longrightarrow> lt x y \<or> lt y z"
begin

lemma lt_irrefl: "\<not> lt x x"
  using lt_asym by blast

lemma lt_trans: "lt x y \<Longrightarrow> lt y z \<Longrightarrow> lt x z"
  using lt_asym lt_cotrans by blast

lemma not_lt_trans: "\<not> lt y x \<Longrightarrow> \<not> lt z y \<Longrightarrow> \<not> lt z x"
  using lt_cotrans by blast

lemma sorted_insert_by:
  "sorted_wrt (\<lambda>x y. \<not> lt y x) ys \<Longrightarrow> sorted_wrt (\<lambda>x y. \<not> lt y x) (insert_by lt x ys)"
proof (induction ys)
  case (Cons y ys)
  have set: "set (insert_by lt x ys) = insert x (set ys)"
    by (metis mset_insert_by set_mset_mset set_mset_add_mset_insert)
  show ?case
  proof (cases "lt x y")
    case True
    with Cons.prems show ?thesis
      by (auto dest: lt_asym lt_trans)
  next
    case False
    with Cons set show ?thesis by auto
  qed
qed simp

lemma sorted_sort_by: "sorted_wrt (\<lambda>x y. \<not> lt y x) (sort_by lt xs)"
proof -
  have "sorted_wrt (\<lambda>x y. \<not> lt y x) ys \<Longrightarrow>
      sorted_wrt (\<lambda>x y. \<not> lt y x) (fold (insert_by lt) xs ys)" for ys
    by (induction xs arbitrary: ys) (auto simp: sorted_insert_by)
  then show ?thesis by (simp add: sort_by_def)
qed

lemma hd_sort_by_least: "x \<in> set xs \<Longrightarrow> \<not> lt x (hd (sort_by lt xs))"
proof -
  assume x: "x \<in> set xs"
  then obtain y ys where s: "sort_by lt xs = y # ys"
    by (cases "sort_by lt xs") (auto dest: arg_cong [where f = set])
  have "x \<in> set (y # ys)" using x by (metis s set_sort_by)
  moreover have "sorted_wrt (\<lambda>x y. \<not> lt y x) (y # ys)" by (metis s sorted_sort_by)
  ultimately show ?thesis using s lt_irrefl by auto
qed

end

text \<open>
  A comparison on a key that identifies the elements: the sorted list is then a function
  of the set of elements, whatever order the map iteration presented them in.
\<close>

locale strict_total = strict_weak +
  fixes key :: "'a \<Rightarrow> 'k"
  assumes lt_connex: "key x \<noteq> key y \<Longrightarrow> lt x y \<or> lt y x"
begin

lemma sorted_unique:
  "sorted_wrt (\<lambda>x y. \<not> lt y x) xs \<Longrightarrow> sorted_wrt (\<lambda>x y. \<not> lt y x) ys \<Longrightarrow>
   mset xs = mset ys \<Longrightarrow> inj_on key (set xs) \<Longrightarrow> xs = ys"
proof (induction xs arbitrary: ys)
  case (Cons x xs)
  from Cons.prems(3) obtain z zs where ys: "ys = z # zs" by (cases ys) auto
  have sets: "set (x # xs) = set (z # zs)"
    using Cons.prems(3) ys by (metis set_mset_mset)
  have zin: "z \<in> set (x # xs)" and xin: "x \<in> set (z # zs)" using sets by auto
  have "\<not> lt z x" using Cons.prems(1) zin lt_irrefl by auto
  moreover have "\<not> lt x z" using Cons.prems(2) ys xin lt_irrefl by auto
  ultimately have "key x = key z" using lt_connex by blast
  then have "x = z" using Cons.prems(4) zin by (auto dest: inj_onD)
  with Cons.prems ys have "xs = zs" by (intro Cons.IH) (auto simp: inj_on_def)
  with \<open>x = z\<close> ys show ?case by simp
qed simp

lemma sort_by_unique:
  assumes "mset xs = mset ys" "inj_on key (set xs)"
  shows "sort_by lt xs = sort_by lt ys"
  by (rule sorted_unique) (use assms in \<open>auto simp: sorted_sort_by\<close>)

end

text \<open>A comparison of keys in a linear order is such a comparison.\<close>

lemma strict_total_key: "strict_total (\<lambda>x y. key x < (key y :: 'k::linorder)) key"
  by unfold_locales (auto simp: not_less intro: order_trans)

text \<open>What a search finds, and that nothing before it fits.\<close>

lemma find_first:
  "find P xs = Some x \<Longrightarrow> \<exists>pre post. xs = pre @ x # post \<and> P x \<and> (\<forall>y\<in>set pre. \<not> P y)"
proof (induction xs)
  case (Cons y ys)
  show ?case
  proof (cases "P y")
    case True
    then show ?thesis using Cons.prems by (intro exI [of _ "[]"] exI [of _ ys]) simp
  next
    case False
    then obtain pre post where "ys = pre @ x # post" "P x" "\<forall>y\<in>set pre. \<not> P y" using Cons by auto
    then show ?thesis using False by (intro exI [of _ "y # pre"] exI [of _ post]) simp
  qed
qed simp

text \<open>\<open>sort.Strings\<close>.\<close>

definition sort_strings :: "string list \<Rightarrow> string list" where
  "sort_strings = sort_by (<)"

interpretation str_order: strict_total "(<) :: string \<Rightarrow> string \<Rightarrow> bool" "\<lambda>s. s"
  by unfold_locales auto

lemma sort_strings_sorted: "sorted (sort_strings xs)"
  using str_order.sorted_sort_by [of xs]
  by (simp add: sort_strings_def not_less)

lemma sort_strings_perm: "mset xs = mset ys \<Longrightarrow> sort_strings xs = sort_strings ys"
  unfolding sort_strings_def by (rule str_order.sort_by_unique) auto

lemma set_sort_strings [simp]: "set (sort_strings xs) = set xs"
  by (simp add: sort_strings_def)

lemma distinct_sort_strings [simp]: "distinct (sort_strings xs) = distinct xs"
  by (simp add: sort_strings_def)

subsection \<open>Time stamps\<close>

datatype stamp = At int | Text string

text \<open>\<open>time.Parse (time.RFC3339Nano, s)\<close>.\<close>

definition parse_stamp :: "stamp \<Rightarrow> int option" where
  "parse_stamp s = (case s of At t \<Rightarrow> Some t | Text _ \<Rightarrow> None)"

lemma parse_stamp_simps [simp]: "parse_stamp (At t) = Some t" "parse_stamp (Text s) = None"
  by (simp_all add: parse_stamp_def)

abbreviation no_stamp :: stamp where
  "no_stamp \<equiv> Text []"

text \<open>Durations, in nanoseconds.\<close>

abbreviation seconds :: "int \<Rightarrow> int" where
  "seconds n \<equiv> n * 1000000000"

end
