(* ===== verification/Repo_Config.thy ===== *)
theory Repo_Config
  imports Complex_Main Stall_Prelude
begin

text \<open>
  The data the program is configured with: Scenarios, validators and run payloads of the
  Repo Run Config (\<open>config.go\<close>), version and capability requirements
  (\<open>capabilities.go\<close>), Target Profiles, Host Pools and Maya Hosts
  (\<open>host_pool.go\<close>).  YAML mappings that the code iterates are association lists, the
  others are maps.  A Go slice whose \<open>nil\<close> differs from the empty slice is an optional
  list, a \<open>*bool\<close> an optional \<open>bool\<close>.
\<close>

subsection \<open>Requirements\<close>

record version_requirement =
  vr_exact :: string
  vr_minimum :: string

record session_broker_requirement =
  sbr_exact :: string
  sbr_minimum :: string
  sbr_features :: "string list"

record scenario_requirements =
  req_maya :: version_requirement
  req_python :: version_requirement
  req_broker :: session_broker_requirement
  req_capture :: "string list"
  req_control :: "string list"
  req_renderers :: "string list"
  req_gpu :: "string list"
  req_display :: "string list"
  req_licensing :: "string list"
  req_trusted :: "bool option"

definition no_version :: version_requirement where
  "no_version = \<lparr>vr_exact = [], vr_minimum = []\<rparr>"

definition no_requirements :: scenario_requirements where
  "no_requirements = \<lparr>req_maya = no_version, req_python = no_version,
     req_broker = \<lparr>sbr_exact = [], sbr_minimum = [], sbr_features = []\<rparr>,
     req_capture = [], req_control = [], req_renderers = [], req_gpu = [], req_display = [],
     req_licensing = [], req_trusted = None\<rparr>"

subsection \<open>Capability reports\<close>

record maya_host_capabilities =
  cap_maya_builds :: "string list"
  cap_session_build :: string
  cap_python :: string
  cap_broker_version :: string
  cap_broker_features :: "string list option"
  cap_capture :: "string list option"
  cap_control :: "string list option"
  cap_renderers :: "string list option"
  cap_gpu :: "string list option"
  cap_display :: "string list option"
  cap_licensing :: "string list option"
  cap_trusted :: "bool option"

record capability_record =
  cr_version :: int
  cr_reported_at :: stamp
  cr_online :: bool
  cr_health :: string
  cr_maintenance :: bool
  cr_quarantined :: bool
  cr_profiles :: "string list"
  cr_pools :: "string \<rightharpoonup> string"
  cr_caps :: maya_host_capabilities

text \<open>\<open>m[k]\<close> on a \<open>map[string]string\<close>: the empty string when the key is absent.\<close>

definition map_str :: "(string \<rightharpoonup> string) \<Rightarrow> string \<Rightarrow> string" where
  "map_str m k = (case m k of Some v \<Rightarrow> v | None \<Rightarrow> [])"

text \<open>\<open>range\<close> and \<open>len\<close> over a slice that may be \<open>nil\<close>.\<close>

definition slice :: "'a list option \<Rightarrow> 'a list" where
  "slice xs = (case xs of Some ys \<Rightarrow> ys | None \<Rightarrow> [])"

lemma slice_simps [simp]: "slice None = []" "slice (Some xs) = xs"
  by (simp_all add: slice_def)

subsection \<open>Scenarios\<close>

text \<open>
  Decoded JSON and YAML values (\<open>any\<close>).  A number is the exact value of the \<open>float64\<close>.
\<close>

datatype json =
    JNull
  | JBool bool
  | JNum rat
  | JStr string
  | JArr "json list"
  | JObj "(string \<times> json) list"

record runtime_input_declaration =
  rid_kind :: string
  rid_extensions :: "string list"
  rid_destination :: string

record run_payload =
  pay_maya_scripts :: "string list"
  pay_scripts :: "string list"
  pay_scenes :: "string list"
  pay_plugin_artifacts :: "string list"
  pay_expected_outputs :: "string list"
  pay_include_paths :: "string list"
  pay_runtime_inputs :: "(string \<times> runtime_input_declaration) list"

record validator_config =
  vc_type :: string
  vc_status :: string
  vc_path :: string
  vc_json_path :: string
  vc_equals :: json
  vc_tolerance :: rat
  vc_sha256 :: string
  vc_required :: "bool option"

record expected_outputs =
  eo_files :: "string list"
  eo_scenario_result :: string

record scenario_config =
  sc_description :: string
  sc_maya_version :: string
  sc_requirements :: scenario_requirements
  sc_selected_build :: string
  sc_payload :: run_payload
  sc_expected :: expected_outputs
  sc_screenshots :: bool
  sc_recording :: bool
  sc_validators :: "validator_config list"

record run_ledger_config =
  rlc_retention :: string
  rlc_max_events :: int
  rlc_max_event_bytes :: int
  rlc_max_log_bytes :: int

record repo_run_config =
  rc_version :: int
  rc_ledger :: run_ledger_config
  rc_scenarios :: "(string \<times> scenario_config) list"

subsection \<open>Loading the Repo Run Config\<close>

text \<open>
  \<open>loadRepoRunConfig\<close>: the discovered path, the bytes of the file and the YAML decoder
  (third-party) are arguments.
\<close>

datatype config_error =
    ConfigNotFound
  | ConfigRead
  | ConfigParse string
  | ConfigVersion int
  | ConfigNoScenarios

definition load_repo_run_config ::
  "string option \<Rightarrow> (string \<rightharpoonup> string) \<Rightarrow> (string \<Rightarrow> string + repo_run_config)
     \<Rightarrow> (config_error, repo_run_config \<times> string) result" where
  "load_repo_run_config discovered read_file decode =
     (case discovered of
        None \<Rightarrow> Inl ConfigNotFound
      | Some path \<Rightarrow>
          (case read_file path of
             None \<Rightarrow> Inl ConfigRead
           | Some content \<Rightarrow>
               (case decode content of
                  Inl e \<Rightarrow> Inl (ConfigParse e)
                | Inr config \<Rightarrow>
                    if rc_version config \<noteq> 1 then Inl (ConfigVersion (rc_version config))
                    else if length (rc_scenarios config) = 0 then Inl ConfigNoScenarios
                    else Inr (config, path))))"

lemma load_repo_run_config_sound:
  "load_repo_run_config d r decode = Inr (config, path) \<Longrightarrow>
   rc_version config = 1 \<and> rc_scenarios config \<noteq> []"
  by (auto simp: load_repo_run_config_def split: option.splits sum.splits if_splits)

subsection \<open>Maya Hosts\<close>

record broker_config =
  br_fake_status :: string
  br_structured :: bool
  br_type :: string
  br_state_dir :: string
  br_python :: string
  br_repo :: string
  br_mcp_source :: string
  br_mcp_python :: string
  br_maya_exe :: string
  br_port :: int
  br_recovery_task :: string

record ssh_config =
  ssh_fake_status :: string
  ssh_host :: string
  ssh_user :: string
  ssh_port :: int
  ssh_identity_file :: string
  ssh_binary :: string
  ssh_sftp_binary :: string
  ssh_sftp_timeout :: string

record maya_host_config =
  mh_id :: string
  mh_health :: string
  mh_transport :: string
  mh_ssh :: ssh_config
  mh_work_root :: string
  mh_trusted_root :: string
  mh_broker :: broker_config
  mh_maya_versions :: "string list"
  mh_fake_versions :: "string list option"
  mh_visual_evidence :: "bool option"
  mh_capabilities :: "maya_host_capabilities option"

record user_host_config =
  uh_version :: int
  uh_profiles :: "string \<rightharpoonup> string"
  uh_pools :: "string \<rightharpoonup> maya_host_config list"

definition uses_real_ssh :: "maya_host_config \<Rightarrow> bool" where
  "uses_real_ssh host \<longleftrightarrow>
     equal_fold (trim_space (mh_transport host)) ''ssh'' \<or> ssh_host (mh_ssh host) \<noteq> []"

definition uses_local_windows :: "maya_host_config \<Rightarrow> bool" where
  "uses_local_windows host \<longleftrightarrow> equal_fold (trim_space (mh_transport host)) ''local''"

definition is_healthy_host :: "maya_host_config \<Rightarrow> bool" where
  "is_healthy_host host \<longleftrightarrow>
     (let health = to_lower (trim_space (mh_health host)) in health = [] \<or> health = ''healthy'')"

text \<open>The Session Broker configuration.\<close>

definition is_gg_maya_sessiond :: "broker_config \<Rightarrow> bool" where
  "is_gg_maya_sessiond broker \<longleftrightarrow> equal_fold (trim_space (br_type broker)) ''gg-mayasessiond''"

definition is_legacy_fake_status :: "broker_config \<Rightarrow> bool" where
  "is_legacy_fake_status broker \<longleftrightarrow>
     to_lower (trim_space (br_fake_status broker)) \<in> {[], ''ok'', ''healthy'', ''reachable''}"

definition missing_structured_type :: "broker_config \<Rightarrow> bool" where
  "missing_structured_type broker \<longleftrightarrow> br_structured broker \<and> trim_space (br_type broker) = []"

datatype broker_reason =
    BrokerTypeRequired
  | UnknownBrokerType string
  | BrokerStatusUnusable string

definition broker_invalid_reason :: "broker_config \<Rightarrow> broker_reason option" where
  "broker_invalid_reason broker =
     (if is_gg_maya_sessiond broker then None
      else if missing_structured_type broker then Some BrokerTypeRequired
      else if trim_space (br_type broker) \<noteq> [] then Some (UnknownBrokerType (br_type broker))
      else if \<not> is_legacy_fake_status broker then Some (BrokerStatusUnusable (br_fake_status broker))
      else None)"

end
