(* ===== verification/Scenario_Paths.thy ===== *)
theory Scenario_Paths
  imports Repo_Config
begin

text \<open>
  Repo-relative paths and the Scenario contract (\<open>run.go\<close>, \<open>scenario.go\<close>): the cleaning of
  declared paths, the reserved trees, the normalised payload, runtime inputs and
  validators, the manifest payload, the expected outputs, and the order in which
  overlapping payload declarations are copied.

  \<open>path/filepath\<close> is modelled for POSIX separators, where \<open>ToSlash\<close> and \<open>FromSlash\<close> are
  identities.
\<close>

subsection \<open>\<open>path/filepath\<close>\<close>

abbreviation sep :: char where
  "sep \<equiv> CHR ''/''"

text \<open>
  \<open>filepath.Clean\<close>: the components are processed left to right over a stack of the
  components kept so far.
\<close>

fun clean_step :: "bool \<Rightarrow> string list \<Rightarrow> string \<Rightarrow> string list" where
  "clean_step rooted stack c =
     (if c = [] \<or> c = ''.'' then stack
      else if c = ''..'' then
        (case stack of
           [] \<Rightarrow> if rooted then [] else [''..'']
         | t # rest \<Rightarrow> if t = ''..'' then ''..'' # stack else rest)
      else c # stack)"

declare clean_step.simps [simp del]

definition clean_components :: "bool \<Rightarrow> string list \<Rightarrow> string list" where
  "clean_components rooted cs = rev (foldl (clean_step rooted) [] cs)"

definition is_abs :: "string \<Rightarrow> bool" where
  "is_abs path \<longleftrightarrow> (\<exists>rest. path = sep # rest)"

definition path_clean :: "string \<Rightarrow> string" where
  "path_clean path =
     (let rooted = (case path of [] \<Rightarrow> False | c # _ \<Rightarrow> c = sep);
          cs = clean_components rooted (split_on sep path)
      in if rooted then sep # join_with [sep] cs
         else if cs = [] then ''.'' else join_with [sep] cs)"

definition path_join :: "string list \<Rightarrow> string" where
  "path_join parts =
     (case filter (\<lambda>p. p \<noteq> []) parts of
        [] \<Rightarrow> []
      | ps \<Rightarrow> path_clean (join_with [sep] ps))"

text \<open>\<open>filepath.Ext\<close>: from the last dot of the last component.\<close>

fun ext_from :: "string \<Rightarrow> string \<Rightarrow> string" where
  "ext_from acc [] = []"
| "ext_from acc (c # rev_path) =
     (if c = sep then [] else if c = CHR ''.'' then CHR ''.'' # acc else ext_from (c # acc) rev_path)"

definition path_ext :: "string \<Rightarrow> string" where
  "path_ext path = ext_from [] (rev path)"

subsection \<open>Repo-relative paths\<close>

datatype path_error =
    BackslashPath string
  | NotRepoRelative string
  | ReservedPath string

definition reserved_trees :: "string list" where
  "reserved_trees = [''.maya-stall'', ''artifacts/maya-stall'']"

definition is_reserved_payload_path :: "string \<Rightarrow> bool" where
  "is_reserved_payload_path path \<longleftrightarrow>
     (let slashed = to_lower path
      in \<exists>reserved\<in>set reserved_trees.
           slashed = reserved \<or> has_prefix slashed (reserved @ [sep])
         \<or> has_prefix reserved (slashed @ [sep]))"

definition clean_repo_relative_path :: "string \<Rightarrow> (path_error, string) result" where
  "clean_repo_relative_path path =
     (if CHR 0x5C \<in> set path then Inl (BackslashPath path)
      else
        (let clean = path_clean path
         in if clean = ''.'' \<or> (case clean of [] \<Rightarrow> False | c # _ \<Rightarrow> c = sep)
               \<or> has_prefix clean (''..'' @ [sep]) \<or> clean = ''..''
            then Inl (NotRepoRelative path)
            else if is_reserved_payload_path clean then Inl (ReservedPath path)
            else Inr clean))"

definition clean_scenario_path :: "string \<Rightarrow> (path_error, string) result" where
  "clean_scenario_path path = clean_repo_relative_path path"

definition normalize_scenario_paths :: "string list \<Rightarrow> (path_error, string list) result" where
  "normalize_scenario_paths = rmap clean_scenario_path"

subsection \<open>Names\<close>

text \<open>\<open>hostIDPattern\<close>: one or more letters, digits, dots, underscores or dashes.\<close>

definition host_id_char :: "char \<Rightarrow> bool" where
  "host_id_char c \<longleftrightarrow>
     (let n = of_char c :: nat
      in 65 \<le> n \<and> n \<le> 90 \<or> 97 \<le> n \<and> n \<le> 122 \<or> 48 \<le> n \<and> n \<le> 57 \<or> n = 46 \<or> n = 95 \<or> n = 45)"

definition host_id_pattern :: "string \<Rightarrow> bool" where
  "host_id_pattern s \<longleftrightarrow> s \<noteq> [] \<and> list_all host_id_char s"

datatype name_error =
    EmptyHostID
  | BadHostID string
  | EmptyRunID
  | NotOneDirectory string
  | BadRunID string
  | BadRuntimeInputName string

definition validate_host_id :: "string \<Rightarrow> (name_error, unit) result" where
  "validate_host_id hid =
     (if hid = [] then Inl EmptyHostID
      else if \<not> host_id_pattern hid then Inl (BadHostID hid) else Inr ())"

definition validate_run_id :: "string \<Rightarrow> (name_error, unit) result" where
  "validate_run_id rid =
     (if rid = [] then Inl EmptyRunID
      else if rid = ''.'' \<or> rid = ''..'' \<or> path_clean rid \<noteq> rid then Inl (NotOneDirectory rid)
      else if \<not> host_id_pattern rid then Inl (BadRunID rid)
      else Inr ())"

definition validate_runtime_input_name :: "string \<Rightarrow> (name_error, unit) result" where
  "validate_runtime_input_name name =
     (if name = [] \<or> \<not> host_id_pattern name then Inl (BadRuntimeInputName name) else Inr ())"

subsection \<open>Lemmas on cleaning\<close>

lemma is_abs_code [code]: "is_abs path = (case path of [] \<Rightarrow> False | c # _ \<Rightarrow> c = sep)"
  by (auto simp: is_abs_def split: list.splits)

text \<open>A component list that \<open>Clean\<close> leaves alone.\<close>

definition clean_list :: "string list \<Rightarrow> bool" where
  "clean_list cs \<longleftrightarrow> (\<forall>c\<in>set cs. c \<noteq> [] \<and> c \<noteq> ''.'' \<and> c \<noteq> ''..'')"

lemma foldl_clean_list:
  "clean_list cs \<Longrightarrow> foldl (clean_step rooted) stack cs = rev cs @ stack"
  by (induction cs arbitrary: stack) (auto simp: clean_list_def clean_step.simps)

lemma clean_components_fixed: "clean_list cs \<Longrightarrow> clean_components rooted cs = cs"
  by (simp add: clean_components_def foldl_clean_list)

text \<open>The stack: kept names over a bottom of \<open>..\<close> entries.\<close>

definition clean_stack :: "bool \<Rightarrow> string list \<Rightarrow> bool" where
  "clean_stack rooted st \<longleftrightarrow>
     (\<exists>ns k. st = ns @ replicate k ''..'' \<and> clean_list ns \<and> (rooted \<longrightarrow> k = 0))"

lemma clean_step_stack: "clean_stack rooted st \<Longrightarrow> clean_stack rooted (clean_step rooted st c)"
proof -
  assume "clean_stack rooted st"
  then obtain ns k where st: "st = ns @ replicate k ''..''" "clean_list ns" "rooted \<longrightarrow> k = 0"
    by (auto simp: clean_stack_def)
  consider "c = [] \<or> c = ''.''" | "c = ''..''" | "c \<noteq> []" "c \<noteq> ''.''" "c \<noteq> ''..''" by blast
  then show ?thesis
  proof cases
    case 1
    then show ?thesis using \<open>clean_stack rooted st\<close> by (auto simp: clean_step.simps)
  next
    case 2
    show ?thesis
    proof (cases ns)
      case Nil
      then have "clean_step rooted st c = replicate (if rooted then 0 else Suc k) ''..''"
        using 2 st by (cases k) (auto simp: clean_step.simps)
      moreover have "clean_stack rooted ([] @ replicate (if rooted then 0 else Suc k) ''..'')"
        unfolding clean_stack_def
        by (rule exI [of _ "[]"], rule exI [of _ "if rooted then 0 else Suc k"])
          (simp add: clean_list_def)
      ultimately show ?thesis by simp
    next
      case (Cons n ns')
      then have "clean_step rooted st c = ns' @ replicate k ''..''" "clean_list ns'"
        using 2 st by (auto simp: clean_list_def clean_step.simps)
      then show ?thesis using st(3) by (auto simp: clean_stack_def)
    qed
  next
    case 3
    then have "clean_step rooted st c = (c # ns) @ replicate k ''..''" "clean_list (c # ns)"
      using st by (auto simp: clean_list_def clean_step.simps)
    then show ?thesis using st(3) unfolding clean_stack_def by blast
  qed
qed

lemma foldl_clean_stack: "clean_stack rooted st \<Longrightarrow> clean_stack rooted (foldl (clean_step rooted) st cs)"
proof (induction cs arbitrary: st)
  case (Cons c cs)
  then show ?case using clean_step_stack by simp
qed simp

lemma clean_components_shape:
  "\<exists>k ns. clean_components rooted cs = replicate k ''..'' @ ns \<and> clean_list ns \<and> (rooted \<longrightarrow> k = 0)"
proof -
  have "clean_stack rooted []" by (auto simp: clean_stack_def clean_list_def)
  then obtain ns k where "foldl (clean_step rooted) [] cs = ns @ replicate k ''..''"
    "clean_list ns" "rooted \<longrightarrow> k = 0"
    using foldl_clean_stack [of rooted "[]" cs] by (auto simp: clean_stack_def)
  then have "clean_components rooted cs = replicate k ''..'' @ rev ns \<and> clean_list (rev ns)
      \<and> (rooted \<longrightarrow> k = 0)"
    by (simp add: clean_components_def clean_list_def)
  then show ?thesis by blast
qed

lemma clean_components_parts: "set (clean_components rooted cs) \<subseteq> insert ''..'' (set cs)"
proof -
  have "set (foldl (clean_step rooted) st cs) \<subseteq> set st \<union> insert ''..'' (set cs)" for st
  proof (induction cs arbitrary: st)
    case (Cons c cs)
    have "set (clean_step rooted st c) \<subseteq> set st \<union> {''..'', c}"
      by (auto simp: clean_step.simps split: list.splits)
    with Cons [of "clean_step rooted st c"] show ?case by auto
  qed auto
  from this [of "[]"] show ?thesis by (simp add: clean_components_def)
qed

lemma clean_components_no_sep:
  "c \<in> set (clean_components rooted (split_on sep path)) \<Longrightarrow> sep \<notin> set c"
  using clean_components_parts [of rooted "split_on sep path"] split_on_parts by fastforce

lemma join_with_eq_Nil: "clean_list cs \<Longrightarrow> join_with s cs = [] \<longleftrightarrow> cs = []"
  by (cases "(s, cs)" rule: join_with.cases) (auto simp: clean_list_def)

text \<open>The shape of an accepted path: real components only.\<close>

definition confined :: "string \<Rightarrow> bool" where
  "confined path \<longleftrightarrow>
     (\<exists>cs. cs \<noteq> [] \<and> clean_list cs \<and> (\<forall>c\<in>set cs. sep \<notin> set c) \<and> path = join_with [sep] cs)"

lemma confined_split:
  "confined path \<longleftrightarrow> clean_list (split_on sep path)"
proof
  assume "confined path"
  then show "clean_list (split_on sep path)"
    unfolding confined_def by (auto simp: split_on_join)
next
  assume "clean_list (split_on sep path)"
  moreover have "path = join_with [sep] (split_on sep path)" by (simp add: join_split_on)
  ultimately show "confined path"
    unfolding confined_def using split_on_parts by (metis split_on_not_Nil)
qed

lemma confined_not_abs:
  assumes "confined (c # rest)"
  shows "c \<noteq> sep"
proof
  assume "c = sep"
  then have "[] \<in> set (split_on sep (c # rest))" by simp
  with assms show False unfolding confined_split clean_list_def by blast
qed

lemma not_confined [simp]: "\<not> confined []" "\<not> confined ''.''" "\<not> confined ''..''"
  by (simp_all add: confined_split clean_list_def)

lemma not_confined_dotdot: "\<not> confined (''..'' @ sep # t)"
  using split_on_append_sep [of sep "''..''" t] by (simp add: confined_split clean_list_def)

lemma path_clean_confined: "confined path \<Longrightarrow> path_clean path = path"
proof -
  assume c: "confined path"
  then obtain x rest where x: "path = x # rest" "x \<noteq> sep"
    using confined_not_abs by (cases path) auto
  have cs: "clean_components False (split_on sep path) = split_on sep path"
    using c by (simp add: confined_split clean_components_fixed)
  have "path_clean path = join_with [sep] (clean_components False (split_on sep path))"
    using x cs by (simp add: path_clean_def Let_def del: split_on.simps)
  then show ?thesis by (simp add: cs join_split_on)
qed

lemma join_dotdot:
  "join_with [sep] (replicate (Suc k) ''..'' @ ns) = ''..'' \<or>
   has_prefix (join_with [sep] (replicate (Suc k) ''..'' @ ns)) (''..'' @ [sep])"
  by (cases "replicate k ''..'' @ ns") auto

lemma clean_repo_relative_confined:
  assumes "clean_repo_relative_path path = Inr c"
  shows "confined c" "\<not> is_reserved_payload_path c"
proof -
  let ?cs = "clean_components False (split_on sep path)"
  from assms have c: "c = path_clean path" "c \<noteq> ''.''" "c \<noteq> ''..''"
    "\<not> has_prefix c (''..'' @ [sep])" "\<not> is_abs c"
    and res: "\<not> is_reserved_payload_path c"
    by (auto simp: clean_repo_relative_path_def Let_def is_abs_def split: if_splits list.splits)
  have notrooted: "(case path of [] \<Rightarrow> False | c # _ \<Rightarrow> c = sep) = False"
    using c(1,5) by (auto simp: path_clean_def is_abs_def split: list.splits)
  then have cne: "?cs \<noteq> []" and cj: "c = join_with [sep] ?cs"
    using c(1,2) by (auto simp: path_clean_def Let_def simp del: split_on.simps split: if_splits)
  obtain k ns where kn: "?cs = replicate k ''..'' @ ns" "clean_list ns"
    using clean_components_shape [of False "split_on sep path"] by auto
  have "k = 0"
  proof (cases k)
    case (Suc j)
    then show ?thesis using join_dotdot [of j ns] c(3,4) cj kn(1) by auto
  qed simp
  then have "clean_list ?cs" using kn by simp
  then show "confined c"
    using cne cj clean_components_no_sep unfolding confined_def by blast
  show "\<not> is_reserved_payload_path c" by (rule res)
qed

lemma confined_no_backslash_fixed:
  "confined c \<Longrightarrow> CHR 0x5C \<notin> set c \<Longrightarrow> \<not> is_reserved_payload_path c \<Longrightarrow>
     clean_repo_relative_path c = Inr c"
proof -
  assume a: "confined c" "CHR 0x5C \<notin> set c" "\<not> is_reserved_payload_path c"
  obtain x rest where x: "c = x # rest" "x \<noteq> sep"
    using a(1) confined_not_abs by (cases c) auto
  have "c \<noteq> ''.''" "c \<noteq> ''..''" using a(1) not_confined by blast+
  moreover have "\<not> has_prefix c (''..'' @ [sep])"
    using a(1) not_confined_dotdot by (auto simp: has_prefix_iff)
  moreover have "\<not> (case c of [] \<Rightarrow> False | c # _ \<Rightarrow> c = sep)" using x by simp
  ultimately show ?thesis using a
    by (simp add: clean_repo_relative_path_def path_clean_confined)
qed

subsection \<open>What an accepted path is\<close>

lemma set_join_with: "set (join_with s ws) \<subseteq> set s \<union> \<Union> (set ` set ws)"
  by (induction s ws rule: join_with.induct) auto

lemma set_path_clean: "set (path_clean path) \<subseteq> set path \<union> {sep, CHR ''.''}"
proof -
  have "set c \<subseteq> set path \<union> {CHR ''.''}"
    if "c \<in> set (clean_components rooted (split_on sep path))" for c rooted
  proof -
    have "c = ''..'' \<or> c \<in> set (split_on sep path)"
      using that clean_components_parts [of rooted "split_on sep path"] by blast
    then show ?thesis using split_on_parts [of c sep path] by auto
  qed
  then have "set (join_with [sep] (clean_components rooted (split_on sep path))) \<subseteq>
      set path \<union> {sep, CHR ''.''}" for rooted
    using set_join_with [of "[sep]" "clean_components rooted (split_on sep path)"] by fastforce
  then show ?thesis
    by (auto simp: path_clean_def Let_def simp del: split_on.simps)
qed

lemma clean_repo_relative_idem:
  assumes "clean_repo_relative_path path = Inr c"
  shows "clean_repo_relative_path c = Inr c"
proof (rule confined_no_backslash_fixed)
  show "confined c" "\<not> is_reserved_payload_path c"
    using clean_repo_relative_confined [OF assms] by auto
  have "c = path_clean path" "CHR 0x5C \<notin> set path"
    using assms by (auto simp: clean_repo_relative_path_def Let_def split: if_splits)
  then show "CHR 0x5C \<notin> set c" using set_path_clean [of path] by auto
qed

text \<open>An absolute path in clean form, other than the volume root.\<close>

definition clean_absolute :: "string \<Rightarrow> bool" where
  "clean_absolute base \<longleftrightarrow> (\<exists>rest. base = sep # rest \<and> confined rest)"

lemma join_with_append:
  "cs \<noteq> [] \<Longrightarrow> ds \<noteq> [] \<Longrightarrow> join_with [sep] (cs @ ds) = join_with [sep] cs @ sep # join_with [sep] ds"
proof (induction "[sep]" cs rule: join_with.induct)
  case (2 w)
  then show ?case by (cases ds) auto
qed auto

lemma confined_append: "confined a \<Longrightarrow> confined b \<Longrightarrow> confined (a @ sep # b)"
proof -
  assume "confined a" "confined b"
  then obtain cs ds where "cs \<noteq> []" "clean_list cs" "\<forall>c\<in>set cs. sep \<notin> set c" "a = join_with [sep] cs"
    "ds \<noteq> []" "clean_list ds" "\<forall>c\<in>set ds. sep \<notin> set c" "b = join_with [sep] ds"
    by (auto simp: confined_def)
  then show ?thesis
    unfolding confined_def
    by (intro exI [of _ "cs @ ds"]) (auto simp: join_with_append clean_list_def)
qed

lemma path_clean_absolute: "confined rest \<Longrightarrow> path_clean (sep # rest) = sep # rest"
proof -
  assume c: "confined rest"
  have "clean_components True (split_on sep (sep # rest)) = clean_components True (split_on sep rest)"
    by (simp add: clean_components_def clean_step.simps)
  also have "\<dots> = split_on sep rest" using c by (simp add: confined_split clean_components_fixed)
  finally show ?thesis
    by (simp add: path_clean_def Let_def join_split_on del: split_on.simps)
qed

lemma path_join_absolute:
  assumes "clean_absolute base" "confined c"
  shows "path_join [base, c] = base @ sep # c"
proof -
  obtain rest where r: "base = sep # rest" "confined rest"
    using assms(1) by (auto simp: clean_absolute_def)
  have "c \<noteq> []" using assms(2) by auto
  then show ?thesis
    using path_clean_absolute [OF confined_append [OF r(2) assms(2)]] r(1)
    by (simp add: path_join_def)
qed

lemma path_join_confined: "confined a \<Longrightarrow> confined b \<Longrightarrow> path_join [a, b] = a @ sep # b"
  using path_clean_confined [OF confined_append, of a b] by (cases a; cases b) (auto simp: path_join_def)

text \<open>A declared path that the program accepts is confined: it is a non-empty sequence
  of real components (none empty, \<open>.\<close> or \<open>..\<close>), cleaning it again changes nothing, it lies
  outside the run-state and artifact trees of the repository, and joined to any clean
  absolute directory it names exactly the place below that directory.\<close>

theorem accepted_path_confined:
  assumes "clean_repo_relative_path path = Inr c" "clean_absolute base"
  shows "confined c \<and> clean_repo_relative_path c = Inr c \<and> \<not> is_reserved_payload_path c
     \<and> path_join [base, c] = base @ sep # c"
  using clean_repo_relative_confined [OF assms(1)] clean_repo_relative_idem [OF assms(1)]
    path_join_absolute [OF assms(2)]
  by blast

theorem accepted_path_confined_witness:
  "path_join [''/repo/a'', ''x/y.ma''] = ''/repo/a/x/y.ma''"
proof -
  have h: "clean_repo_relative_path ''./x//z/../y.ma'' = Inr ''x/y.ma''" by code_simp
  have b: "clean_absolute ''/repo/a''"
    by (simp add: clean_absolute_def confined_split clean_list_def)
  show ?thesis using accepted_path_confined [OF h b] by simp
qed

end
