(* ===== verification/Capabilities.thy ===== *)
theory Capabilities
  imports Repo_Config
begin

text \<open>
  Host capability reports and the compatibility decision shared by planning and
  scheduling (\<open>internal/cli/capabilities.go\<close>): version comparison, the reasons a report
  does not satisfy a Scenario, the choice of a Maya build, and the ranked list of
  candidate agents.  A reason is a constructor with the values its message prints.
\<close>

subsection \<open>Version numbers\<close>

definition numeric_version_parts :: "string \<Rightarrow> int list option" where
  "numeric_version_parts version =
     (let go = (\<lambda>part. if part = [] then None
                else (case atoi part of
                        None \<Rightarrow> None
                      | Some value \<Rightarrow> if value < 0 then None else Some value))
      in those (map go (split_on (CHR ''.'') (trim_space version))))"

text \<open>The loop of \<open>compareNumericVersions\<close>: a missing part counts as zero.\<close>

fun compare_parts :: "int list \<Rightarrow> int list \<Rightarrow> int" where
  "compare_parts [] [] = 0"
| "compare_parts (l # ls) [] = (if l < 0 then -1 else if l > 0 then 1 else compare_parts ls [])"
| "compare_parts [] (r # rs) = (if 0 < r then -1 else if 0 > r then 1 else compare_parts [] rs)"
| "compare_parts (l # ls) (r # rs) =
     (if l < r then -1 else if l > r then 1 else compare_parts ls rs)"

definition compare_numeric_versions :: "string \<Rightarrow> string \<Rightarrow> int" where
  "compare_numeric_versions left right =
     (case (numeric_version_parts left, numeric_version_parts right) of
        (Some ls, Some rs) \<Rightarrow> compare_parts ls rs
      | _ \<Rightarrow> -1)"

definition version_at_least :: "string \<Rightarrow> string \<Rightarrow> bool" where
  "version_at_least reported minimum \<longleftrightarrow> compare_numeric_versions reported minimum \<ge> 0"

definition same_maya_build_version :: "string \<Rightarrow> string \<Rightarrow> bool" where
  "same_maya_build_version left right \<longleftrightarrow>
     (if numeric_version_parts left \<noteq> None \<and> numeric_version_parts right \<noteq> None
      then compare_numeric_versions left right = 0
      else trim_space left = trim_space right)"

definition select_maya_build :: "string list \<Rightarrow> version_requirement \<Rightarrow> string \<times> bool" where
  "select_maya_build reported requirement =
     (if vr_exact requirement \<noteq> [] then
        (case find (\<lambda>build. same_maya_build_version build (vr_exact requirement)) reported of
           Some build \<Rightarrow> (trim_space build, True)
         | None \<Rightarrow> ([], False))
      else if vr_minimum requirement = [] then ([], True)
      else
        (let compatible = map trim_space
               (filter (\<lambda>build. version_at_least build (vr_minimum requirement)) reported)
         in case sort_by (\<lambda>a b. compare_numeric_versions a b < 0) compatible of
              [] \<Rightarrow> ([], False)
            | build # _ \<Rightarrow> (build, True)))"

subsection \<open>Reasons a report is not compatible\<close>

datatype reason =
    BadRecordVersion int
  | BadTimestamp
  | FutureTimestamp
  | StaleRecord
  | Offline
  | Unhealthy string
  | UnderMaintenance
  | Quarantined
  | SessionBuildUnlisted
  | IncompleteRecord string
  | MayaExactMismatch string string "string list"
  | MayaBelowMinimum string string "string list"
  | VersionExactMismatch string string string
  | VersionBelowMinimum string string string
  | MissingCapability string string "string list"
  | TrustMismatch bool

definition maya_host_capability_record_version :: int where
  "maya_host_capability_record_version = 2"

definition maya_host_capability_freshness :: int where
  "maya_host_capability_freshness = seconds 60"

definition maya_host_capability_clock_skew :: int where
  "maya_host_capability_clock_skew = seconds 30"

definition contains_capability :: "string list \<Rightarrow> string \<Rightarrow> bool" where
  "contains_capability values required \<longleftrightarrow>
     (\<exists>value\<in>set values. equal_fold (trim_space value) (trim_space required))"

definition append_unique_capability :: "string list \<Rightarrow> string \<Rightarrow> string list" where
  "append_unique_capability values required =
     (if contains_capability values required then values else values @ [required])"

definition required_capability_reasons ::
  "string \<Rightarrow> string list \<Rightarrow> string list \<Rightarrow> reason list" where
  "required_capability_reasons label required reported =
     map (\<lambda>capability. MissingCapability label capability reported)
       (filter (\<lambda>capability. \<not> contains_capability reported capability) required)"

definition version_compatibility_reasons ::
  "string \<Rightarrow> version_requirement \<Rightarrow> string \<Rightarrow> reason list" where
  "version_compatibility_reasons name requirement reported =
     (if vr_exact requirement \<noteq> [] \<and> trim_space reported \<noteq> trim_space (vr_exact requirement)
      then [VersionExactMismatch name (vr_exact requirement) reported]
      else if vr_minimum requirement \<noteq> [] \<and> \<not> version_at_least reported (vr_minimum requirement)
      then [VersionBelowMinimum name (vr_minimum requirement) reported]
      else [])"

text \<open>The names of the missing parts; the code iterates a map here and sorts afterwards.\<close>

definition incomplete_capability_reasons :: "maya_host_capabilities \<Rightarrow> reason list" where
  "incomplete_capability_reasons c =
     map IncompleteRecord (sort_strings
       ((if cap_maya_builds c = [] then [''Maya builds''] else [])
      @ (if trim_space (cap_session_build c) = [] then [''session Maya build''] else [])
      @ (if trim_space (cap_python c) = [] then [''Python''] else [])
      @ (if trim_space (cap_broker_version c) = [] \<or> cap_broker_features c = None
         then [''Session Broker''] else [])
      @ concat (map (\<lambda>(name, values). if values = None then [name] else [])
          [(''capture'', cap_capture c), (''control'', cap_control c),
           (''renderer'', cap_renderers c), (''GPU'', cap_gpu c),
           (''display'', cap_display c), (''licensing'', cap_licensing c)])
      @ (if cap_trusted c = None then [''trusted Plugin Artifact support''] else [])))"

definition capability_eligibility_reasons :: "capability_record \<Rightarrow> int \<Rightarrow> reason list" where
  "capability_eligibility_reasons report now =
     (if cr_version report \<noteq> maya_host_capability_record_version
      then [BadRecordVersion (cr_version report)] else [])
   @ (case parse_stamp (cr_reported_at report) of
        None \<Rightarrow> [BadTimestamp]
      | Some reported_at \<Rightarrow>
          (let age = now - reported_at
           in if age < - maya_host_capability_clock_skew then [FutureTimestamp]
              else if age > maya_host_capability_freshness then [StaleRecord]
              else []))
   @ (if \<not> cr_online report then [Offline] else [])
   @ (if cr_health report \<noteq> ''healthy'' then [Unhealthy (cr_health report)] else [])
   @ (if cr_maintenance report then [UnderMaintenance] else [])
   @ (if cr_quarantined report then [Quarantined] else [])
   @ (if cap_session_build (cr_caps report) \<noteq> []
         \<and> \<not> contains_capability (cap_maya_builds (cr_caps report)) (cap_session_build (cr_caps report))
      then [SessionBuildUnlisted] else [])
   @ incomplete_capability_reasons (cr_caps report)"

subsection \<open>The compatibility decision\<close>

record compatibility_decision =
  cd_compatible :: bool
  cd_reasons :: "reason list"
  cd_selected_build :: string

definition decide_maya_host_compatibility ::
  "scenario_requirements \<Rightarrow> capability_record \<Rightarrow> int \<Rightarrow> compatibility_decision" where
  "decide_maya_host_compatibility requirements report now =
     (let caps = cr_caps report;
          (selected, maya_compatible) =
            select_maya_build [cap_session_build caps] (req_maya requirements);
          maya = req_maya requirements;
          broker = req_broker requirements;
          reasons =
            capability_eligibility_reasons report now
          @ (if vr_exact maya \<noteq> [] \<and> \<not> maya_compatible
             then [MayaExactMismatch (vr_exact maya) (cap_session_build caps) (cap_maya_builds caps)]
             else [])
          @ (if vr_minimum maya \<noteq> [] \<and> \<not> maya_compatible
             then [MayaBelowMinimum (vr_minimum maya) (cap_session_build caps) (cap_maya_builds caps)]
             else [])
          @ version_compatibility_reasons ''Python'' (req_python requirements) (cap_python caps)
          @ version_compatibility_reasons ''Session Broker''
              \<lparr>vr_exact = sbr_exact broker, vr_minimum = sbr_minimum broker\<rparr>
              (cap_broker_version caps)
          @ required_capability_reasons ''Session Broker feature'' (sbr_features broker)
              (slice (cap_broker_features caps))
          @ required_capability_reasons ''capture capability'' (req_capture requirements)
              (slice (cap_capture caps))
          @ required_capability_reasons ''control capability'' (req_control requirements)
              (slice (cap_control caps))
          @ required_capability_reasons ''renderer capability'' (req_renderers requirements)
              (slice (cap_renderers caps))
          @ required_capability_reasons ''GPU capability'' (req_gpu requirements)
              (slice (cap_gpu caps))
          @ required_capability_reasons ''display capability'' (req_display requirements)
              (slice (cap_display caps))
          @ required_capability_reasons ''licensing capability'' (req_licensing requirements)
              (slice (cap_licensing caps))
          @ (case req_trusted requirements of
               None \<Rightarrow> []
             | Some wanted \<Rightarrow> if cap_trusted caps \<noteq> Some wanted then [TrustMismatch wanted] else [])
      in \<lparr>cd_compatible = (reasons = []), cd_reasons = reasons, cd_selected_build = selected\<rparr>)"


subsection \<open>Requirements of a Scenario\<close>

definition requires_visual_evidence :: "validator_config list \<Rightarrow> bool" where
  "requires_visual_evidence validators \<longleftrightarrow>
     (\<exists>v\<in>set validators. vc_type v = ''visualEvidence'' \<and> vc_required v \<noteq> Some False)"

definition normalized_scenario_requirements :: "scenario_config \<Rightarrow> scenario_requirements" where
  "normalized_scenario_requirements scenario =
     (let r0 = sc_requirements scenario;
          r1 = r0\<lparr>req_broker := (req_broker r0)\<lparr>sbr_features :=
                 append_unique_capability (sbr_features (req_broker r0)) ''script.execute''\<rparr>\<rparr>;
          r2 = (if sc_screenshots scenario
                then r1\<lparr>req_capture := append_unique_capability (req_capture r1) ''screenshot''\<rparr>
                else r1);
          r3 = (if sc_recording scenario
                then r2\<lparr>req_capture := append_unique_capability (req_capture r2) ''recording''\<rparr>
                else r2);
          r4 = (if requires_visual_evidence (sc_validators scenario)
                then r3\<lparr>req_capture := append_unique_capability (req_capture r3) ''visual-evidence''\<rparr>
                else r3)
      in if trim_space (sc_selected_build scenario) \<noteq> []
         then r4\<lparr>req_maya := \<lparr>vr_exact = trim_space (sc_selected_build scenario), vr_minimum = []\<rparr>\<rparr>
         else if vr_exact (req_maya r4) = [] \<and> vr_minimum (req_maya r4) = []
                \<and> trim_space (sc_maya_version scenario) \<noteq> []
         then r4\<lparr>req_maya := (req_maya r4)\<lparr>vr_exact := trim_space (sc_maya_version scenario)\<rparr>\<rparr>
         else r4)"

datatype requirement_error =
    MayaVersionAndRequirement
  | ExactAndMinimum string
  | MinimumNotNumeric string

fun validate_version_requirements ::
  "(string \<times> version_requirement) list \<Rightarrow> (requirement_error, unit) result" where
  "validate_version_requirements [] = Inr ()"
| "validate_version_requirements ((name, version) # rest) =
     (if trim_space (vr_exact version) \<noteq> [] \<and> trim_space (vr_minimum version) \<noteq> []
      then Inl (ExactAndMinimum name)
      else if trim_space (vr_minimum version) \<noteq> []
           \<and> numeric_version_parts (trim_space (vr_minimum version)) = None
      then Inl (MinimumNotNumeric name)
      else validate_version_requirements rest)"

definition validate_scenario_requirements ::
  "scenario_config \<Rightarrow> (requirement_error, unit) result" where
  "validate_scenario_requirements scenario =
     (let r = sc_requirements scenario
      in if trim_space (sc_maya_version scenario) \<noteq> []
            \<and> (trim_space (vr_exact (req_maya r)) \<noteq> [] \<or> trim_space (vr_minimum (req_maya r)) \<noteq> [])
         then Inl MayaVersionAndRequirement
         else validate_version_requirements
           [(''Maya'', req_maya r), (''Python'', req_python r),
            (''Session Broker'', \<lparr>vr_exact = sbr_exact (req_broker r),
                                 vr_minimum = sbr_minimum (req_broker r)\<rparr>)])"

datatype scheduling_error =
    SchedulingConfig config_error
  | UnknownScenario string
  | InvalidRequirements requirement_error

definition scenario_requirements_for_scheduling ::
  "(config_error, repo_run_config \<times> string) result \<Rightarrow> string
     \<Rightarrow> (scheduling_error, scenario_requirements) result" where
  "scenario_requirements_for_scheduling loaded scenario_name =
     (case loaded of
        Inl e \<Rightarrow> Inl (SchedulingConfig e)
      | Inr (config, _) \<Rightarrow>
          (case map_of (rc_scenarios config) scenario_name of
             None \<Rightarrow> Inl (UnknownScenario scenario_name)
           | Some scenario \<Rightarrow>
               (case validate_scenario_requirements scenario of
                  Inl e \<Rightarrow> Inl (InvalidRequirements e)
                | Inr _ \<Rightarrow> Inr (normalized_scenario_requirements scenario))))"

subsection \<open>Reports built from a configured Host\<close>

text \<open>\<open>mayaVersionPattern\<close>: four digits, then optionally a dot and digits.\<close>

definition maya_version_pattern :: "string \<Rightarrow> bool" where
  "maya_version_pattern s \<longleftrightarrow>
     (case split_on (CHR ''.'') s of
        [a] \<Rightarrow> length a = 4 \<and> list_all is_digit a
      | [a, b] \<Rightarrow> length a = 4 \<and> list_all is_digit a \<and> b \<noteq> [] \<and> list_all is_digit b
      | _ \<Rightarrow> False)"

fun add_maya_version :: "string list \<Rightarrow> string \<Rightarrow> string list" where
  "add_maya_version normalized version =
     (let v = trim_space version
      in if \<not> maya_version_pattern v \<or> v \<in> set normalized then normalized else normalized @ [v])"

definition normalize_maya_versions :: "string list \<Rightarrow> string list" where
  "normalize_maya_versions versions = sort_strings (foldl add_maya_version [] versions)"

definition static_maya_versions :: "maya_host_config \<Rightarrow> string list" where
  "static_maya_versions host =
     (case mh_capabilities host of
        Some c \<Rightarrow> if cap_maya_builds c \<noteq> [] then normalize_maya_versions (cap_maya_builds c)
                  else if uses_real_ssh host then normalize_maya_versions (mh_maya_versions host)
                  else (case mh_fake_versions host of
                          Some vs \<Rightarrow> normalize_maya_versions vs
                        | None \<Rightarrow> if mh_maya_versions host \<noteq> []
                                  then normalize_maya_versions (mh_maya_versions host)
                                  else [''2025''])
      | None \<Rightarrow> if uses_real_ssh host then normalize_maya_versions (mh_maya_versions host)
                else (case mh_fake_versions host of
                        Some vs \<Rightarrow> normalize_maya_versions vs
                      | None \<Rightarrow> if mh_maya_versions host \<noteq> []
                                then normalize_maya_versions (mh_maya_versions host)
                                else [''2025'']))"

definition inferred_maya_host_capabilities :: "maya_host_config \<Rightarrow> maya_host_capabilities" where
  "inferred_maya_host_capabilities host =
     (let builds = static_maya_versions host
      in \<lparr>cap_maya_builds = builds,
          cap_session_build = (if \<not> uses_real_ssh host \<and> length builds = 1 then hd builds else []),
          cap_python = ''unknown'',
          cap_broker_version = ''1'',
          cap_broker_features = Some [''script.execute''],
          cap_capture = Some (if mh_visual_evidence host \<noteq> Some False
                              then [''screenshot'', ''recording'', ''visual-evidence''] else []),
          cap_control = Some (if uses_real_ssh host then [''coordinate''] else []),
          cap_renderers = Some [''unknown''],
          cap_gpu = Some [''unknown''],
          cap_display = Some [''unknown''],
          cap_licensing = Some [''unknown''],
          cap_trusted = Some (trim_space (mh_trusted_root host) \<noteq> [])\<rparr>)"

definition configured_maya_host_capability_record ::
  "maya_host_config \<Rightarrow> int \<Rightarrow> capability_record" where
  "configured_maya_host_capability_record host now =
     (let h = to_lower (trim_space (mh_health host));
          health = (if h = [] then ''healthy'' else h)
      in \<lparr>cr_version = maya_host_capability_record_version,
          cr_reported_at = At now,
          cr_online = (health \<noteq> ''offline''),
          cr_health = health,
          cr_maintenance = (health = ''maintenance'' \<or> health = ''maintained''),
          cr_quarantined = (health = ''quarantined''),
          cr_profiles = [],
          cr_pools = Map.empty,
          cr_caps = (case mh_capabilities host of
                       Some c \<Rightarrow> c | None \<Rightarrow> inferred_maya_host_capabilities host)\<rparr>)"

fun complete_profiles :: "(string \<rightharpoonup> string) \<Rightarrow> string list \<Rightarrow> bool" where
  "complete_profiles pools [] = True"
| "complete_profiles pools (profile # rest) =
     (if trim_space profile = [] \<or> trim_space (map_str pools profile) = [] then False
      else complete_profiles pools rest)"

definition complete_target_profile_host_pool_mapping :: "capability_record \<Rightarrow> bool" where
  "complete_target_profile_host_pool_mapping report \<longleftrightarrow>
     (if length (cr_profiles report) = 0 then False
      else complete_profiles (cr_pools report) (cr_profiles report))"

subsection \<open>Agents and candidates\<close>

record agent_status =
  as_version :: int
  as_kind :: string
  as_agent_id :: string
  as_host_id :: string
  as_slots :: int
  as_state :: string
  as_run_id :: string
  as_session_id :: string
  as_session_binding :: bool
  as_capabilities :: capability_record

record enrollment_record =
  en_version :: int
  en_agent_id :: string
  en_host_id :: string
  en_credential_sha256 :: string
  en_enrolled_at :: string

record host_agent =
  ha_enrollment :: enrollment_record
  ha_status :: agent_status
  ha_session_expires :: int
  ha_takeover_not_before :: int

definition agent_before :: "host_agent \<Rightarrow> host_agent \<Rightarrow> bool" where
  "agent_before left right \<longleftrightarrow>
     (if as_host_id (ha_status left) \<noteq> as_host_id (ha_status right)
      then as_host_id (ha_status left) < as_host_id (ha_status right)
      else as_agent_id (ha_status left) < as_agent_id (ha_status right))"

datatype candidate_reason =
    NotInProfile string string
  | HostReason string reason

definition idle_agent :: "host_agent \<Rightarrow> bool" where
  "idle_agent agent \<longleftrightarrow>
     \<not> (as_state (ha_status agent) \<noteq> ''ready'' \<or> as_run_id (ha_status agent) \<noteq> []
        \<or> as_session_id (ha_status agent) = [] \<or> as_slots (ha_status agent) \<noteq> 1
        \<or> \<not> as_session_binding (ha_status agent))"

fun candidate_loop ::
  "string \<Rightarrow> scenario_requirements \<Rightarrow> int \<Rightarrow> host_agent list
     \<Rightarrow> host_agent list \<times> candidate_reason list" where
  "candidate_loop profile requirements now [] = ([], [])"
| "candidate_loop profile requirements now (agent # rest) =
     (let (candidates, reasons) = candidate_loop profile requirements now rest;
          status = ha_status agent
      in if \<not> idle_agent agent then (candidates, reasons)
         else if profile \<notin> set (cr_profiles (as_capabilities status))
         then (candidates, NotInProfile (as_host_id status) profile # reasons)
         else (let decision = decide_maya_host_compatibility requirements (as_capabilities status) now
               in if \<not> cd_compatible decision
                  then (candidates, map (HostReason (as_host_id status)) (cd_reasons decision) @ reasons)
                  else (agent # candidates, reasons)))"

definition compatible_host_agent_candidates ::
  "host_agent option list \<Rightarrow> string \<Rightarrow> scenario_requirements \<Rightarrow> int
     \<Rightarrow> host_agent list \<times> candidate_reason list" where
  "compatible_host_agent_candidates agents profile requirements now =
     candidate_loop profile requirements now
       (sort_by agent_before (map the (filter (\<lambda>a. a \<noteq> None) agents)))"

subsection \<open>Version order\<close>

lemma compare_parts_range: "compare_parts ls rs \<in> {-1, 0, 1}"
  by (induction ls rs rule: compare_parts.induct) auto

lemma compare_parts_flip: "compare_parts rs ls = - compare_parts ls rs"
  by (induction ls rs rule: compare_parts.induct) auto

lemma compare_parts_refl [simp]: "compare_parts ls ls = 0"
  by (induction ls) auto

lemma compare_parts_le_iff:
  "compare_parts (l # ls) (r # rs) \<le> 0 \<longleftrightarrow> l < r \<or> l = r \<and> compare_parts ls rs \<le> 0"
  "compare_parts (l # ls) [] \<le> 0 \<longleftrightarrow> l < 0 \<or> l = 0 \<and> compare_parts ls [] \<le> 0"
  "compare_parts [] (r # rs) \<le> 0 \<longleftrightarrow> 0 < r \<or> r = 0 \<and> compare_parts [] rs \<le> 0"
  by auto

lemma compare_parts_trans:
  "compare_parts xs ys \<le> 0 \<Longrightarrow> compare_parts ys zs \<le> 0 \<Longrightarrow> compare_parts xs zs \<le> 0"
proof (induction xs ys arbitrary: zs rule: compare_parts.induct)
  case 1
  then show ?case by simp
next
  case (2 l ls)
  then show ?case
    by (cases zs) (auto simp: compare_parts_le_iff simp del: compare_parts.simps(2-4))
next
  case (3 r rs)
  then show ?case
    by (cases zs) (auto simp: compare_parts_le_iff simp del: compare_parts.simps(2-4))
next
  case (4 l ls r rs)
  then show ?case
    by (cases zs) (auto simp: compare_parts_le_iff simp del: compare_parts.simps(2-4))
qed

lemma compare_parts_neg_iff: "compare_parts ls rs < 0 \<longleftrightarrow> \<not> compare_parts rs ls \<le> 0"
  by (subst compare_parts_flip) auto

lemma compare_parts_linear: "compare_parts ls rs \<le> 0 \<or> compare_parts rs ls \<le> 0"
  using compare_parts_flip [of rs ls] by linarith

text \<open>\<open>sort.Slice\<close> over Maya builds gets a strict weak order.\<close>

interpretation version_order: strict_weak "\<lambda>ls rs. compare_parts ls rs < 0"
  by unfold_locales
    (use compare_parts_neg_iff compare_parts_linear compare_parts_trans in blast)+

definition version_key :: "string \<Rightarrow> int list" where
  "version_key v = (case numeric_version_parts v of Some ps \<Rightarrow> ps | None \<Rightarrow> [])"

definition valid_version :: "string \<Rightarrow> bool" where
  "valid_version v \<longleftrightarrow> numeric_version_parts v \<noteq> None"

interpretation build_order: strict_weak
  "\<lambda>a b. compare_parts (version_key a) (version_key b) < 0"
  by unfold_locales (use version_order.lt_asym version_order.lt_cotrans in blast)+

lemma compare_numeric_versions_key:
  "compare_numeric_versions a b =
     (if valid_version a \<and> valid_version b then compare_parts (version_key a) (version_key b) else -1)"
  by (auto simp: compare_numeric_versions_def valid_version_def version_key_def split: option.splits)

lemma version_at_least_valid: "version_at_least a b \<Longrightarrow> valid_version a \<and> valid_version b"
  by (auto simp: version_at_least_def compare_numeric_versions_key split: if_splits)

lemma version_at_least_iff:
  "version_at_least a b \<longleftrightarrow>
     valid_version a \<and> valid_version b \<and> compare_parts (version_key b) (version_key a) \<le> 0"
  using compare_parts_flip [of "version_key a" "version_key b"]
  by (auto simp: version_at_least_def compare_numeric_versions_key)

lemma version_at_least_trans:
  "version_at_least a b \<Longrightarrow> version_at_least b c \<Longrightarrow> version_at_least a c"
  unfolding version_at_least_iff using compare_parts_trans by blast

lemma valid_version_trim [simp]: "valid_version (trim_space v) = valid_version v"
  by (simp add: valid_version_def numeric_version_parts_def)

lemma version_key_trim [simp]: "version_key (trim_space v) = version_key v"
  by (simp add: version_key_def numeric_version_parts_def)

lemma version_at_least_trim [simp]: "version_at_least (trim_space a) b = version_at_least a b"
  by (simp add: version_at_least_iff)

subsection \<open>What compatibility means\<close>

text \<open>The specification: a condition on the report and one on each requirement.\<close>

definition fresh_report :: "capability_record \<Rightarrow> int \<Rightarrow> bool" where
  "fresh_report report now \<longleftrightarrow>
     (\<exists>t. cr_reported_at report = At t \<and> t \<le> now + seconds 30 \<and> now \<le> t + seconds 60)"

definition complete_report :: "maya_host_capabilities \<Rightarrow> bool" where
  "complete_report c \<longleftrightarrow>
     cap_maya_builds c \<noteq> [] \<and> trim_space (cap_session_build c) \<noteq> []
   \<and> trim_space (cap_python c) \<noteq> [] \<and> trim_space (cap_broker_version c) \<noteq> []
   \<and> cap_broker_features c \<noteq> None \<and> cap_capture c \<noteq> None \<and> cap_control c \<noteq> None
   \<and> cap_renderers c \<noteq> None \<and> cap_gpu c \<noteq> None \<and> cap_display c \<noteq> None
   \<and> cap_licensing c \<noteq> None \<and> cap_trusted c \<noteq> None"

definition eligible_report :: "capability_record \<Rightarrow> int \<Rightarrow> bool" where
  "eligible_report report now \<longleftrightarrow>
     cr_version report = 2 \<and> fresh_report report now \<and> cr_online report
   \<and> cr_health report = ''healthy'' \<and> \<not> cr_maintenance report \<and> \<not> cr_quarantined report
   \<and> contains_capability (cap_maya_builds (cr_caps report)) (cap_session_build (cr_caps report))
   \<and> complete_report (cr_caps report)"

definition maya_met :: "version_requirement \<Rightarrow> string \<Rightarrow> bool" where
  "maya_met r build \<longleftrightarrow>
     (if vr_exact r \<noteq> [] then same_maya_build_version build (vr_exact r)
      else if vr_minimum r \<noteq> [] then version_at_least build (vr_minimum r) else True)"

definition version_met :: "version_requirement \<Rightarrow> string \<Rightarrow> bool" where
  "version_met r v \<longleftrightarrow>
     (vr_exact r = [] \<or> trim_space v = trim_space (vr_exact r))
   \<and> (vr_minimum r = [] \<or> version_at_least v (vr_minimum r))"

definition all_reported :: "string list \<Rightarrow> string list option \<Rightarrow> bool" where
  "all_reported required reported \<longleftrightarrow>
     list_all (contains_capability (slice reported)) required"

definition satisfies :: "scenario_requirements \<Rightarrow> maya_host_capabilities \<Rightarrow> bool" where
  "satisfies r c \<longleftrightarrow>
     maya_met (req_maya r) (cap_session_build c)
   \<and> version_met (req_python r) (cap_python c)
   \<and> version_met \<lparr>vr_exact = sbr_exact (req_broker r), vr_minimum = sbr_minimum (req_broker r)\<rparr>
       (cap_broker_version c)
   \<and> all_reported (sbr_features (req_broker r)) (cap_broker_features c)
   \<and> all_reported (req_capture r) (cap_capture c)
   \<and> all_reported (req_control r) (cap_control c)
   \<and> all_reported (req_renderers r) (cap_renderers c)
   \<and> all_reported (req_gpu r) (cap_gpu c)
   \<and> all_reported (req_display r) (cap_display c)
   \<and> all_reported (req_licensing r) (cap_licensing c)
   \<and> (case req_trusted r of None \<Rightarrow> True | Some t \<Rightarrow> cap_trusted c = Some t)"

lemma required_capability_reasons_Nil:
  "required_capability_reasons l req (slice rep) = [] \<longleftrightarrow> all_reported req rep"
  by (induction req) (auto simp: required_capability_reasons_def all_reported_def)

lemma version_compatibility_reasons_Nil:
  "version_compatibility_reasons n r v = [] \<longleftrightarrow> version_met r v"
  by (auto simp: version_compatibility_reasons_def version_met_def)

lemma select_maya_build_met: "snd (select_maya_build [b] r) = maya_met r b"
  by (simp add: select_maya_build_def maya_met_def sort_by_def)

lemma sort_strings_Nil_iff [simp]: "sort_strings xs = [] \<longleftrightarrow> xs = []"
  by (metis length_0_conv length_sort_by sort_strings_def)

lemma incomplete_reasons_Nil: "incomplete_capability_reasons c = [] \<longleftrightarrow> complete_report c"
  by (simp add: incomplete_capability_reasons_def complete_report_def)

lemma eligibility_reasons_Nil:
  "capability_eligibility_reasons report now = [] \<longleftrightarrow> eligible_report report now"
proof -
  have "complete_report c \<Longrightarrow> cap_session_build c \<noteq> []" for c
    by (auto simp: complete_report_def)
  then show ?thesis
    by (cases "cr_reported_at report")
      (auto simp: capability_eligibility_reasons_def eligible_report_def fresh_report_def
        incomplete_reasons_Nil maya_host_capability_record_version_def Let_def
        maya_host_capability_clock_skew_def maya_host_capability_freshness_def)
qed

text \<open>C6. A Maya Host is compatible with a Scenario exactly when its report is a current
  version-2 record (at most 60 s old, at most 30 s in the future) of an online, healthy
  Host that is neither under maintenance nor quarantined, the report is complete and its
  session build is one of its Maya builds, and every version, feature, capability and
  trust requirement is met.\<close>

theorem compatible_iff:
  "cd_compatible (decide_maya_host_compatibility requirements report now) \<longleftrightarrow>
     eligible_report report now \<and> satisfies requirements (cr_caps report)"
proof -
  obtain b m where sel: "select_maya_build [cap_session_build (cr_caps report)]
      (req_maya requirements) = (b, m)" by fastforce
  then have m: "m = maya_met (req_maya requirements) (cap_session_build (cr_caps report))"
    using select_maya_build_met by (metis snd_conv)
  have maya: "maya_met r x \<longleftrightarrow> (vr_exact r \<noteq> [] \<longrightarrow> maya_met r x) \<and> (vr_minimum r \<noteq> [] \<longrightarrow> maya_met r x)"
    for r x by (auto simp: maya_met_def)
  show ?thesis
    unfolding decide_maya_host_compatibility_def Let_def sel
    by (simp add: m satisfies_def eligibility_reasons_Nil required_capability_reasons_Nil
        version_compatibility_reasons_Nil split: option.splits)
      (use maya in blast)
qed

subsection \<open>What a Scenario's own configuration demands\<close>

lemma contains_append_unique:
  "contains_capability (append_unique_capability vs c) c"
  "contains_capability vs d \<Longrightarrow> contains_capability (append_unique_capability vs c) d"
  by (auto simp: append_unique_capability_def contains_capability_def)

lemma contains_capability_trans:
  "contains_capability vs a \<Longrightarrow> \<forall>v\<in>set vs. contains_capability ws v \<Longrightarrow> contains_capability ws a"
  unfolding contains_capability_def by (meson equal_fold_trans)

lemma all_reported_contains:
  "all_reported req rep \<Longrightarrow> contains_capability req c \<Longrightarrow> contains_capability (slice rep) c"
  using contains_capability_trans by (auto simp: all_reported_def list_all_iff)

lemma normalized_features:
  "contains_capability (sbr_features (req_broker (normalized_scenario_requirements sc))) ''script.execute''"
  by (simp add: normalized_scenario_requirements_def Let_def contains_append_unique)

lemma normalized_capture:
  "sc_screenshots sc \<Longrightarrow>
     contains_capability (req_capture (normalized_scenario_requirements sc)) ''screenshot''"
  "sc_recording sc \<Longrightarrow>
     contains_capability (req_capture (normalized_scenario_requirements sc)) ''recording''"
  "requires_visual_evidence (sc_validators sc) \<Longrightarrow>
     contains_capability (req_capture (normalized_scenario_requirements sc)) ''visual-evidence''"
  by (simp_all add: normalized_scenario_requirements_def Let_def contains_append_unique)

lemma normalized_maya:
  "trim_space (sc_selected_build sc) \<noteq> [] \<Longrightarrow>
     req_maya (normalized_scenario_requirements sc) =
       \<lparr>vr_exact = trim_space (sc_selected_build sc), vr_minimum = []\<rparr>"
  by (simp add: normalized_scenario_requirements_def Let_def)

text \<open>A Host that is compatible with the normalised requirements of a Scenario reports
  script execution, the capture kind of every evidence toggle and required
  \<open>visualEvidence\<close> validator the Scenario has, and runs the build the plan selected.\<close>

theorem compatible_host_captures_evidence:
  assumes "cd_compatible (decide_maya_host_compatibility
             (normalized_scenario_requirements sc) report now)"
  shows "contains_capability (slice (cap_broker_features (cr_caps report))) ''script.execute''
   \<and> (sc_screenshots sc \<longrightarrow> contains_capability (slice (cap_capture (cr_caps report))) ''screenshot'')
   \<and> (sc_recording sc \<longrightarrow> contains_capability (slice (cap_capture (cr_caps report))) ''recording'')
   \<and> (requires_visual_evidence (sc_validators sc) \<longrightarrow>
        contains_capability (slice (cap_capture (cr_caps report))) ''visual-evidence'')
   \<and> (trim_space (sc_selected_build sc) \<noteq> [] \<longrightarrow>
        same_maya_build_version (cap_session_build (cr_caps report)) (trim_space (sc_selected_build sc)))"
proof -
  let ?r = "normalized_scenario_requirements sc"
  have sat: "satisfies ?r (cr_caps report)" using assms by (simp add: compatible_iff)
  then have feat: "all_reported (sbr_features (req_broker ?r)) (cap_broker_features (cr_caps report))"
    and cap: "all_reported (req_capture ?r) (cap_capture (cr_caps report))"
    and maya: "maya_met (req_maya ?r) (cap_session_build (cr_caps report))"
    by (simp_all add: satisfies_def)
  show ?thesis
    by (intro conjI impI all_reported_contains [OF feat normalized_features]
        all_reported_contains [OF cap] normalized_capture)
      (use maya in \<open>simp_all add: normalized_maya maya_met_def\<close>)
qed

subsection \<open>The choice of a build\<close>

text \<open>Under a minimum requirement the selected Maya build is the lowest reported build
  that meets the minimum: it is one of the reported builds, it meets the minimum, and
  every reported build that meets the minimum is at least as high.\<close>

theorem select_maya_build_least:
  assumes "vr_exact r = []" "vr_minimum r \<noteq> []" "select_maya_build reported r = (build, True)"
  shows "build \<in> trim_space ` set reported \<and> version_at_least build (vr_minimum r)
     \<and> (\<forall>b\<in>set reported. version_at_least b (vr_minimum r) \<longrightarrow> version_at_least b build)"
proof -
  let ?ok = "filter (\<lambda>b. version_at_least b (vr_minimum r)) reported"
  let ?lt = "\<lambda>a b. compare_parts (version_key a) (version_key b) < 0"
  have valid: "valid_version b" if "b \<in> set (map trim_space ?ok)" for b
    using that version_at_least_valid by auto
  then have "sort_by (\<lambda>a b. compare_numeric_versions a b < 0) (map trim_space ?ok) =
      sort_by ?lt (map trim_space ?ok)"
    by (intro sort_by_cong) (simp add: compare_numeric_versions_key)
  with assms obtain rest where s: "sort_by ?lt (map trim_space ?ok) = build # rest"
    by (auto simp: select_maya_build_def Let_def split: list.splits)
  then have "build \<in> set (map trim_space ?ok)"
    by (metis list.set_intros(1) set_sort_by)
  moreover have "version_at_least b build" if b: "b \<in> set ?ok" for b
  proof -
    have "trim_space b \<in> set (map trim_space ?ok)" using b by simp
    from build_order.hd_sort_by_least [OF this] have "\<not> ?lt b build" by (simp add: s)
    moreover have "valid_version b" using b version_at_least_valid [of b "vr_minimum r"] by simp
    ultimately show ?thesis
      using valid [OF \<open>build \<in> set _\<close>] by (simp add: version_at_least_iff compare_parts_neg_iff)
  qed
  ultimately show ?thesis by auto
qed

subsection \<open>Candidates\<close>

definition agent_key :: "host_agent \<Rightarrow> string \<times> string" where
  "agent_key a = (as_host_id (ha_status a), as_agent_id (ha_status a))"

lemma agent_before_key: "agent_before = (\<lambda>x y. agent_key x < agent_key y)"
  by (intro ext) (auto simp: agent_before_def agent_key_def less_prod_def)

interpretation agent_order: strict_total agent_before agent_key
  unfolding agent_before_key by (rule strict_total_key)

definition candidate_for :: "string \<Rightarrow> scenario_requirements \<Rightarrow> int \<Rightarrow> host_agent \<Rightarrow> bool" where
  "candidate_for profile requirements now agent \<longleftrightarrow>
     idle_agent agent \<and> profile \<in> set (cr_profiles (as_capabilities (ha_status agent)))
   \<and> cd_compatible (decide_maya_host_compatibility requirements (as_capabilities (ha_status agent)) now)"

lemma candidate_loop_filter:
  "fst (candidate_loop profile requirements now agents) =
     filter (candidate_for profile requirements now) agents"
  by (induction agents) (auto simp: candidate_for_def Let_def split: prod.splits)

abbreviation live_agents :: "host_agent option list \<Rightarrow> host_agent list" where
  "live_agents agents \<equiv> map the (filter (\<lambda>a. a \<noteq> None) agents)"

text \<open>Scheduling order is Host identity: the candidates and the reasons are the same for
  every order in which the map of agents is iterated, the candidates are exactly the idle
  agents of the Target Profile with a compatible report, and they come in the order of
  Host ID, then Agent ID.\<close>

theorem candidates_deterministic:
  assumes "mset agents = mset agents'" "inj_on agent_key (set (live_agents agents))"
  shows "compatible_host_agent_candidates agents profile requirements now =
       compatible_host_agent_candidates agents' profile requirements now
   \<and> set (fst (compatible_host_agent_candidates agents profile requirements now)) =
       {a. Some a \<in> set agents \<and> candidate_for profile requirements now a}
   \<and> sorted_wrt (\<lambda>a b. \<not> agent_before b a)
       (fst (compatible_host_agent_candidates agents profile requirements now))"
proof -
  have "mset (live_agents agents) = mset (live_agents agents')"
    using assms(1) by (simp add: mset_map mset_filter)
  then have "sort_by agent_before (live_agents agents) = sort_by agent_before (live_agents agents')"
    by (rule agent_order.sort_by_unique) (rule assms(2))
  then have "compatible_host_agent_candidates agents profile requirements now =
      compatible_host_agent_candidates agents' profile requirements now"
    by (simp add: compatible_host_agent_candidates_def)
  moreover have "a \<in> set (live_agents agents) \<longleftrightarrow> Some a \<in> set agents" for a
    by force
  then have "set (fst (compatible_host_agent_candidates agents profile requirements now)) =
      {a. Some a \<in> set agents \<and> candidate_for profile requirements now a}"
    by (auto simp: compatible_host_agent_candidates_def candidate_loop_filter simp del: set_map)
  moreover have "sorted_wrt (\<lambda>a b. \<not> agent_before b a)
       (fst (compatible_host_agent_candidates agents profile requirements now))"
    by (simp add: compatible_host_agent_candidates_def candidate_loop_filter sorted_wrt_filter
        agent_order.sorted_sort_by)
  ultimately show ?thesis by blast
qed

subsection \<open>Witnesses\<close>

definition sample_capabilities :: maya_host_capabilities where
  "sample_capabilities =
     \<lparr>cap_maya_builds = [''2025.3'', ''2026''], cap_session_build = ''2025.3'', cap_python = ''3.11'',
      cap_broker_version = ''1.2'', cap_broker_features = Some [''script.execute''],
      cap_capture = Some [''Screenshot'', ''recording'', ''visual-evidence''], cap_control = Some [],
      cap_renderers = Some [''arnold''], cap_gpu = Some [], cap_display = Some [],
      cap_licensing = Some [], cap_trusted = Some True\<rparr>"

definition sample_report :: capability_record where
  "sample_report =
     \<lparr>cr_version = 2, cr_reported_at = At 0, cr_online = True, cr_health = ''healthy'',
      cr_maintenance = False, cr_quarantined = False, cr_profiles = [''default''],
      cr_pools = [''default'' \<mapsto> ''pool-a''], cr_caps = sample_capabilities\<rparr>"

definition sample_scenario :: scenario_config where
  "sample_scenario =
     \<lparr>sc_description = [], sc_maya_version = [], sc_requirements = no_requirements,
      sc_selected_build = ''2025.3'',
      sc_payload = \<lparr>pay_maya_scripts = [], pay_scripts = [], pay_scenes = [],
        pay_plugin_artifacts = [], pay_expected_outputs = [], pay_include_paths = [],
        pay_runtime_inputs = []\<rparr>,
      sc_expected = \<lparr>eo_files = [], eo_scenario_result = ''result.json''\<rparr>,
      sc_screenshots = True, sc_recording = False, sc_validators = []\<rparr>"

definition sample_agent :: "string \<Rightarrow> string \<Rightarrow> host_agent" where
  "sample_agent host agent =
     \<lparr>ha_enrollment = \<lparr>en_version = 1, en_agent_id = agent, en_host_id = host,
        en_credential_sha256 = ''c'', en_enrolled_at = []\<rparr>,
      ha_status = \<lparr>as_version = 1, as_kind = ''host-agent-status'', as_agent_id = agent, as_host_id = host, as_slots = 1, as_state = ''ready'',
        as_run_id = [], as_session_id = ''s1'', as_session_binding = True,
        as_capabilities = sample_report\<rparr>, ha_session_expires = seconds 90,
      ha_takeover_not_before = 0\<rparr>"

theorem compatible_host_captures_evidence_witness:
  "cd_compatible (decide_maya_host_compatibility
     (normalized_scenario_requirements sample_scenario) sample_report (seconds 30))
   \<and> contains_capability (slice (cap_capture (cr_caps sample_report))) ''screenshot''"
proof -
  have h: "cd_compatible (decide_maya_host_compatibility
      (normalized_scenario_requirements sample_scenario) sample_report (seconds 30))"
    by code_simp
  show ?thesis
    using h compatible_host_captures_evidence [OF h] by (simp add: sample_scenario_def)
qed

theorem select_maya_build_least_witness:
  "version_at_least ''2024.0'' ''2024'' \<and> version_at_least ''2026'' ''2024.0''"
proof -
  have h: "select_maya_build [''2026'', '' 2024.0 '', ''2023''] \<lparr>vr_exact = [], vr_minimum = ''2024''\<rparr>
      = (''2024.0'', True)" by code_simp
  have "version_at_least ''2026'' ''2024''" by code_simp
  then show ?thesis using select_maya_build_least [OF _ _ h] by simp
qed

theorem candidates_deterministic_witness:
  "set (fst (compatible_host_agent_candidates
     [Some (sample_agent ''h2'' ''a''), None, Some (sample_agent ''h1'' ''b'')] ''default''
     no_requirements 0)) \<noteq> {}"
proof -
  let ?as = "[Some (sample_agent ''h2'' ''a''), None, Some (sample_agent ''h1'' ''b'')]"
  let ?bs = "[None, Some (sample_agent ''h1'' ''b''), Some (sample_agent ''h2'' ''a'')]"
  have h1: "mset ?as = mset ?bs" by simp
  have h2: "inj_on agent_key (set (live_agents ?as))"
    by (simp add: agent_key_def sample_agent_def)
  have "candidate_for ''default'' no_requirements 0 (sample_agent ''h1'' ''b'')" by code_simp
  then show ?thesis
    using candidates_deterministic [OF h1 h2, of "''default''" no_requirements 0] by auto
qed

end
