(* ===== verification/Scenario.thy ===== *)
theory Scenario
  imports Scenario_Paths Capabilities
begin

text \<open>
  The Scenario contract (\<open>scenario.go\<close>), the manifest payload and the copying of
  overlapping payload declarations (\<open>run.go\<close>), runtime input declarations and bindings
  (\<open>runtime_inputs.go\<close>).
\<close>

subsection \<open>Runtime input declarations\<close>

definition forbidden_runtime_input_extensions :: "string list" where
  "forbidden_runtime_input_extensions =
     [''.bat'', ''.cmd'', ''.com'', ''.dll'', ''.exe'', ''.js'', ''.kdbx'', ''.key'', ''.mel'', ''.mll'',
      ''.p12'', ''.pem'', ''.pfx'', ''.ppk'', ''.ps1'', ''.py'', ''.sh'', ''.so'', ''.vbs'']"

definition forbidden_runtime_input_extension :: "string \<Rightarrow> bool" where
  "forbidden_runtime_input_extension extension \<longleftrightarrow>
     to_lower (trim_space extension) \<in> set forbidden_runtime_input_extensions"

datatype runtime_input_error =
    RuntimeInputName name_error
  | KindNotFile string
  | NoExtensions string
  | InvalidExtension string string
  | ForbiddenExtension string string
  | RuntimeInputDestination string path_error
  | DestinationExtension string string
  | SameDestination string string string

definition valid_extension_text :: "string \<Rightarrow> bool" where
  "valid_extension_text e \<longleftrightarrow>
     \<not> (length e < 2 \<or> hd e \<noteq> CHR ''.''
        \<or> (\<exists>c\<in>set e. c \<in> {CHR ''/'', CHR 0x5C, CHR 0x00, CHR 0x0D, CHR 0x0A}))"

fun normalize_extensions ::
  "string \<Rightarrow> string list \<Rightarrow> string list \<Rightarrow> (runtime_input_error, string list) result" where
  "normalize_extensions name exts [] = Inr exts"
| "normalize_extensions name exts (extension # rest) =
     (let e = to_lower (trim_space extension)
      in if \<not> valid_extension_text e then Inl (InvalidExtension name e)
         else if forbidden_runtime_input_extension e then Inl (ForbiddenExtension name e)
         else normalize_extensions name (if e \<in> set exts then exts else exts @ [e]) rest)"

text \<open>
  One declaration, given the destinations (lower case) taken so far and by whom.
\<close>

definition normalize_declaration ::
  "(string \<rightharpoonup> string) \<Rightarrow> string \<Rightarrow> runtime_input_declaration
     \<Rightarrow> (runtime_input_error, runtime_input_declaration) result" where
  "normalize_declaration destinations name d =
     (case validate_runtime_input_name name of
        Inl e \<Rightarrow> Inl (RuntimeInputName e)
      | Inr _ \<Rightarrow>
          (let kind = to_lower (trim_space (rid_kind d))
           in if kind \<noteq> ''file'' then Inl (KindNotFile name)
              else if length (rid_extensions d) = 0 then Inl (NoExtensions name)
              else rbind (normalize_extensions name [] (rid_extensions d)) (\<lambda>exts.
                (case clean_scenario_path (rid_destination d) of
                   Inl e \<Rightarrow> Inl (RuntimeInputDestination name e)
                 | Inr destination \<Rightarrow>
                     (let dext = to_lower (path_ext destination)
                      in if dext \<notin> set exts then Inl (DestinationExtension name dext)
                         else (case destinations (to_lower destination) of
                                 Some other \<Rightarrow> Inl (SameDestination other name destination)
                               | None \<Rightarrow>
                                   Inr \<lparr>rid_kind = kind, rid_extensions = sort_strings exts,
                                        rid_destination = destination\<rparr>))))))"

fun normalize_declarations_from ::
  "(string \<times> runtime_input_declaration) list \<Rightarrow> (string \<rightharpoonup> string) \<Rightarrow> string list
     \<Rightarrow> (runtime_input_error, (string \<times> runtime_input_declaration) list) result" where
  "normalize_declarations_from decls destinations [] = Inr []"
| "normalize_declarations_from decls destinations (name # names) =
     (case map_of decls name of
        None \<Rightarrow> normalize_declarations_from decls destinations names
      | Some d \<Rightarrow>
          rbind (normalize_declaration destinations name d) (\<lambda>n.
          rbind (normalize_declarations_from decls
                   (destinations(to_lower (rid_destination n) \<mapsto> name)) names) (\<lambda>rest.
          Inr ((name, n) # rest))))"

definition normalize_runtime_input_declarations ::
  "(string \<times> runtime_input_declaration) list
     \<Rightarrow> (runtime_input_error, (string \<times> runtime_input_declaration) list) result" where
  "normalize_runtime_input_declarations decls =
     normalize_declarations_from decls Map.empty (sort_strings (map fst decls))"

subsection \<open>Payload, validators, contract\<close>

datatype scenario_error =
    ScenarioPath path_error
  | ScenarioRuntimeInput runtime_input_error
  | ScenarioRequirements requirement_error
  | MissingScenarioResult
  | ValidatorMissingPath string
  | UnknownValidatorType string
  | UnknownScenarioName string

definition lift_path :: "(path_error, 'a) result \<Rightarrow> (scenario_error, 'a) result" where
  "lift_path r = (case r of Inl e \<Rightarrow> Inl (ScenarioPath e) | Inr x \<Rightarrow> Inr x)"

lemma lift_path_Inr [simp]: "lift_path r = Inr x \<longleftrightarrow> r = Inr x"
  by (cases r) (auto simp: lift_path_def)

definition normalize_run_payload :: "run_payload \<Rightarrow> (scenario_error, run_payload) result" where
  "normalize_run_payload p =
     rbind (lift_path (normalize_scenario_paths (pay_maya_scripts p))) (\<lambda>maya_scripts.
     rbind (lift_path (normalize_scenario_paths (pay_scripts p))) (\<lambda>scripts.
     rbind (lift_path (normalize_scenario_paths (pay_scenes p))) (\<lambda>scenes.
     rbind (lift_path (normalize_scenario_paths (pay_plugin_artifacts p))) (\<lambda>plugins.
     rbind (lift_path (normalize_scenario_paths (pay_expected_outputs p))) (\<lambda>expected.
     rbind (lift_path (normalize_scenario_paths (pay_include_paths p))) (\<lambda>includes.
     (case normalize_runtime_input_declarations (pay_runtime_inputs p) of
        Inl e \<Rightarrow> Inl (ScenarioRuntimeInput e)
      | Inr inputs \<Rightarrow>
          Inr \<lparr>pay_maya_scripts = maya_scripts, pay_scripts = scripts, pay_scenes = scenes,
               pay_plugin_artifacts = plugins, pay_expected_outputs = expected,
               pay_include_paths = includes, pay_runtime_inputs = inputs\<rparr>)))))))"

definition check_validator ::
  "validator_config \<Rightarrow> (scenario_error, validator_config) result" where
  "check_validator v =
     (if vc_type v \<in> {''scenarioResultStatus'', ''visualEvidence''} then Inr v
      else if vc_type v \<in> {''outputExists'', ''jsonEquals'', ''numericApprox'', ''fileHash''}
      then (if vc_path v = [] then Inl (ValidatorMissingPath (vc_type v)) else Inr v)
      else Inl (UnknownValidatorType (vc_type v)))"

definition normalize_validator ::
  "validator_config \<Rightarrow> (scenario_error, validator_config) result" where
  "normalize_validator v =
     rbind (if vc_path v \<noteq> []
            then rbind (lift_path (clean_scenario_path (vc_path v))) (\<lambda>p. Inr (v\<lparr>vc_path := p\<rparr>))
            else Inr v) check_validator"

definition normalize_validators ::
  "validator_config list \<Rightarrow> (scenario_error, validator_config list) result" where
  "normalize_validators = rmap normalize_validator"

definition normalize_scenario_config ::
  "scenario_config \<Rightarrow> (scenario_error, scenario_config) result" where
  "normalize_scenario_config scenario =
     (case validate_scenario_requirements scenario of
        Inl e \<Rightarrow> Inl (ScenarioRequirements e)
      | Inr _ \<Rightarrow>
          if eo_scenario_result (sc_expected scenario) = [] then Inl MissingScenarioResult
          else
            rbind (lift_path (clean_scenario_path (eo_scenario_result (sc_expected scenario)))) (\<lambda>result_path.
            rbind (normalize_run_payload (sc_payload scenario)) (\<lambda>payload.
            rbind (lift_path (normalize_scenario_paths (eo_files (sc_expected scenario)))) (\<lambda>files.
            rbind (normalize_validators (sc_validators scenario)) (\<lambda>validators.
            Inr (scenario\<lparr>sc_expected := \<lparr>eo_files = files, eo_scenario_result = result_path\<rparr>,
                           sc_payload := payload, sc_validators := validators\<rparr>))))))"

record manifest_payload =
  mp_name :: string
  mp_kind :: string
  mp_source :: string
  mp_staged :: string
  mp_size :: int
  mp_sha256 :: string

definition manifest_payload_declarations :: "run_payload \<Rightarrow> (string \<times> string) list" where
  "manifest_payload_declarations p =
     map (Pair ''mayaScripts'') (pay_maya_scripts p @ pay_scripts p)
   @ map (Pair ''scenes'') (pay_scenes p)
   @ map (Pair ''pluginArtifacts'') (pay_plugin_artifacts p)
   @ map (Pair ''expectedOutputs'') (pay_expected_outputs p)
   @ map (Pair ''includePaths'') (pay_include_paths p)"

definition build_manifest_payload_item ::
  "string \<times> string \<Rightarrow> (path_error, manifest_payload) result" where
  "build_manifest_payload_item d =
     (case d of (kind, source) \<Rightarrow>
        rbind (clean_repo_relative_path source) (\<lambda>clean.
        Inr \<lparr>mp_name = [], mp_kind = kind, mp_source = clean,
             mp_staged = path_join [''payload'', kind, clean], mp_size = 0, mp_sha256 = []\<rparr>))"

definition build_manifest_payload :: "run_payload \<Rightarrow> (path_error, manifest_payload list) result" where
  "build_manifest_payload p = rmap build_manifest_payload_item (manifest_payload_declarations p)"

record scenario_output_path =
  op_path :: string
  op_optional :: bool

definition add_output ::
  "string \<times> bool \<Rightarrow> scenario_output_path list \<Rightarrow> scenario_output_path list" where
  "add_output po outputs =
     (case po of (path, optional) \<Rightarrow>
        if path = [] \<or> path \<in> op_path ` set outputs then outputs
        else outputs @ [\<lparr>op_path = path, op_optional = optional\<rparr>])"

definition scenario_output_paths :: "scenario_config \<Rightarrow> scenario_output_path list" where
  "scenario_output_paths scenario =
     fold add_output
       ((eo_scenario_result (sc_expected scenario), False)
        # map (\<lambda>p. (p, True)) (eo_files (sc_expected scenario))
        @ map (\<lambda>v. (vc_path v, True)) (filter (\<lambda>v. vc_path v \<noteq> []) (sc_validators scenario))) []"

record scenario_contract =
  ct_name :: string
  ct_config :: scenario_config
  ct_payload :: "manifest_payload list"
  ct_result_path :: string
  ct_outputs :: "scenario_output_path list"

definition resolve_scenario_contract ::
  "repo_run_config \<Rightarrow> string \<Rightarrow> (scenario_error, scenario_contract) result" where
  "resolve_scenario_contract config name =
     (case map_of (rc_scenarios config) name of
        None \<Rightarrow> Inl (UnknownScenarioName name)
      | Some raw \<Rightarrow>
          rbind (normalize_scenario_config raw) (\<lambda>scenario.
          rbind (lift_path (build_manifest_payload (sc_payload scenario))) (\<lambda>payload.
          Inr \<lparr>ct_name = name, ct_config = scenario, ct_payload = payload,
               ct_result_path = eo_scenario_result (sc_expected scenario),
               ct_outputs = scenario_output_paths scenario\<rparr>)))"

subsection \<open>Copying the payload\<close>

text \<open>
  \<open>snapshotRunPayload\<close> after its transport checks: shallower declarations first (a stable
  sort on the number of separators), and a declaration below a root already copied for
  its kind is skipped.  The result lists the items that are copied.
\<close>

definition is_runtime_input_kind :: "string \<Rightarrow> bool" where
  "is_runtime_input_kind kind \<longleftrightarrow> has_prefix kind ''runtimeInput:''"

definition covered_by :: "string \<Rightarrow> string \<Rightarrow> bool" where
  "covered_by source base \<longleftrightarrow> source = base \<or> has_prefix source (base @ [sep])"

fun snapshot_copies ::
  "(string \<Rightarrow> string list) \<Rightarrow> manifest_payload list \<Rightarrow> manifest_payload list" where
  "snapshot_copies copied [] = []"
| "snapshot_copies copied (item # rest) =
     (if is_runtime_input_kind (mp_kind item) then snapshot_copies copied rest
      else if \<exists>base\<in>set (copied (mp_kind item)). covered_by (mp_source item) base
      then snapshot_copies copied rest
      else item # snapshot_copies
             (copied(mp_kind item := copied (mp_kind item) @ [mp_source item])) rest)"

definition snapshot_run_payload :: "manifest_payload list \<Rightarrow> manifest_payload list" where
  "snapshot_run_payload payload =
     snapshot_copies (\<lambda>_. [])
       (sort_by (\<lambda>a b. count_list (mp_source a) sep < count_list (mp_source b) sep) payload)"

subsection \<open>Stop policy\<close>

definition is_valid_stop_after :: "string \<Rightarrow> bool" where
  "is_valid_stop_after value \<longleftrightarrow> value \<in> {''success'', ''failure'', ''always'', ''never''}"

definition should_stop_after :: "string \<Rightarrow> string \<Rightarrow> bool" where
  "should_stop_after stop_after status =
     (if stop_after = ''success'' then status = ''passed''
      else if stop_after = ''failure'' then status \<noteq> ''passed''
      else if stop_after = ''never'' then False
      else True)"

subsection \<open>Runtime inputs after normalisation\<close>

definition allowed_extension :: "string \<Rightarrow> bool" where
  "allowed_extension e \<longleftrightarrow> valid_extension_text e \<and> \<not> forbidden_runtime_input_extension e"

lemma normalize_extensions_Inr:
  "normalize_extensions name exts es = Inr exts' \<Longrightarrow> distinct exts \<Longrightarrow> list_all allowed_extension exts \<Longrightarrow>
     distinct exts' \<and> list_all allowed_extension exts'"
proof (induction es arbitrary: exts)
  case (Cons extension rest)
  define e where "e = to_lower (trim_space extension)"
  define next_exts where "next_exts = (if e \<in> set exts then exts else exts @ [e])"
  have ok: "allowed_extension e" and rest: "normalize_extensions name next_exts rest = Inr exts'"
    using Cons.prems(1) by (auto simp: Let_def e_def next_exts_def allowed_extension_def split: if_split_asm)
  have "distinct next_exts" "list_all allowed_extension next_exts"
    using Cons.prems(2,3) ok by (simp_all add: next_exts_def)
  with rest show ?case by (rule Cons.IH)
qed simp

text \<open>One accepted declaration.\<close>

definition accepted_input :: "string \<Rightarrow> runtime_input_declaration \<Rightarrow> bool" where
  "accepted_input name d \<longleftrightarrow>
     host_id_pattern name \<and> rid_kind d = ''file''
   \<and> sorted (rid_extensions d) \<and> distinct (rid_extensions d)
   \<and> (\<forall>e\<in>set (rid_extensions d). \<not> forbidden_runtime_input_extension e)
   \<and> confined (rid_destination d) \<and> \<not> is_reserved_payload_path (rid_destination d)
   \<and> to_lower (path_ext (rid_destination d)) \<in> set (rid_extensions d)"

lemma normalize_declaration_Inr:
  assumes "normalize_declaration dests name d = Inr n"
  shows "accepted_input name n" "dests (to_lower (rid_destination n)) = None"
proof -
  have nm: "host_id_pattern name"
    using assms
    by (auto simp: normalize_declaration_def validate_runtime_input_name_def split: if_split_asm)
  have kind: "to_lower (trim_space (rid_kind d)) = ''file''"
    using assms by (auto simp: normalize_declaration_def validate_runtime_input_name_def Let_def split: if_split_asm)
  from assms obtain exts where x: "normalize_extensions name [] (rid_extensions d) = Inr exts"
    and h: "(case clean_scenario_path (rid_destination d) of
                   Inl e \<Rightarrow> Inl (RuntimeInputDestination name e)
                 | Inr destination \<Rightarrow>
                     (let dext = to_lower (path_ext destination)
                      in if dext \<notin> set exts then Inl (DestinationExtension name dext)
                         else (case dests (to_lower destination) of
                                 Some other \<Rightarrow> Inl (SameDestination other name destination)
                               | None \<Rightarrow>
                                   Inr \<lparr>rid_kind = to_lower (trim_space (rid_kind d)),
                                        rid_extensions = sort_strings exts,
                                        rid_destination = destination\<rparr>))) = Inr n"
    by (auto simp: normalize_declaration_def validate_runtime_input_name_def Let_def split: if_split_asm)
  from h obtain dest where dest: "clean_scenario_path (rid_destination d) = Inr dest"
    and ext: "to_lower (path_ext dest) \<in> set exts" "dests (to_lower dest) = None"
    and n: "n = \<lparr>rid_kind = ''file'', rid_extensions = sort_strings exts, rid_destination = dest\<rparr>"
    unfolding kind by (auto simp: Let_def split: sum.split_asm if_split_asm option.split_asm)
  have "distinct exts" "list_all allowed_extension exts" using normalize_extensions_Inr [OF x] by auto
  then show "accepted_input name n"
    using clean_repo_relative_confined [OF dest [unfolded clean_scenario_path_def]] ext nm n
    by (simp add: accepted_input_def sort_strings_sorted list_all_iff allowed_extension_def)
  show "dests (to_lower (rid_destination n)) = None" using ext n by simp
qed

definition input_destination :: "string \<times> runtime_input_declaration \<Rightarrow> string" where
  "input_destination nd = to_lower (rid_destination (snd nd))"

definition accepted_inputs ::
  "(string \<rightharpoonup> string) \<Rightarrow> (string \<times> runtime_input_declaration) list \<Rightarrow> bool" where
  "accepted_inputs dests out \<longleftrightarrow>
     (\<forall>nd\<in>set out. accepted_input (fst nd) (snd nd) \<and> dests (input_destination nd) = None)
   \<and> distinct (map input_destination out)"

lemma accepted_inputs_Cons:
  assumes "accepted_input name n" "dests (to_lower (rid_destination n)) = None"
    "accepted_inputs (dests(to_lower (rid_destination n) \<mapsto> name)) rest"
  shows "accepted_inputs dests ((name, n) # rest)"
proof -
  have "input_destination nd \<noteq> to_lower (rid_destination n) \<and> dests (input_destination nd) = None"
    if "nd \<in> set rest" for nd
    using assms(3) that by (force simp: accepted_inputs_def split: if_split_asm)
  then have "\<forall>nd\<in>set rest. dests (input_destination nd) = None"
    and "to_lower (rid_destination n) \<notin> set (map input_destination rest)"
    by force+
  moreover have "\<forall>nd\<in>set rest. accepted_input (fst nd) (snd nd)" "distinct (map input_destination rest)"
    using assms(3) by (simp_all add: accepted_inputs_def)
  ultimately show ?thesis using assms(1,2) unfolding accepted_inputs_def
    by (simp add: input_destination_def [of "(name, n)"])
qed

lemma normalize_declarations_from_Inr:
  "normalize_declarations_from decls dests names = Inr out \<Longrightarrow>
     accepted_inputs dests out \<and> map fst out = filter (\<lambda>n. map_of decls n \<noteq> None) names"
proof (induction decls dests names arbitrary: out rule: normalize_declarations_from.induct)
  case (1 decls dests)
  then show ?case by (simp add: accepted_inputs_def)
next
  case (2 decls dests name names)
  show ?case
  proof (cases "map_of decls name")
    case None
    then show ?thesis using "2.IH"(1) [OF None] "2.prems" by simp
  next
    case (Some d)
    with "2.prems" obtain n where n: "normalize_declaration dests name d = Inr n"
      by (cases "normalize_declaration dests name d") simp_all
    with "2.prems" Some obtain rest
      where rest: "normalize_declarations_from decls (dests(to_lower (rid_destination n) \<mapsto> name)) names = Inr rest"
        and out: "out = (name, n) # rest"
      by (cases "normalize_declarations_from decls (dests(to_lower (rid_destination n) \<mapsto> name)) names")
        simp_all
    note ih = "2.IH"(2) [OF Some rest]
    show ?thesis
      using accepted_inputs_Cons [OF normalize_declaration_Inr [OF n] ih [THEN conjunct1]]
        ih [THEN conjunct2] Some out by simp
  qed
qed

text \<open>Accepted runtime inputs cannot collide or smuggle code: every declared input is
  kept, under a safe name, with kind \<open>file\<close>, a sorted allowlist without duplicates and
  without forbidden extensions, a confined unreserved destination whose extension is on
  the allowlist, and no two inputs share a destination up to letter case.\<close>

theorem runtime_inputs_safe:
  assumes "normalize_runtime_input_declarations decls = Inr out"
  shows "(\<forall>nd\<in>set out. accepted_input (fst nd) (snd nd))
     \<and> distinct (map input_destination out)
     \<and> fst ` set out = fst ` set decls"
proof -
  note n = normalize_declarations_from_Inr [OF assms [unfolded normalize_runtime_input_declarations_def]]
  have "fst ` set out = {m \<in> fst ` set decls. map_of decls m \<noteq> None}"
    using arg_cong [OF n [THEN conjunct2], of set] by simp
  also have "\<dots> = fst ` set decls" by (auto simp: map_of_eq_None_iff)
  finally show ?thesis using n by (simp add: accepted_inputs_def)
qed

theorem runtime_inputs_safe_witness:
  "to_lower (path_ext ''in/Scene.MA'') \<in> {''.ma'', ''.mb''}
   \<and> normalize_runtime_input_declarations
       [(''scene'', \<lparr>rid_kind = ''File'', rid_extensions = [''.MB'', '' .ma ''], rid_destination = ''in//Scene.MA''\<rparr>)]
     = Inr [(''scene'', \<lparr>rid_kind = ''file'', rid_extensions = [''.ma'', ''.mb''], rid_destination = ''in/Scene.MA''\<rparr>)]"
proof -
  have h: "normalize_runtime_input_declarations
       [(''scene'', \<lparr>rid_kind = ''File'', rid_extensions = [''.MB'', '' .ma ''], rid_destination = ''in//Scene.MA''\<rparr>)]
     = Inr [(''scene'', \<lparr>rid_kind = ''file'', rid_extensions = [''.ma'', ''.mb''], rid_destination = ''in/Scene.MA''\<rparr>)]"
    by code_simp
  then show ?thesis using runtime_inputs_safe [OF h] by (simp add: accepted_input_def)
qed

subsection \<open>The resolved contract is confined\<close>

definition safe_source :: "string \<Rightarrow> bool" where
  "safe_source s \<longleftrightarrow> confined s \<and> \<not> is_reserved_payload_path s"

lemma clean_scenario_path_safe: "clean_scenario_path p = Inr c \<Longrightarrow> safe_source c"
  using clean_repo_relative_confined by (simp add: clean_scenario_path_def safe_source_def)

lemma path_join_payload:
  assumes "confined kind" "confined c"
  shows "path_join [''payload'', kind, c] = ''payload'' @ sep # kind @ sep # c"
proof -
  have "confined ''payload''" by (simp add: confined_split clean_list_def)
  from confined_append [OF this confined_append [OF assms]] show ?thesis
    using assms path_clean_confined [of "''payload'' @ sep # kind @ sep # c"]
    by (cases kind; cases c) (auto simp: path_join_def)
qed

definition staged_safely :: "manifest_payload \<Rightarrow> bool" where
  "staged_safely m \<longleftrightarrow>
     safe_source (mp_source m) \<and> mp_staged m = ''payload/'' @ mp_kind m @ sep # mp_source m"

lemma build_manifest_payload_item_safe:
  assumes "build_manifest_payload_item d = Inr m" "confined (fst d)"
  shows "staged_safely m"
proof -
  obtain c where c: "clean_repo_relative_path (snd d) = Inr c"
    and m: "m = \<lparr>mp_name = [], mp_kind = fst d, mp_source = c,
             mp_staged = path_join [''payload'', fst d, c], mp_size = 0, mp_sha256 = []\<rparr>"
    using assms(1) by (auto simp: build_manifest_payload_item_def split: prod.split_asm)
  from clean_repo_relative_confined [OF c] show ?thesis
    using path_join_payload [OF assms(2), of c] m by (simp add: staged_safely_def safe_source_def)
qed

lemma manifest_payload_kinds: "d \<in> set (manifest_payload_declarations p) \<Longrightarrow> confined (fst d)"
  by (auto simp: manifest_payload_declarations_def confined_split clean_list_def)

lemma build_manifest_payload_safe:
  assumes "build_manifest_payload p = Inr ms"
  shows "list_all staged_safely ms"
  unfolding list_all_iff
proof
  fix m assume "m \<in> set ms"
  with rmap_Inr_set [OF assms [unfolded build_manifest_payload_def]]
  obtain d where "d \<in> set (manifest_payload_declarations p)" "build_manifest_payload_item d = Inr m"
    by blast
  then show "staged_safely m" using build_manifest_payload_item_safe manifest_payload_kinds by blast
qed

lemma check_validator_Inr: "check_validator v = Inr w \<Longrightarrow> w = v"
  unfolding check_validator_def by (split if_split_asm; (split if_split_asm)?; (split if_split_asm)?) simp_all

lemma normalize_validator_safe:
  assumes n: "normalize_validator v = Inr w" and p: "vc_path w \<noteq> []"
  shows "safe_source (vc_path w)"
proof -
  obtain v' where v': "(if vc_path v \<noteq> []
            then rbind (lift_path (clean_scenario_path (vc_path v))) (\<lambda>p. Inr (v\<lparr>vc_path := p\<rparr>))
            else Inr v) = Inr v'" and c: "check_validator v' = Inr w"
    using n unfolding normalize_validator_def by auto
  show ?thesis
  proof (cases "vc_path v = []")
    case True
    with v' p check_validator_Inr [OF c] show ?thesis by simp
  next
    case False
    with v' obtain q where "clean_scenario_path (vc_path v) = Inr q" "v' = v\<lparr>vc_path := q\<rparr>" by auto
    with check_validator_Inr [OF c] show ?thesis using clean_scenario_path_safe by simp
  qed
qed

lemma normalize_scenario_paths_safe:
  "normalize_scenario_paths ps = Inr qs \<Longrightarrow> q \<in> set qs \<Longrightarrow> safe_source q"
proof -
  assume h: "normalize_scenario_paths ps = Inr qs" and q: "q \<in> set qs"
  obtain p where "clean_scenario_path p = Inr q"
    using rmap_Inr_set [OF h [unfolded normalize_scenario_paths_def] q] by auto
  then show ?thesis by (rule clean_scenario_path_safe)
qed

text \<open>The outputs of a contract, whatever was collected before.\<close>

definition outputs_ok :: "scenario_output_path list \<Rightarrow> bool" where
  "outputs_ok os \<longleftrightarrow> list_all (\<lambda>o'. safe_source (op_path o')) os \<and> distinct (map op_path os)"

lemma add_output_ok:
  "outputs_ok os \<Longrightarrow> fst po = [] \<or> safe_source (fst po) \<Longrightarrow> outputs_ok (add_output po os)"
  by (cases po) (auto simp: add_output_def outputs_ok_def)

lemma fold_add_output_ok:
  "outputs_ok os \<Longrightarrow> list_all (\<lambda>po. fst po = [] \<or> safe_source (fst po)) pos \<Longrightarrow>
     outputs_ok (fold add_output pos os)"
  by (induction pos arbitrary: os) (simp_all add: add_output_ok)

lemma add_output_prefix: "\<exists>zs. add_output po (o' # os) = o' # zs"
  by (cases po) (simp add: add_output_def)

lemma fold_add_output_prefix: "\<exists>zs. fold add_output pos (o' # os) = o' # zs"
  by (induction pos arbitrary: os) (simp, metis add_output_prefix fold_simps(2))

lemma scenario_output_paths_ok:
  assumes "safe_source (eo_scenario_result (sc_expected s))"
    "list_all safe_source (eo_files (sc_expected s))"
    "list_all (\<lambda>v. vc_path v = [] \<or> safe_source (vc_path v)) (sc_validators s)"
  shows "outputs_ok (scenario_output_paths s)"
    "\<exists>zs. scenario_output_paths s = \<lparr>op_path = eo_scenario_result (sc_expected s), op_optional = False\<rparr> # zs"
proof -
  show "outputs_ok (scenario_output_paths s)"
    unfolding scenario_output_paths_def
    by (rule fold_add_output_ok) (use assms in \<open>auto simp: outputs_ok_def list_all_iff\<close>)
  have "eo_scenario_result (sc_expected s) \<noteq> []" using assms(1) by (auto simp: safe_source_def)
  then show "\<exists>zs. scenario_output_paths s = \<lparr>op_path = eo_scenario_result (sc_expected s), op_optional = False\<rparr> # zs"
    unfolding scenario_output_paths_def
    by (simp add: add_output_def [of "(eo_scenario_result (sc_expected s), False)"] fold_add_output_prefix
        del: fold_append)
qed

lemma normalize_scenario_config_safe:
  assumes "normalize_scenario_config raw = Inr s"
  shows "safe_source (eo_scenario_result (sc_expected s))"
    "list_all safe_source (eo_files (sc_expected s))"
    "list_all (\<lambda>v. vc_path v = [] \<or> safe_source (vc_path v)) (sc_validators s)"
proof -
  from assms obtain r pay fs vs where r: "clean_scenario_path (eo_scenario_result (sc_expected raw)) = Inr r"
    and fs: "normalize_scenario_paths (eo_files (sc_expected raw)) = Inr fs"
    and vs: "rmap normalize_validator (sc_validators raw) = Inr vs"
    and s: "s = raw\<lparr>sc_expected := \<lparr>eo_files = fs, eo_scenario_result = r\<rparr>,
                           sc_payload := pay, sc_validators := vs\<rparr>"
    by (auto simp: normalize_scenario_config_def normalize_validators_def
        split: sum.split_asm if_split_asm)
  show "safe_source (eo_scenario_result (sc_expected s))" using clean_scenario_path_safe [OF r] s by simp
  show "list_all safe_source (eo_files (sc_expected s))"
    using normalize_scenario_paths_safe [OF fs] s by (simp add: list_all_iff)
  have "vc_path v = [] \<or> safe_source (vc_path v)" if "v \<in> set vs" for v
    using rmap_Inr_set [OF vs that] normalize_validator_safe by blast
  then show "list_all (\<lambda>v. vc_path v = [] \<or> safe_source (vc_path v)) (sc_validators s)"
    using s by (simp add: list_all_iff)
qed

text \<open>C7. A resolved scenario contract never leaves the repository or the run: every payload
  source is confined and outside the reserved trees, it is staged exactly under
  \<open>payload/<kind>/\<close>, every output to collect is confined, no output is collected twice, and
  the first output is the required scenario result.\<close>

theorem contract_confined:
  assumes "resolve_scenario_contract config name = Inr ct"
  shows "list_all staged_safely (ct_payload ct) \<and> outputs_ok (ct_outputs ct)
     \<and> (\<exists>rest. ct_outputs ct = \<lparr>op_path = ct_result_path ct, op_optional = False\<rparr> # rest)"
proof -
  from assms obtain raw s pay where s: "normalize_scenario_config raw = Inr s"
    and pay: "build_manifest_payload (sc_payload s) = Inr pay"
    and ct: "ct = \<lparr>ct_name = name, ct_config = s, ct_payload = pay,
               ct_result_path = eo_scenario_result (sc_expected s),
               ct_outputs = scenario_output_paths s\<rparr>"
    by (auto simp: resolve_scenario_contract_def split: option.split_asm)
  note safe = normalize_scenario_config_safe [OF s]
  show ?thesis
    using build_manifest_payload_safe [OF pay] scenario_output_paths_ok [OF safe] ct by simp
qed

subsection \<open>The frozen payload\<close>

definition same_tree :: "manifest_payload \<Rightarrow> manifest_payload \<Rightarrow> bool" where
  "same_tree a b \<longleftrightarrow> mp_kind a = mp_kind b \<and> covered_by (mp_source a) (mp_source b)"

definition depth :: "manifest_payload \<Rightarrow> nat" where
  "depth m = count_list (mp_source m) sep"

lemma covered_by_depth:
  "covered_by s b \<Longrightarrow> s = b \<or> count_list b sep < count_list s sep"
  by (auto simp: covered_by_def has_prefix_iff)

lemma snapshot_copies_subset: "set (snapshot_copies copied items) \<subseteq> set items"
  by (induction copied items rule: snapshot_copies.induct) (auto simp del: fun_upd_apply)

lemma snapshot_copies_new:
  "m \<in> set (snapshot_copies copied items) \<Longrightarrow> \<not> is_runtime_input_kind (mp_kind m)
     \<and> (\<forall>base\<in>set (copied (mp_kind m)). \<not> covered_by (mp_source m) base)"
proof (induction copied items rule: snapshot_copies.induct)
  case (2 copied item rest)
  then show ?case by (fastforce split: if_split_asm)
qed simp

lemma snapshot_copies_cover:
  "m \<in> set items \<Longrightarrow> \<not> is_runtime_input_kind (mp_kind m) \<Longrightarrow>
     (\<exists>c\<in>set (snapshot_copies copied items). same_tree m c)
   \<or> (\<exists>base\<in>set (copied (mp_kind m)). covered_by (mp_source m) base)"
proof (induction copied items rule: snapshot_copies.induct)
  case (2 copied item rest)
  show ?case
  proof (cases "m = item")
    case True
    then show ?thesis using "2.prems" by (auto simp: same_tree_def covered_by_def)
  next
    case False
    then have m: "m \<in> set rest" using "2.prems" by simp
    show ?thesis
    proof (cases "is_runtime_input_kind (mp_kind item) \<or>
        (\<exists>base\<in>set (copied (mp_kind item)). covered_by (mp_source item) base)")
      case True
      then show ?thesis using "2.IH"(1,2) m "2.prems"(2) by (auto split: if_split_asm)
    next
      case False
      then have "(\<exists>c\<in>set (snapshot_copies
             (copied(mp_kind item := copied (mp_kind item) @ [mp_source item])) rest). same_tree m c)
         \<or> (\<exists>base\<in>set ((copied(mp_kind item := copied (mp_kind item) @ [mp_source item])) (mp_kind m)).
               covered_by (mp_source m) base)"
        using "2.IH"(3) m "2.prems"(2) by blast
      then show ?thesis using False by (auto simp: same_tree_def split: if_split_asm)
    qed
  qed
qed simp

lemma snapshot_copies_apart:
  "sorted_wrt (\<lambda>a b. \<not> depth b < depth a) items \<Longrightarrow>
     sorted_wrt (\<lambda>a b. \<not> same_tree a b \<and> \<not> same_tree b a) (snapshot_copies copied items)"
proof (induction copied items rule: snapshot_copies.induct)
  case (2 copied item rest)
  let ?copied = "copied(mp_kind item := copied (mp_kind item) @ [mp_source item])"
  have "\<not> same_tree item m \<and> \<not> same_tree m item" if m: "m \<in> set (snapshot_copies ?copied rest)" for m
  proof -
    have "m \<in> set rest" using m snapshot_copies_subset by blast
    then have d: "\<not> depth m < depth item" using "2.prems" by simp
    have new: "\<not> same_tree m item" using snapshot_copies_new [OF m] by (auto simp: same_tree_def)
    moreover have "\<not> same_tree item m"
    proof
      assume s: "same_tree item m"
      then have "mp_source item = mp_source m"
        using covered_by_depth d by (auto simp: same_tree_def depth_def)
      with s new show False by (simp add: same_tree_def covered_by_def)
    qed
    ultimately show ?thesis by blast
  qed
  then show ?case using 2 by (simp del: fun_upd_apply)
qed simp

interpretation depth_order: strict_weak "\<lambda>a b. count_list (mp_source a) sep < count_list (mp_source b) sep"
  by unfold_locales auto


definition sample_contract_scenario :: scenario_config where
  "sample_contract_scenario = sample_scenario
     \<lparr>sc_expected := \<lparr>eo_files = [''out/log.txt'', ''out//result.json''],
                       eo_scenario_result = ''out/result.json''\<rparr>,
      sc_payload := (sc_payload sample_scenario)
        \<lparr>pay_scenes := [''maya/./a.ma''], pay_maya_scripts := [], pay_scripts := [],
         pay_plugin_artifacts := [], pay_expected_outputs := [], pay_include_paths := [],
         pay_runtime_inputs := []\<rparr>\<rparr>"

definition sample_contract_config :: repo_run_config where
  "sample_contract_config =
     \<lparr>rc_version = 1,
      rc_ledger = \<lparr>rlc_retention = [], rlc_max_events = 0, rlc_max_event_bytes = 0, rlc_max_log_bytes = 0\<rparr>,
      rc_scenarios = [(''smoke'', sample_contract_scenario)]\<rparr>"

theorem contract_confined_witness:
  "\<exists>ct. resolve_scenario_contract sample_contract_config ''smoke'' = Inr ct
     \<and> map mp_staged (ct_payload ct) = [''payload/scenes/maya/a.ma'']
     \<and> outputs_ok (ct_outputs ct)"
proof -
  have "case resolve_scenario_contract sample_contract_config ''smoke'' of
      Inl _ \<Rightarrow> False | Inr ct \<Rightarrow> map mp_staged (ct_payload ct) = [''payload/scenes/maya/a.ma'']"
    by code_simp
  then obtain ct where h: "resolve_scenario_contract sample_contract_config ''smoke'' = Inr ct"
    and st: "map mp_staged (ct_payload ct) = [''payload/scenes/maya/a.ma'']"
    by (rule result_okE)
  show ?thesis
    by (intro exI [of _ ct] conjI h st contract_confined [OF h, THEN conjunct2, THEN conjunct1])
qed


end
