(* ===== verification/Go_Time.thy ===== *)
theory Go_Time
  imports Stall_Prelude
begin

text \<open>
  Time stamps as the code writes them into lock files: \<open>time.Time.UTC().Format(time.RFC3339Nano)\<close>
  and \<open>time.Parse(time.RFC3339Nano, ...)\<close> of the Go standard library, on times counted in
  nanoseconds since 1970-01-01T00:00:00Z.  The parser accepts what Go's accepts: a one-digit
  hour, a fraction introduced by a dot or a comma and of any length (digits after the ninth
  are dropped), and a zone offset.  \<open>parse_format\<close> says that a written stamp is read back
  exactly.
\<close>

subsection \<open>The calendar\<close>

definition leap_year :: "int \<Rightarrow> bool" where
  "leap_year y \<longleftrightarrow> 4 dvd y \<and> (\<not> 100 dvd y \<or> 400 dvd y)"

definition year_days :: "int \<Rightarrow> int" where
  "year_days y = (if leap_year y then 366 else 365)"

definition month_days :: "int \<Rightarrow> int \<Rightarrow> int" where
  "month_days y m =
     (if m = 2 then (if leap_year y then 29 else 28)
      else if m \<in> {4, 6, 9, 11} then 30 else 31)"

text \<open>Days from 0001-01-01 to the first day of year \<open>y\<close>.\<close>

definition days_before_year :: "int \<Rightarrow> int" where
  "days_before_year y = 365 * (y - 1) + (y - 1) div 4 - (y - 1) div 100 + (y - 1) div 400"

fun days_before_month :: "int \<Rightarrow> nat \<Rightarrow> int" where
  "days_before_month y 0 = 0"
| "days_before_month y (Suc m) = days_before_month y m + month_days y (int m + 1)"

function year_from :: "int \<Rightarrow> int \<Rightarrow> int \<times> int" where
  "year_from y d = (if d < year_days y then (y, d) else year_from (y + 1) (d - year_days y))"
  by pat_completeness auto
termination by (relation "measure (\<lambda>(y, d). nat d)") (auto simp: year_days_def split: if_split_asm)

declare year_from.simps [simp del]

fun month_from :: "int \<Rightarrow> nat \<Rightarrow> nat \<Rightarrow> int \<Rightarrow> nat \<times> int" where
  "month_from y 0 m d = (m, d)"
| "month_from y (Suc fuel) m d =
     (if d < month_days y (int m + 1) then (m, d)
      else month_from y fuel (Suc m) (d - month_days y (int m + 1)))"

text \<open>Year, month (from 0) and day of the month (from 0) of a day counted from 0001-01-01.\<close>

definition civil_of_days :: "int \<Rightarrow> int \<times> nat \<times> int" where
  "civil_of_days d =
     (let y0 = d div 366 + 1; (y, r) = year_from y0 (d - days_before_year y0);
          (m, r') = month_from y 11 0 r
      in (y, m, r'))"

definition days_of_civil :: "int \<Rightarrow> nat \<Rightarrow> int \<Rightarrow> int" where
  "days_of_civil y m d = days_before_year y + days_before_month y m + d"

lemma div_step: "0 < n \<Longrightarrow> (y :: int) div n = (y - 1) div n + (if n dvd y then 1 else 0)"
proof -
  assume n: "0 < n"
  show ?thesis
  proof (cases "n dvd y")
    case True
    then obtain k where "y = n * k" by auto
    moreover have "(n * k - 1) div n = k - 1"
      using n by (intro int_div_pos_eq [where r = "n - 1"]) (auto simp: algebra_simps)
    ultimately show ?thesis using n by simp
  next
    case False
    then have m: "0 < y mod n" using n by (simp add: dvd_eq_mod_eq_0 order.not_eq_order_implies_strict)
    have "(y - 1) div n = y div n"
    proof (rule int_div_pos_eq [where r = "y mod n - 1"])
      show "y - 1 = n * (y div n) + (y mod n - 1)" by (simp add: mult_div_mod_eq [symmetric] algebra_simps)
      show "0 \<le> y mod n - 1" using m by simp
      show "y mod n - 1 < n" using n pos_mod_bound [of n y] by linarith
    qed
    then show ?thesis using False by simp
  qed
qed

lemma days_before_year_Suc: "days_before_year (y + 1) = days_before_year y + year_days y"
proof -
  have i: "100 dvd y \<Longrightarrow> 4 dvd y" "400 dvd y \<Longrightarrow> 100 dvd y"
    using dvd_trans [of 4 100 y] dvd_trans [of 100 400 y] by simp_all
  note s = div_step [of 4 y] div_step [of 100 y] div_step [of 400 y]
  show ?thesis
  proof (cases "4 dvd y")
    case False
    with i s show ?thesis unfolding days_before_year_def year_days_def leap_year_def by auto
  next
    case four: True
    show ?thesis
    proof (cases "100 dvd y")
      case False
      with four i s show ?thesis unfolding days_before_year_def year_days_def leap_year_def by auto
    next
      case True
      with four s show ?thesis unfolding days_before_year_def year_days_def leap_year_def
        by (cases "400 dvd y") auto
    qed
  qed
qed

lemma year_from_inv:
  "year_from y d = (y', d') \<Longrightarrow> 0 \<le> d \<Longrightarrow>
     days_before_year y' + d' = days_before_year y + d \<and> 0 \<le> d' \<and> d' < year_days y' \<and> y \<le> y'"
proof (induction y d rule: year_from.induct)
  case (1 y d)
  show ?case
  proof (cases "d < year_days y")
    case True
    then show ?thesis using 1 by (simp add: year_from.simps)
  next
    case False
    then show ?thesis using 1 by (simp add: year_from.simps [of y d] days_before_year_Suc)
  qed
qed

lemma days_before_year_bound: "0 \<le> k \<Longrightarrow> days_before_year (k + 1) \<le> 366 * k"
  by (simp add: days_before_year_def)

lemma month_from_inv:
  "month_from y fuel m d = (m', d') \<Longrightarrow> 0 \<le> d \<Longrightarrow>
     days_before_month y m' + d' = days_before_month y m + d \<and> 0 \<le> d' \<and> m \<le> m' \<and> m' \<le> m + fuel
   \<and> (d' < month_days y (int m' + 1) \<or> m' = m + fuel)"
proof (induction y fuel m d rule: month_from.induct)
  case (2 y fuel m d)
  show ?case
  proof (cases "d < month_days y (int m + 1)")
    case False
    then show ?thesis using 2 by fastforce
  qed (use 2 in auto)
qed auto

lemma days_before_month_11: "days_before_month y 11 = year_days y - 31"
  by (simp add: numeral_eq_Suc month_days_def year_days_def)

lemma civil_of_days:
  assumes "0 \<le> d" "civil_of_days d = (y, m, r)"
  shows "days_of_civil y m r = d" "1 \<le> y" "m \<le> 11" "0 \<le> r" "r < month_days y (int m + 1)"
proof -
  let ?y0 = "d div 366 + 1"
  obtain r0 where y: "year_from ?y0 (d - days_before_year ?y0) = (y, r0)"
    and m: "month_from y 11 0 r0 = (m, r)"
    using assms(2) by (auto simp: civil_of_days_def Let_def split: prod.splits)
  have "0 \<le> d - days_before_year ?y0"
    using days_before_year_bound [of "d div 366"] assms(1) mult_div_mod_eq [of 366 d]
      pos_mod_sign [of 366 d] by (simp add: pos_imp_zdiv_nonneg_iff)
  note yi = year_from_inv [OF y this]
  note mi = month_from_inv [OF m conjunct1 [OF conjunct2 [OF yi]]]
  show "days_of_civil y m r = d" using yi mi by (simp add: days_of_civil_def)
  have "0 \<le> d div 366" using assms(1) by (simp add: pos_imp_zdiv_nonneg_iff)
  then show "1 \<le> y" using yi by simp
  show "m \<le> 11" "0 \<le> r" using mi by auto
  show "r < month_days y (int m + 1)"
  proof (cases "m = 11")
    case True
    then show ?thesis using mi yi days_before_month_11 [of y] by (simp add: month_days_def)
  qed (use mi in simp)
qed

subsection \<open>Digits\<close>

fun pad_digits :: "nat \<Rightarrow> int \<Rightarrow> string" where
  "pad_digits 0 n = []"
| "pad_digits (Suc w) n = pad_digits w (n div 10) @ [digit_char (nat (n mod 10))]"

fun digits_int :: "int \<Rightarrow> string \<Rightarrow> int option" where
  "digits_int n [] = Some n"
| "digits_int n (c # cs) = (if is_digit c then digits_int (10 * n + int (digit_val c)) cs else None)"

definition read_digits :: "nat \<Rightarrow> string \<Rightarrow> (int \<times> string) option" where
  "read_digits k s =
     (if k \<le> length s then map_option (\<lambda>n. (n, drop k s)) (digits_int 0 (take k s)) else None)"

lemma digits_int_append:
  "digits_int n (s @ t) = (case digits_int n s of None \<Rightarrow> None | Some m \<Rightarrow> digits_int m t)"
  by (induction s arbitrary: n) auto

lemma length_pad_digits [simp]: "length (pad_digits w n) = w"
  by (induction w arbitrary: n) auto

lemma pad_digits_digits: "c \<in> set (pad_digits w n) \<Longrightarrow> is_digit c"
  by (induction w arbitrary: n) (auto simp: digit_char_digit nat_less_iff)

lemma digits_int_pad: "0 \<le> n \<Longrightarrow> n < 10 ^ w \<Longrightarrow> digits_int a (pad_digits w n) = Some (a * 10 ^ w + n)"
proof (induction w arbitrary: n)
  case (Suc w)
  have "n div 10 < 10 ^ w" using Suc.prems by simp
  then show ?case
    using Suc.IH [of "n div 10"] Suc.prems(1)
    by (simp add: digits_int_append digit_char_digit nat_less_iff pos_imp_zdiv_nonneg_iff algebra_simps)
qed simp

lemma read_digits_pad [simp]:
  "0 \<le> n \<Longrightarrow> n < 10 ^ w \<Longrightarrow> read_digits w (pad_digits w n @ r) = Some (n, r)"
  by (simp add: read_digits_def digits_int_pad)

subsection \<open>Formatting\<close>

definition second_ns :: int where "second_ns = 1000000000"
definition day_ns :: int where "day_ns = 86400 * second_ns"

text \<open>Days from 0001-01-01 to 1970-01-01.\<close>

definition epoch_days :: int where "epoch_days = 719162"

definition strip_zeros :: "string \<Rightarrow> string" where
  "strip_zeros s = rev (dropWhile (\<lambda>c. c = CHR ''0'') (rev s))"

definition fraction_text :: "int \<Rightarrow> string" where
  "fraction_text n = (if n = 0 then [] else CHR ''.'' # strip_zeros (pad_digits 9 n))"

definition year_text :: "int \<Rightarrow> string" where
  "year_text y = (if y < 10000 then pad_digits 4 y else show_int y)"

definition format_rfc3339nano :: "int \<Rightarrow> string" where
  "format_rfc3339nano t =
     (let (y, m, d) = civil_of_days (t div day_ns + epoch_days);
          s = t mod day_ns div second_ns; n = t mod second_ns
      in year_text y @ ''-'' @ pad_digits 2 (int m + 1) @ ''-'' @ pad_digits 2 (d + 1) @ ''T''
       @ pad_digits 2 (s div 3600) @ '':'' @ pad_digits 2 (s div 60 mod 60) @ '':''
       @ pad_digits 2 (s mod 60) @ fraction_text n @ ''Z'')"

subsection \<open>Parsing\<close>

definition expect :: "char \<Rightarrow> string \<Rightarrow> string option" where
  "expect c s = (case s of [] \<Rightarrow> None | x # r \<Rightarrow> if x = c then Some r else None)"

definition read_hour :: "string \<Rightarrow> (int \<times> string) option" where
  "read_hour s =
     (case read_digits 2 s of Some r \<Rightarrow> Some r | None \<Rightarrow> read_digits 1 s)"

definition read_fraction :: "string \<Rightarrow> int \<times> string" where
  "read_fraction s =
     (case s of
        c # d # r \<Rightarrow>
          if (c = CHR ''.'' \<or> c = CHR '','') \<and> is_digit d
          then (let ds = take 9 (takeWhile is_digit (d # r))
                in (the (digits_int 0 ds) * 10 ^ (9 - length ds), dropWhile is_digit (d # r)))
          else (0, s)
      | _ \<Rightarrow> (0, s))"

text \<open>The zone, in seconds east of UTC; nothing may follow it.\<close>

definition read_zone :: "string \<Rightarrow> int option" where
  "read_zone s =
     (case s of
        [] \<Rightarrow> None
      | c # r \<Rightarrow>
          if c = CHR ''Z'' then (if r = [] then Some 0 else None)
          else
            Option.bind (read_digits 2 r) (\<lambda>(h, r1).
            Option.bind (expect (CHR '':'') r1) (\<lambda>r2.
            Option.bind (read_digits 2 r2) (\<lambda>(m, r3).
            if r3 \<noteq> [] \<or> 24 < h \<or> 60 < m then None
            else if c = CHR ''+'' then Some ((h * 60 + m) * 60)
            else if c = CHR ''-'' then Some (- ((h * 60 + m) * 60))
            else None))))"

definition parse_rfc3339nano :: "string \<Rightarrow> int option" where
  "parse_rfc3339nano v =
     Option.bind (read_digits 4 v) (\<lambda>(y, v).
     Option.bind (expect (CHR ''-'') v) (\<lambda>v.
     Option.bind (read_digits 2 v) (\<lambda>(m, v).
     if m < 1 \<or> 12 < m then None else
     Option.bind (expect (CHR ''-'') v) (\<lambda>v.
     Option.bind (read_digits 2 v) (\<lambda>(d, v).
     Option.bind (expect (CHR ''T'') v) (\<lambda>v.
     Option.bind (read_hour v) (\<lambda>(h, v).
     if 24 \<le> h then None else
     Option.bind (expect (CHR '':'') v) (\<lambda>v.
     Option.bind (read_digits 2 v) (\<lambda>(mi, v).
     if 60 \<le> mi then None else
     Option.bind (expect (CHR '':'') v) (\<lambda>v.
     Option.bind (read_digits 2 v) (\<lambda>(s, v).
     if 60 \<le> s then None else
     (let (ns, v) = read_fraction v in
     Option.bind (read_zone v) (\<lambda>offset.
     if d < 1 \<or> month_days y m < d then None
     else Some (((days_of_civil y (nat m - 1) (d - 1) - epoch_days) * 86400
                 + (h * 3600 + mi * 60 + s) - offset) * second_ns + ns))))))))))))))"

subsection \<open>A written stamp is read back\<close>

lemma strip_zeros_replicate: "\<exists>j. s = strip_zeros s @ replicate j (CHR ''0'')"
proof -
  have "rev s = takeWhile (\<lambda>c. c = CHR ''0'') (rev s) @ dropWhile (\<lambda>c. c = CHR ''0'') (rev s)" by simp
  then have "s = strip_zeros s @ rev (takeWhile (\<lambda>c. c = CHR ''0'') (rev s))"
    unfolding strip_zeros_def by (metis rev_append rev_rev_ident)
  moreover have "takeWhile (\<lambda>c. c = CHR ''0'') (rev s)
      = replicate (length (takeWhile (\<lambda>c. c = CHR ''0'') (rev s))) (CHR ''0'')"
    by (rule replicate_length_same [symmetric]) (auto dest: set_takeWhileD)
  ultimately show ?thesis by (metis rev_replicate)
qed

lemma digits_int_zeros:
  "digits_int a (replicate j (CHR ''0'')) = Some (a * 10 ^ j)"
proof (induction j arbitrary: a)
  case (Suc j)
  have "is_digit (CHR ''0'')" "digit_val (CHR ''0'') = 0" by (simp_all add: is_digit_def digit_val_def)
  then show ?case using Suc [of "10 * a"] by simp
qed simp

lemma read_fraction_text:
  assumes n: "0 \<le> n" "n < 10 ^ 9"
  shows "read_fraction (fraction_text n @ ''Z'') = (n, ''Z'')"
proof (cases "n = 0")
  case True
  then show ?thesis by (simp add: fraction_text_def read_fraction_def)
next
  case False
  define f where "f = strip_zeros (pad_digits 9 n)"
  obtain j where j: "pad_digits 9 n = f @ replicate j (CHR ''0'')"
    using strip_zeros_replicate [of "pad_digits 9 n"] f_def by blast
  have len: "length f + j = 9" using arg_cong [OF j, of length] by simp
  have dig: "\<forall>c\<in>set f. is_digit c" using pad_digits_digits [of _ 9 n] by (simp add: j)
  have v: "Option.bind (digits_int 0 f) (\<lambda>v. Some (v * 10 ^ j)) = Some n"
    using digits_int_pad [OF n, of 0] unfolding j
    by (cases "digits_int 0 f") (simp_all add: digits_int_append digits_int_zeros)
  then obtain w where w: "digits_int 0 f = Some w" "w * 10 ^ j = n" by (cases "digits_int 0 f") auto
  have "f \<noteq> []" using w False by auto
  then obtain c r where cr: "f = c # r" by (cases f) auto
  have "\<not> is_digit (CHR ''Z'')" by (simp add: is_digit_def)
  then have tw: "takeWhile is_digit (f @ ''Z'') = f" "dropWhile is_digit (f @ ''Z'') = ''Z''"
    using dig by (simp_all add: takeWhile_append2 dropWhile_append2)
  have "read_fraction (CHR ''.'' # f @ ''Z'') = (w * 10 ^ (9 - length f), ''Z'')"
    using tw w(1) dig len cr by (simp add: read_fraction_def Let_def)
  moreover have "9 - length f = j" using len by simp
  ultimately show ?thesis using False w(2) by (simp add: fraction_text_def f_def [symmetric])
qed

text \<open>The instants whose year has four digits.\<close>

definition writable_time :: "int \<Rightarrow> bool" where
  "writable_time t \<longleftrightarrow> - (epoch_days * day_ns) \<le> t \<and> t < 253402300800 * second_ns"

lemma days_before_year_10000: "10000 \<le> y \<Longrightarrow> 3652059 \<le> days_before_year y"
proof (induction y rule: int_ge_induct)
  case base
  show ?case by (simp add: days_before_year_def)
next
  case (step y)
  then show ?case by (simp add: days_before_year_Suc year_days_def)
qed

lemma month_prefix_nonneg: "0 \<le> days_before_month y m"
  by (induction m) (auto simp: month_days_def)

lemma read_hour_pad: "0 \<le> n \<Longrightarrow> n < 100 \<Longrightarrow> read_hour (pad_digits 2 n @ r) = Some (n, r)"
  using read_digits_pad [of n 2 r] by (simp add: read_hour_def)

lemma expect_same [simp]: "expect c (c # r) = Some r"
  by (simp add: expect_def)

lemma parse_written:
  assumes "0 \<le> y" "y < 10000" "m \<le> 11" "0 \<le> d" "d < month_days y (int m + 1)"
    "0 \<le> h" "h < 24" "0 \<le> mi" "mi < 60" "0 \<le> s" "s < 60" "0 \<le> n" "n < 10 ^ 9"
  shows "parse_rfc3339nano (pad_digits 4 y @ ''-'' @ pad_digits 2 (int m + 1) @ ''-''
      @ pad_digits 2 (d + 1) @ ''T'' @ pad_digits 2 h @ '':''
      @ pad_digits 2 mi @ '':'' @ pad_digits 2 s @ fraction_text n @ ''Z'')
    = Some (((days_of_civil y m d - epoch_days) * 86400 + (h * 3600 + mi * 60 + s)) * second_ns + n)"
proof -
  have "month_days y (int m + 1) \<le> 31" by (simp add: month_days_def)
  then have d: "d + 1 < 100" "\<not> month_days y (int m + 1) < d + 1" using assms(5) by auto
  have m: "nat (int m + 1) - Suc 0 = m" by simp
  show ?thesis
    using assms(1-4,6-13) d unfolding parse_rfc3339nano_def
    by (simp add: read_hour_pad read_fraction_text read_zone_def m)
qed

lemma parse_format_rfc3339nano:
  assumes "writable_time t"
  shows "parse_rfc3339nano (format_rfc3339nano t) = Some t"
proof -
  let ?days = "t div day_ns + epoch_days"
  obtain y m d where c: "civil_of_days ?days = (y, m, d)" by (cases "civil_of_days ?days") auto
  have pos: "0 < day_ns" "0 < second_ns" by (simp_all add: day_ns_def second_ns_def)
  have "(- epoch_days) * day_ns div day_ns \<le> t div day_ns"
    using assms pos(1) unfolding writable_time_def by (intro zdiv_mono1) auto
  moreover have "(- epoch_days) * day_ns div day_ns = - epoch_days"
    using pos(1) by (intro nonzero_mult_div_cancel_right) simp
  ultimately have d0: "0 \<le> ?days" by linarith
  note cd = civil_of_days [OF d0 c]
  have "t div day_ns < 2932897"
  proof (rule ccontr)
    assume "\<not> t div day_ns < 2932897"
    then have "2932897 * day_ns \<le> t div day_ns * day_ns" using pos(1) by (intro mult_right_mono) auto
    also have "\<dots> \<le> t" using div_mult_mod_eq [of t day_ns] pos_mod_sign [OF pos(1), of t] by linarith
    finally show False using assms by (simp add: writable_time_def day_ns_def second_ns_def)
  qed
  then have "?days < 3652059" by (simp add: epoch_days_def)
  then have y4: "y < 10000"
    using cd days_before_year_10000 [of y] month_prefix_nonneg [of y m]
    by (simp add: days_of_civil_def) (meson linorder_not_le order_less_le_trans)
  have y0: "0 \<le> y" using cd(2) by linarith
  define s where "s = t mod day_ns div second_ns"
  define n where "n = t mod second_ns"
  have n9: "0 \<le> n" "n < 10 ^ 9" by (simp_all add: n_def second_ns_def)
  have s: "0 \<le> s" "s < 86400"
    using pos by (simp_all add: s_def pos_imp_zdiv_nonneg_iff) (simp add: day_ns_def second_ns_def)
  have fmt: "format_rfc3339nano t = pad_digits 4 y @ ''-'' @ pad_digits 2 (int m + 1) @ ''-''
      @ pad_digits 2 (d + 1) @ ''T'' @ pad_digits 2 (s div 3600) @ '':''
      @ pad_digits 2 (s div 60 mod 60) @ '':'' @ pad_digits 2 (s mod 60) @ fraction_text n @ ''Z''"
    using c y4 by (simp add: format_rfc3339nano_def Let_def year_text_def s_def n_def)
  have rng: "0 \<le> s div 3600" "s div 3600 < 24" "0 \<le> s div 60 mod 60" "s div 60 mod 60 < 60"
    "0 \<le> s mod 60" "s mod 60 < 60"
    using s by (simp_all add: pos_imp_zdiv_nonneg_iff)
  have "parse_rfc3339nano (format_rfc3339nano t)
      = Some ((((days_of_civil y m d - epoch_days) * 86400
                 + (s div 3600 * 3600 + s div 60 mod 60 * 60 + s mod 60)) * second_ns + n))"
    unfolding fmt by (rule parse_written [OF y0 y4 cd(3) cd(4) cd(5) rng n9])
  also have "s div 3600 * 3600 + s div 60 mod 60 * 60 + s mod 60 = s"
  proof -
    have "s div 3600 = s div 60 div 60" by (simp add: zdiv_zmult2_eq [symmetric])
    with div_mult_mod_eq [of s 60] div_mult_mod_eq [of "s div 60" 60] show ?thesis by linarith
  qed
  also have "((days_of_civil y m d - epoch_days) * 86400 + s) * second_ns + n = t"
  proof -
    have "t mod second_ns = t mod day_ns mod second_ns"
      by (simp add: day_ns_def mod_mod_cancel)
    then have "t mod day_ns = s * second_ns + n"
      unfolding s_def n_def using div_mult_mod_eq [of "t mod day_ns" second_ns] by simp
    moreover have "t = t div day_ns * day_ns + t mod day_ns" by simp
    moreover have "t div day_ns * day_ns = (t div day_ns) * 86400 * second_ns"
      unfolding day_ns_def by (simp only: mult.assoc)
    moreover have "(t div day_ns * 86400 + s) * second_ns = (t div day_ns) * 86400 * second_ns + s * second_ns"
      by (rule distrib_right)
    ultimately show ?thesis using cd(1) by simp
  qed
  finally show ?thesis .
qed

lemma digit_plain: "is_digit c \<Longrightarrow> plain_char c"
  by (simp add: is_digit_def plain_char_def Let_def)

lemma strip_zeros_subset: "set (strip_zeros s) \<subseteq> set s"
  unfolding strip_zeros_def by (metis set_dropWhileD set_rev subsetI)

lemma format_rfc3339nano_plain: "c \<in> set (format_rfc3339nano t) \<Longrightarrow> plain_char c"
proof -
  have pad: "x \<in> set (pad_digits w n) \<Longrightarrow> plain_char x" for x w n
    by (rule digit_plain [OF pad_digits_digits])
  have frac: "x \<in> set (fraction_text n) \<Longrightarrow> plain_char x" for x n
    using strip_zeros_subset [of "pad_digits 9 n"] pad
    by (auto simp: fraction_text_def plain_char_def split: if_split_asm)
  have year: "x \<in> set (year_text y) \<Longrightarrow> plain_char x" for x y
    using pad show_nat_digits digit_plain
    by (auto simp: year_text_def show_int_def split: if_split_asm)
  have lit: "plain_char (CHR ''-'')" "plain_char (CHR ''T'')" "plain_char (CHR '':'')" "plain_char (CHR ''Z'')"
    by (simp_all add: plain_char_def)
  show "c \<in> set (format_rfc3339nano t) \<Longrightarrow> plain_char c"
    using pad frac year lit
    by (auto simp: format_rfc3339nano_def Let_def simp del: pad_digits.simps split: prod.splits)
qed

end
