(* ===== verification/Host_Lock.thy ===== *)
theory Host_Lock
  imports Go_Time Repo_Config Scenario_Paths
begin

text \<open>
  The Host Lock on this machine (\<open>host_pool.go\<close>): the text of a lock file and its parser,
  staleness, acquisition with reclaim, the compare-and-swap operations of a held lock
  (\<open>hostSideLock\<close>), the mutex that serialises them, the checks a later process makes for a
  run, and the repository's own mirror of the lock.

  Files are a map from lock paths (directory, host id) to nodes; \<open>dir/host.lock\<close> is the
  pair \<open>(dir, host)\<close>.  Temporary files are private to one call and gone when it returns, so
  they are not part of the state; creating directories and other input/output errors are
  not modelled.  Every operation returns its result and the files it leaves, also when it
  fails.
\<close>

subsection \<open>Files\<close>

type_synonym lock_path = "string \<times> string"

datatype node = File string | Symlink lock_path

type_synonym lock_fs = "lock_path \<rightharpoonup> node"

text \<open>\<open>os.ReadFile\<close>, which follows a link; \<open>None\<close> is \<open>os.ErrNotExist\<close>.\<close>

definition read_file :: "lock_fs \<Rightarrow> lock_path \<Rightarrow> string option" where
  "read_file fs p =
     (case fs p of
        None \<Rightarrow> None
      | Some (File c) \<Rightarrow> Some c
      | Some (Symlink q) \<Rightarrow> (case fs q of Some (File c) \<Rightarrow> Some c | _ \<Rightarrow> None))"

datatype lock_error =
    LockName name_error
  | LockMissing
  | LockSymlink string
  | OwnershipChanged string
  | LeaseExpired string
  | MutexTimeout string
  | MutexMissing string
  | InvalidSession
  | NoRunOwner string
  | NotKeptLock string
  | KeptByOther string string
  | NotCleanupOwner string string
  | LockSessionCheck string
  | RemoteFailure string

type_synonym 'a lock_outcome = "(lock_error, 'a) result"

subsection \<open>The owner record\<close>

record host_lock_owner =
  own_machine :: string
  own_pid :: string
  own_token :: string
  own_active :: string
  own_kept :: string
  own_created :: string
  own_lease_expires :: string
  own_state_dir :: string
  own_python :: string
  own_repo :: string
  own_session :: string
  own_authoritative :: bool
  own_lease_expired :: bool
  own_host_clock :: bool

definition no_owner :: host_lock_owner where
  "no_owner = \<lparr>own_machine = [], own_pid = [], own_token = [], own_active = [], own_kept = [],
     own_created = [], own_lease_expires = [], own_state_dir = [], own_python = [], own_repo = [],
     own_session = [], own_authoritative = False, own_lease_expired = False, own_host_clock = False\<rparr>"

definition newline :: char where "newline = CHR 0x0A"

definition set_owner_field :: "string \<Rightarrow> string \<Rightarrow> host_lock_owner \<Rightarrow> host_lock_owner" where
  "set_owner_field key value own =
     (if key = ''clientMachine'' then own\<lparr>own_machine := value\<rparr>
      else if key = ''clientPid'' then own\<lparr>own_pid := value\<rparr>
      else if key = ''lockToken'' then own\<lparr>own_token := value\<rparr>
      else if key = ''activeRun'' then own\<lparr>own_active := value\<rparr>
      else if key = ''keptRun'' then own\<lparr>own_kept := value\<rparr>
      else if key = ''createdAt'' then own\<lparr>own_created := value\<rparr>
      else if key = ''leaseExpiresAt'' then own\<lparr>own_lease_expires := value\<rparr>
      else if key = ''brokerStateDir'' then own\<lparr>own_state_dir := value\<rparr>
      else if key = ''brokerPython'' then own\<lparr>own_python := value\<rparr>
      else if key = ''brokerRepo'' then own\<lparr>own_repo := value\<rparr>
      else if key = ''brokerSessionId'' then own\<lparr>own_session := value\<rparr>
      else if key = ''authoritativeHostLock'' then own\<lparr>own_authoritative := equal_fold value ''true''\<rparr>
      else own)"

definition parse_owner_line :: "string \<Rightarrow> host_lock_owner \<Rightarrow> host_lock_owner" where
  "parse_owner_line line own =
     (case cut_at (CHR '':'') line of
        None \<Rightarrow> own
      | Some (key, value) \<Rightarrow> set_owner_field (trim_space key) (trim_space value) own)"

definition parse_host_lock_owner :: "string \<Rightarrow> host_lock_owner" where
  "parse_host_lock_owner content = fold parse_owner_line (split_on newline content) no_owner"

definition lock_line :: "string \<Rightarrow> string \<Rightarrow> string" where
  "lock_line key value = key @ '': '' @ value @ [newline]"

definition host_side_lock_lease_duration :: int where
  "host_side_lock_lease_duration = seconds 3600"

definition lease_lines :: "int \<Rightarrow> string" where
  "lease_lines now =
     lock_line ''leaseExpiresAt'' (format_rfc3339nano (now + host_side_lock_lease_duration))
   @ lock_line ''leaseDurationSeconds'' (show_int (host_side_lock_lease_duration div second_ns))"

text \<open>The host name, the process id and the random token are arguments.\<close>

definition host_side_lock_content ::
  "string \<Rightarrow> string \<Rightarrow> string \<Rightarrow> string \<Rightarrow> string \<Rightarrow> string \<Rightarrow> int \<Rightarrow> string \<Rightarrow> int \<Rightarrow> string" where
  "host_side_lock_content host state_dir python repo extra machine pid token now =
     lock_line ''host'' host @ lock_line ''clientMachine'' (trim_space machine)
   @ lock_line ''clientPid'' (show_int pid) @ lock_line ''lockToken'' token
   @ lock_line ''brokerStateDir'' (trim_space state_dir) @ lock_line ''brokerPython'' (trim_space python)
   @ lock_line ''brokerRepo'' (trim_space repo) @ extra
   @ lock_line ''createdAt'' (format_rfc3339nano now) @ lease_lines now"

definition optional_line :: "string \<Rightarrow> string \<Rightarrow> string" where
  "optional_line key value = (if value \<noteq> [] then lock_line key value else [])"

definition host_side_lock_owner_content ::
  "string \<Rightarrow> host_lock_owner \<Rightarrow> string \<Rightarrow> string \<Rightarrow> bool \<Rightarrow> int \<Rightarrow> string" where
  "host_side_lock_owner_content host own active kept leased now =
     lock_line ''host'' host @ lock_line ''clientMachine'' (own_machine own)
   @ lock_line ''clientPid'' (own_pid own) @ lock_line ''lockToken'' (own_token own)
   @ lock_line ''brokerStateDir'' (own_state_dir own) @ lock_line ''brokerPython'' (own_python own)
   @ lock_line ''brokerRepo'' (own_repo own)
   @ lock_line ''createdAt'' (if own_created own = [] then format_rfc3339nano now else own_created own)
   @ optional_line ''brokerSessionId'' (own_session own) @ optional_line ''activeRun'' active
   @ optional_line ''keptRun'' kept @ (if leased then lease_lines now else [])"

subsection \<open>Staleness\<close>

definition is_stale_host_side_owner :: "int \<Rightarrow> host_lock_owner \<Rightarrow> bool" where
  "is_stale_host_side_owner now own =
     (if own_kept own \<noteq> [] \<or> own_token own = [] then False
      else if own_host_clock own then own_lease_expired own
      else (case parse_rfc3339nano (own_lease_expires own) of
              None \<Rightarrow> False
            | Some expires \<Rightarrow> \<not> now < expires))"

definition is_stale_host_side_lock :: "int \<Rightarrow> lock_path \<Rightarrow> lock_fs \<Rightarrow> bool lock_outcome" where
  "is_stale_host_side_lock now p fs =
     (case read_file fs p of
        None \<Rightarrow> Inr True
      | Some content \<Rightarrow> Inr (is_stale_host_side_owner now (parse_host_lock_owner content)))"

fun stale_host_lock_lines :: "(int \<Rightarrow> bool) \<Rightarrow> string list \<Rightarrow> bool" where
  "stale_host_lock_lines process_exists [] = True"
| "stale_host_lock_lines process_exists (line # rest) =
     (case cut_at (CHR '':'') line of
        None \<Rightarrow> stale_host_lock_lines process_exists rest
      | Some (key, value) \<Rightarrow>
          if trim_space key = ''pid''
          then (case atoi (trim_space value) of None \<Rightarrow> True | Some pid \<Rightarrow> \<not> process_exists pid)
          else if trim_space key = ''keptRun'' \<and> trim_space value \<noteq> [] then False
          else stale_host_lock_lines process_exists rest)"

definition is_stale_host_lock :: "(int \<Rightarrow> bool) \<Rightarrow> lock_path \<Rightarrow> lock_fs \<Rightarrow> bool lock_outcome" where
  "is_stale_host_lock process_exists p fs =
     (case read_file fs p of
        None \<Rightarrow> Inr True
      | Some content \<Rightarrow> Inr (stale_host_lock_lines process_exists (split_on newline content)))"

subsection \<open>Acquiring a lock file\<close>

text \<open>
  \<open>acquireHostLockAtDirWithContent\<close>: link the prepared file, or judge the one in the way and
  remove it when it is stale, again and again.  The result says whether somebody else
  holds the lock.  The loop ends because nothing recreates the file in between.
\<close>

function acquire_lock_with_content ::
  "lock_path \<Rightarrow> string \<Rightarrow> (lock_fs \<Rightarrow> bool lock_outcome) \<Rightarrow> lock_fs \<Rightarrow> bool lock_outcome \<times> lock_fs" where
  "acquire_lock_with_content p content is_stale fs =
     (case fs p of
        None \<Rightarrow> (Inr False, fs(p \<mapsto> File content))
      | Some _ \<Rightarrow>
          (case is_stale fs of
             Inl e \<Rightarrow> (Inl e, fs)
           | Inr stale \<Rightarrow>
               if \<not> stale then (Inr True, fs)
               else acquire_lock_with_content p content is_stale (fs(p := None))))"
  by pat_completeness auto
termination by (relation "measure (\<lambda>(p, c, i, fs). case fs p of None \<Rightarrow> 0 | Some _ \<Rightarrow> 1)") auto

declare acquire_lock_with_content.simps [simp del]

definition acquire_host_lock_at_dir ::
  "(int \<Rightarrow> bool) \<Rightarrow> int \<Rightarrow> lock_path \<Rightarrow> lock_fs \<Rightarrow> bool lock_outcome \<times> lock_fs" where
  "acquire_host_lock_at_dir process_exists pid p fs =
     acquire_lock_with_content p (lock_line ''host'' (snd p) @ lock_line ''pid'' (show_int pid))
       (is_stale_host_lock process_exists p) fs"

text \<open>
  \<open>withLocalHostSideMutex\<close>.  The model is sequential: a mutex whose owner is alive stays
  taken while the caller polls, so polling ends in the time-out.
\<close>

definition mutex_path :: "lock_path \<Rightarrow> lock_path" where
  "mutex_path p = (fst p @ ''/.mutexes'', snd p)"

definition with_local_host_side_mutex ::
  "(int \<Rightarrow> bool) \<Rightarrow> int \<Rightarrow> lock_path \<Rightarrow> (lock_fs \<Rightarrow> 'a lock_outcome \<times> lock_fs) \<Rightarrow> lock_fs
     \<Rightarrow> 'a lock_outcome \<times> lock_fs" where
  "with_local_host_side_mutex process_exists pid p action fs =
     (case acquire_host_lock_at_dir process_exists pid (mutex_path p) fs of
        (Inl e, fs1) \<Rightarrow> (Inl e, fs1)
      | (Inr True, fs1) \<Rightarrow> (Inl (MutexTimeout (snd p)), fs1)
      | (Inr False, fs1) \<Rightarrow>
          (case action fs1 of
             (r, fs2) \<Rightarrow>
               if fs2 (mutex_path p) = None
               then (case r of Inl e \<Rightarrow> (Inl e, fs2) | Inr _ \<Rightarrow> (Inl (MutexMissing (snd p)), fs2))
               else (r, fs2(mutex_path p := None))))"

subsection \<open>A held lock\<close>

text \<open>
  \<open>hostSideLock\<close>: the content the holder expects to find, and the operations of the store
  that keeps it.  A lock on a remote Maya Host has a fence script instead of \<open>claimOwner\<close>.
\<close>

record 's host_side_lock =
  hl_expected :: string
  hl_replace :: "string \<Rightarrow> string \<Rightarrow> 's \<Rightarrow> unit lock_outcome \<times> 's"
  hl_remove :: "string \<Rightarrow> 's \<Rightarrow> unit lock_outcome \<times> 's"
  hl_claim :: "(int \<Rightarrow> string \<Rightarrow> string \<Rightarrow> 's \<Rightarrow> unit lock_outcome \<times> 's) option"
  hl_fence_script :: "('s \<Rightarrow> unit lock_outcome \<times> 's) option"

text \<open>
  Every operation swaps the expected content for a new one and remembers it on success.
\<close>

definition swap_owner ::
  "('s \<Rightarrow> unit lock_outcome \<times> 's) \<Rightarrow> string \<Rightarrow> 's host_side_lock \<Rightarrow> 's
     \<Rightarrow> unit lock_outcome \<times> 's host_side_lock \<times> 's" where
  "swap_owner swap content lock s =
     (case swap s of
        (Inl e, s') \<Rightarrow> (Inl e, lock, s')
      | (Inr _, s') \<Rightarrow> (Inr (), lock\<lparr>hl_expected := content\<rparr>, s'))"

definition lock_renew ::
  "string \<Rightarrow> int \<Rightarrow> 's host_side_lock \<Rightarrow> 's \<Rightarrow> unit lock_outcome \<times> 's host_side_lock \<times> 's" where
  "lock_renew host now lock s =
     (let own = parse_host_lock_owner (hl_expected lock) in
      if own_kept own \<noteq> [] then (Inr (), lock, s)
      else (let content = host_side_lock_owner_content host own (own_active own) [] True now
            in swap_owner (hl_replace lock (hl_expected lock) content) content lock s))"

definition lock_mark_active ::
  "string \<Rightarrow> string \<Rightarrow> int \<Rightarrow> 's host_side_lock \<Rightarrow> 's
     \<Rightarrow> unit lock_outcome \<times> 's host_side_lock \<times> 's" where
  "lock_mark_active host run now lock s =
     (let own = parse_host_lock_owner (hl_expected lock);
          content = host_side_lock_owner_content host own run [] True now
      in swap_owner (hl_replace lock (hl_expected lock) content) content lock s)"

definition lock_mark_kept ::
  "string \<Rightarrow> string \<Rightarrow> int \<Rightarrow> 's host_side_lock \<Rightarrow> 's
     \<Rightarrow> unit lock_outcome \<times> 's host_side_lock \<times> 's" where
  "lock_mark_kept host run now lock s =
     (let own = parse_host_lock_owner (hl_expected lock);
          content = host_side_lock_owner_content host own [] run False now
      in swap_owner (hl_replace lock (hl_expected lock) content) content lock s)"

definition lock_bind_session ::
  "string \<Rightarrow> string \<Rightarrow> int \<Rightarrow> 's host_side_lock \<Rightarrow> 's
     \<Rightarrow> unit lock_outcome \<times> 's host_side_lock \<times> 's" where
  "lock_bind_session host session now lock s =
     (if trim_space session = [] \<or> CHR 0x00 \<in> set session \<or> CHR 0x0D \<in> set session \<or> newline \<in> set session
      then (Inl InvalidSession, lock, s)
      else (let own = (parse_host_lock_owner (hl_expected lock))\<lparr>own_session := session\<rparr>;
                content = host_side_lock_owner_content host own (own_active own) (own_kept own)
                            (own_kept own = []) now
            in swap_owner (hl_replace lock (hl_expected lock) content) content lock s))"

definition lock_release :: "'s host_side_lock \<Rightarrow> 's \<Rightarrow> unit lock_outcome \<times> 's" where
  "lock_release lock s = hl_remove lock (hl_expected lock) s"

text \<open>\<open>claim\<close> writes the content at \<open>now\<close>; the store reads the clock again, at \<open>checked\<close>.\<close>

definition lock_claim ::
  "(int \<Rightarrow> string \<Rightarrow> string \<Rightarrow> 's \<Rightarrow> unit lock_outcome \<times> 's) \<Rightarrow> string \<Rightarrow> int \<Rightarrow> int
     \<Rightarrow> 's host_side_lock \<Rightarrow> 's \<Rightarrow> unit lock_outcome \<times> 's host_side_lock \<times> 's" where
  "lock_claim claim_owner host now checked lock s =
     (let own = parse_host_lock_owner (hl_expected lock);
          content = (if own_kept own = []
                     then host_side_lock_owner_content host own (own_active own) [] True now
                     else hl_expected lock)
      in swap_owner (claim_owner checked (hl_expected lock) content) content lock s)"

text \<open>\<open>fence\<close>: the zero fence of a lock without an authoritative store is \<open>None\<close>.\<close>

definition lock_fence ::
  "string \<Rightarrow> int \<Rightarrow> int \<Rightarrow> 's host_side_lock
     \<Rightarrow> ('s \<Rightarrow> unit lock_outcome \<times> 's host_side_lock \<times> 's) option" where
  "lock_fence host now checked lock =
     (case hl_fence_script lock of
        Some script \<Rightarrow> Some (\<lambda>s. case script s of (r, s') \<Rightarrow> (r, lock, s'))
      | None \<Rightarrow> map_option (\<lambda>claim s. lock_claim claim host now checked lock s) (hl_claim lock))"

subsection \<open>The store on this machine\<close>

definition replace_host_lock_owner_at_dir :: "lock_path \<Rightarrow> string \<Rightarrow> lock_fs \<Rightarrow> unit lock_outcome \<times> lock_fs" where
  "replace_host_lock_owner_at_dir p content fs =
     (case fs p of
        None \<Rightarrow> (Inl LockMissing, fs)
      | Some (Symlink _) \<Rightarrow> (Inl (LockSymlink (snd p)), fs)
      | Some (File _) \<Rightarrow> (Inr (), fs(p \<mapsto> File content)))"

text \<open>The local \<open>replace\<close>; \<open>check\<close> carries the clock when an expired lease must be refused.\<close>

definition local_replace ::
  "(int \<Rightarrow> bool) \<Rightarrow> int \<Rightarrow> lock_path \<Rightarrow> int option \<Rightarrow> string \<Rightarrow> string \<Rightarrow> lock_fs
     \<Rightarrow> unit lock_outcome \<times> lock_fs" where
  "local_replace process_exists pid p check expected replacement =
     with_local_host_side_mutex process_exists pid p (\<lambda>fs.
       case read_file fs p of
         None \<Rightarrow> (Inl LockMissing, fs)
       | Some current \<Rightarrow>
           if current \<noteq> expected then (Inl (OwnershipChanged (snd p)), fs)
           else if (case check of None \<Rightarrow> False
                    | Some now \<Rightarrow> is_stale_host_side_owner now (parse_host_lock_owner expected))
           then (Inl (LeaseExpired (snd p)), fs)
           else replace_host_lock_owner_at_dir p replacement fs)"

definition local_remove ::
  "(int \<Rightarrow> bool) \<Rightarrow> int \<Rightarrow> lock_path \<Rightarrow> string \<Rightarrow> lock_fs \<Rightarrow> unit lock_outcome \<times> lock_fs" where
  "local_remove process_exists pid p expected =
     with_local_host_side_mutex process_exists pid p (\<lambda>fs.
       case read_file fs p of
         None \<Rightarrow> (Inr (), fs)
       | Some current \<Rightarrow>
           if current \<noteq> expected then (Inl (OwnershipChanged (snd p)), fs)
           else (Inr (), fs(p := None)))"

definition acquire_local_host_side_lock ::
  "(int \<Rightarrow> bool) \<Rightarrow> int \<Rightarrow> lock_path \<Rightarrow> string \<Rightarrow> (lock_fs \<Rightarrow> bool lock_outcome) \<Rightarrow> lock_fs
     \<Rightarrow> lock_fs host_side_lock option lock_outcome \<times> lock_fs" where
  "acquire_local_host_side_lock process_exists pid p content is_stale fs =
     (case with_local_host_side_mutex process_exists pid p (acquire_lock_with_content p content is_stale) fs of
        (Inl e, fs') \<Rightarrow> (Inl e, fs')
      | (Inr True, fs') \<Rightarrow> (Inr None, fs')
      | (Inr False, fs') \<Rightarrow>
          (Inr (Some \<lparr>hl_expected = content,
                      hl_replace = local_replace process_exists pid p None,
                      hl_remove = local_remove process_exists pid p,
                      hl_claim = Some (\<lambda>now. local_replace process_exists pid p (Some now)),
                      hl_fence_script = None\<rparr>), fs'))"

text \<open>A host without an authoritative lock directory: nothing to compare, nothing to fence.\<close>

definition unlocked_host_side_lock :: "'s host_side_lock" where
  "unlocked_host_side_lock = \<lparr>hl_expected = [], hl_replace = (\<lambda>_ _ s. (Inr (), s)),
     hl_remove = (\<lambda>_ s. (Inr (), s)), hl_claim = None, hl_fence_script = None\<rparr>"

subsection \<open>What a later process checks for a run\<close>

definition verify_host_side_lock_for_run_at_dir ::
  "(int \<Rightarrow> bool) \<Rightarrow> int \<Rightarrow> int \<Rightarrow> lock_path \<Rightarrow> string \<Rightarrow> bool \<Rightarrow> bool \<Rightarrow> lock_fs
     \<Rightarrow> unit lock_outcome \<times> lock_fs" where
  "verify_host_side_lock_for_run_at_dir process_exists pid now p run require_kept allow_stale =
     with_local_host_side_mutex process_exists pid p (\<lambda>fs.
       case read_file fs p of
         None \<Rightarrow> (Inl LockMissing, fs)
       | Some content \<Rightarrow>
           (let own = parse_host_lock_owner content in
            if own_kept own = run then (Inr (), fs)
            else if require_kept \<or> own_active own \<noteq> run \<or> \<not> allow_stale \<and> is_stale_host_side_owner now own
            then (Inl (OwnershipChanged (snd p)), fs)
            else (Inr (), fs)))"

definition remove_host_side_lock_for_run_at_dir ::
  "(int \<Rightarrow> bool) \<Rightarrow> int \<Rightarrow> lock_path \<Rightarrow> string \<Rightarrow> lock_fs \<Rightarrow> unit lock_outcome \<times> lock_fs" where
  "remove_host_side_lock_for_run_at_dir process_exists pid p run =
     with_local_host_side_mutex process_exists pid p (\<lambda>fs.
       case read_file fs p of
         None \<Rightarrow> (Inr (), fs)
       | Some content \<Rightarrow>
           (let own = parse_host_lock_owner content in
            if own_kept own \<noteq> run \<and> own_active own \<noteq> run
            then (Inl (OwnershipChanged (snd p)), fs)
            else (Inr (), fs(p := None))))"

subsection \<open>The repository's mirror of the lock\<close>

text \<open>
  \<open>ensureOutputPathHasNoSymlinkParent\<close> only inspects directories, which are not part of the
  modelled files; the mirror is \<open>.maya-stall/state/locks/hosts/<host>.lock\<close>.
\<close>

definition repo_lock_path :: "string \<Rightarrow> string \<Rightarrow> lock_path" where
  "repo_lock_path repo host = (repo @ ''/.maya-stall/state/locks/hosts'', host)"

definition show_bool :: "bool \<Rightarrow> string" where
  "show_bool b = (if b then ''true'' else ''false'')"

definition acquire_host_lock ::
  "(int \<Rightarrow> bool) \<Rightarrow> int \<Rightarrow> string \<Rightarrow> string \<Rightarrow> lock_fs \<Rightarrow> bool lock_outcome \<times> lock_fs" where
  "acquire_host_lock process_exists pid repo host fs =
     (case validate_host_id host of
        Inl e \<Rightarrow> (Inl (LockName e), fs)
      | Inr _ \<Rightarrow>
          with_local_host_side_mutex process_exists pid (repo_lock_path repo host)
            (acquire_host_lock_at_dir process_exists pid (repo_lock_path repo host)) fs)"

definition replace_host_lock_owner ::
  "(int \<Rightarrow> bool) \<Rightarrow> int \<Rightarrow> string \<Rightarrow> string \<Rightarrow> string \<Rightarrow> lock_fs \<Rightarrow> unit lock_outcome \<times> lock_fs" where
  "replace_host_lock_owner process_exists pid repo host content =
     with_local_host_side_mutex process_exists pid (repo_lock_path repo host)
       (replace_host_lock_owner_at_dir (repo_lock_path repo host) content)"

definition mark_host_lock_kept ::
  "(int \<Rightarrow> bool) \<Rightarrow> int \<Rightarrow> string \<Rightarrow> string \<Rightarrow> string \<Rightarrow> bool \<Rightarrow> lock_fs \<Rightarrow> unit lock_outcome \<times> lock_fs" where
  "mark_host_lock_kept process_exists pid repo host run authoritative fs =
     (case validate_host_id host of
        Inl e \<Rightarrow> (Inl (LockName e), fs)
      | Inr _ \<Rightarrow>
          replace_host_lock_owner process_exists pid repo host
            (lock_line ''host'' host @ lock_line ''keptRun'' run
             @ lock_line ''authoritativeHostLock'' (show_bool authoritative)) fs)"

definition mark_host_lock_active ::
  "(int \<Rightarrow> bool) \<Rightarrow> int \<Rightarrow> string \<Rightarrow> string \<Rightarrow> string \<Rightarrow> bool \<Rightarrow> lock_fs \<Rightarrow> unit lock_outcome \<times> lock_fs" where
  "mark_host_lock_active process_exists pid repo host run authoritative fs =
     (case validate_host_id host of
        Inl e \<Rightarrow> (Inl (LockName e), fs)
      | Inr _ \<Rightarrow>
          (case validate_run_id run of
             Inl e \<Rightarrow> (Inl (LockName e), fs)
           | Inr _ \<Rightarrow>
               replace_host_lock_owner process_exists pid repo host
                 (lock_line ''host'' host @ lock_line ''pid'' (show_int pid)
                  @ lock_line ''activeRun'' run
                  @ lock_line ''authoritativeHostLock'' (show_bool authoritative)) fs))"

definition remove_repo_host_lock_for_run ::
  "(int \<Rightarrow> bool) \<Rightarrow> int \<Rightarrow> string \<Rightarrow> string \<Rightarrow> string \<Rightarrow> lock_fs \<Rightarrow> unit lock_outcome \<times> lock_fs" where
  "remove_repo_host_lock_for_run process_exists pid repo host run fs =
     (case validate_host_id host of
        Inl e \<Rightarrow> (Inl (LockName e), fs)
      | Inr _ \<Rightarrow>
          with_local_host_side_mutex process_exists pid (repo_lock_path repo host) (\<lambda>fs.
            case fs (repo_lock_path repo host) of
              None \<Rightarrow> (Inr (), fs)
            | Some (Symlink _) \<Rightarrow> (Inl (LockSymlink host), fs)
            | Some (File content) \<Rightarrow>
                (let own = parse_host_lock_owner content in
                 if own_kept own = run \<or> own_active own = run
                 then (Inr (), fs(repo_lock_path repo host := None))
                 else if own_kept own \<noteq> [] \<or> own_active own \<noteq> [] then (Inr (), fs)
                 else (Inl (NoRunOwner host), fs))) fs)"

fun kept_run_line :: "string list \<Rightarrow> string option" where
  "kept_run_line [] = None"
| "kept_run_line (line # rest) =
     (case cut_at (CHR '':'') line of
        Some (key, value) \<Rightarrow>
          if trim_space key = ''keptRun''
          then (if trim_space value = [] then None else Some (trim_space value))
          else kept_run_line rest
      | None \<Rightarrow> kept_run_line rest)"

text \<open>\<open>readHostLockKeptRun\<close>: \<open>None\<close> is \<open>found = false\<close>.\<close>

definition read_host_lock_kept_run :: "lock_fs \<Rightarrow> lock_path \<Rightarrow> string option lock_outcome" where
  "read_host_lock_kept_run fs p =
     (case fs p of
        None \<Rightarrow> Inr None
      | Some (Symlink _) \<Rightarrow> Inl (LockSymlink (snd p))
      | Some (File content) \<Rightarrow> Inr (kept_run_line (split_on newline content)))"

definition ensure_run_has_kept_lock ::
  "string \<Rightarrow> string \<Rightarrow> string \<Rightarrow> bool \<Rightarrow> lock_fs \<Rightarrow> unit lock_outcome" where
  "ensure_run_has_kept_lock repo host run allow_missing fs =
     (case validate_host_id host of
        Inl e \<Rightarrow> Inl (LockName e)
      | Inr _ \<Rightarrow>
          rbind (read_host_lock_kept_run fs (repo_lock_path repo host)) (\<lambda>kept.
            case kept of
              None \<Rightarrow> if allow_missing then Inr () else Inl (NotKeptLock host)
            | Some other \<Rightarrow> if other \<noteq> run then Inl (KeptByOther host other) else Inr ()))"

definition ensure_run_has_cleanup_pending_lock ::
  "string \<Rightarrow> string \<Rightarrow> string \<Rightarrow> bool \<Rightarrow> lock_fs \<Rightarrow> unit lock_outcome" where
  "ensure_run_has_cleanup_pending_lock repo host run allow_missing fs =
     (case validate_host_id host of
        Inl e \<Rightarrow> Inl (LockName e)
      | Inr _ \<Rightarrow>
          (case fs (repo_lock_path repo host) of
             None \<Rightarrow> if allow_missing then Inr () else Inl LockMissing
           | Some (Symlink _) \<Rightarrow> Inl (LockSymlink host)
           | Some (File content) \<Rightarrow>
               (let own = parse_host_lock_owner content in
                if own_kept own = run \<or> own_active own = run then Inr ()
                else Inl (NotCleanupOwner host run))))"

text \<open>
  \<open>releaseMatchingKeptHostLock\<close>: the directory listing, the names of the lock files without
  their extension, is an argument.
\<close>

datatype kept_release_error = KeptLock lock_error | KeptNotFound string | AuthoritativeMirror string

fun release_matching_kept_loop ::
  "(int \<Rightarrow> bool) \<Rightarrow> int \<Rightarrow> string \<Rightarrow> string \<Rightarrow> string list \<Rightarrow> lock_fs
     \<Rightarrow> (kept_release_error, unit) result \<times> lock_fs" where
  "release_matching_kept_loop process_exists pid repo run [] fs = (Inl (KeptNotFound run), fs)"
| "release_matching_kept_loop process_exists pid repo run (host # hosts) fs =
     (case read_host_lock_kept_run fs (repo_lock_path repo host) of
        Inl e \<Rightarrow> (Inl (KeptLock e), fs)
      | Inr kept \<Rightarrow>
          if kept = Some run
          then (case read_file fs (repo_lock_path repo host) of
                  None \<Rightarrow> (Inl (KeptLock LockMissing), fs)
                | Some content \<Rightarrow>
                    if own_authoritative (parse_host_lock_owner content)
                    then (Inl (AuthoritativeMirror run), fs)
                    else (case remove_repo_host_lock_for_run process_exists pid repo host run fs of
                            (Inl e, fs') \<Rightarrow> (Inl (KeptLock e), fs')
                          | (Inr _, fs') \<Rightarrow> (Inr (), fs')))
          else release_matching_kept_loop process_exists pid repo run hosts fs)"

definition release_matching_kept_host_lock ::
  "(int \<Rightarrow> bool) \<Rightarrow> int \<Rightarrow> string \<Rightarrow> string \<Rightarrow> string list \<Rightarrow> lock_fs
     \<Rightarrow> (kept_release_error, unit) result \<times> lock_fs" where
  "release_matching_kept_host_lock process_exists pid repo run hosts fs =
     (case validate_run_id run of
        Inl e \<Rightarrow> (Inl (KeptLock (LockName e)), fs)
      | Inr _ \<Rightarrow> release_matching_kept_loop process_exists pid repo run hosts fs)"

subsection \<open>The lock of a run: host side and mirror\<close>

text \<open>
  \<open>acquireRunHostLock\<close>.  The host side lives in a store of its own (\<open>'s\<close>), the mirror in the
  repository's files.  A failed mirror gives the host side back; an error says whether that
  cleanup worked.
\<close>

datatype run_lock_error =
    SideLockError lock_error
  | CleanupFailed "lock_error list"
  | CleanupCompleted lock_error

record 's run_host_lock =
  rl_side :: "'s host_side_lock"
  rl_owned_run :: string

definition error_list :: "unit lock_outcome \<Rightarrow> lock_error list" where
  "error_list r = (case r of Inl e \<Rightarrow> [e] | Inr _ \<Rightarrow> [])"

definition acquire_run_host_lock ::
  "(int \<Rightarrow> bool) \<Rightarrow> int \<Rightarrow> string \<Rightarrow> string
     \<Rightarrow> ('s \<Rightarrow> 's host_side_lock option lock_outcome \<times> 's)
     \<Rightarrow> 's \<times> lock_fs \<Rightarrow> (run_lock_error, 's run_host_lock option) result \<times> 's \<times> lock_fs" where
  "acquire_run_host_lock process_exists pid repo host acquire_side st =
     (case acquire_side (fst st) of
        (Inl e, s) \<Rightarrow> (Inl (SideLockError e), s, snd st)
      | (Inr None, s) \<Rightarrow> (Inr None, s, snd st)
      | (Inr (Some side), s) \<Rightarrow>
          (case acquire_host_lock process_exists pid repo host (snd st) of
             (Inr False, fs) \<Rightarrow> (Inr (Some \<lparr>rl_side = side, rl_owned_run = []\<rparr>), s, fs)
           | (mirror, fs) \<Rightarrow>
               (case lock_release side s of
                  (Inl release_error, s') \<Rightarrow>
                    (Inl (CleanupFailed ((case mirror of Inl e \<Rightarrow> [e] | Inr _ \<Rightarrow> []) @ [release_error])), s', fs)
                | (Inr _, s') \<Rightarrow>
                    (case mirror of
                       Inl e \<Rightarrow> (Inl (CleanupCompleted e), s', fs)
                     | Inr _ \<Rightarrow> (Inr None, s', fs)))))"

definition run_lock_release ::
  "(int \<Rightarrow> bool) \<Rightarrow> int \<Rightarrow> string \<Rightarrow> string \<Rightarrow> 's run_host_lock \<Rightarrow> 's \<times> lock_fs
     \<Rightarrow> lock_error list \<times> 's \<times> lock_fs" where
  "run_lock_release process_exists pid repo host lock st =
     (case (if rl_owned_run lock = []
            then (case snd st (repo_lock_path repo host) of
                    None \<Rightarrow> (Inl LockMissing, snd st)
                  | Some _ \<Rightarrow> (Inr (), (snd st)(repo_lock_path repo host := None)))
            else remove_repo_host_lock_for_run process_exists pid repo host (rl_owned_run lock) (snd st)) of
        (local, fs) \<Rightarrow>
          (case lock_release (rl_side lock) (fst st) of
             (side, s) \<Rightarrow> (error_list side @ error_list local, s, fs)))"

text \<open>\<open>markActive\<close> and \<open>markKept\<close>: the host side first, then the mirror.\<close>

definition run_lock_mark ::
  "('s host_side_lock \<Rightarrow> 's \<Rightarrow> unit lock_outcome \<times> 's host_side_lock \<times> 's)
     \<Rightarrow> (lock_fs \<Rightarrow> unit lock_outcome \<times> lock_fs) \<Rightarrow> string \<Rightarrow> 's run_host_lock \<Rightarrow> 's \<times> lock_fs
     \<Rightarrow> unit lock_outcome \<times> 's run_host_lock \<times> 's \<times> lock_fs" where
  "run_lock_mark side_mark mirror_mark run lock st =
     (case side_mark (rl_side lock) (fst st) of
        (Inl e, side, s) \<Rightarrow> (Inl e, lock\<lparr>rl_side := side\<rparr>, s, snd st)
      | (Inr _, side, s) \<Rightarrow>
          (case mirror_mark (snd st) of
             (Inl e, fs) \<Rightarrow> (Inl e, lock\<lparr>rl_side := side\<rparr>, s, fs)
           | (Inr _, fs) \<Rightarrow> (Inr (), lock\<lparr>rl_side := side, rl_owned_run := run\<rparr>, s, fs)))"

definition run_lock_mark_active ::
  "(int \<Rightarrow> bool) \<Rightarrow> int \<Rightarrow> string \<Rightarrow> string \<Rightarrow> bool \<Rightarrow> string \<Rightarrow> int \<Rightarrow> 's run_host_lock \<Rightarrow> 's \<times> lock_fs
     \<Rightarrow> unit lock_outcome \<times> 's run_host_lock \<times> 's \<times> lock_fs" where
  "run_lock_mark_active process_exists pid repo host authoritative run now =
     run_lock_mark (lock_mark_active host run now)
       (mark_host_lock_active process_exists pid repo host run authoritative) run"

definition run_lock_mark_kept ::
  "(int \<Rightarrow> bool) \<Rightarrow> int \<Rightarrow> string \<Rightarrow> string \<Rightarrow> bool \<Rightarrow> string \<Rightarrow> int \<Rightarrow> 's run_host_lock \<Rightarrow> 's \<times> lock_fs
     \<Rightarrow> unit lock_outcome \<times> 's run_host_lock \<times> 's \<times> lock_fs" where
  "run_lock_mark_kept process_exists pid repo host authoritative run now =
     run_lock_mark (lock_mark_kept host run now)
       (mark_host_lock_kept process_exists pid repo host run authoritative) run"

subsection \<open>The text of a lock and its parser\<close>

definition clean_field :: "string \<Rightarrow> bool" where
  "clean_field v \<longleftrightarrow> newline \<notin> set v \<and> trim_space v = v"

definition clean_owner :: "host_lock_owner \<Rightarrow> bool" where
  "clean_owner own \<longleftrightarrow>
     list_all clean_field [own_machine own, own_pid own, own_token own, own_active own, own_kept own,
       own_created own, own_lease_expires own, own_state_dir own, own_python own, own_repo own,
       own_session own]"

lemma clean_field_Nil [simp]: "clean_field []"
  by (simp add: clean_field_def)

lemma trim_space_subset: "set (trim_space s) \<subseteq> set s"
proof -
  have w: "set (trim_with p q t) \<subseteq> set t" for p q t
    by (metis trim_with_suffix set_append sup_ge2)
  have "set (trim_right t) \<subseteq> set t" for t
    unfolding trim_right_def using w by (metis set_rev)
  moreover have "set (trim_left t) \<subseteq> set t" for t unfolding trim_left_def by (rule w)
  ultimately show ?thesis unfolding trim_space_def by blast
qed

lemma clean_field_trim: "newline \<notin> set v \<Longrightarrow> clean_field (trim_space v)"
  using trim_space_subset [of v] by (auto simp: clean_field_def)

lemma clean_field_plain: "\<forall>c\<in>set v. plain_char c \<Longrightarrow> clean_field v"
  using plain_char_not_newline by (auto simp: clean_field_def trim_space_plain newline_def)

lemma clean_field_stamp [simp]: "clean_field (format_rfc3339nano t)"
  by (rule clean_field_plain) (blast intro: format_rfc3339nano_plain)

lemma clean_field_show_int [simp]: "clean_field (show_int i)"
proof (rule clean_field_plain, rule ballI)
  fix c assume "c \<in> set (show_int i)"
  then have "c = CHR ''-'' \<or> is_digit c" using show_nat_digits by (auto simp: show_int_def split: if_split_asm)
  then show "plain_char c" using digit_plain by (auto simp: plain_char_def)
qed

definition parse_lines :: "string \<Rightarrow> host_lock_owner \<Rightarrow> host_lock_owner" where
  "parse_lines s = fold parse_owner_line (split_on newline s)"

lemma parse_lines_Nil [simp]: "parse_lines [] own = own"
  by (simp add: parse_lines_def parse_owner_line_def)

definition lock_key :: "string \<Rightarrow> bool" where
  "lock_key key \<longleftrightarrow> (\<forall>c\<in>set key. plain_char c \<and> c \<noteq> CHR '':'')"

lemma parse_lines_raw:
  assumes "lock_key key" "newline \<notin> set value"
  shows "parse_lines (lock_line key value @ rest) own
    = parse_lines rest (set_owner_field key (trim_space value) own)"
proof -
  have nl: "newline \<notin> set (key @ '': '' @ value)"
    using assms plain_char_not_newline by (auto simp: lock_key_def newline_def)
  have "CHR '':'' \<notin> set key" using assms(1) by (auto simp: lock_key_def)
  then have "cut_at (CHR '':'') (key @ CHR '':'' # CHR '' '' # value) = Some (key, CHR '' '' # value)"
    by (rule cut_at_append)
  moreover have "trim_space key = key" using assms(1) by (simp add: lock_key_def trim_space_plain)
  moreover have "trim_space (CHR '' '' # value) = trim_space value"
    by (simp add: trim_space_def trim_left_space)
  ultimately have "parse_owner_line (key @ '': '' @ value) own = set_owner_field key (trim_space value) own"
    by (simp add: parse_owner_line_def)
  moreover have "split_on newline (lock_line key value @ rest) = (key @ '': '' @ value) # split_on newline rest"
    using split_on_append_sep [OF nl, of rest] by (simp add: lock_line_def)
  ultimately show ?thesis by (simp add: parse_lines_def)
qed

lemma parse_lines_line:
  "lock_key key \<Longrightarrow> clean_field value \<Longrightarrow>
     parse_lines (lock_line key value @ rest) own = parse_lines rest (set_owner_field key value own)"
  by (simp add: parse_lines_raw clean_field_def)

lemma parse_owner_eq_lines: "parse_host_lock_owner content = parse_lines content no_owner"
  by (simp add: parse_host_lock_owner_def parse_lines_def)

lemma lock_keys [simp]:
  "lock_key ''host''" "lock_key ''clientMachine''" "lock_key ''clientPid''" "lock_key ''lockToken''"
  "lock_key ''brokerStateDir''" "lock_key ''brokerPython''" "lock_key ''brokerRepo''"
  "lock_key ''createdAt''" "lock_key ''brokerSessionId''" "lock_key ''activeRun''" "lock_key ''keptRun''"
  "lock_key ''leaseExpiresAt''" "lock_key ''leaseDurationSeconds''" "lock_key ''pid''"
  "lock_key ''authoritativeHostLock''"
  by (simp_all add: lock_key_def plain_char_def)

lemma set_owner_field_simps [simp]:
  "set_owner_field ''host'' v own = own" "set_owner_field ''pid'' v own = own"
  "set_owner_field ''leaseDurationSeconds'' v own = own"
  "set_owner_field ''clientMachine'' v own = own\<lparr>own_machine := v\<rparr>"
  "set_owner_field ''clientPid'' v own = own\<lparr>own_pid := v\<rparr>"
  "set_owner_field ''lockToken'' v own = own\<lparr>own_token := v\<rparr>"
  "set_owner_field ''activeRun'' v own = own\<lparr>own_active := v\<rparr>"
  "set_owner_field ''keptRun'' v own = own\<lparr>own_kept := v\<rparr>"
  "set_owner_field ''createdAt'' v own = own\<lparr>own_created := v\<rparr>"
  "set_owner_field ''leaseExpiresAt'' v own = own\<lparr>own_lease_expires := v\<rparr>"
  "set_owner_field ''brokerStateDir'' v own = own\<lparr>own_state_dir := v\<rparr>"
  "set_owner_field ''brokerPython'' v own = own\<lparr>own_python := v\<rparr>"
  "set_owner_field ''brokerRepo'' v own = own\<lparr>own_repo := v\<rparr>"
  "set_owner_field ''brokerSessionId'' v own = own\<lparr>own_session := v\<rparr>"
  "set_owner_field ''authoritativeHostLock'' v own = own\<lparr>own_authoritative := equal_fold v ''true''\<rparr>"
  by (simp_all add: set_owner_field_def)

lemma parse_lines_optional:
  "lock_key key \<Longrightarrow> newline \<notin> set value \<Longrightarrow>
     parse_lines (optional_line key value @ rest) own
       = parse_lines rest (if value = [] then own else set_owner_field key (trim_space value) own)"
  using parse_lines_raw by (simp add: optional_line_def)

lemma parse_lease_lines:
  "parse_lines (lease_lines now) own
    = own\<lparr>own_lease_expires := format_rfc3339nano (now + host_side_lock_lease_duration)\<rparr>"
  using parse_lines_line [of "''leaseDurationSeconds''" _ "[]"]
  by (simp add: lease_lines_def parse_lines_line)

text \<open>What a holder writes is what everybody reads.\<close>

lemma parse_owner_content:
  assumes "clean_owner (own\<lparr>own_session := []\<rparr>)" "newline \<notin> set (own_session own)"
    "clean_field host" "clean_field active" "clean_field kept"
  shows "parse_host_lock_owner (host_side_lock_owner_content host own active kept leased now)
    = own\<lparr>own_active := active, own_kept := kept, own_session := trim_space (own_session own),
        own_created := (if own_created own = [] then format_rfc3339nano now else own_created own),
        own_lease_expires := (if leased then format_rfc3339nano (now + host_side_lock_lease_duration) else []),
        own_authoritative := False, own_lease_expired := False, own_host_clock := False\<rparr>"
proof -
  have nl: "newline \<notin> set active" "newline \<notin> set kept" "trim_space active = active" "trim_space kept = kept"
    using assms(4,5) by (simp_all add: clean_field_def)
  show ?thesis
    using assms(1-3) nl
    by (simp add: parse_owner_eq_lines host_side_lock_owner_content_def clean_owner_def parse_lines_line
        parse_lines_optional parse_lease_lines no_owner_def)
qed

lemma parse_lock_content:
  assumes "clean_field host" "newline \<notin> set machine" "newline \<notin> set state_dir"
    "newline \<notin> set python" "newline \<notin> set repo" "clean_field token"
  shows "parse_host_lock_owner (host_side_lock_content host state_dir python repo [] machine pid token now)
    = no_owner\<lparr>own_machine := trim_space machine, own_pid := show_int pid, own_token := token,
        own_state_dir := trim_space state_dir, own_python := trim_space python,
        own_repo := trim_space repo, own_created := format_rfc3339nano now,
        own_lease_expires := format_rfc3339nano (now + host_side_lock_lease_duration)\<rparr>"
  using assms
  by (simp add: parse_owner_eq_lines host_side_lock_content_def parse_lines_line clean_field_trim
      parse_lease_lines no_owner_def)

lemma clean_owner_set_field: "clean_field v \<Longrightarrow> clean_owner own \<Longrightarrow> clean_owner (set_owner_field k v own)"
  by (simp add: set_owner_field_def clean_owner_def)

lemma clean_owner_line: "newline \<notin> set line \<Longrightarrow> clean_owner own \<Longrightarrow> clean_owner (parse_owner_line line own)"
  by (auto simp: parse_owner_line_def dest!: cut_at_Some split: option.split
      intro!: clean_owner_set_field clean_field_trim)

lemma clean_owner_parse: "clean_owner (parse_host_lock_owner content)"
proof -
  have "clean_owner (fold parse_owner_line ls own)"
    if "\<forall>l\<in>set ls. newline \<notin> set l" "clean_owner own" for ls own
    using that by (induction ls arbitrary: own) (auto intro: clean_owner_line)
  moreover have "clean_owner no_owner" by (simp add: no_owner_def clean_owner_def)
  ultimately show ?thesis
    unfolding parse_host_lock_owner_def using split_on_parts by blast
qed

subsection \<open>The contract of a store of lock content\<close>

text \<open>
  \<open>current\<close> is the content of the lock, if there is one.  A swap that finds neither the
  expected nor the new content fails and changes nothing; a failed operation may still have
  been carried out (its reply was lost), but never against other content.
\<close>

locale owner_store =
  fixes current :: "'s \<Rightarrow> string option"
    and replace :: "string \<Rightarrow> string \<Rightarrow> 's \<Rightarrow> unit lock_outcome \<times> 's"
    and remove :: "string \<Rightarrow> 's \<Rightarrow> unit lock_outcome \<times> 's"
  assumes replace_done: "c \<noteq> [] \<Longrightarrow> replace e c s = (Inr u, s') \<Longrightarrow>
      current s' = Some c \<and> current s \<in> {Some e, Some c}"
    and replace_failed: "c \<noteq> [] \<Longrightarrow> replace e c s = (Inl x, s') \<Longrightarrow>
      current s' = current s \<or> current s = Some e \<and> current s' = Some c"
    and remove_done: "remove e s = (Inr u, s') \<Longrightarrow> current s' = None \<and> current s \<in> {Some e, None}"
    and remove_failed: "remove e s = (Inl x, s') \<Longrightarrow>
      current s' = current s \<or> current s = Some e \<and> current s' = None"
begin

lemma replace_outsider:
  assumes "replace e c s = (r, s')" "c \<noteq> []" "current s \<noteq> Some e" "current s \<noteq> Some c"
  shows "(\<exists>x. r = Inl x) \<and> current s' = current s"
  using assms replace_done [of c e s _ s'] replace_failed [of c e s _ s'] by (cases r) auto

lemma remove_outsider:
  assumes "remove e s = (r, s')" "current s \<noteq> Some e" "current s \<noteq> None"
  shows "(\<exists>x. r = Inl x) \<and> current s' = current s"
  using assms remove_done [of e s _ s'] remove_failed [of e s _ s'] by (cases r) auto

end

definition token_of :: "string \<Rightarrow> string" where
  "token_of content = own_token (parse_host_lock_owner content)"

definition owns :: "string option \<Rightarrow> string \<Rightarrow> bool" where
  "owns current token \<longleftrightarrow> (case current of None \<Rightarrow> False | Some c \<Rightarrow> token_of c = token)"

lemma token_of_owner_content:
  "newline \<notin> set session \<Longrightarrow> clean_field host \<Longrightarrow> clean_field active \<Longrightarrow> clean_field kept \<Longrightarrow>
     token_of (host_side_lock_owner_content host ((parse_host_lock_owner c)\<lparr>own_session := session\<rparr>)
       active kept leased now) = token_of c"
  using clean_owner_parse [of c]
  by (simp add: token_of_def parse_owner_content clean_owner_def)

lemma clean_parsed_fields:
  "clean_field (own_active (parse_host_lock_owner c))" "clean_field (own_kept (parse_host_lock_owner c))"
  "newline \<notin> set (own_session (parse_host_lock_owner c))"
  using clean_owner_parse [of c] by (simp_all add: clean_owner_def clean_field_def)

lemma token_of_owner_content':
  "clean_field host \<Longrightarrow> clean_field active \<Longrightarrow> clean_field kept \<Longrightarrow>
     token_of (host_side_lock_owner_content host (parse_host_lock_owner c) active kept leased now) = token_of c"
  using token_of_owner_content [of "own_session (parse_host_lock_owner c)" host active kept c leased now]
    clean_parsed_fields(3) [of c]
  by simp

text \<open>
  What a holder can ask of its lock, in one function: the events of a held lock.  Run ids and
  host ids are validated before they get here; \<open>good_event\<close> says so.
\<close>

datatype lock_event =
    Renew
  | MarkActive string
  | MarkKept string
  | BindSession string

fun lock_event_step ::
  "string \<Rightarrow> int \<Rightarrow> lock_event \<Rightarrow> 's host_side_lock \<Rightarrow> 's
     \<Rightarrow> unit lock_outcome \<times> 's host_side_lock \<times> 's" where
  "lock_event_step host now Renew lock s = lock_renew host now lock s"
| "lock_event_step host now (MarkActive run) lock s = lock_mark_active host run now lock s"
| "lock_event_step host now (MarkKept run) lock s = lock_mark_kept host run now lock s"
| "lock_event_step host now (BindSession session) lock s = lock_bind_session host session now lock s"

fun good_event :: "lock_event \<Rightarrow> bool" where
  "good_event (MarkActive run) = clean_field run"
| "good_event (MarkKept run) = clean_field run"
| "good_event _ = True"

text \<open>Every event is a swap to content with the same token, or changes nothing.\<close>

lemma owner_content_not_empty: "host_side_lock_owner_content host own active kept leased now \<noteq> []"
  by (simp add: host_side_lock_owner_content_def lock_line_def)

lemma lock_event_swap:
  assumes "lock_event_step host now ev lock s = (r, lock', s')" "good_event ev" "clean_field host"
  shows "lock' = lock \<and> s' = s
   \<or> (\<exists>c. c \<noteq> [] \<and> token_of c = token_of (hl_expected lock)
        \<and> swap_owner (hl_replace lock (hl_expected lock) c) c lock s = (r, lock', s'))"
proof -
  let ?own = "parse_host_lock_owner (hl_expected lock)"
  note ne = owner_content_not_empty
  show ?thesis
  proof (cases ev)
    case Renew
    let ?c = "host_side_lock_owner_content host ?own (own_active ?own) [] True now"
    have "token_of ?c = token_of (hl_expected lock)"
      using assms(3) by (simp add: token_of_owner_content' clean_parsed_fields)
    with assms(1) Renew show ?thesis
      by (cases "own_kept ?own = []") (auto simp: lock_renew_def Let_def ne intro: exI [of _ ?c])
  next
    case (MarkActive run)
    let ?c = "host_side_lock_owner_content host ?own run [] True now"
    have "token_of ?c = token_of (hl_expected lock)"
      using assms(2,3) MarkActive by (simp add: token_of_owner_content')
    with assms(1) MarkActive show ?thesis
      by (intro disjI2 exI [of _ ?c]) (simp add: lock_mark_active_def Let_def ne)
  next
    case (MarkKept run)
    let ?c = "host_side_lock_owner_content host ?own [] run False now"
    have "token_of ?c = token_of (hl_expected lock)"
      using assms(2,3) MarkKept by (simp add: token_of_owner_content')
    with assms(1) MarkKept show ?thesis
      by (intro disjI2 exI [of _ ?c]) (simp add: lock_mark_kept_def Let_def ne)
  next
    case (BindSession session)
    let ?own' = "?own\<lparr>own_session := session\<rparr>"
    let ?c = "host_side_lock_owner_content host ?own' (own_active ?own) (own_kept ?own) (own_kept ?own = []) now"
    show ?thesis
    proof (cases "trim_space session = [] \<or> CHR 0x00 \<in> set session \<or> CHR 0x0D \<in> set session \<or> newline \<in> set session")
      case True
      with assms(1) BindSession show ?thesis by (simp add: lock_bind_session_def)
    next
      case False
      then have "token_of ?c = token_of (hl_expected lock)"
        using assms(3) by (simp add: token_of_owner_content clean_parsed_fields)
      with assms(1) BindSession False show ?thesis
        by (intro disjI2 exI [of _ ?c]) (simp add: lock_bind_session_def Let_def ne)
    qed
  qed
qed

context owner_store
begin

lemma swap_effect:
  assumes "swap_owner (replace (hl_expected lock) c) c lock s = (r, lock', s')"
    "token_of c = token_of (hl_expected lock)" "c \<noteq> []"
  shows "(lock' = lock \<or> lock' = lock\<lparr>hl_expected := c\<rparr>)
    \<and> (current s' = current s
       \<or> owns (current s) (token_of (hl_expected lock)) \<and> owns (current s') (token_of (hl_expected lock)))
    \<and> (r = Inr () \<longrightarrow> owns (current s) (token_of (hl_expected lock)))"
proof (cases "replace (hl_expected lock) c s")
  case (Pair q s1)
  show ?thesis
  proof (cases q)
    case (Inl x)
    with assms Pair replace_failed [of c "hl_expected lock" s x s1] show ?thesis
      by (auto simp: swap_owner_def owns_def)
  next
    case (Inr u)
    with assms Pair replace_done [of c "hl_expected lock" s u s1] show ?thesis
      by (auto simp: swap_owner_def owns_def)
  qed
qed

text \<open>
  The effect of an event on a lock over this store: the lock keeps its token, and the
  content changes only when the lock owned it, to content it still owns.
\<close>

lemma event_effect:
  assumes "lock_event_step host now ev lock s = (r, lock', s')" "good_event ev" "clean_field host"
    "hl_replace lock = replace"
  shows "(\<exists>c. token_of c = token_of (hl_expected lock) \<and> lock' = lock\<lparr>hl_expected := c\<rparr>)
    \<and> (current s' = current s
       \<or> owns (current s) (token_of (hl_expected lock)) \<and> owns (current s') (token_of (hl_expected lock)))"
proof -
  have self: "lock = lock\<lparr>hl_expected := hl_expected lock\<rparr>" by simp
  from lock_event_swap [OF assms(1-3)] show ?thesis
  proof (elim disjE exE conjE)
    assume "lock' = lock" "s' = s"
    then show ?thesis using self by blast
  next
    fix c assume t: "c \<noteq> []" "token_of c = token_of (hl_expected lock)"
      and "swap_owner (hl_replace lock (hl_expected lock) c) c lock s = (r, lock', s')"
    then show ?thesis using swap_effect [of lock c s r lock' s'] self assms(4) by metis
  qed
qed

end

text \<open>C14. The text of a lock is read back as it was meant: whatever clean owner a holder writes,
  every reader recovers the machine, process, token and broker settings, the active or kept
  run just written, and, for a leased lock, exactly the expiry one hour after the writing.\<close>

theorem lock_text_roundtrip:
  assumes "clean_owner own" "clean_field host" "clean_field active" "clean_field kept"
  shows "parse_host_lock_owner (host_side_lock_owner_content host own active kept leased now)
      = own\<lparr>own_active := active, own_kept := kept,
          own_created := (if own_created own = [] then format_rfc3339nano now else own_created own),
          own_lease_expires := (if leased then format_rfc3339nano (now + host_side_lock_lease_duration) else []),
          own_authoritative := False, own_lease_expired := False, own_host_clock := False\<rparr>
    \<and> (writable_time (now + host_side_lock_lease_duration) \<longrightarrow>
        parse_rfc3339nano (format_rfc3339nano (now + host_side_lock_lease_duration))
          = Some (now + host_side_lock_lease_duration))"
proof -
  have "trim_space (own_session own) = own_session own" "newline \<notin> set (own_session own)"
    "clean_owner (own\<lparr>own_session := []\<rparr>)"
    using assms(1) by (simp_all add: clean_owner_def clean_field_def)
  then show ?thesis
    using parse_owner_content [OF _ _ assms(2-4), of own leased now] parse_format_rfc3339nano by simp
qed

text \<open>A lock as a run finds it: broker settings, an active run, a lease.\<close>

definition sample_owner :: host_lock_owner where
  "sample_owner = no_owner\<lparr>own_machine := ''ws-1'', own_pid := ''42'', own_token := ''a1b2'',
     own_active := ''run-1'', own_created := ''2025-07-25T09:54:56Z'',
     own_state_dir := ''C:/state'', own_python := ''py.exe'', own_repo := ''C:/repo''\<rparr>"

theorem lock_text_roundtrip_witness:
  "own_kept (parse_host_lock_owner (host_side_lock_owner_content ''h1'' sample_owner [] ''run-1'' False 0)) = ''run-1''"
proof -
  have "clean_owner sample_owner" "clean_field ''h1''" "clean_field ''run-1''" by code_simp+
  from lock_text_roundtrip [OF this(1,2) clean_field_Nil this(3), of False 0] show ?thesis by simp
qed

end
