(* ===== verification/Windows_Paths.thy ===== *)
theory Windows_Paths
  imports Repo_Config Scenario_Paths
begin

text \<open>
  Windows paths of a Maya Host, as the controller judges them before it touches the host
  (\<open>ssh_transport.go\<close>, \<open>trusted_plugin_allowlist.go\<close>): device prefixes, the canonical form used
  for comparison, component checks, and the validation of the trusted plugin root, the broker
  state directory and the broker repository.  The controller is a POSIX machine, so
  \<open>filepath.ToSlash\<close> is the identity; \<open>ToLower\<close> and \<open>ToUpper\<close> are those of ASCII text.
\<close>

subsection \<open>Text helpers\<close>

definition backslash :: char where "backslash = CHR 0x5C"

definition slashes :: "string \<Rightarrow> string" where
  "slashes s = map (\<lambda>c. if c = backslash then sep else c) s"

definition trim_left_sep :: "string \<Rightarrow> string" where
  "trim_left_sep s = dropWhile (\<lambda>c. c = sep) s"

definition trim_right_sep :: "string \<Rightarrow> string" where
  "trim_right_sep s = rev (dropWhile (\<lambda>c. c = sep) (rev s))"

definition trim_sep :: "string \<Rightarrow> string" where
  "trim_sep s = trim_right_sep (trim_left_sep s)"

definition upper_char :: "char \<Rightarrow> char" where
  "upper_char c = (let n = of_char c :: nat in if 97 \<le> n \<and> n \<le> 122 then char_of (n - 32) else c)"

definition to_upper :: "string \<Rightarrow> string" where
  "to_upper s = map upper_char s"

definition is_ascii_alpha :: "char \<Rightarrow> bool" where
  "is_ascii_alpha c = (let n = of_char c :: nat in 65 \<le> n \<and> n \<le> 90 \<or> 97 \<le> n \<and> n \<le> 122)"

definition has_suffix :: "string \<Rightarrow> string \<Rightarrow> bool" where
  "has_suffix s p \<longleftrightarrow> has_prefix (rev s) (rev p)"

subsection \<open>Joining remote paths\<close>

definition join_remote_part :: "string \<Rightarrow> string \<Rightarrow> string" where
  "join_remote_part part clean =
     (let p = trim_sep (slashes part) in if p = [] then clean else clean @ sep # p)"

definition remote_join :: "string \<Rightarrow> string list \<Rightarrow> string" where
  "remote_join root_path parts = fold join_remote_part parts (trim_right_sep (slashes root_path))"

definition sftp_remote_path :: "string \<Rightarrow> string" where
  "sftp_remote_path path =
     (let clean = slashes path in
      if 2 \<le> length clean \<and> clean ! 1 = CHR '':'' \<and> is_ascii_alpha (clean ! 0) then sep # clean else clean)"

datatype path_reject = SftpControl | SftpBackslash

definition reject_sftp_batch_unsafe_path :: "string \<Rightarrow> (path_reject, unit) result" where
  "reject_sftp_batch_unsafe_path path =
     (if \<exists>c\<in>set path. c = CHR 0x0A \<or> c = CHR 0x0D \<or> c = CHR 0x00 then Inl SftpControl else Inr ())"

definition reject_sftp_repo_path :: "string \<Rightarrow> (path_reject, unit) result" where
  "reject_sftp_repo_path path =
     (case reject_sftp_batch_unsafe_path path of
        Inl e \<Rightarrow> Inl e
      | Inr _ \<Rightarrow> if backslash \<in> set path then Inl SftpBackslash else Inr ())"

definition sftp_quote :: "string \<Rightarrow> string" where
  "sftp_quote value =
     CHR 0x22 # concat (map (\<lambda>c. if c = CHR 0x22 then [backslash, CHR 0x22] else [c]) value) @ [CHR 0x22]"

definition power_shell_single_quoted :: "string \<Rightarrow> string" where
  "power_shell_single_quoted value =
     CHR 0x27 # concat (map (\<lambda>c. if c = CHR 0x27 then [c, c] else [c]) value) @ [CHR 0x27]"

subsection \<open>Device prefixes and the canonical form\<close>

definition windows_path_without_device_prefix :: "string \<Rightarrow> string" where
  "windows_path_without_device_prefix v =
     (let value = slashes (trim_space v); low = to_lower value in
      if has_prefix low ''//?/unc/'' \<or> has_prefix low ''//./unc/'' then ''//'' @ drop 8 value
      else if has_prefix low ''//?/'' \<or> has_prefix low ''//./'' then drop 4 value
      else value)"

definition has_windows_device_prefix :: "string \<Rightarrow> bool" where
  "has_windows_device_prefix v =
     (let value = to_lower (slashes (trim_space v)) in
      has_prefix value ''//?/'' \<or> has_prefix value ''//./'')"

text \<open>The loop over the parts; \<open>None\<close> when it would climb above the volume.\<close>

fun clean_windows_parts :: "string list \<Rightarrow> string list \<Rightarrow> string list option" where
  "clean_windows_parts clean [] = Some clean"
| "clean_windows_parts clean (part # parts) =
     (if part = [] \<or> part = ''.'' then clean_windows_parts clean parts
      else if part = ''..''
      then (if clean = [] then None else clean_windows_parts (butlast clean) parts)
      else clean_windows_parts (clean @ [to_lower part]) parts)"

record windows_path =
  wp_clean :: string
  wp_volume :: string
  wp_absolute :: bool
  wp_traverses :: bool

text \<open>Volume and remaining parts of an absolute path.\<close>

datatype windows_root = NoRoot | BadRoot | Root string "string list"

fun drive_root :: "string \<Rightarrow> windows_root" where
  "drive_root (a # b # c # rest) =
     (if b = CHR '':'' \<and> c = sep \<and> is_ascii_alpha a
      then Root (to_lower [a, b]) (split_on sep rest)
      else NoRoot)"
| "drive_root _ = NoRoot"

definition windows_root_of :: "string \<Rightarrow> windows_root" where
  "windows_root_of value =
     (if has_prefix value ''//''
      then (case split_on sep (trim_left_sep value) of
              server # share # parts \<Rightarrow>
                if server = [] \<or> share = [] then NoRoot
                else if server \<in> {''.'', ''..''} \<or> share \<in> {''.'', ''..''} then BadRoot
                else Root (''//'' @ to_lower server @ sep # to_lower share) parts
            | _ \<Rightarrow> NoRoot)
      else drive_root value)"

definition canonical_windows_path_for_comparison :: "string \<Rightarrow> windows_path" where
  "canonical_windows_path_for_comparison value =
     (case windows_root_of (windows_path_without_device_prefix value) of
        NoRoot \<Rightarrow> \<lparr>wp_clean = [], wp_volume = [], wp_absolute = False, wp_traverses = False\<rparr>
      | BadRoot \<Rightarrow> \<lparr>wp_clean = [], wp_volume = [], wp_absolute = True, wp_traverses = True\<rparr>
      | Root volume parts \<Rightarrow>
          (case clean_windows_parts [] parts of
             None \<Rightarrow> \<lparr>wp_clean = [], wp_volume = volume, wp_absolute = True, wp_traverses = True\<rparr>
           | Some clean \<Rightarrow>
               \<lparr>wp_clean = (if clean = [] then volume else volume @ sep # join_with [sep] clean),
                wp_volume = volume, wp_absolute = True, wp_traverses = False\<rparr>))"

subsection \<open>Components Windows would rewrite or refuse\<close>

definition real_component :: "string \<Rightarrow> bool" where
  "real_component c \<longleftrightarrow> c \<noteq> [] \<and> c \<noteq> ''.'' \<and> c \<noteq> ''..''"

definition has_win32_trimmed_path_component :: "string \<Rightarrow> bool" where
  "has_win32_trimmed_path_component value =
     list_ex (\<lambda>c. real_component c \<and> (has_suffix c '' '' \<or> has_suffix c ''.'')) (split_on sep (slashes value))"

definition has_reserved_win32_port_device_name :: "string \<Rightarrow> bool" where
  "has_reserved_win32_port_device_name base =
     ((has_prefix base ''COM'' \<or> has_prefix base ''LPT'') \<and>
      (let suffix = drop 3 base in
       (case suffix of [d] \<Rightarrow> is_digit d \<and> d \<noteq> CHR ''0'' | _ \<Rightarrow> False)
       \<or> suffix \<in> {[CHR 0xC2, CHR 0xB9], [CHR 0xC2, CHR 0xB2], [CHR 0xC2, CHR 0xB3]}))"

definition before_dot :: "string \<Rightarrow> string" where
  "before_dot c = takeWhile (\<lambda>x. x \<noteq> CHR ''.'') c"

definition invalid_win32_component :: "string \<Rightarrow> bool" where
  "invalid_win32_component c =
     ((\<exists>x\<in>set c. x \<in> {CHR ''<'', CHR ''>'', CHR '':'', CHR 0x22, CHR ''|'', CHR ''?'', CHR ''*''}
          \<or> (of_char x :: nat) < 32)
      \<or> to_upper (before_dot c) \<in> {''CON'', ''PRN'', ''AUX'', ''NUL'', ''CONIN$'', ''CONOUT$''}
      \<or> has_reserved_win32_port_device_name (to_upper (before_dot c)))"

definition drive_component :: "string \<Rightarrow> bool" where
  "drive_component c = (case c of [a, b] \<Rightarrow> b = CHR '':'' \<and> is_ascii_alpha a | _ \<Rightarrow> False)"

definition has_invalid_win32_path_component :: "string \<Rightarrow> bool" where
  "has_invalid_win32_path_component value =
     (case split_on sep (slashes value) of
        [] \<Rightarrow> False
      | c # cs \<Rightarrow>
          real_component c \<and> \<not> drive_component c \<and> invalid_win32_component c
          \<or> list_ex (\<lambda>c. real_component c \<and> invalid_win32_component c) cs)"

subsection \<open>Validation\<close>

datatype windows_error =
    DeviceNamespace
  | PathControl path_reject
  | RootDirectory
  | AboveRoot
  | NotAbsolute
  | TrimmedComponent
  | InvalidComponent
  | WorkRootPath
  | WorkRootTrimmed
  | WorkRootInvalid
  | InsideWorkRoot
  | ContainsRuns
  | PathRequired
  | SurroundingSpace
  | EscapesRepo

definition trusted_plugin_artifacts_root :: "maya_host_config \<Rightarrow> string" where
  "trusted_plugin_artifacts_root host = trim_space (mh_trusted_root host)"

definition validate_trusted_plugin_artifacts_root :: "maya_host_config \<Rightarrow> (windows_error, unit) result" where
  "validate_trusted_plugin_artifacts_root host =
     (let trusted = trusted_plugin_artifacts_root host in
      if trusted = [] then Inr ()
      else if has_windows_device_prefix trusted then Inl DeviceNamespace
      else case reject_sftp_batch_unsafe_path trusted of Inl e \<Rightarrow> Inl (PathControl e) | Inr _ \<Rightarrow>
      (let normalized = trim_space (slashes trusted); canon = canonical_windows_path_for_comparison trusted in
       if normalized = ''.'' \<or> trim_sep normalized = [] then Inl RootDirectory
       else if wp_traverses canon then Inl AboveRoot
       else if \<not> wp_absolute canon then Inl NotAbsolute
       else if has_win32_trimmed_path_component (mh_trusted_root host) then Inl TrimmedComponent
       else if has_invalid_win32_path_component (mh_trusted_root host) then Inl InvalidComponent
       else if wp_clean canon = wp_volume canon then Inl RootDirectory
       else if trim_space (mh_work_root host) = [] then Inr ()
       else
         (let work = canonical_windows_path_for_comparison (mh_work_root host) in
          if wp_traverses work \<or> \<not> wp_absolute work then Inl WorkRootPath
          else if has_win32_trimmed_path_component (mh_work_root host) then Inl WorkRootTrimmed
          else if has_invalid_win32_path_component (mh_work_root host) then Inl WorkRootInvalid
          else
            (let runs = remote_join (wp_clean work) [''runs''] in
             if wp_clean canon = wp_clean work \<or> wp_clean canon = runs
                \<or> has_prefix (wp_clean canon) (runs @ [sep])
             then Inl InsideWorkRoot
             else if has_prefix runs (wp_clean canon @ [sep]) then Inl ContainsRuns
             else Inr ()))))"

definition trusted_plugin_artifact_path :: "maya_host_config \<Rightarrow> string \<Rightarrow> string \<Rightarrow> string" where
  "trusted_plugin_artifact_path host kind source =
     (if kind \<noteq> ''pluginArtifacts'' then []
      else if trusted_plugin_artifacts_root host = [] then []
      else remote_join (trusted_plugin_artifacts_root host) [source])"

definition validate_session_broker_state_dir :: "string \<Rightarrow> (windows_error, unit) result" where
  "validate_session_broker_state_dir state_dir =
     (let canon = canonical_windows_path_for_comparison state_dir; normalized = slashes state_dir;
          clean = path_clean normalized in
      if trim_space state_dir = [] then Inl PathRequired
      else if state_dir \<noteq> trim_space state_dir then Inl SurroundingSpace
      else if has_windows_device_prefix state_dir then Inl DeviceNamespace
      else if wp_traverses canon then Inl AboveRoot
      else if \<not> wp_absolute canon \<and>
        (has_prefix normalized [sep]
         \<or> 2 \<le> length normalized \<and> is_ascii_alpha (normalized ! 0) \<and> normalized ! 1 = CHR '':'')
      then Inl NotAbsolute
      else if \<not> wp_absolute canon \<and> (clean = ''..'' \<or> has_prefix clean ''../'') then Inl EscapesRepo
      else if has_win32_trimmed_path_component state_dir \<or> has_invalid_win32_path_component state_dir
      then Inl InvalidComponent
      else Inr ())"

definition validate_session_broker_repo :: "string \<Rightarrow> (windows_error, unit) result" where
  "validate_session_broker_repo repo =
     (if trim_space repo = [] then Inl PathRequired
      else if repo \<noteq> trim_space repo then Inl SurroundingSpace
      else if has_windows_device_prefix repo then Inl DeviceNamespace
      else case reject_sftp_batch_unsafe_path repo of Inl e \<Rightarrow> Inl (PathControl e) | Inr _ \<Rightarrow>
      (let canon = canonical_windows_path_for_comparison repo in
       if wp_traverses canon then Inl AboveRoot
       else if \<not> wp_absolute canon then Inl NotAbsolute
       else if has_win32_trimmed_path_component repo \<or> has_invalid_win32_path_component repo
       then Inl InvalidComponent
       else Inr ()))"

text \<open>
  \<open>trustedPluginMayaAppDir\<close>: an empty path when the broker is not a configured
  \<open>gg-mayasessiond\<close>.
\<close>

definition trusted_plugin_maya_app_dir :: "maya_host_config \<Rightarrow> (windows_error, string) result" where
  "trusted_plugin_maya_app_dir host =
     (let broker = mh_broker host; state_dir = br_state_dir broker in
      if \<not> is_gg_maya_sessiond broker \<or> trim_space state_dir = [] then Inr []
      else case validate_session_broker_state_dir state_dir of Inl e \<Rightarrow> Inl e | Inr _ \<Rightarrow>
           (case validate_session_broker_repo (br_repo broker) of Inl e \<Rightarrow> Inl e | Inr _ \<Rightarrow>
              if wp_absolute (canonical_windows_path_for_comparison state_dir)
              then Inr (remote_join state_dir [''maya_app''])
              else Inr (remote_join (br_repo broker) [state_dir, ''maya_app''])))"

subsection \<open>What the canonical form guarantees\<close>

text \<open>Parts as Windows resolves them: lower case, real, without separators.\<close>

definition win_parts :: "string list \<Rightarrow> bool" where
  "win_parts ps \<longleftrightarrow>
     list_all (\<lambda>p. p \<noteq> [] \<and> p \<noteq> ''.'' \<and> p \<noteq> ''..'' \<and> sep \<notin> set p \<and> backslash \<notin> set p \<and> to_lower p = p) ps"

lemma backslash_not_sep [simp]: "backslash \<noteq> sep" "sep \<noteq> backslash"
  by (simp_all add: backslash_def)

lemma slashes_no_backslash: "backslash \<notin> set (slashes s)"
  by (auto simp: slashes_def)

lemma slashes_fixed: "backslash \<notin> set s \<Longrightarrow> slashes s = s"
  unfolding slashes_def by (induction s) auto

lemma lower_char_eq_punct:
  "lower_char c = sep \<longleftrightarrow> c = sep" "lower_char c = backslash \<longleftrightarrow> c = backslash"
  "lower_char c = CHR ''.'' \<longleftrightarrow> c = CHR ''.''"
proof -
  have inj: "c = d" if "(of_char c :: nat) = of_char d" for d using that by simp
  have cases: "lower_char c = c \<or> 97 \<le> (of_char (lower_char c) :: nat) \<and> (of_char (lower_char c) :: nat) \<le> 122
      \<and> 65 \<le> (of_char c :: nat) \<and> (of_char c :: nat) \<le> 90"
    by (auto simp: lower_char_def Let_def)
  then show "lower_char c = sep \<longleftrightarrow> c = sep" "lower_char c = backslash \<longleftrightarrow> c = backslash"
    "lower_char c = CHR ''.'' \<longleftrightarrow> c = CHR ''.''"
    by (auto simp: backslash_def)
qed

lemma to_lower_part:
  "to_lower p = [] \<longleftrightarrow> p = []" "to_lower p = ''.'' \<longleftrightarrow> p = ''.''" "to_lower p = ''..'' \<longleftrightarrow> p = ''..''"
  "sep \<in> set (to_lower p) \<longleftrightarrow> sep \<in> set p" "backslash \<in> set (to_lower p) \<longleftrightarrow> backslash \<in> set p"
proof -
  show "to_lower p = [] \<longleftrightarrow> p = []" "to_lower p = ''.'' \<longleftrightarrow> p = ''.''" "to_lower p = ''..'' \<longleftrightarrow> p = ''..''"
    by (auto simp: to_lower_def map_eq_Cons_conv lower_char_eq_punct)
  have i: "c \<in> set (to_lower p) \<longleftrightarrow> (\<exists>x\<in>set p. lower_char x = c)" for c
    by (auto simp: to_lower_def)
  show "sep \<in> set (to_lower p) \<longleftrightarrow> sep \<in> set p" "backslash \<in> set (to_lower p) \<longleftrightarrow> backslash \<in> set p"
    unfolding i lower_char_eq_punct by auto
qed

lemma clean_windows_parts_ok:
  "clean_windows_parts clean parts = Some ps \<Longrightarrow> win_parts clean \<Longrightarrow>
     list_all (\<lambda>p. sep \<notin> set p \<and> backslash \<notin> set p) parts \<Longrightarrow> win_parts ps"
proof (induction clean parts rule: clean_windows_parts.induct)
  case (2 clean part parts)
  show ?case
  proof (cases "part = [] \<or> part = ''.''")
    case True
    with 2 show ?thesis by simp
  next
    case False
    show ?thesis
    proof (cases "part = ''..''")
      case True
      have "win_parts (butlast clean)"
        using "2.prems"(2) by (auto simp: win_parts_def list_all_iff dest: in_set_butlastD)
      with True False 2 show ?thesis by (simp split: if_split_asm)
    next
      case up: False
      have "win_parts (clean @ [to_lower part])"
        using "2.prems"(2,3) False up by (simp add: win_parts_def to_lower_part)
      with False up 2 show ?thesis by simp
    qed
  qed
qed simp

definition joined :: "string \<Rightarrow> string list \<Rightarrow> string" where
  "joined volume parts = volume @ concat (map (\<lambda>p. sep # p) parts)"

lemma joined_join: "joined volume parts = (if parts = [] then volume else volume @ sep # join_with [sep] parts)"
proof -
  have "parts \<noteq> [] \<Longrightarrow> concat (map (\<lambda>p. sep # p) parts) = sep # join_with [sep] parts"
    by (induction "[sep]" parts rule: join_with.induct) auto
  then show ?thesis by (simp add: joined_def)
qed

lemma joined_append: "joined volume (ps @ qs) = joined volume ps @ concat (map (\<lambda>p. sep # p) qs)"
  by (simp add: joined_def)

definition win_volume :: "string \<Rightarrow> bool" where
  "win_volume v \<longleftrightarrow> v \<noteq> [] \<and> last v \<noteq> sep \<and> backslash \<notin> set v"

lemma windows_root_parts:
  assumes "windows_root_of value = Root volume parts" "backslash \<notin> set value"
  shows "win_volume volume" "list_all (\<lambda>p. sep \<notin> set p \<and> backslash \<notin> set p) parts"
proof -
  have dw: "set (trim_left_sep value) \<subseteq> set value" by (auto simp: trim_left_sep_def dest: set_dropWhileD)
  have "win_volume volume \<and> list_all (\<lambda>p. sep \<notin> set p \<and> backslash \<notin> set p) parts"
  proof (cases "has_prefix value ''//''")
    case True
    then obtain server share where s: "split_on sep (trim_left_sep value) = server # share # parts"
      "share \<noteq> []" "volume = ''//'' @ to_lower server @ sep # to_lower share"
      using assms(1) by (auto simp: windows_root_of_def split: list.split_asm if_split_asm)
    have all: "sep \<notin> set p \<and> backslash \<notin> set p" if "p \<in> set (server # share # parts)" for p
      using split_on_parts [of p sep "trim_left_sep value"] that dw assms(2) unfolding s(1) by blast
    then have "sep \<notin> set (to_lower share)" "to_lower share \<noteq> []"
      using s(2) to_lower_part by auto
    then have "last (to_lower share) \<noteq> sep" using last_in_set by metis
    then have "win_volume volume"
      using all s(3) \<open>to_lower share \<noteq> []\<close> by (auto simp: win_volume_def to_lower_part)
    then show ?thesis using all by (simp add: list_all_iff)
  next
    case False
    with assms(1) have d: "drive_root value = Root volume parts" by (simp add: windows_root_of_def)
    then obtain a rest where v: "value = a # CHR '':'' # sep # rest" "volume = to_lower [a, CHR '':'']"
      "parts = split_on sep rest"
      by (cases "value" rule: drive_root.cases) (auto split: if_split_asm)
    have "to_lower [a, CHR '':''] = [lower_char a, CHR '':'']" by (simp add: to_lower_def lower_char_def)
    then have "win_volume volume"
      using v assms(2) lower_char_eq_punct(2) [of a] by (auto simp: win_volume_def backslash_def)
    then show ?thesis
      using split_on_parts [of _ sep rest] v assms(2) by (auto simp: list_all_iff)
  qed
  then show "win_volume volume" "list_all (\<lambda>p. sep \<notin> set p \<and> backslash \<notin> set p) parts" by blast+
qed

lemma no_backslash_without_prefix: "backslash \<notin> set (windows_path_without_device_prefix v)"
proof -
  have "backslash \<notin> set (drop n (slashes (trim_space v)))" for n
    using slashes_no_backslash [of "trim_space v"] by (meson in_set_dropD)
  from this [of 0] this [of 4] this [of 8] show ?thesis
    by (auto simp: windows_path_without_device_prefix_def Let_def backslash_def)
qed

lemma canonical_absolute:
  assumes "wp_absolute (canonical_windows_path_for_comparison v)"
    "\<not> wp_traverses (canonical_windows_path_for_comparison v)"
  obtains volume parts where "win_volume volume" "win_parts parts"
    "wp_volume (canonical_windows_path_for_comparison v) = volume"
    "wp_clean (canonical_windows_path_for_comparison v) = joined volume parts"
proof -
  obtain volume raw ps where r: "windows_root_of (windows_path_without_device_prefix v) = Root volume raw"
    and c: "clean_windows_parts [] raw = Some ps"
    using assms by (auto simp: canonical_windows_path_for_comparison_def split: windows_root.split_asm option.split_asm)
  note rp = windows_root_parts [OF r no_backslash_without_prefix]
  have "win_parts ps" using clean_windows_parts_ok [OF c _ rp(2)] by (simp add: win_parts_def)
  then show thesis
    using that [of volume ps] rp(1) r c by (simp add: canonical_windows_path_for_comparison_def joined_join)
qed

lemma remote_join_runs:
  assumes "win_volume volume" "win_parts parts"
  shows "remote_join (joined volume parts) [''runs''] = joined volume (parts @ [''runs''])"
proof -
  let ?j = "joined volume parts"
  have bs: "backslash \<notin> set ?j" using assms by (auto simp: joined_def win_volume_def win_parts_def list_all_iff)
  have ne: "?j \<noteq> []" using assms(1) by (simp add: joined_def win_volume_def)
  have last: "last ?j \<noteq> sep"
  proof (cases parts rule: rev_cases)
    case Nil
    then show ?thesis using assms(1) by (simp add: joined_def win_volume_def)
  next
    case (snoc qs q)
    then have "q \<noteq> []" "sep \<notin> set q" using assms(2) by (simp_all add: win_parts_def)
    then have "last q \<noteq> sep" using last_in_set by metis
    then show ?thesis using snoc \<open>q \<noteq> []\<close> by (simp add: joined_append)
  qed
  have "dropWhile (\<lambda>c. c = sep) (rev ?j) = rev ?j"
    using ne last by (cases "rev ?j") (auto simp: hd_rev [symmetric])
  then have "trim_right_sep (slashes ?j) = ?j" using bs by (simp add: trim_right_sep_def slashes_fixed)
  moreover have "trim_sep (slashes ''runs'') = ''runs''" by code_simp
  ultimately show ?thesis
    by (simp add: remote_join_def join_remote_part_def joined_append Let_def)
qed

text \<open>One canonical directory lies in, or is, another.\<close>

definition lies_in :: "string \<times> string list \<Rightarrow> string \<times> string list \<Rightarrow> bool" where
  "lies_in a b \<longleftrightarrow> fst a = fst b \<and> (\<exists>rest. snd a = snd b @ rest)"

lemma lies_in_prefix:
  assumes "lies_in (va, a) (vb, b)"
  shows "joined va a = joined vb b \<or> has_prefix (joined va a) (joined vb b @ [sep])"
proof -
  obtain rest where r: "va = vb" "a = b @ rest" using assms by (auto simp: lies_in_def)
  then show ?thesis by (cases rest) (auto simp: joined_append has_prefix_iff)
qed


definition sample_broker :: broker_config where
  "sample_broker = \<lparr>br_fake_status = [], br_structured = True, br_type = ''gg-mayasessiond'',
     br_state_dir = ''state'', br_python = ''python.exe'', br_repo = ''C:/sessiond'', br_mcp_source = [],
     br_mcp_python = [], br_maya_exe = [], br_port = 0, br_recovery_task = []\<rparr>"

definition sample_ssh :: ssh_config where
  "sample_ssh = \<lparr>ssh_fake_status = [], ssh_host = ''maya-01'', ssh_user = ''artist'', ssh_port = 22, ssh_identity_file = [],
     ssh_binary = [], ssh_sftp_binary = [], ssh_sftp_timeout = []\<rparr>"

definition sample_host :: "string \<Rightarrow> string \<Rightarrow> maya_host_config" where
  "sample_host work trusted = \<lparr>mh_id = ''maya-01'', mh_health = [], mh_transport = ''ssh'', mh_ssh = sample_ssh,
     mh_work_root = work, mh_trusted_root = trusted, mh_broker = sample_broker, mh_maya_versions = [''2025''],
     mh_fake_versions = None, mh_visual_evidence = None, mh_capabilities = None\<rparr>"


end
