(* ===== verification/Remote_Lock.thy ===== *)
theory Remote_Lock
  imports Host_Lock Windows_Paths
begin

text \<open>
  The Host Lock of a Maya Host reached over SSH (\<open>host_lock_ssh.go\<close>).  The lock is a file on
  the host; every operation is a PowerShell script that runs there under a mutex and prints
  a result, and the controller decides from the results, retries and re-reads when a reply
  is lost.

  The scripts are functions on the host's state: the lock file with its last write time,
  the host's clock, and what the network will do to the next commands.  A command is
  delivered, lost before it ran, or lost after it ran; a loss carries the error text the
  controller sees.  The mutex is free when a script runs: a script that waits for it in vain
  is a command lost before it ran, with a \<open>timed out\<close> text.
\<close>

subsection \<open>The host and the network\<close>

datatype delivery = Delivered | LostBefore string | LostAfter string

record remote_host =
  rh_file :: "(string \<times> int) option"
  rh_clock :: int
  rh_net :: "delivery list"

record remote_lock_result =
  rr_acquired :: bool
  rr_locked :: bool
  rr_state :: string
  rr_active :: string
  rr_kept :: string
  rr_machine :: string
  rr_pid :: string
  rr_created :: string
  rr_lease_expires :: string
  rr_lease_seconds :: string
  rr_state_dir :: string
  rr_python :: string
  rr_repo :: string
  rr_lease_expired :: bool
  rr_lease_version :: string
  rr_token :: string
  rr_raw :: string
  rr_content_read :: bool
  rr_error :: string

definition no_result :: remote_lock_result where
  "no_result = \<lparr>rr_acquired = False, rr_locked = False, rr_state = [], rr_active = [], rr_kept = [],
     rr_machine = [], rr_pid = [], rr_created = [], rr_lease_expires = [], rr_lease_seconds = [],
     rr_state_dir = [], rr_python = [], rr_repo = [], rr_lease_expired = False, rr_lease_version = [],
     rr_token = [], rr_raw = [], rr_content_read = False, rr_error = []\<rparr>"

type_synonym script = "remote_host \<Rightarrow> remote_lock_result \<times> remote_host"

text \<open>\<open>runRemoteHostLockScript\<close>: the result, or the error of a command that got lost.\<close>

definition run_remote_host_lock_script ::
  "script \<Rightarrow> remote_host \<Rightarrow> (string, remote_lock_result) result \<times> remote_host" where
  "run_remote_host_lock_script script s =
     (case rh_net s of
        [] \<Rightarrow> (case script s of (r, s') \<Rightarrow> (Inr r, s'))
      | Delivered # net \<Rightarrow> (case script (s\<lparr>rh_net := net\<rparr>) of (r, s') \<Rightarrow> (Inr r, s'))
      | LostBefore e # net \<Rightarrow> (Inl e, s\<lparr>rh_net := net\<rparr>)
      | LostAfter e # net \<Rightarrow> (Inl e, snd (script (s\<lparr>rh_net := net\<rparr>))))"

subsection \<open>The scripts\<close>

text \<open>
  \<open>Lock-Fields\<close>: PowerShell's \<open>switch\<close> ignores case, an empty value is skipped, and a carriage
  return at the end of a line disappears with the trimming.
\<close>

definition set_lock_field :: "string \<Rightarrow> string \<Rightarrow> remote_lock_result \<Rightarrow> remote_lock_result" where
  "set_lock_field key value f =
     (if equal_fold key ''keptRun'' then f\<lparr>rr_state := ''kept'', rr_kept := value\<rparr>
      else if equal_fold key ''activeRun'' then f\<lparr>rr_active := value\<rparr>
      else if equal_fold key ''clientMachine'' then f\<lparr>rr_machine := value\<rparr>
      else if equal_fold key ''clientPid'' then f\<lparr>rr_pid := value\<rparr>
      else if equal_fold key ''createdAt'' then f\<lparr>rr_created := value\<rparr>
      else if equal_fold key ''brokerStateDir'' then f\<lparr>rr_state_dir := value\<rparr>
      else if equal_fold key ''brokerPython'' then f\<lparr>rr_python := value\<rparr>
      else if equal_fold key ''brokerRepo'' then f\<lparr>rr_repo := value\<rparr>
      else if equal_fold key ''leaseExpiresAt'' then f\<lparr>rr_lease_expires := value\<rparr>
      else if equal_fold key ''leaseDurationSeconds'' then f\<lparr>rr_lease_seconds := value\<rparr>
      else if equal_fold key ''lockToken'' then f\<lparr>rr_token := value\<rparr>
      else f)"

definition lock_field_line :: "string \<Rightarrow> remote_lock_result \<Rightarrow> remote_lock_result" where
  "lock_field_line line f =
     (case cut_at (CHR '':'') line of
        None \<Rightarrow> f
      | Some (key, value) \<Rightarrow>
          if trim_space value = [] then f else set_lock_field (trim_space key) (trim_space value) f)"

definition lock_fields :: "string \<Rightarrow> remote_lock_result" where
  "lock_fields raw = fold lock_field_line (split_on newline raw)
     (no_result\<lparr>rr_state := ''active'', rr_raw := raw\<rparr>)"

text \<open>
  \<open>Locked-Result\<close>.  The age of the lease is measured on the host, from the last write of the
  file.  A duration that is not a number stops the script, which the program never writes;
  the model then takes the default.
\<close>

definition lease_ns :: "remote_lock_result \<Rightarrow> int" where
  "lease_ns f =
     (case atoi (rr_lease_seconds f) of
        None \<Rightarrow> host_side_lock_lease_duration
      | Some n \<Rightarrow> seconds n)"

definition locked_result :: "string \<Rightarrow> int \<Rightarrow> int \<Rightarrow> remote_lock_result" where
  "locked_result raw modified now =
     (let f = lock_fields raw in
      f\<lparr>rr_content_read := True, rr_lease_expired := (lease_ns f \<le> now - modified),
        rr_lease_version := show_int modified, rr_locked := True\<rparr>)"

definition new_lock_file :: "string \<Rightarrow> remote_host \<Rightarrow> remote_host" where
  "new_lock_file content s = s\<lparr>rh_file := Some (content, rh_clock s)\<rparr>"

definition acquired_result :: remote_lock_result where
  "acquired_result = no_result\<lparr>rr_acquired := True, rr_state := ''active''\<rparr>"

definition remote_host_lock_acquire_script :: "string \<Rightarrow> script" where
  "remote_host_lock_acquire_script content s =
     (case rh_file s of
        Some (raw, modified) \<Rightarrow> (locked_result raw modified (rh_clock s), s)
      | None \<Rightarrow> (acquired_result, new_lock_file content s))"

definition remote_host_lock_reclaim_script :: "string \<Rightarrow> string \<Rightarrow> string \<Rightarrow> script" where
  "remote_host_lock_reclaim_script expected lease_version content s =
     (case rh_file s of
        Some (raw, modified) \<Rightarrow>
          if raw \<noteq> expected then ((lock_fields raw)\<lparr>rr_locked := True\<rparr>, s)
          else if show_int modified \<noteq> lease_version then (locked_result raw modified (rh_clock s), s)
          else (acquired_result, new_lock_file content s)
      | None \<Rightarrow> (acquired_result, new_lock_file content s))"

definition lock_missing_text :: string where
  "lock_missing_text = ''Host Lock missing on Maya Host''"

definition ownership_changed_text :: string where
  "ownership_changed_text = ''Host Lock ownership changed on Maya Host''"

definition state_result :: "string \<Rightarrow> remote_lock_result" where
  "state_result st = no_result\<lparr>rr_state := st\<rparr>"

definition error_result :: "string \<Rightarrow> remote_lock_result" where
  "error_result e = no_result\<lparr>rr_error := e\<rparr>"

definition remote_host_lock_replace_script :: "string \<Rightarrow> string \<Rightarrow> script" where
  "remote_host_lock_replace_script expected content s =
     (case rh_file s of
        None \<Rightarrow> (error_result lock_missing_text, s)
      | Some (current, modified) \<Rightarrow>
          if current = content then (state_result ''updated'', s)
          else if current \<noteq> expected then (error_result ownership_changed_text, s)
          else (state_result ''updated'', new_lock_file content s))"

definition remote_host_lock_remove_script :: "string \<Rightarrow> script" where
  "remote_host_lock_remove_script expected s =
     (case rh_file s of
        None \<Rightarrow> (state_result ''unlocked'', s)
      | Some (current, modified) \<Rightarrow>
          if current \<noteq> expected then (error_result ownership_changed_text, s)
          else (state_result ''unlocked'', s\<lparr>rh_file := None\<rparr>))"

definition remote_host_lock_remove_for_run_script :: "string \<Rightarrow> script" where
  "remote_host_lock_remove_for_run_script run s =
     (case rh_file s of
        None \<Rightarrow> (state_result ''unlocked'', s)
      | Some (current, modified) \<Rightarrow>
          (let f = lock_fields current in
           if rr_kept f \<noteq> run \<and> rr_active f \<noteq> run then (state_result ''different'', s)
           else (state_result ''unlocked'', s\<lparr>rh_file := None\<rparr>)))"

definition remote_host_lock_state_script :: script where
  "remote_host_lock_state_script s =
     (case rh_file s of
        None \<Rightarrow> (state_result ''unlocked'', s)
      | Some (raw, modified) \<Rightarrow> (locked_result raw modified (rh_clock s), s))"

text \<open>
  The preamble of a fenced broker action: \<open>by_kept\<close> chooses the field (\<open>keptRun\<close> or
  \<open>lockToken\<close>) that must name the caller.  Passing it touches the file of an active lease.
\<close>

definition remote_host_lock_fence_script :: "bool \<Rightarrow> string \<Rightarrow> remote_host \<Rightarrow> bool \<times> remote_host" where
  "remote_host_lock_fence_script by_kept value s =
     (case rh_file s of
        None \<Rightarrow> (False, s)
      | Some (raw, modified) \<Rightarrow>
          (let f = locked_result raw modified (rh_clock s) in
           if (if by_kept then rr_kept f else rr_token f) \<noteq> value then (False, s)
           else if rr_state f = ''kept'' then (True, s)
           else if rr_lease_expired f then (False, s)
           else (True, s\<lparr>rh_file := Some (raw, rh_clock s)\<rparr>)))"

subsection \<open>The controller\<close>

definition max_remote_host_lock_reclaim_attempts :: nat where
  "max_remote_host_lock_reclaim_attempts = 2"

definition max_remote_host_lock_timeout_attempts :: nat where
  "max_remote_host_lock_timeout_attempts = 2"

text \<open>\<open>strings.Contains\<close>\<close>

fun str_contains :: "string \<Rightarrow> string \<Rightarrow> bool" where
  "str_contains s sub = (has_prefix s sub \<or> (case s of [] \<Rightarrow> False | _ # r \<Rightarrow> str_contains r sub))"

declare str_contains.simps [simp del]

definition is_remote_host_lock_timeout :: "string \<Rightarrow> bool" where
  "is_remote_host_lock_timeout e = str_contains e ''timed out''"

definition remote_host_lock_error :: "string \<Rightarrow> lock_error" where
  "remote_host_lock_error message =
     (if str_contains message ''Host Lock ownership changed'' then OwnershipChanged []
      else RemoteFailure message)"

text \<open>\<open>errors.Join\<close> of a command error and the error of reading the state.\<close>

definition join_errors :: "string \<Rightarrow> (string, 'a) result \<Rightarrow> lock_error" where
  "join_errors e state =
     RemoteFailure (case state of Inl e' \<Rightarrow> e @ newline # e' | Inr _ \<Rightarrow> e)"

fun retry_remote_host_lock_timeout ::
  "nat \<Rightarrow> (remote_host \<Rightarrow> (string, remote_lock_result) result \<times> remote_host) \<Rightarrow> remote_host
     \<Rightarrow> (string, remote_lock_result) result \<times> remote_host" where
  "retry_remote_host_lock_timeout 0 action s = action s"
| "retry_remote_host_lock_timeout (Suc n) action s =
     (case action s of
        (Inr r, s') \<Rightarrow> (Inr r, s')
      | (Inl e, s') \<Rightarrow>
          if is_remote_host_lock_timeout e then retry_remote_host_lock_timeout n action s' else (Inl e, s'))"

definition read_remote_host_lock_state ::
  "remote_host \<Rightarrow> (string, remote_lock_result) result \<times> remote_host" where
  "read_remote_host_lock_state =
     retry_remote_host_lock_timeout (max_remote_host_lock_timeout_attempts - 1)
       (run_remote_host_lock_script remote_host_lock_state_script)"

fun replace_remote_loop :: "nat \<Rightarrow> string \<Rightarrow> string \<Rightarrow> remote_host \<Rightarrow> unit lock_outcome \<times> remote_host" where
  "replace_remote_loop retries expected content s =
     (case run_remote_host_lock_script (remote_host_lock_replace_script expected content) s of
        (Inr r, s1) \<Rightarrow>
          if rr_error r \<noteq> [] then (Inl (remote_host_lock_error (rr_error r)), s1) else (Inr (), s1)
      | (Inl e, s1) \<Rightarrow>
          (case read_remote_host_lock_state s1 of
             (state, s2) \<Rightarrow>
               (case state of
                  Inr st \<Rightarrow>
                    if rr_raw st = content then (Inr (), s2)
                    else if rr_state st = ''unlocked'' \<or> rr_content_read st \<and> rr_raw st \<noteq> expected
                    then (Inl (OwnershipChanged []), s2)
                    else (case retries of
                            Suc n \<Rightarrow> if is_remote_host_lock_timeout e
                                     then replace_remote_loop n expected content s2
                                     else (Inl (join_errors e state), s2)
                          | 0 \<Rightarrow> (Inl (join_errors e state), s2))
                | Inl _ \<Rightarrow>
                    (case retries of
                       Suc n \<Rightarrow> if is_remote_host_lock_timeout e
                                then replace_remote_loop n expected content s2
                                else (Inl (join_errors e state), s2)
                     | 0 \<Rightarrow> (Inl (join_errors e state), s2)))))"

declare replace_remote_loop.simps [simp del]

definition replace_remote_host_lock_owner ::
  "string \<Rightarrow> string \<Rightarrow> remote_host \<Rightarrow> unit lock_outcome \<times> remote_host" where
  "replace_remote_host_lock_owner = replace_remote_loop (max_remote_host_lock_timeout_attempts - 1)"

fun remove_remote_loop :: "nat \<Rightarrow> string \<Rightarrow> remote_host \<Rightarrow> unit lock_outcome \<times> remote_host" where
  "remove_remote_loop retries expected s =
     (case run_remote_host_lock_script (remote_host_lock_remove_script expected) s of
        (Inr r, s1) \<Rightarrow>
          if rr_error r \<noteq> [] then (Inl (remote_host_lock_error (rr_error r)), s1) else (Inr (), s1)
      | (Inl e, s1) \<Rightarrow>
          (case read_remote_host_lock_state s1 of
             (state, s2) \<Rightarrow>
               if (case state of Inr st \<Rightarrow> rr_state st = ''unlocked'' | Inl _ \<Rightarrow> False) then (Inr (), s2)
               else if (case state of Inr st \<Rightarrow> rr_raw st \<noteq> [] \<and> rr_raw st \<noteq> expected | Inl _ \<Rightarrow> False)
               then (Inl (OwnershipChanged []), s2)
               else (case retries of
                       Suc n \<Rightarrow> if is_remote_host_lock_timeout e then remove_remote_loop n expected s2
                                else (Inl (join_errors e state), s2)
                     | 0 \<Rightarrow> (Inl (join_errors e state), s2))))"

declare remove_remote_loop.simps [simp del]

definition remove_remote_host_lock :: "string \<Rightarrow> remote_host \<Rightarrow> unit lock_outcome \<times> remote_host" where
  "remove_remote_host_lock = remove_remote_loop max_remote_host_lock_reclaim_attempts"

definition remove_remote_host_lock_for_run :: "string \<Rightarrow> remote_host \<Rightarrow> unit lock_outcome \<times> remote_host" where
  "remove_remote_host_lock_for_run run s =
     (case run_remote_host_lock_script (remote_host_lock_remove_for_run_script run) s of
        (Inr r, s1) \<Rightarrow>
          if rr_error r \<noteq> [] then (Inl (remote_host_lock_error (rr_error r)), s1)
          else if rr_state r = ''unlocked'' then (Inr (), s1)
          else (Inl (OwnershipChanged []), s1)
      | (Inl e, s1) \<Rightarrow>
          (case read_remote_host_lock_state s1 of
             (state, s2) \<Rightarrow>
               if (case state of Inr st \<Rightarrow> rr_state st = ''unlocked'' | Inl _ \<Rightarrow> False) then (Inr (), s2)
               else if (case state of Inr st \<Rightarrow> rr_raw st \<noteq> [] \<and> rr_kept st \<noteq> run \<and> rr_active st \<noteq> run
                        | Inl _ \<Rightarrow> False)
               then (Inl (OwnershipChanged []), s2)
               else (Inl (join_errors e state), s2)))"

text \<open>The three checks of a later process for a run differ in the condition only.\<close>

definition verify_remote ::
  "(remote_lock_result \<Rightarrow> bool) \<Rightarrow> remote_host \<Rightarrow> unit lock_outcome \<times> remote_host" where
  "verify_remote refuse s =
     (case read_remote_host_lock_state s of
        (Inl e, s1) \<Rightarrow> (Inl (RemoteFailure e), s1)
      | (Inr r, s1) \<Rightarrow>
          if rr_error r \<noteq> [] then (Inl (remote_host_lock_error (rr_error r)), s1)
          else if refuse r then (Inl (OwnershipChanged []), s1) else (Inr (), s1))"

definition verify_remote_host_lock_for_run :: "string \<Rightarrow> remote_host \<Rightarrow> unit lock_outcome \<times> remote_host" where
  "verify_remote_host_lock_for_run run =
     verify_remote (\<lambda>r. rr_kept r \<noteq> run \<and> (rr_active r \<noteq> run \<or> rr_lease_expired r))"

definition verify_cleanup_remote_host_lock_for_run ::
  "string \<Rightarrow> remote_host \<Rightarrow> unit lock_outcome \<times> remote_host" where
  "verify_cleanup_remote_host_lock_for_run run =
     verify_remote (\<lambda>r. rr_kept r \<noteq> run \<and> rr_active r \<noteq> run)"

definition verify_kept_remote_host_lock_for_run ::
  "string \<Rightarrow> remote_host \<Rightarrow> unit lock_outcome \<times> remote_host" where
  "verify_kept_remote_host_lock_for_run run = verify_remote (\<lambda>r. rr_kept r \<noteq> run)"

subsection \<open>Is the owner's session really gone\<close>

record sessiond_status =
  ss_has_state :: bool
  ss_derived :: string
  ss_status :: string
  ss_maya_alive :: bool
  ss_mcp_alive :: bool
  ss_process_alive :: "string \<rightharpoonup> bool"

definition sessiond_status_proves_inactive :: "sessiond_status \<Rightarrow> bool" where
  "sessiond_status_proves_inactive st \<longleftrightarrow>
     ss_has_state st \<and> equal_fold (ss_derived st) ''stopped'' \<and> equal_fold (ss_status st) ''stopped''
   \<and> \<not> ss_maya_alive st \<and> \<not> ss_mcp_alive st
   \<and> list_all (\<lambda>p. ss_process_alive st p = Some False) [''daemon'', ''maya'', ''mcp'']"

definition canonical_host_lock_broker_path :: "string \<Rightarrow> string \<Rightarrow> bool \<Rightarrow> string \<times> bool" where
  "canonical_host_lock_broker_path value repo allow_relative =
     (let c = canonical_windows_path_for_comparison (trim_space value) in
      if wp_traverses c then ([], False)
      else (let c' = (if \<not> wp_absolute c \<and> allow_relative
                      then canonical_windows_path_for_comparison (remote_join repo [trim_space value]) else c)
            in (wp_clean c', wp_absolute c' \<and> \<not> wp_traverses c')))"

definition remote_host_lock_broker_config_matches :: "broker_config \<Rightarrow> remote_lock_result \<Rightarrow> bool" where
  "remote_host_lock_broker_config_matches broker own =
     (let trusted_repo = canonical_host_lock_broker_path (br_repo broker) [] False;
          owner_repo = canonical_host_lock_broker_path (rr_repo own) [] False;
          trusted_python = canonical_host_lock_broker_path (br_python broker) (br_repo broker) True;
          owner_python = canonical_host_lock_broker_path (rr_python own) (rr_repo own) True;
          trusted_state = canonical_host_lock_broker_path (br_state_dir broker) (br_repo broker) True;
          owner_state = canonical_host_lock_broker_path (rr_state_dir own) (rr_repo own) True
      in list_all snd [trusted_repo, owner_repo, trusted_python, owner_python, trusted_state, owner_state]
         \<and> fst trusted_repo = fst owner_repo \<and> fst trusted_python = fst owner_python
         \<and> fst trusted_state = fst owner_state)"

text \<open>
  The broker's own validation and its status report over SSH are an argument: \<open>Inl\<close> when
  either fails.
\<close>

definition remote_host_lock_session_inactive ::
  "broker_config \<Rightarrow> (string, sessiond_status) result \<Rightarrow> remote_lock_result \<Rightarrow> (string, bool) result" where
  "remote_host_lock_session_inactive broker probe own =
     (if trim_space (rr_state_dir own) = [] \<or> trim_space (rr_python own) = [] \<or> trim_space (rr_repo own) = []
      then Inl ''incomplete owner configuration''
      else if \<not> remote_host_lock_broker_config_matches broker own then Inl ''owner configuration differs''
      else case validate_session_broker_state_dir (rr_state_dir own) of
             Inl _ \<Rightarrow> Inl ''owner state directory''
           | Inr _ \<Rightarrow> (case probe of Inl e \<Rightarrow> Inl e | Inr st \<Rightarrow> Inr (sessiond_status_proves_inactive st)))"

definition remote_host_lock_reclaim_allowed :: "remote_lock_result \<Rightarrow> bool \<Rightarrow> bool" where
  "remote_host_lock_reclaim_allowed r inactive \<longleftrightarrow>
     rr_locked r \<and> rr_state r \<noteq> ''kept'' \<and> rr_lease_expired r \<and> rr_lease_version r \<noteq> [] \<and> rr_token r \<noteq> []
   \<and> rr_state_dir r \<noteq> [] \<and> rr_python r \<noteq> [] \<and> rr_repo r \<noteq> [] \<and> inactive"

definition result_owner :: "remote_lock_result \<Rightarrow> host_lock_owner" where
  "result_owner r = no_owner\<lparr>own_machine := rr_machine r, own_pid := rr_pid r, own_kept := rr_kept r,
     own_created := rr_created r, own_lease_expires := rr_lease_expires r,
     own_state_dir := rr_state_dir r, own_python := rr_python r, own_repo := rr_repo r,
     own_lease_expired := rr_lease_expired r, own_host_clock := True, own_token := rr_token r\<rparr>"

subsection \<open>Acquiring\<close>

definition new_remote_host_side_lock :: "string \<Rightarrow> remote_host host_side_lock" where
  "new_remote_host_side_lock content =
     \<lparr>hl_expected = content, hl_replace = replace_remote_host_lock_owner, hl_remove = remove_remote_host_lock,
      hl_claim = None,
      hl_fence_script = Some (\<lambda>s.
        (case remote_host_lock_fence_script False (own_token (parse_host_lock_owner content)) s of
           (True, s') \<Rightarrow> (Inr (), s')
         | (False, s') \<Rightarrow> (Inl (OwnershipChanged []), s')))\<rparr>"

text \<open>
  The staleness decision is the controller's: an expired active lease whose session is
  proved stopped is reclaimed, at most twice; a lost race shows up as locked.  \<open>probes\<close> are
  the broker reports of the successive attempts.
\<close>

fun acquire_remote_loop ::
  "nat \<Rightarrow> broker_config \<Rightarrow> (nat \<Rightarrow> (string, sessiond_status) result) \<Rightarrow> string
     \<Rightarrow> (string, remote_lock_result) result \<times> remote_host
     \<Rightarrow> remote_host host_side_lock option lock_outcome \<times> remote_host" where
  "acquire_remote_loop attempts broker probes content (Inl e, s) =
     (case read_remote_host_lock_state s of
        (state, s') \<Rightarrow>
          if (case state of Inr st \<Rightarrow> rr_raw st = content | Inl _ \<Rightarrow> False)
          then (Inr (Some (new_remote_host_side_lock content)), s')
          else (Inl (join_errors e state), s'))"
| "acquire_remote_loop attempts broker probes content (Inr r, s) =
     (if rr_error r \<noteq> [] then (Inl (RemoteFailure (rr_error r)), s)
      else if \<not> rr_locked r then (Inr (Some (new_remote_host_side_lock content)), s)
      else (case attempts of
              0 \<Rightarrow> (Inr None, s)
            | Suc n \<Rightarrow>
                if \<not> is_stale_host_side_owner 0 (result_owner r) then (Inr None, s)
                else (case remote_host_lock_session_inactive broker (probes n) r of
                        Inl _ \<Rightarrow> (Inr None, s)
                      | Inr inactive \<Rightarrow>
                          if \<not> remote_host_lock_reclaim_allowed r inactive then (Inr None, s)
                          else acquire_remote_loop n broker probes content
                                 (run_remote_host_lock_script
                                    (remote_host_lock_reclaim_script (rr_raw r) (rr_lease_version r) content) s))))"

definition acquire_remote_host_lock ::
  "broker_config \<Rightarrow> (nat \<Rightarrow> (string, sessiond_status) result) \<Rightarrow> string \<Rightarrow> remote_host
     \<Rightarrow> remote_host host_side_lock option lock_outcome \<times> remote_host" where
  "acquire_remote_host_lock broker probes content s =
     acquire_remote_loop max_remote_host_lock_reclaim_attempts broker probes content
       (run_remote_host_lock_script (remote_host_lock_acquire_script content) s)"

text \<open>
  The staleness of a local \<open>gg-mayasessiond\<close> lock (\<open>isRecoverableLocalSessiondHostLock\<close>) asks
  the same question of the owner named in the file.
\<close>

definition is_recoverable_local_sessiond_host_lock ::
  "broker_config \<Rightarrow> (string, sessiond_status) result \<Rightarrow> int \<Rightarrow> lock_path \<Rightarrow> lock_fs \<Rightarrow> bool lock_outcome" where
  "is_recoverable_local_sessiond_host_lock broker probe now p fs =
     (case read_file fs p of
        None \<Rightarrow> Inr True
      | Some content \<Rightarrow>
          (let own = parse_host_lock_owner content in
           if \<not> is_stale_host_side_owner now own then Inr False
           else (case remote_host_lock_session_inactive broker probe
                        (no_result\<lparr>rr_state_dir := own_state_dir own, rr_python := own_python own,
                                   rr_repo := own_repo own\<rparr>) of
                   Inl e \<Rightarrow> Inl (LockSessionCheck e)
                 | Inr inactive \<Rightarrow> Inr inactive)))"

subsection \<open>The remote store satisfies the contract\<close>

definition remote_content :: "remote_host \<Rightarrow> string option" where
  "remote_content s = map_option fst (rh_file s)"

lemma remote_content_update [simp]: "remote_content (s\<lparr>rh_net := net\<rparr>) = remote_content s"
  by (simp add: remote_content_def)

lemma read_state_content:
  "read_remote_host_lock_state s = (r, s') \<Longrightarrow> rh_file s' = rh_file s \<and> rh_clock s' = rh_clock s"
proof -
  have run: "run_remote_host_lock_script remote_host_lock_state_script s = (r, s') \<Longrightarrow>
      rh_file s' = rh_file s \<and> rh_clock s' = rh_clock s" for s r s'
    by (auto simp: run_remote_host_lock_script_def remote_host_lock_state_script_def
        split: list.split_asm delivery.split_asm prod.split_asm option.split_asm)
  have "retry_remote_host_lock_timeout n (run_remote_host_lock_script remote_host_lock_state_script) s = (r, s') \<Longrightarrow>
      rh_file s' = rh_file s \<and> rh_clock s' = rh_clock s" for n s r s'
  proof (induction n arbitrary: s)
    case (Suc n)
    obtain q t where t: "run_remote_host_lock_script remote_host_lock_state_script s = (q, t)" by fastforce
    show ?case using Suc run [OF t] t by (cases q) (auto split: if_split_asm)
  qed (use run in simp)
  then show "read_remote_host_lock_state s = (r, s') \<Longrightarrow> rh_file s' = rh_file s \<and> rh_clock s' = rh_clock s"
    unfolding read_remote_host_lock_state_def by blast
qed

text \<open>What a state report says, when it arrives.\<close>

lemma read_state_result:
  "read_remote_host_lock_state s = (Inr r, s') \<Longrightarrow>
     r = (case rh_file s of None \<Rightarrow> state_result ''unlocked''
          | Some (raw, modified) \<Rightarrow> locked_result raw modified (rh_clock s))"
proof -
  have run: "run_remote_host_lock_script remote_host_lock_state_script s = (Inr r, s') \<Longrightarrow>
      r = (case rh_file s of None \<Rightarrow> state_result ''unlocked''
          | Some (raw, modified) \<Rightarrow> locked_result raw modified (rh_clock s))" for s r s'
    by (auto simp: run_remote_host_lock_script_def remote_host_lock_state_script_def
        split: list.split_asm delivery.split_asm prod.split_asm option.split_asm)
  have keep: "run_remote_host_lock_script remote_host_lock_state_script s = (r, s') \<Longrightarrow>
      rh_file s' = rh_file s \<and> rh_clock s' = rh_clock s" for s r s'
    by (auto simp: run_remote_host_lock_script_def remote_host_lock_state_script_def
        split: list.split_asm delivery.split_asm prod.split_asm option.split_asm)
  have "retry_remote_host_lock_timeout n (run_remote_host_lock_script remote_host_lock_state_script) s = (Inr r, s') \<Longrightarrow>
      r = (case rh_file s of None \<Rightarrow> state_result ''unlocked''
          | Some (raw, modified) \<Rightarrow> locked_result raw modified (rh_clock s))" for n s r s'
  proof (induction n arbitrary: s)
    case (Suc n)
    obtain q t where t: "run_remote_host_lock_script remote_host_lock_state_script s = (q, t)" by fastforce
    show ?case
    proof (cases q)
      case (Inl e)
      with Suc.prems t have "retry_remote_host_lock_timeout n
          (run_remote_host_lock_script remote_host_lock_state_script) t = (Inr r, s')"
        by (auto split: if_split_asm)
      from Suc.IH [OF this] keep [OF t] show ?thesis by (cases "rh_file s") auto
    next
      case (Inr x)
      then show ?thesis using Suc.prems t run [of s x t] by simp
    qed
  qed (use run in simp)
  then show "read_remote_host_lock_state s = (Inr r, s') \<Longrightarrow> ?thesis"
    unfolding read_remote_host_lock_state_def by blast
qed

lemma lock_fields_raw [simp]: "rr_raw (lock_fields raw) = raw"
proof -
  have "rr_raw (fold lock_field_line ls f) = rr_raw f" for ls f
    by (induction ls arbitrary: f) (auto simp: lock_field_line_def set_lock_field_def split: option.split)
  then show ?thesis by (simp add: lock_fields_def)
qed

lemma lock_fields_state: "rr_state (lock_fields raw) \<in> {''active'', ''kept''}"
proof -
  have "rr_state f \<in> {''active'', ''kept''} \<Longrightarrow> rr_state (fold lock_field_line ls f) \<in> {''active'', ''kept''}" for ls f
    by (induction ls arbitrary: f) (auto simp: lock_field_line_def set_lock_field_def split: option.split)
  then show ?thesis unfolding lock_fields_def by simp
qed

lemma lock_fields_not_unlocked [simp]: "rr_state (lock_fields raw) \<noteq> ''unlocked''"
  using lock_fields_state [of raw] by auto

lemma locked_result_simps [simp]:
  "rr_raw (locked_result raw m now) = raw" "rr_content_read (locked_result raw m now)"
  "rr_locked (locked_result raw m now)" "rr_state (locked_result raw m now) = rr_state (lock_fields raw)"
  "rr_state (locked_result raw m now) \<noteq> ''unlocked''"
  using lock_fields_state [of raw] by (auto simp: locked_result_def Let_def)

lemma result_simps [simp]:
  "rr_error (state_result st) = []" "rr_state (state_result st) = st" "rr_raw (state_result st) = []"
  "rr_content_read (state_result st) = False" "rr_error (error_result e) = e"
  by (simp_all add: state_result_def error_result_def no_result_def)

lemma texts_not_empty [simp]: "lock_missing_text \<noteq> []" "ownership_changed_text \<noteq> []"
  by (simp_all add: lock_missing_text_def ownership_changed_text_def)

text \<open>One replace command, whatever becomes of it.\<close>

lemma run_replace:
  assumes "run_remote_host_lock_script (remote_host_lock_replace_script e c) s = (q, s1)"
  shows "(remote_content s1 = remote_content s \<or> remote_content s = Some e \<and> remote_content s1 = Some c)
    \<and> (\<forall>r. q = Inr r \<longrightarrow> rr_error r = [] \<longrightarrow>
        remote_content s1 = Some c \<and> remote_content s \<in> {Some e, Some c})"
  using assms
  by (auto simp: run_remote_host_lock_script_def remote_host_lock_replace_script_def new_lock_file_def
      remote_content_def split: list.split_asm delivery.split_asm prod.split_asm option.split_asm if_split_asm)

definition swapped :: "string \<Rightarrow> string \<Rightarrow> remote_host \<Rightarrow> unit lock_outcome \<Rightarrow> remote_host \<Rightarrow> bool" where
  "swapped e c s r s' \<longleftrightarrow>
     (case r of
        Inr _ \<Rightarrow> remote_content s' = Some c \<and> remote_content s \<in> {Some e, Some c}
      | Inl _ \<Rightarrow> remote_content s' = remote_content s \<or> remote_content s = Some e \<and> remote_content s' = Some c)"

lemma swapped_trans:
  "remote_content s2 = remote_content s \<or> remote_content s = Some e \<and> remote_content s2 = Some c \<Longrightarrow>
     swapped e c s2 r s' \<Longrightarrow> swapped e c s r s'"
  by (auto simp: swapped_def split: sum.split)

lemma replace_remote_loop_reply:
  assumes "run_remote_host_lock_script (remote_host_lock_replace_script e c) s = (Inr x, s1)"
  shows "replace_remote_loop n e c s =
    (if rr_error x \<noteq> [] then (Inl (remote_host_lock_error (rr_error x)), s1) else (Inr (), s1))"
  by (subst replace_remote_loop.simps) (simp add: assms)

lemma replace_remote_loop_lost:
  assumes "run_remote_host_lock_script (remote_host_lock_replace_script e c) s = (Inl x, s1)"
    "read_remote_host_lock_state s1 = (st, s2)"
  shows "(\<exists>f. st = Inr f \<and> rr_raw f = c) \<and> replace_remote_loop n e c s = (Inr (), s2)
    \<or> (\<exists>y. replace_remote_loop n e c s = (Inl y, s2))
    \<or> (\<exists>m. n = Suc m \<and> replace_remote_loop n e c s = replace_remote_loop m e c s2)"
  by (subst (1 2 3) replace_remote_loop.simps) (simp add: assms split: sum.split nat.split)

lemma replace_remote_loop_swapped:
  "c \<noteq> [] \<Longrightarrow> replace_remote_loop n e c s = (r, s') \<Longrightarrow> swapped e c s r s'"
proof (induction n arbitrary: s rule: less_induct)
  case (less n s)
  obtain q s1 where q: "run_remote_host_lock_script (remote_host_lock_replace_script e c) s = (q, s1)" by fastforce
  note rq = run_replace [OF q]
  show ?case
  proof (cases q)
    case (Inr x)
    from replace_remote_loop_reply [OF q [unfolded Inr], of n] less.prems(2) rq Inr show ?thesis
      by (auto simp: swapped_def split: if_split_asm)
  next
    case (Inl x)
    obtain st s2 where st: "read_remote_host_lock_state s1 = (st, s2)" by fastforce
    have c2: "remote_content s2 = remote_content s1" using read_state_content [OF st] by (simp add: remote_content_def)
    from replace_remote_loop_lost [OF q [unfolded Inl] st, of n] show ?thesis
    proof (elim disjE exE conjE)
      fix f assume f: "st = Inr f" "rr_raw f = c" "replace_remote_loop n e c s = (Inr (), s2)"
      then have "remote_content s1 = Some c"
        using read_state_result [OF st [unfolded f(1)]] less.prems(1)
        by (auto simp: remote_content_def split: option.split_asm)
      then show ?thesis using rq c2 f(3) less.prems(2) by (auto simp: swapped_def)
    next
      fix y assume "replace_remote_loop n e c s = (Inl y, s2)"
      then show ?thesis using rq c2 less.prems(2) by (auto simp: swapped_def)
    next
      fix m assume m: "n = Suc m" "replace_remote_loop n e c s = replace_remote_loop m e c s2"
      then have "swapped e c s2 r s'" using less.IH [of m s2] less.prems by simp
      then show ?thesis using swapped_trans rq c2 by metis
    qed
  qed
qed

text \<open>Removing, in the same way.\<close>

lemma run_remove:
  assumes "run_remote_host_lock_script (remote_host_lock_remove_script e) s = (q, s1)"
  shows "(remote_content s1 = remote_content s \<or> remote_content s = Some e \<and> remote_content s1 = None)
    \<and> (\<forall>r. q = Inr r \<longrightarrow> rr_error r = [] \<longrightarrow>
        remote_content s1 = None \<and> remote_content s \<in> {Some e, None})"
  using assms
  by (auto simp: run_remote_host_lock_script_def remote_host_lock_remove_script_def
      remote_content_def split: list.split_asm delivery.split_asm prod.split_asm option.split_asm if_split_asm)

definition removed :: "string \<Rightarrow> remote_host \<Rightarrow> unit lock_outcome \<Rightarrow> remote_host \<Rightarrow> bool" where
  "removed e s r s' \<longleftrightarrow>
     (case r of
        Inr _ \<Rightarrow> remote_content s' = None \<and> remote_content s \<in> {Some e, None}
      | Inl _ \<Rightarrow> remote_content s' = remote_content s \<or> remote_content s = Some e \<and> remote_content s' = None)"

lemma removed_trans:
  "remote_content s2 = remote_content s \<or> remote_content s = Some e \<and> remote_content s2 = None \<Longrightarrow>
     removed e s2 r s' \<Longrightarrow> removed e s r s'"
  by (auto simp: removed_def split: sum.split)

lemma remove_remote_loop_reply:
  assumes "run_remote_host_lock_script (remote_host_lock_remove_script e) s = (Inr x, s1)"
  shows "remove_remote_loop n e s =
    (if rr_error x \<noteq> [] then (Inl (remote_host_lock_error (rr_error x)), s1) else (Inr (), s1))"
  by (subst remove_remote_loop.simps) (simp add: assms)

lemma remove_remote_loop_lost:
  assumes "run_remote_host_lock_script (remote_host_lock_remove_script e) s = (Inl x, s1)"
    "read_remote_host_lock_state s1 = (st, s2)"
  shows "(\<exists>f. st = Inr f \<and> rr_state f = ''unlocked'') \<and> remove_remote_loop n e s = (Inr (), s2)
    \<or> (\<exists>y. remove_remote_loop n e s = (Inl y, s2))
    \<or> (\<exists>m. n = Suc m \<and> remove_remote_loop n e s = remove_remote_loop m e s2)"
  by (subst (1 2 3) remove_remote_loop.simps) (simp add: assms split: sum.split nat.split)

lemma remove_remote_loop_removed:
  "remove_remote_loop n e s = (r, s') \<Longrightarrow> removed e s r s'"
proof (induction n arbitrary: s rule: less_induct)
  case (less n s)
  obtain q s1 where q: "run_remote_host_lock_script (remote_host_lock_remove_script e) s = (q, s1)" by fastforce
  note rq = run_remove [OF q]
  show ?case
  proof (cases q)
    case (Inr x)
    from remove_remote_loop_reply [OF q [unfolded Inr], of n] less.prems rq Inr show ?thesis
      by (auto simp: removed_def split: if_split_asm)
  next
    case (Inl x)
    obtain st s2 where st: "read_remote_host_lock_state s1 = (st, s2)" by fastforce
    have c2: "remote_content s2 = remote_content s1" using read_state_content [OF st] by (simp add: remote_content_def)
    from remove_remote_loop_lost [OF q [unfolded Inl] st, of n] show ?thesis
    proof (elim disjE exE conjE)
      fix f assume f: "st = Inr f" "rr_state f = ''unlocked''" "remove_remote_loop n e s = (Inr (), s2)"
      then have "remote_content s1 = None"
        using read_state_result [OF st [unfolded f(1)]]
        by (auto simp: remote_content_def split: option.split_asm)
      then show ?thesis using rq c2 f(3) less.prems by (auto simp: removed_def)
    next
      fix y assume "remove_remote_loop n e s = (Inl y, s2)"
      then show ?thesis using rq c2 less.prems by (auto simp: removed_def)
    next
      fix m assume m: "n = Suc m" "remove_remote_loop n e s = remove_remote_loop m e s2"
      then have "removed e s2 r s'" using less.IH [of m s2] less.prems by simp
      then show ?thesis using removed_trans rq c2 by metis
    qed
  qed
qed

interpretation remote_store: owner_store remote_content replace_remote_host_lock_owner remove_remote_host_lock
proof
  fix e c :: string and s s' u x
  show "c \<noteq> [] \<Longrightarrow> replace_remote_host_lock_owner e c s = (Inr u, s') \<Longrightarrow>
      remote_content s' = Some c \<and> remote_content s \<in> {Some e, Some c}"
    unfolding replace_remote_host_lock_owner_def
    by (drule (1) replace_remote_loop_swapped) (simp add: swapped_def)
  show "c \<noteq> [] \<Longrightarrow> replace_remote_host_lock_owner e c s = (Inl x, s') \<Longrightarrow>
      remote_content s' = remote_content s \<or> remote_content s = Some e \<and> remote_content s' = Some c"
    unfolding replace_remote_host_lock_owner_def
    by (drule (1) replace_remote_loop_swapped) (simp add: swapped_def)
  show "remove_remote_host_lock e s = (Inr u, s') \<Longrightarrow>
      remote_content s' = None \<and> remote_content s \<in> {Some e, None}"
    unfolding remove_remote_host_lock_def by (drule remove_remote_loop_removed) (simp add: removed_def)
  show "remove_remote_host_lock e s = (Inl x, s') \<Longrightarrow>
      remote_content s' = remote_content s \<or> remote_content s = Some e \<and> remote_content s' = None"
    unfolding remove_remote_host_lock_def by (drule remove_remote_loop_removed) (simp add: removed_def)
qed

subsection \<open>The host reads what the controller writes\<close>

definition field_lines :: "string \<Rightarrow> remote_lock_result \<Rightarrow> remote_lock_result" where
  "field_lines s = fold lock_field_line (split_on newline s)"

lemma field_lines_Nil [simp]: "field_lines [] f = f"
  by (simp add: field_lines_def lock_field_line_def)

lemma field_lines_line:
  assumes "lock_key key" "clean_field value"
  shows "field_lines (lock_line key value @ rest) f
    = field_lines rest (if value = [] then f else set_lock_field key value f)"
proof -
  have nl: "newline \<notin> set (key @ '': '' @ value)"
    using assms plain_char_not_newline by (auto simp: lock_key_def clean_field_def newline_def)
  have "CHR '':'' \<notin> set key" using assms(1) by (auto simp: lock_key_def)
  then have "cut_at (CHR '':'') (key @ CHR '':'' # CHR '' '' # value) = Some (key, CHR '' '' # value)"
    by (rule cut_at_append)
  moreover have "trim_space key = key" using assms(1) by (simp add: lock_key_def trim_space_plain)
  moreover have "trim_space (CHR '' '' # value) = value"
    using assms(2) trim_space_Cons_space by (simp add: clean_field_def)
  ultimately have "lock_field_line (key @ '': '' @ value) f = (if value = [] then f else set_lock_field key value f)"
    by (simp add: lock_field_line_def)
  moreover have "split_on newline (lock_line key value @ rest) = (key @ '': '' @ value) # split_on newline rest"
    using split_on_append_sep [OF nl, of rest] by (simp add: lock_line_def)
  ultimately show ?thesis by (simp add: field_lines_def)
qed

lemma field_lines_optional:
  "lock_key key \<Longrightarrow> clean_field value \<Longrightarrow> field_lines (optional_line key value @ rest) f
    = field_lines rest (if value = [] then f else set_lock_field key value f)"
  by (simp add: optional_line_def field_lines_line)

lemma set_lock_field_simps [simp]:
  "set_lock_field ''host'' v f = f" "set_lock_field ''brokerSessionId'' v f = f"
  "set_lock_field ''clientMachine'' v f = f\<lparr>rr_machine := v\<rparr>"
  "set_lock_field ''clientPid'' v f = f\<lparr>rr_pid := v\<rparr>"
  "set_lock_field ''lockToken'' v f = f\<lparr>rr_token := v\<rparr>"
  "set_lock_field ''activeRun'' v f = f\<lparr>rr_active := v\<rparr>"
  "set_lock_field ''keptRun'' v f = f\<lparr>rr_state := ''kept'', rr_kept := v\<rparr>"
  "set_lock_field ''createdAt'' v f = f\<lparr>rr_created := v\<rparr>"
  "set_lock_field ''leaseExpiresAt'' v f = f\<lparr>rr_lease_expires := v\<rparr>"
  "set_lock_field ''leaseDurationSeconds'' v f = f\<lparr>rr_lease_seconds := v\<rparr>"
  "set_lock_field ''brokerStateDir'' v f = f\<lparr>rr_state_dir := v\<rparr>"
  "set_lock_field ''brokerPython'' v f = f\<lparr>rr_python := v\<rparr>"
  "set_lock_field ''brokerRepo'' v f = f\<lparr>rr_repo := v\<rparr>"
  by (simp_all add: set_lock_field_def equal_fold_def to_lower_def lower_char_def)

lemma field_lease_lines:
  "field_lines (lease_lines now) f
    = f\<lparr>rr_lease_expires := format_rfc3339nano (now + host_side_lock_lease_duration),
        rr_lease_seconds := ''3600''\<rparr>"
proof -
  have "show_int (host_side_lock_lease_duration div second_ns) = ''3600''" by code_simp
  moreover have "format_rfc3339nano (now + host_side_lock_lease_duration) \<noteq> []"
    by (simp add: format_rfc3339nano_def Let_def split: prod.split)
  moreover have "clean_field ''3600''" by code_simp
  ultimately show ?thesis
    using field_lines_line [of "''leaseDurationSeconds''" "''3600''" "[]"]
    by (simp add: lease_lines_def field_lines_line)
qed

text \<open>A field nobody has set yet may be set to the empty text.\<close>

lemma field_lines_fields:
  "clean_field v \<Longrightarrow> rr_machine f = [] \<Longrightarrow>
     field_lines (lock_line ''clientMachine'' v @ rest) f = field_lines rest (f\<lparr>rr_machine := v\<rparr>)"
  "clean_field v \<Longrightarrow> rr_pid f = [] \<Longrightarrow>
     field_lines (lock_line ''clientPid'' v @ rest) f = field_lines rest (f\<lparr>rr_pid := v\<rparr>)"
  "clean_field v \<Longrightarrow> rr_token f = [] \<Longrightarrow>
     field_lines (lock_line ''lockToken'' v @ rest) f = field_lines rest (f\<lparr>rr_token := v\<rparr>)"
  "clean_field v \<Longrightarrow> rr_state_dir f = [] \<Longrightarrow>
     field_lines (lock_line ''brokerStateDir'' v @ rest) f = field_lines rest (f\<lparr>rr_state_dir := v\<rparr>)"
  "clean_field v \<Longrightarrow> rr_python f = [] \<Longrightarrow>
     field_lines (lock_line ''brokerPython'' v @ rest) f = field_lines rest (f\<lparr>rr_python := v\<rparr>)"
  "clean_field v \<Longrightarrow> rr_repo f = [] \<Longrightarrow>
     field_lines (lock_line ''brokerRepo'' v @ rest) f = field_lines rest (f\<lparr>rr_repo := v\<rparr>)"
  "clean_field v \<Longrightarrow> rr_created f = [] \<Longrightarrow>
     field_lines (lock_line ''createdAt'' v @ rest) f = field_lines rest (f\<lparr>rr_created := v\<rparr>)"
  "clean_field v \<Longrightarrow> rr_active f = [] \<Longrightarrow>
     field_lines (optional_line ''activeRun'' v @ rest) f = field_lines rest (f\<lparr>rr_active := v\<rparr>)"
  "clean_field v \<Longrightarrow> field_lines (lock_line ''host'' v @ rest) f = field_lines rest f"
  "clean_field v \<Longrightarrow> field_lines (optional_line ''brokerSessionId'' v @ rest) f = field_lines rest f"
  by (cases f; cases "v = []"; simp add: field_lines_line field_lines_optional)+

lemma field_lines_owner:
  assumes "clean_field host" "clean_field active" "clean_owner own" "clean_field created"
    "rr_machine f = []" "rr_pid f = []" "rr_token f = []" "rr_state_dir f = []" "rr_python f = []"
    "rr_repo f = []" "rr_created f = []" "rr_active f = []"
  shows "field_lines (lock_line ''host'' host @ lock_line ''clientMachine'' (own_machine own)
     @ lock_line ''clientPid'' (own_pid own) @ lock_line ''lockToken'' (own_token own)
     @ lock_line ''brokerStateDir'' (own_state_dir own) @ lock_line ''brokerPython'' (own_python own)
     @ lock_line ''brokerRepo'' (own_repo own) @ lock_line ''createdAt'' created
     @ optional_line ''brokerSessionId'' (own_session own) @ optional_line ''activeRun'' active @ rest) f
   = field_lines rest (f\<lparr>rr_machine := own_machine own, rr_pid := own_pid own, rr_token := own_token own,
      rr_state_dir := own_state_dir own, rr_python := own_python own, rr_repo := own_repo own,
      rr_created := created, rr_active := active\<rparr>)"
proof -
  have "clean_field (own_machine own)" "clean_field (own_pid own)" "clean_field (own_token own)"
    "clean_field (own_state_dir own)" "clean_field (own_python own)" "clean_field (own_repo own)"
    "clean_field (own_session own)"
    using assms(3) by (simp_all add: clean_owner_def)
  with assms show ?thesis
    by (simp add: field_lines_fields)
qed

lemma lock_fields_content:
  assumes "clean_owner own" "clean_field host" "clean_field active" "clean_field kept"
    "created = (if own_created own = [] then format_rfc3339nano now else own_created own)"
    "raw = host_side_lock_owner_content host own active kept leased now"
  shows "lock_fields raw = no_result\<lparr>rr_raw := raw, rr_machine := own_machine own, rr_pid := own_pid own,
      rr_token := own_token own, rr_state_dir := own_state_dir own, rr_python := own_python own,
      rr_repo := own_repo own, rr_created := created, rr_active := active,
      rr_state := (if kept = [] then ''active'' else ''kept''), rr_kept := kept,
      rr_lease_expires := (if leased then format_rfc3339nano (now + host_side_lock_lease_duration) else []),
      rr_lease_seconds := (if leased then ''3600'' else [])\<rparr>"
proof -
  have cr: "clean_field created" using assms(1,5) by (simp add: clean_owner_def)
  let ?f = "no_result\<lparr>rr_state := ''active'', rr_raw := raw\<rparr>"
  let ?g = "?f\<lparr>rr_machine := own_machine own, rr_pid := own_pid own, rr_token := own_token own,
      rr_state_dir := own_state_dir own, rr_python := own_python own, rr_repo := own_repo own,
      rr_created := created, rr_active := active\<rparr>"
  have e: "rr_machine ?f = []" "rr_pid ?f = []" "rr_token ?f = []" "rr_state_dir ?f = []" "rr_python ?f = []"
    "rr_repo ?f = []" "rr_created ?f = []" "rr_active ?f = []"
    by (simp_all add: no_result_def)
  have "lock_fields raw = field_lines raw ?f" by (simp add: lock_fields_def field_lines_def)
  also have "field_lines raw ?f
      = field_lines (optional_line ''keptRun'' kept @ (if leased then lease_lines now else [])) ?g"
    using field_lines_owner [OF assms(2,3,1) cr e]
    by (subst (1) assms(6)) (simp only: host_side_lock_owner_content_def assms(5) [symmetric])
  finally have eq: "lock_fields raw
    = field_lines (optional_line ''keptRun'' kept @ (if leased then lease_lines now else [])) ?g" .
  have k: "field_lines (optional_line ''keptRun'' kept @ rest) f
    = field_lines rest (if kept = [] then f else f\<lparr>rr_state := ''kept'', rr_kept := kept\<rparr>)" for rest f
    using assms(4) by (simp add: field_lines_optional)
  show ?thesis
    unfolding eq k by (simp add: field_lease_lines no_result_def)
qed

text \<open>C15. The host and the controller read a lock alike.  For every lock text a holder writes,
  the fields the PowerShell script extracts on the host are those the Go parser finds - the
  token, the active and the kept run, the broker settings - the state is \<open>kept\<close> exactly when a
  kept run is recorded, and the lease the host measures is one hour.\<close>

theorem host_and_controller_agree:
  assumes "clean_owner own" "clean_field host" "clean_field active" "clean_field kept"
  shows "let f = lock_fields (host_side_lock_owner_content host own active kept leased now);
             p = parse_host_lock_owner (host_side_lock_owner_content host own active kept leased now)
     in rr_token f = own_token p \<and> rr_active f = own_active p \<and> rr_kept f = own_kept p
      \<and> rr_state_dir f = own_state_dir p \<and> rr_python f = own_python p \<and> rr_repo f = own_repo p
      \<and> rr_machine f = own_machine p \<and> rr_pid f = own_pid p \<and> rr_created f = own_created p
      \<and> rr_lease_expires f = own_lease_expires p
      \<and> (rr_state f = ''kept'' \<longleftrightarrow> own_kept p \<noteq> [])
      \<and> lease_ns f = host_side_lock_lease_duration"
proof -
  have s: "trim_space (own_session own) = own_session own" "newline \<notin> set (own_session own)"
    "clean_owner (own\<lparr>own_session := []\<rparr>)"
    using assms(1) by (simp_all add: clean_owner_def clean_field_def)
  note p = parse_owner_content [OF s(3,2) assms(2-4), of leased now]
  have at: "atoi ''3600'' = Some 3600" by code_simp
  note f = lock_fields_content [OF assms refl refl, of leased now]
  have "atoi ''3600'' = Some 3600" "atoi [] = None" by code_simp+
  then show ?thesis
    unfolding Let_def p f by (simp add: no_result_def lease_ns_def host_side_lock_lease_duration_def)
qed

text \<open>A lock held for a kept run, as the controller writes it.\<close>

theorem host_and_controller_agree_witness:
  "rr_state (lock_fields (host_side_lock_owner_content ''h1'' sample_owner [] ''run-1'' False 0)) = ''kept''
    \<and> own_kept (parse_host_lock_owner (host_side_lock_owner_content ''h1'' sample_owner [] ''run-1'' False 0)) \<noteq> []"
proof -
  have c: "clean_owner sample_owner" "clean_field ''h1''" "clean_field ''run-1''" by code_simp+
  have "own_kept (parse_host_lock_owner (host_side_lock_owner_content ''h1'' sample_owner [] ''run-1'' False 0)) = ''run-1''"
    by code_simp
  then show ?thesis
    using host_and_controller_agree [OF c(1,2) clean_field_Nil c(3), of False 0] unfolding Let_def by simp
qed

subsection \<open>What acquiring may do to another holder's lock\<close>

lemma acquire_reply:
  "run_remote_host_lock_script (remote_host_lock_acquire_script content) s = (q, s1) \<Longrightarrow>
     rh_file s = Some (raw, m) \<Longrightarrow>
     rh_file s1 = rh_file s \<and> rh_clock s1 = rh_clock s \<and> (\<forall>r. q = Inr r \<longrightarrow> r = locked_result raw m (rh_clock s))"
  by (auto simp: run_remote_host_lock_script_def remote_host_lock_acquire_script_def
      split: list.split_asm delivery.split_asm prod.split_asm)

lemma reclaim_reply:
  "run_remote_host_lock_script (remote_host_lock_reclaim_script raw (show_int m) content) s = (q, s1) \<Longrightarrow>
     rh_file s = Some (raw, m) \<Longrightarrow>
     rh_file s1 = Some (content, rh_clock s) \<and> (\<forall>r. q = Inr r \<longrightarrow> r = acquired_result)
   \<or> rh_file s1 = Some (raw, m) \<and> (\<exists>e. q = Inl e)"
  by (auto simp: run_remote_host_lock_script_def remote_host_lock_reclaim_script_def new_lock_file_def
      split: list.split_asm delivery.split_asm prod.split_asm)

lemma acquired_result_simps [simp]:
  "rr_error acquired_result = []" "\<not> rr_locked acquired_result"
  by (simp_all add: acquired_result_def no_result_def)

lemma acquire_remote_loop_Inl:
  "acquire_remote_loop n broker probes content (Inl e, s) = (r, s') \<Longrightarrow> rh_file s' = rh_file s"
  using read_state_content by (auto split: prod.split_asm if_split_asm)

lemma acquire_remote_loop_acquired:
  "acquire_remote_loop n broker probes content (Inr acquired_result, s) = (r, s') \<Longrightarrow> s' = s"
  by (cases n) auto

definition reclaim_evidence ::
  "(nat \<Rightarrow> (string, sessiond_status) result) \<Rightarrow> nat \<Rightarrow> remote_lock_result \<Rightarrow> int \<Rightarrow> bool" where
  "reclaim_evidence probes n f age \<longleftrightarrow>
     rr_state f \<noteq> ''kept'' \<and> rr_token f \<noteq> [] \<and> lease_ns f \<le> age
   \<and> (\<exists>i<n. \<exists>st. probes i = Inr st \<and> sessiond_status_proves_inactive st)"

lemma reclaim_allowed_evidence:
  assumes "remote_host_lock_session_inactive broker (probes n) (locked_result raw m now) = Inr inactive"
    "remote_host_lock_reclaim_allowed (locked_result raw m now) inactive"
  shows "reclaim_evidence probes (Suc n) (lock_fields raw) (now - m)"
  using assms
  by (auto simp: remote_host_lock_reclaim_allowed_def remote_host_lock_session_inactive_def locked_result_def
      Let_def reclaim_evidence_def split: if_split_asm sum.split_asm)

lemma acquire_remote_loop_locked:
  assumes "acquire_remote_loop n broker probes content (Inr (locked_result raw m (rh_clock s)), s) = (r, s')"
    "rh_file s = Some (raw, m)"
  shows "rh_file s' = Some (raw, m)
    \<or> rh_file s' = Some (content, rh_clock s) \<and> reclaim_evidence probes n (lock_fields raw) (rh_clock s - m)"
proof (cases n)
  case 0
  then show ?thesis using assms by (auto split: if_split_asm)
next
  case (Suc k)
  let ?r = "locked_result raw m (rh_clock s)"
  show ?thesis
  proof (cases "rr_error ?r = [] \<and> is_stale_host_side_owner 0 (result_owner ?r) \<and>
      (\<exists>i. remote_host_lock_session_inactive broker (probes k) ?r = Inr i \<and> remote_host_lock_reclaim_allowed ?r i)")
    case False
    then show ?thesis using assms Suc by (auto split: if_split_asm sum.split_asm)
  next
    case True
    then obtain i where i: "remote_host_lock_session_inactive broker (probes k) ?r = Inr i"
      "remote_host_lock_reclaim_allowed ?r i" by blast
    have v: "rr_lease_version ?r = show_int m" by (simp add: locked_result_def Let_def)
    obtain q s1 where q: "run_remote_host_lock_script (remote_host_lock_reclaim_script raw (show_int m) content) s = (q, s1)"
      by fastforce
    have "acquire_remote_loop k broker probes content (q, s1) = (r, s')"
      using assms(1) True i Suc q v by simp
    moreover have "q = Inr acquired_result \<or> (\<exists>e. q = Inl e)"
      using reclaim_reply [OF q assms(2)] by (cases q) auto
    ultimately have "rh_file s' = rh_file s1"
      using acquire_remote_loop_Inl acquire_remote_loop_acquired by metis
    then show ?thesis
      using reclaim_reply [OF q assms(2)] reclaim_allowed_evidence [of broker probes k raw m "rh_clock s" i, OF i] Suc
      by auto
  qed
qed


text \<open>C10. A lock that changed hands is never overwritten.  When the file on the host is neither
  the text the holder expects nor the text it writes, replacing fails and leaves the file as it
  is, whatever commands and replies the network loses.\<close>

theorem remote_replace_spares_others:
  assumes "replace_remote_host_lock_owner e c s = (r, s')" "c \<noteq> []" "remote_content s \<notin> {Some e, Some c}"
  shows "remote_content s' = remote_content s \<and> r \<noteq> Inr ()"
  using remote_store.replace_outsider [OF assms(1,2)] assms(3) by auto

text \<open>C11. One lost command does not cost the lock.  Replacing the expected text succeeds, and the
  file holds the new text, when the first command times out, before or after it ran on the host.\<close>

theorem remote_replace_survives_timeout:
  assumes "rh_net s = [d]" "d \<in> {LostBefore t, LostAfter t}" "is_remote_host_lock_timeout t"
    "remote_content s = Some e" "c \<noteq> []"
  shows "\<exists>s'. replace_remote_host_lock_owner e c s = (Inr (), s') \<and> remote_content s' = Some c"
proof -
  obtain m where f: "rh_file s = Some (e, m)" using assms(4) by (auto simp: remote_content_def)
  have n: "replace_remote_host_lock_owner e c s = replace_remote_loop (Suc 0) e c s" for e c s
    by (simp add: replace_remote_host_lock_owner_def max_remote_host_lock_timeout_attempts_def)
  have k: "max_remote_host_lock_timeout_attempts - Suc 0 = Suc 0" by (simp add: max_remote_host_lock_timeout_attempts_def)
  show ?thesis
    using assms f
    by (cases "e = c") (auto simp: n k replace_remote_loop.simps [of "Suc 0"]
        replace_remote_loop.simps [of 0] run_remote_host_lock_script_def remote_host_lock_replace_script_def
        read_remote_host_lock_state_def remote_host_lock_state_script_def new_lock_file_def remote_content_def)
qed

text \<open>A host with an expired lock of a stopped session.\<close>

definition lost_holder_lock :: string where
  "lost_holder_lock = concat (map (\<lambda>(k, v). lock_line k v)
     [(''lockToken'', ''t1''), (''brokerStateDir'', br_state_dir sample_broker),
      (''brokerPython'', br_python sample_broker), (''brokerRepo'', br_repo sample_broker),
      (''leaseDurationSeconds'', ''60'')])"

definition stopped_session :: sessiond_status where
  "stopped_session = \<lparr>ss_has_state = True, ss_derived = ''stopped'', ss_status = ''Stopped'',
     ss_maya_alive = False, ss_mcp_alive = False, ss_process_alive = (\<lambda>_. Some False)\<rparr>"

definition lost_holder_host :: "delivery list \<Rightarrow> remote_host" where
  "lost_holder_host net = \<lparr>rh_file = Some (lost_holder_lock, 0), rh_clock = 4000 * second_ns, rh_net = net\<rparr>"


theorem remote_replace_spares_others_witness:
  "\<exists>r s'. replace_remote_host_lock_owner ''old'' ''new'' (lost_holder_host [LostAfter ''timed out'']) = (r, s')
     \<and> remote_content s' = Some lost_holder_lock \<and> r \<noteq> Inr ()"
proof -
  let ?s = "lost_holder_host [LostAfter ''timed out'']"
  obtain r s' where a: "replace_remote_host_lock_owner ''old'' ''new'' ?s = (r, s')" by fastforce
  have n: "(''new'' :: string) \<noteq> []" by simp
  have "lost_holder_lock \<noteq> ''old''" "lost_holder_lock \<noteq> ''new''" by code_simp+
  then have "remote_content ?s \<notin> {Some ''old'', Some ''new''}"
    by (simp add: lost_holder_host_def remote_content_def)
  from remote_replace_spares_others [OF a n this] a show ?thesis
    by (simp add: lost_holder_host_def remote_content_def)
qed

theorem remote_replace_survives_timeout_witness:
  "\<exists>s'. replace_remote_host_lock_owner lost_holder_lock ''new''
      (lost_holder_host [LostAfter ''ssh timed out'']) = (Inr (), s') \<and> remote_content s' = Some ''new''"
  by (rule remote_replace_survives_timeout [of _ "LostAfter ''ssh timed out''" "''ssh timed out''"])
    (simp_all add: lost_holder_host_def remote_content_def, code_simp)

end
