(* ===== verification/Ledger_Log.thy ===== *)
theory Ledger_Log
  imports Host_Lock
begin

text \<open>
  The bounded copy of a run's session log (\<open>copyBoundedLedgerLog\<close> of \<open>run_ledger.go\<close>): a log
  that is too long keeps its tail under a first line that says how many bytes are missing.
  The line counts in the limit, so its own length decides how much tail fits, and the loop
  looks for a count whose line has the length it was computed for.  The theorems: the loop
  finds it, the copy is within its limit, and the length of the original log can be read off
  every copy, also of a copy of a copy.
\<close>

definition log_prefix :: string where
  "log_prefix = ''[maya-stall: log truncated; omitted ''"

definition log_suffix :: string where
  "log_suffix = '' bytes]''"

definition log_marker :: "int \<Rightarrow> string" where
  "log_marker omitted = log_prefix @ show_int omitted @ log_suffix"

definition marker_line :: "int \<Rightarrow> string" where
  "marker_line omitted = log_marker omitted @ [newline]"

text \<open>
  \<open>retainedLedgerLogSourceBytesAndTruncated\<close>: a first line is a marker when it is exactly what
  the program prints for the number read from it.
\<close>

definition marker_number :: "string \<Rightarrow> int option" where
  "marker_number line =
     (case cut_prefix line log_prefix of
        None \<Rightarrow> None
      | Some rest \<Rightarrow>
          (case cut_suffix rest log_suffix of
             None \<Rightarrow> None
           | Some digits \<Rightarrow>
               (case atoi digits of
                  None \<Rightarrow> None
                | Some n \<Rightarrow> if n < 0 \<or> line \<noteq> log_marker n then None else Some n)))"

definition log_source_bytes :: "string \<Rightarrow> int \<times> bool" where
  "log_source_bytes content =
     (case cut_at newline content of
        None \<Rightarrow> (int (length content), False)
      | Some (line, rest) \<Rightarrow>
          (case marker_number line of
             None \<Rightarrow> (int (length content), False)
           | Some n \<Rightarrow> (n + int (length rest), True)))"

text \<open>The bytes a copy may take from the end: what follows the marker, if there is one.\<close>

definition log_available :: "string \<Rightarrow> string" where
  "log_available content =
     (if snd (log_source_bytes content)
      then (case cut_at newline content of None \<Rightarrow> content | Some (line, rest) \<Rightarrow> rest)
      else content)"

definition tail_bytes :: "int \<Rightarrow> int \<Rightarrow> string \<Rightarrow> int" where
  "tail_bytes max_bytes available marker = min (max_bytes - int (length marker)) available"

text \<open>\<open>None\<close> is a loop that has not settled within its fuel.\<close>

fun settle_marker :: "nat \<Rightarrow> int \<Rightarrow> int \<Rightarrow> int \<Rightarrow> string \<Rightarrow> (string \<times> int) option" where
  "settle_marker 0 source max_bytes available marker = None"
| "settle_marker (Suc fuel) source max_bytes available marker =
     (let tail = tail_bytes max_bytes available marker;
          updated = marker_line (source - tail)
      in if length updated = length marker then Some (updated, tail)
         else settle_marker fuel source max_bytes available updated)"

definition last_bytes :: "nat \<Rightarrow> string \<Rightarrow> string" where
  "last_bytes n s = drop (length s - n) s"

definition copy_bounded_ledger_log :: "nat \<Rightarrow> int \<Rightarrow> string \<Rightarrow> (string \<times> bool) option" where
  "copy_bounded_ledger_log fuel max_bytes content =
     (let (source, source_truncated) = log_source_bytes content;
          available = int (length (log_available content))
      in if source_truncated \<or> source > max_bytes
         then (case settle_marker fuel source max_bytes available (marker_line (source - max_bytes)) of
                 None \<Rightarrow> None
               | Some (marker, tail) \<Rightarrow> Some (marker @ last_bytes (nat tail) content, True))
         else Some (take (nat (max_bytes + 1)) content, False))"

subsection \<open>Markers\<close>

lemma log_marker_no_newline: "newline \<notin> set (log_marker n)"
  by (auto simp: log_marker_def log_prefix_def log_suffix_def show_int_def newline_def dest!: show_nat_digits)
    (auto simp: is_digit_def)

lemma marker_number_log_marker:
  assumes "0 \<le> n" "n \<le> max_int"
  shows "marker_number (log_marker n) = Some n"
  using atoi_show_int [OF assms] assms(1) by (simp add: marker_number_def log_marker_def)

lemma log_source_bytes_marker:
  assumes "0 \<le> n" "n \<le> max_int"
  shows "log_source_bytes (marker_line n @ tail) = (n + int (length tail), True)"
  using marker_number_log_marker [OF assms] cut_at_append [OF log_marker_no_newline, of n tail]
  by (simp add: log_source_bytes_def marker_line_def)

lemma marker_number_nonneg: "marker_number line = Some n \<Longrightarrow> 0 \<le> n"
  by (auto simp: marker_number_def split: option.split_asm if_split_asm)

lemma log_source_bytes_bounds:
  "0 \<le> fst (log_source_bytes content) \<and> int (length (log_available content)) \<le> fst (log_source_bytes content)"
  by (auto simp: log_source_bytes_def log_available_def dest: marker_number_nonneg split: option.split)

lemma log_available_suffix: "\<exists>pre. content = pre @ log_available content"
proof (cases "snd (log_source_bytes content)")
  case True
  then obtain line rest where "cut_at newline content = Some (line, rest)"
    by (auto simp: log_source_bytes_def split: option.split_asm)
  then show ?thesis using cut_at_Some [of newline content line rest] True
    by (auto simp: log_available_def intro: exI [of _ "line @ [newline]"])
qed (simp add: log_available_def)

lemma marker_line_length: "length (marker_line n) = 44 + length (show_int n)"
  by (simp add: marker_line_def log_marker_def log_prefix_def log_suffix_def)

subsection \<open>The loop settles\<close>

definition next_length :: "int \<Rightarrow> int \<Rightarrow> int \<Rightarrow> nat \<Rightarrow> nat" where
  "next_length source max_bytes available k
     = length (marker_line (source - min (max_bytes - int k) available))"

lemma show_int_mono: "0 \<le> a \<Longrightarrow> a \<le> b \<Longrightarrow> length (show_int a) \<le> length (show_int b)"
  by (simp add: show_int_def show_nat_mono_length nat_mono)

lemma next_length_mono:
  "available \<le> source \<Longrightarrow> k \<le> k' \<Longrightarrow> next_length source max_bytes available k \<le> next_length source max_bytes available k'"
  unfolding next_length_def marker_line_length by (intro add_left_mono show_int_mono) auto

lemma marker_length_bound: "0 \<le> n \<Longrightarrow> n \<le> max_int \<Longrightarrow> length (marker_line n) \<le> 63"
proof -
  assume "0 \<le> n" "n \<le> max_int"
  then have "nat n < 10 ^ 19" by (simp add: max_int_def nat_less_iff)
  then have "length (show_nat (nat n)) \<le> 19" by (intro show_nat_length_bound) simp_all
  then show ?thesis using \<open>0 \<le> n\<close> by (simp add: marker_line_length show_int_def)
qed

text \<open>
  The lengths of the markers tried move in one direction, and they stay between 45 and 63 for
  a log of any 64-bit size.
\<close>

lemma settle_marker_settles:
  assumes "0 \<le> available" "available \<le> source" "96 \<le> max_bytes" "source \<le> max_int"
    "length marker \<le> 64"
    "next_length source max_bytes available (length marker) \<le> length marker \<and> length marker \<le> fuel
     \<or> length marker \<le> next_length source max_bytes available (length marker) \<and> 64 \<le> length marker + fuel"
    "0 < fuel"
  shows "\<exists>marker' tail. settle_marker fuel source max_bytes available marker = Some (marker', tail)
    \<and> marker' = marker_line (source - tail) \<and> length marker' = length (marker_line (source - tail))
    \<and> 0 \<le> tail \<and> tail \<le> available \<and> int (length marker') + tail \<le> max_bytes"
  using assms(5-)
proof (induction fuel arbitrary: marker)
  case (Suc fuel)
  let ?t = "tail_bytes max_bytes available marker"
  let ?u = "marker_line (source - ?t)"
  have n: "next_length source max_bytes available (length marker) = length ?u"
    by (simp add: next_length_def tail_bytes_def)
  have t: "0 \<le> ?t" "?t \<le> available" "int (length marker) + ?t \<le> max_bytes"
    using Suc.prems(1) assms(1,3) by (auto simp: tail_bytes_def)
  show ?case
  proof (cases "length ?u = length marker")
    case True
    then show ?thesis using t by (simp add: Let_def)
  next
    case False
    have u: "length ?u \<le> 63" "45 \<le> length ?u"
      using marker_length_bound [of "source - ?t"] t(1,2) assms(2,4)
      by (simp_all add: marker_line_length show_int_def) (simp add: Suc_leI)
    have "next_length source max_bytes available (length ?u) \<le> length ?u \<and> length ?u \<le> fuel
       \<or> length ?u \<le> next_length source max_bytes available (length ?u) \<and> 64 \<le> length ?u + fuel"
      using Suc.prems(2) False n next_length_mono [OF assms(2), of "length ?u" "length marker" max_bytes]
        next_length_mono [OF assms(2), of "length marker" "length ?u" max_bytes] by linarith
    moreover have "0 < fuel" using calculation u by auto
    ultimately show ?thesis using Suc.IH [of ?u] u(1) False by (simp add: Let_def)
  qed
qed simp

lemma settle_marker_start:
  assumes "0 \<le> available" "available \<le> source" "96 \<le> max_bytes" "source \<le> max_int"
    "length marker \<le> 64"
  shows "\<exists>tail. settle_marker 64 source max_bytes available marker = Some (marker_line (source - tail), tail)
    \<and> 0 \<le> tail \<and> tail \<le> available \<and> int (length (marker_line (source - tail))) + tail \<le> max_bytes"
  using settle_marker_settles [OF assms, of 64] assms(5) by fastforce

subsection \<open>What a copy is\<close>

lemma first_marker_length:
  assumes "0 \<le> source" "source \<le> max_int" "0 \<le> max_bytes" "max_bytes \<le> max_int"
  shows "length (marker_line (source - max_bytes)) \<le> 64"
proof -
  have "nat \<bar>source - max_bytes\<bar> < 10 ^ 19" using assms by (simp add: max_int_def nat_less_iff)
  then have "length (show_nat (nat \<bar>source - max_bytes\<bar>)) \<le> 19" by (intro show_nat_length_bound) simp_all
  then show ?thesis by (auto simp: marker_line_length show_int_def)
qed

lemma last_bytes_length: "n \<le> length s \<Longrightarrow> length (last_bytes n s) = n"
  by (simp add: last_bytes_def)

lemma last_bytes_append: "n \<le> length t \<Longrightarrow> last_bytes n (s @ t) = last_bytes n t"
  by (simp add: last_bytes_def)

lemma ledger_log_bounds:
  assumes "96 \<le> max_bytes" "max_bytes \<le> max_int" "fst (log_source_bytes content) \<le> max_int"
  shows "\<exists>copy truncated. copy_bounded_ledger_log 64 max_bytes content = Some (copy, truncated)
    \<and> int (length copy) \<le> max_bytes \<and> log_source_bytes copy = (fst (log_source_bytes content), truncated)
    \<and> (\<exists>pre. log_available content = pre @ log_available copy)"
proof -
  obtain source tr where s: "log_source_bytes content = (source, tr)" by fastforce
  let ?a = "int (length (log_available content))"
  have a: "0 \<le> source" "?a \<le> source" using log_source_bytes_bounds [of content] s by simp_all
  show ?thesis
  proof (cases "tr \<or> source > max_bytes")
    case False
    then have "int (length content) = source" "log_available content = content" "source \<le> max_bytes"
      using s by (auto simp: log_source_bytes_def log_available_def split: option.split_asm)
    then show ?thesis using s False assms(1)
      by (intro exI [of _ content] exI [of _ False]) (auto simp: copy_bounded_ledger_log_def Let_def)
  next
    case True
    have m: "source \<le> max_int" using assms(3) s by simp
    have f: "length (marker_line (source - max_bytes)) \<le> 64"
      using first_marker_length [OF a(1) m _ assms(2)] assms(1) by simp
    obtain tail where t: "settle_marker 64 source max_bytes ?a (marker_line (source - max_bytes))
        = Some (marker_line (source - tail), tail)"
      "0 \<le> tail" "tail \<le> ?a" "int (length (marker_line (source - tail))) + tail \<le> max_bytes"
      using settle_marker_start [OF _ a(2) assms(1) m f] by auto
    obtain pre where pre: "content = pre @ log_available content" using log_available_suffix by blast
    let ?l = "last_bytes (nat tail) (log_available content)"
    have l: "last_bytes (nat tail) content = ?l" using last_bytes_append [of "nat tail" "log_available content" pre] t(3) pre
      by simp
    have len: "int (length ?l) = tail" using t(2,3) by (simp add: last_bytes_length)
    have "log_source_bytes (marker_line (source - tail) @ ?l) = (source, True)"
      using log_source_bytes_marker [of "source - tail" ?l] t(2,3) a assms(3) s len by simp
    moreover have "log_available (marker_line (source - tail) @ ?l) = ?l"
      using calculation cut_at_append [OF log_marker_no_newline, of "source - tail" ?l]
      by (simp add: log_available_def marker_line_def)
    moreover have "\<exists>p. log_available content = p @ ?l"
      by (rule exI [of _ "take (length (log_available content) - nat tail) (log_available content)"])
        (simp add: last_bytes_def)
    moreover have "copy_bounded_ledger_log 64 max_bytes content = Some (marker_line (source - tail) @ ?l, True)"
      using True s t(1) l by (simp add: copy_bounded_ledger_log_def Let_def)
    ultimately show ?thesis using t(4) len s
      by (intro exI [of _ "marker_line (source - tail) @ ?l"] exI [of _ True]) simp
  qed
qed

text \<open>C21. Copying a session log is bounded, total and loses no count.  For every limit of at
  least 96 bytes and every log of a 64-bit size, the copy is made, it is no longer than the
  limit, it ends with the bytes the source ends with, the size of the original log that can be
  read from the copy is the one that could be read from the source - also when the source is
  itself a truncated copy - and the copy is marked as truncated exactly when it is reported so.\<close>

theorem ledger_log_copy:
  assumes "96 \<le> max_bytes" "max_bytes \<le> max_int" "fst (log_source_bytes content) \<le> max_int"
  shows "\<exists>copy truncated. copy_bounded_ledger_log 64 max_bytes content = Some (copy, truncated)
    \<and> int (length copy) \<le> max_bytes \<and> log_source_bytes copy = (fst (log_source_bytes content), truncated)
    \<and> (\<exists>pre. log_available content = pre @ log_available copy)"
  using assms by (rule ledger_log_bounds)

theorem ledger_log_copy_witness:
  "\<exists>copy. copy_bounded_ledger_log 64 96 (replicate 130 (CHR ''x'')) = Some (copy, True) \<and> length copy \<le> 96"
proof -
  let ?c = "replicate 130 (CHR ''x'')"
  have c: "log_source_bytes ?c = (130, False)" by code_simp
  then have m: "fst (log_source_bytes ?c) \<le> max_int" by (simp add: max_int_def)
  from ledger_log_copy [OF _ _ m, of 96] obtain copy t where
    o: "copy_bounded_ledger_log 64 96 ?c = Some (copy, t)" "int (length copy) \<le> 96"
    "log_source_bytes copy = (fst (log_source_bytes ?c), t)" by (auto simp: max_int_def)
  have "t"
  proof (rule ccontr)
    assume "\<not> t"
    then have "int (length copy) = 130"
      using o(3) c by (auto simp: log_source_bytes_def split: option.split_asm)
    then show False using o(2) by simp
  qed
  then show ?thesis using o by auto
qed

end
