(* ===== verification/Ledger_Events.thy ===== *)
theory Ledger_Events
  imports Ledger_Log "HOL-Library.AList"
begin

text \<open>
  The bounded copy of a run's event stream (\<open>copyBoundedLedgerEvents\<close> of \<open>run_ledger.go\<close>):
  one JSON object per line, each normalised and given a sequence number; lines that are too
  long are replaced, and when the stream exceeds its limits the first event and the newest
  ones stay, with a marker between them that counts what is missing.

  The JSON coder of the standard library is an argument: \<open>enc\<close> prints a value and \<open>dec\<close> reads
  one.  The theorems hold for every coder.
\<close>

subsection \<open>Events\<close>

type_synonym event = "(string \<times> json) list"

datatype event_error =
    BadEvent
  | NilEvent
  | LimitBelowMetadata
  | LimitBelowMarker

text \<open>\<open>event[k].(string)\<close> and \<open>event[k].(map[string]any)\<close>\<close>

definition jstr :: "event \<Rightarrow> string \<Rightarrow> string" where
  "jstr e k = (case map_of e k of Some (JStr s) \<Rightarrow> s | _ \<Rightarrow> [])"

definition jobj :: "event \<Rightarrow> string \<Rightarrow> event option" where
  "jobj e k = (case map_of e k of Some (JObj d) \<Rightarrow> Some d | _ \<Rightarrow> None)"

definition truncate_rat :: "rat \<Rightarrow> int" where
  "truncate_rat r = (if r < 0 then - \<lfloor>- r\<rfloor> else \<lfloor>r\<rfloor>)"

definition ledger_event_sequence :: "event \<Rightarrow> int" where
  "ledger_event_sequence e = (case map_of e ''sequence'' of Some (JNum r) \<Rightarrow> truncate_rat r | _ \<Rightarrow> 0)"

definition jint :: "int \<Rightarrow> json" where
  "jint n = JNum (of_int n)"

text \<open>\<open>runEventPhase\<close> (\<open>run.go\<close>): the first prefix that fits.\<close>

definition event_phases :: "(string \<times> string) list" where
  "event_phases =
     [(''run.accepted'', ''submission''), (''run.queued'', ''queuing''), (''run.canceled'', ''finalizing''),
      (''run.started'', ''launching''), (''broker.session.fresh'', ''launching''),
      (''broker.session.started'', ''executing''), (''visual-evidence'', ''collecting''),
      (''broker.screenshot'', ''collecting''), (''broker.recording'', ''collecting''),
      (''broker.session.stopped'', ''cleaning''), (''run.completed'', ''finalizing''),
      (''run.failed'', ''finalizing''), (''attach'', ''debugging'')]"

definition run_event_phase :: "string \<Rightarrow> string" where
  "run_event_phase event_type =
     (case find (\<lambda>(p, _). has_prefix event_type p) event_phases of
        Some (_, phase) \<Rightarrow> phase
      | None \<Rightarrow> ''lifecycle'')"

definition or_else :: "string \<Rightarrow> string \<Rightarrow> string" where
  "or_else s t = (if s = [] then t else s)"

definition normalize_run_ledger_event :: "event \<Rightarrow> int \<Rightarrow> string \<Rightarrow> event" where
  "normalize_run_ledger_event e sequence fallback =
     (let event_type = or_else (or_else (jstr e ''type'') (jstr e ''event'')) ''run.event'';
          timestamp = or_else (jstr e ''timestamp'') fallback;
          phase = or_else (jstr e ''phase'') (run_event_phase event_type);
          stream = or_else (jstr e ''stream'') ''lifecycle'';
          details = (case jobj e ''details'' of Some d \<Rightarrow> d | None \<Rightarrow> []);
          details' = (case map_of e ''detail'' of
                        Some (JStr m) \<Rightarrow>
                          if map_of details ''message'' = None then AList.update ''message'' (JStr m) details
                          else details
                      | _ \<Rightarrow> details)
      in fold (\<lambda>(k, v). AList.update k v)
           [(''event'', JStr event_type), (''sequence'', jint sequence), (''timestamp'', JStr timestamp),
            (''phase'', JStr phase), (''type'', JStr event_type), (''stream'', JStr stream),
            (''details'', JObj details')] e)"

definition retention_event :: "string \<Rightarrow> int \<Rightarrow> json \<Rightarrow> event \<Rightarrow> event" where
  "retention_event event_type sequence timestamp details =
     [(''event'', JStr event_type), (''sequence'', jint sequence), (''timestamp'', timestamp),
      (''phase'', JStr ''retention''), (''type'', JStr event_type), (''stream'', JStr ''lifecycle''),
      (''details'', JObj details)]"

definition truncated_event :: "int \<Rightarrow> string \<Rightarrow> int \<Rightarrow> event" where
  "truncated_event sequence timestamp original_bytes =
     retention_event ''run-ledger.event.truncated'' sequence (JStr timestamp)
       [(''originalBytes'', jint original_bytes)]"

definition omitted_event :: "int \<Rightarrow> json \<Rightarrow> int \<Rightarrow> event" where
  "omitted_event first_sequence timestamp omitted =
     retention_event ''run-ledger.events.truncated'' (first_sequence + 1) timestamp
       [(''omittedCount'', jint omitted), (''firstOmittedSequence'', jint (first_sequence + 1)),
        (''lastOmittedSequence'', jint (first_sequence + omitted))]"

text \<open>\<open>runLedgerOmittedEventCount\<close>; a number beyond \<open>int\<close> does not survive its conversion.\<close>

definition dec_event :: "(string \<Rightarrow> json option) \<Rightarrow> string \<Rightarrow> event option" where
  "dec_event dec s = (case dec s of Some (JObj e) \<Rightarrow> Some e | Some JNull \<Rightarrow> Some [] | _ \<Rightarrow> None)"

definition omitted_event_count :: "(string \<Rightarrow> json option) \<Rightarrow> string \<Rightarrow> int option" where
  "omitted_event_count dec line =
     (case dec_event dec line of
        None \<Rightarrow> None
      | Some e \<Rightarrow>
          if map_of e ''type'' \<noteq> Some (JStr ''run-ledger.events.truncated'') then None
          else (case jobj e ''details'' of
                  None \<Rightarrow> None
                | Some d \<Rightarrow>
                    (case map_of d ''omittedCount'' of
                       Some (JNum r) \<Rightarrow> if r < 0 \<or> 2 ^ 63 \<le> r \<or> r \<noteq> of_int \<lfloor>r\<rfloor> then None else Some \<lfloor>r\<rfloor>
                     | _ \<Rightarrow> None)))"

subsection \<open>Reading one line\<close>

text \<open>The lines of a file with their newlines; the last one may have none.\<close>

fun raw_lines :: "string \<Rightarrow> string list" where
  "raw_lines [] = []"
| "raw_lines (c # s) =
     (if c = newline then [c] # raw_lines s
      else (case raw_lines s of [] \<Rightarrow> [[c]] | l # ls \<Rightarrow> (c # l) # ls))"

text \<open>
  \<open>readBoundedLedgerEvent\<close>: nothing for a blank line, otherwise the line to keep and whether it
  replaces one that was too long.  \<open>NilEvent\<close> is the panic on a line \<open>null\<close>, whose map is nil.
\<close>

definition read_bounded_ledger_event ::
  "(json \<Rightarrow> string) \<Rightarrow> (string \<Rightarrow> json option) \<Rightarrow> int \<Rightarrow> string \<Rightarrow> int \<Rightarrow> string
     \<Rightarrow> (event_error, (string \<times> bool) option) result" where
  "read_bounded_ledger_event enc dec max_bytes fallback sequence raw =
     (if int (length raw) > max_bytes
      then Inr (Some (enc (JObj (truncated_event sequence fallback (int (length raw)))), True))
      else if trim_space raw = [] then Inr None
      else (case dec (trim_space raw) of
              Some (JObj e) \<Rightarrow>
                (let effective = (if ledger_event_sequence e = 0 then sequence else ledger_event_sequence e);
                     encoded = enc (JObj (normalize_run_ledger_event e effective fallback))
                 in if int (length encoded) > max_bytes
                    then Inr (Some (enc (JObj (truncated_event effective fallback (int (length raw)))), True))
                    else Inr (Some (encoded, False)))
            | Some JNull \<Rightarrow> Inl NilEvent
            | _ \<Rightarrow> Inl BadEvent))"

subsection \<open>The bounded copy\<close>

record copy_state =
  cp_first :: "string option"
  cp_tail :: "string list"
  cp_total :: int
  cp_truncated :: bool

definition line_bytes :: "string list \<Rightarrow> int" where
  "line_bytes ls = (\<Sum>l\<leftarrow>ls. int (length l) + 1)"

definition first_bytes :: "string option \<Rightarrow> int" where
  "first_bytes f = (case f of None \<Rightarrow> 0 | Some l \<Rightarrow> int (length l))"

text \<open>Evicting the oldest event until the rest fits; with nothing left to evict it fails.\<close>

fun evict_until :: "(string list \<Rightarrow> bool) \<Rightarrow> string list \<Rightarrow> string list option" where
  "evict_until fits [] = (if fits [] then Some [] else None)"
| "evict_until fits (l # ls) = (if fits (l # ls) then Some (l # ls) else evict_until fits ls)"

definition keep_event ::
  "(string \<Rightarrow> json option) \<Rightarrow> int \<Rightarrow> int \<Rightarrow> copy_state \<Rightarrow> string \<times> bool \<Rightarrow> (event_error, copy_state) result" where
  "keep_event dec max_events max_bytes st kept =
     (case kept of (line, replaced) \<Rightarrow>
        (case omitted_event_count dec line of
           Some n \<Rightarrow> Inr (st\<lparr>cp_total := cp_total st + n, cp_truncated := True\<rparr>)
         | None \<Rightarrow>
             (let st' = st\<lparr>cp_total := cp_total st + 1, cp_truncated := cp_truncated st \<or> replaced\<rparr> in
              if cp_first st = None then Inr (st'\<lparr>cp_first := Some line\<rparr>)
              else (case evict_until
                           (\<lambda>tail. int (length tail) \<le> max_events - 1
                                 \<and> first_bytes (cp_first st) + 1 + line_bytes tail \<le> max_bytes)
                           (cp_tail st @ [line]) of
                      None \<Rightarrow> Inl LimitBelowMetadata
                    | Some tail \<Rightarrow> Inr (st'\<lparr>cp_tail := tail\<rparr>)))))"

fun read_events ::
  "(json \<Rightarrow> string) \<Rightarrow> (string \<Rightarrow> json option) \<Rightarrow> int \<Rightarrow> int \<Rightarrow> int \<Rightarrow> string \<Rightarrow> copy_state \<Rightarrow> string list
     \<Rightarrow> (event_error, copy_state) result" where
  "read_events enc dec max_line max_events max_bytes fallback st [] = Inr st"
| "read_events enc dec max_line max_events max_bytes fallback st (raw # raws) =
     (case read_bounded_ledger_event enc dec max_line fallback (cp_total st + 1) raw of
        Inl e \<Rightarrow> Inl e
      | Inr None \<Rightarrow> read_events enc dec max_line max_events max_bytes fallback st raws
      | Inr (Some kept) \<Rightarrow>
          (case keep_event dec max_events max_bytes st kept of
             Inl e \<Rightarrow> Inl e
           | Inr st' \<Rightarrow> read_events enc dec max_line max_events max_bytes fallback st' raws))"

text \<open>The marker names the number it replaces, so evicting one more event changes the marker.\<close>

fun fit_marker ::
  "(int \<Rightarrow> string) \<Rightarrow> int \<Rightarrow> int \<Rightarrow> string \<Rightarrow> int \<Rightarrow> string list \<Rightarrow> (event_error, string \<times> string list \<times> int) result" where
  "fit_marker marker max_events max_bytes first omitted tail =
     (if int (length tail) \<le> max_events - 2
         \<and> int (length first) + int (length (marker omitted)) + line_bytes tail + 2 \<le> max_bytes
      then Inr (marker omitted, tail, omitted)
      else (case tail of
              [] \<Rightarrow> Inl LimitBelowMarker
            | _ # rest \<Rightarrow> fit_marker marker max_events max_bytes first (omitted + 1) rest))"

declare fit_marker.simps [simp del]

definition max_retained_event_bytes :: int where
  "max_retained_event_bytes = 256 * 1024"

definition max_line_bytes :: "int \<Rightarrow> int" where
  "max_line_bytes max_bytes = min (max_bytes div 2) max_retained_event_bytes"

definition start_state :: copy_state where
  "start_state = \<lparr>cp_first = None, cp_tail = [], cp_total = 0, cp_truncated = False\<rparr>"

record event_copy =
  ec_lines :: "string list"
  ec_omitted :: int
  ec_truncated :: bool
  ec_bytes :: int

definition opt_list :: "'a option \<Rightarrow> 'a list" where
  "opt_list x = (case x of None \<Rightarrow> [] | Some y \<Rightarrow> [y])"

definition event_copy_of :: "string list \<Rightarrow> int \<Rightarrow> bool \<Rightarrow> event_copy" where
  "event_copy_of lines omitted truncated =
     \<lparr>ec_lines = lines, ec_omitted = omitted, ec_truncated = (0 < omitted \<or> truncated), ec_bytes = line_bytes lines\<rparr>"

definition copy_bounded_ledger_events ::
  "(json \<Rightarrow> string) \<Rightarrow> (string \<Rightarrow> json option) \<Rightarrow> int \<Rightarrow> int \<Rightarrow> string \<Rightarrow> string \<Rightarrow> (event_error, event_copy) result" where
  "copy_bounded_ledger_events enc dec max_events max_bytes fallback content =
     rbind (read_events enc dec (max_line_bytes max_bytes) max_events max_bytes fallback start_state (raw_lines content)) (\<lambda>st.
       let omitted = cp_total st - int (length (cp_tail st)) - int (length (opt_list (cp_first st))) in
       if omitted \<le> 0 then Inr (event_copy_of (opt_list (cp_first st) @ cp_tail st) omitted (cp_truncated st))
       else (case cp_first st of
               None \<Rightarrow> Inl BadEvent
             | Some first \<Rightarrow>
                 (case dec_event dec first of
                    None \<Rightarrow> Inl BadEvent
                  | Some e \<Rightarrow>
                      (let timestamp = (case map_of e ''timestamp'' of Some t \<Rightarrow> t | None \<Rightarrow> JNull);
                           marker = (\<lambda>n. enc (JObj (omitted_event (ledger_event_sequence e) timestamp n)))
                       in rbind (fit_marker marker max_events max_bytes first omitted (cp_tail st))
                            (\<lambda>(m, tail, n). Inr (event_copy_of (first # m # tail) n (cp_truncated st)))))))"

subsection \<open>The stream without limits\<close>

text \<open>
  What the lines say before any limit on their number: the events to keep in order, how many
  an earlier copy had already left out, and whether something was replaced or left out.
\<close>

fun stream_events ::
  "(json \<Rightarrow> string) \<Rightarrow> (string \<Rightarrow> json option) \<Rightarrow> int \<Rightarrow> string \<Rightarrow> int \<Rightarrow> string list
     \<Rightarrow> (event_error, string list \<times> int \<times> bool) result" where
  "stream_events enc dec max_line fallback seen [] = Inr ([], 0, False)"
| "stream_events enc dec max_line fallback seen (raw # raws) =
     rbind (read_bounded_ledger_event enc dec max_line fallback (seen + 1) raw) (\<lambda>kept.
       case kept of
         None \<Rightarrow> stream_events enc dec max_line fallback seen raws
       | Some (line, replaced) \<Rightarrow>
           (case omitted_event_count dec line of
              Some n \<Rightarrow> rbind (stream_events enc dec max_line fallback (seen + n) raws)
                          (\<lambda>(ls, p, t). Inr (ls, p + n, True))
            | None \<Rightarrow> rbind (stream_events enc dec max_line fallback (seen + 1) raws)
                        (\<lambda>(ls, p, t). Inr (line # ls, p, t \<or> replaced))))"

lemma evict_until_Some:
  "evict_until fits ls = Some tail \<Longrightarrow> fits tail \<and> (\<exists>k\<le>length ls. tail = drop k ls)"
proof (induction ls)
  case (Cons l ls)
  show ?case
  proof (cases "fits (l # ls)")
    case True
    then show ?thesis using Cons.prems by auto
  next
    case False
    then obtain k where "fits tail" "k \<le> length ls" "tail = drop k ls" using Cons by auto
    then show ?thesis by (auto intro!: exI [of _ "Suc k"])
  qed
qed (simp split: if_split_asm)

fun ends_with :: "string list \<Rightarrow> copy_state \<Rightarrow> bool" where
  "ends_with [] st = (cp_first st = None \<and> cp_tail st = [])"
| "ends_with (f # rest) st = (cp_first st = Some f \<and> (\<exists>k\<le>length rest. cp_tail st = drop k rest))"

definition after_events :: "copy_state \<Rightarrow> string list \<Rightarrow> copy_state \<Rightarrow> bool" where
  "after_events st ls st' \<longleftrightarrow> ends_with (opt_list (cp_first st) @ cp_tail st @ ls) st'"

definition state_ok :: "copy_state \<Rightarrow> bool" where
  "state_ok st \<longleftrightarrow> (cp_first st = None \<longrightarrow> cp_tail st = [])"

lemma opt_list_simps [simp]: "opt_list None = []" "opt_list (Some x) = [x]"
  by (simp_all add: opt_list_def)

lemma keep_event_after:
  assumes "keep_event dec max_events max_bytes st (line, replaced) = Inr st'" "state_ok st"
  shows "state_ok st' \<and>
    (case omitted_event_count dec line of
       Some n \<Rightarrow> cp_total st' = cp_total st + n \<and> cp_truncated st' \<and> cp_first st' = cp_first st \<and> cp_tail st' = cp_tail st
     | None \<Rightarrow> cp_total st' = cp_total st + 1 \<and> cp_truncated st' = (cp_truncated st \<or> replaced)
         \<and> after_events st [line] st')"
proof (cases "omitted_event_count dec line")
  case None
  show ?thesis
  proof (cases "cp_first st")
    case (Some f)
    let ?fits = "\<lambda>tail. int (length tail) \<le> max_events - 1 \<and> first_bytes (Some f) + 1 + line_bytes tail \<le> max_bytes"
    obtain tail where t: "evict_until ?fits (cp_tail st @ [line]) = Some tail"
      "st' = st\<lparr>cp_total := cp_total st + 1, cp_truncated := cp_truncated st \<or> replaced, cp_tail := tail\<rparr>"
      using assms(1) None Some by (auto simp: keep_event_def Let_def split: option.split_asm)
    from evict_until_Some [OF t(1)] obtain k where "k \<le> length (cp_tail st @ [line])"
      "tail = drop k (cp_tail st @ [line])" by blast
    then show ?thesis using t(2) Some None by (auto simp: state_ok_def after_events_def)
  next
    case None
    then show ?thesis using assms \<open>omitted_event_count dec line = None\<close>
      by (auto simp: keep_event_def Let_def state_ok_def after_events_def)
  qed
next
  case (Some n)
  then show ?thesis using assms by (auto simp: keep_event_def state_ok_def)
qed

lemma after_events_trans:
  assumes "after_events st [l] st'" "after_events st' ls st''" "state_ok st"
  shows "after_events st (l # ls) st''"
proof (cases "opt_list (cp_first st) @ cp_tail st")
  case Nil
  then show ?thesis using assms by (auto simp: after_events_def)
next
  case (Cons f rest)
  then have e: "opt_list (cp_first st) @ cp_tail st @ xs = f # (rest @ xs)" for xs
    by (metis append_Cons append_assoc)
  obtain k where k: "cp_first st' = Some f" "k \<le> length (rest @ [l])" "cp_tail st' = drop k (rest @ [l])"
    using assms(1) unfolding after_events_def e ends_with.simps by blast
  have e': "opt_list (cp_first st') @ cp_tail st' @ ls = f # (drop k (rest @ [l]) @ ls)" using k by simp
  obtain j where j: "cp_first st'' = Some f" "j \<le> length (drop k (rest @ [l]) @ ls)"
    "cp_tail st'' = drop j (drop k (rest @ [l]) @ ls)"
    using assms(2) unfolding after_events_def e' ends_with.simps by blast
  have d: "drop k (rest @ [l]) @ ls = drop k (rest @ l # ls)"
  proof -
    have "drop k ((rest @ [l]) @ ls) = drop k (rest @ [l]) @ drop (k - length (rest @ [l])) ls"
      by (rule drop_append)
    moreover have "k - length (rest @ [l]) = 0" using k(2) by simp
    ultimately show ?thesis by (simp only: drop0 append_assoc append_Cons append_Nil)
  qed
  have "cp_tail st'' = drop (j + k) (rest @ l # ls)" using j(3) by (simp only: d drop_drop)
  moreover have "j + k \<le> length (rest @ l # ls)" using j(2) k(2) by simp
  ultimately show ?thesis using j(1) unfolding after_events_def e ends_with.simps by blast
qed

lemma read_events_after:
  "read_events enc dec ml max_events max_bytes fb st raws = Inr st' \<Longrightarrow> state_ok st \<Longrightarrow>
     \<exists>ls p t. stream_events enc dec ml fb (cp_total st) raws = Inr (ls, p, t)
       \<and> cp_total st' = cp_total st + p + int (length ls) \<and> cp_truncated st' = (cp_truncated st \<or> t)
       \<and> after_events st ls st'"
proof (induction raws arbitrary: st)
  case Nil
  have "after_events st [] st"
    using Nil.prems(2) by (cases "cp_first st") (auto simp: after_events_def state_ok_def)
  moreover have "st' = st" using Nil.prems(1) by simp
  ultimately show ?case by (intro exI [of _ "[]"] exI [of _ 0] exI [of _ False]) simp
next
  case (Cons raw raws)
  let ?r = "read_bounded_ledger_event enc dec ml fb (cp_total st + 1) raw"
  consider "?r = Inr None" | line replaced where "?r = Inr (Some (line, replaced))"
  proof (cases ?r)
    case (Inr k)
    then show ?thesis using that by (cases k) auto
  qed (use Cons.prems(1) in simp)
  then show ?case
  proof cases
    case 1
    then show ?thesis using Cons by simp
  next
    case (2 line replaced)
    then obtain s1 where s1: "keep_event dec max_events max_bytes st (line, replaced) = Inr s1"
      "read_events enc dec ml max_events max_bytes fb s1 raws = Inr st'"
      using Cons.prems(1) by (auto split: sum.split_asm)
    note k = keep_event_after [OF s1(1) Cons.prems(2)]
    obtain ls p t where i: "stream_events enc dec ml fb (cp_total s1) raws = Inr (ls, p, t)"
      "cp_total st' = cp_total s1 + p + int (length ls)" "cp_truncated st' = (cp_truncated s1 \<or> t)"
      "after_events s1 ls st'"
      using Cons.IH [OF s1(2)] k by blast
    show ?thesis
    proof (cases "omitted_event_count dec line")
      case None
      have "after_events st (line # ls) st'" using k i(4) Cons.prems(2) None by (auto intro: after_events_trans)
      then show ?thesis using 2 None k i by auto
    next
      case (Some n)
      have "after_events st ls st'" using k i(4) Some by (auto simp: after_events_def)
      then show ?thesis using 2 Some k i by auto
    qed
  qed
qed

lemma fit_marker_spec:
  "fit_marker marker me mb first n tail = Inr (m, tail', n') \<Longrightarrow>
     \<exists>k\<le>length tail. tail' = drop k tail \<and> n' = n + int k \<and> m = marker n'
       \<and> int (length tail') \<le> me - 2 \<and> int (length first) + int (length m) + line_bytes tail' + 2 \<le> mb"
proof (induction tail arbitrary: n)
  case Nil
  then show ?case by (subst (asm) fit_marker.simps) (auto split: if_split_asm)
next
  case (Cons l tail)
  show ?case
  proof (cases "int (length (l # tail)) \<le> me - 2
      \<and> int (length first) + int (length (marker n)) + line_bytes (l # tail) + 2 \<le> mb")
    case True
    then show ?thesis using Cons.prems by (subst (asm) fit_marker.simps) (auto intro: exI [of _ 0])
  next
    case False
    then have "fit_marker marker me mb first (n + 1) tail = Inr (m, tail', n')"
      using Cons.prems by (subst (asm) fit_marker.simps) (simp split: if_split_asm)
    from Cons.IH [OF this] obtain k where "k \<le> length tail" "tail' = drop k tail" "n' = n + 1 + int k"
      "m = marker n'" "int (length tail') \<le> me - 2"
      "int (length first) + int (length m) + line_bytes tail' + 2 \<le> mb" by blast
    then show ?thesis by (intro exI [of _ "Suc k"]) auto
  qed
qed

subsection \<open>The copy is the stream with a gap, within the limits\<close>

lemma line_bytes_simps [simp]:
  "line_bytes [] = 0" "line_bytes (l # ls) = int (length l) + 1 + line_bytes ls"
  "line_bytes (ls @ ls') = line_bytes ls + line_bytes ls'"
  by (simp_all add: line_bytes_def)

text \<open>What the limits promise of the state while the lines are read.\<close>

definition within_limits :: "int \<Rightarrow> int \<Rightarrow> copy_state \<Rightarrow> bool" where
  "within_limits max_events max_bytes st \<longleftrightarrow>
     state_ok st \<and> int (length (cp_tail st)) \<le> max_events - 1
   \<and> (cp_first st \<noteq> None \<longrightarrow> first_bytes (cp_first st) + 1 + line_bytes (cp_tail st) \<le> max_bytes)"

lemma keep_event_within:
  assumes "keep_event dec me mb st (line, replaced) = Inr st'" "within_limits me mb st" "int (length line) < mb"
  shows "within_limits me mb st'"
  using assms evict_until_Some
  by (fastforce simp: keep_event_def within_limits_def state_ok_def first_bytes_def Let_def
      split: option.split_asm if_split_asm)

lemma read_line_fits:
  assumes "read_bounded_ledger_event enc dec ml fb n raw = Inr (Some (line, replaced))"
    "ml < mb" "\<forall>q k. int (length (enc (JObj (truncated_event q fb k)))) < mb"
  shows "int (length line) < mb"
  using assms
  by (auto simp: read_bounded_ledger_event_def Let_def split: if_split_asm option.split_asm json.split_asm)

lemma read_events_within:
  assumes "ml < mb" "\<forall>q k. int (length (enc (JObj (truncated_event q fb k)))) < mb"
  shows "read_events enc dec ml me mb fb st raws = Inr st' \<Longrightarrow> within_limits me mb st \<Longrightarrow> within_limits me mb st'"
proof (induction raws arbitrary: st)
  case (Cons raw raws)
  let ?r = "read_bounded_ledger_event enc dec ml fb (cp_total st + 1) raw"
  show ?case
  proof (cases ?r)
    case (Inr kept)
    show ?thesis
    proof (cases kept)
      case None
      then show ?thesis using Cons Inr by simp
    next
      case (Some k)
      then obtain line replaced where k: "?r = Inr (Some (line, replaced))" using Inr by (cases k) auto
      then obtain s1 where s1: "keep_event dec me mb st (line, replaced) = Inr s1"
        "read_events enc dec ml me mb fb s1 raws = Inr st'"
        using Cons.prems(1) by (auto split: sum.split_asm)
      then show ?thesis
        using Cons.IH [OF s1(2)] keep_event_within [OF s1(1) Cons.prems(2) read_line_fits [OF k assms]] by blast
    qed
  qed (use Cons.prems in simp)
qed simp

lemma max_line_below: "2 \<le> mb \<Longrightarrow> max_line_bytes mb < mb"
  by (simp add: max_line_bytes_def)

text \<open>What the copy is made of, once the lines are read.\<close>

lemma copy_events_cases:
  assumes "copy_bounded_ledger_events enc dec me mb fb content = Inr c"
  obtains st where
    "read_events enc dec (max_line_bytes mb) me mb fb start_state (raw_lines content) = Inr st"
    "cp_total st - int (length (cp_tail st)) - int (length (opt_list (cp_first st))) \<le> 0"
    "c = event_copy_of (opt_list (cp_first st) @ cp_tail st)
       (cp_total st - int (length (cp_tail st)) - int (length (opt_list (cp_first st)))) (cp_truncated st)"
  | st first marker m tail n where
    "read_events enc dec (max_line_bytes mb) me mb fb start_state (raw_lines content) = Inr st"
    "0 < cp_total st - int (length (cp_tail st)) - 1" "cp_first st = Some first"
    "fit_marker marker me mb first (cp_total st - int (length (cp_tail st)) - 1) (cp_tail st) = Inr (m, tail, n)"
    "c = event_copy_of (first # m # tail) n (cp_truncated st)"
proof -
  obtain st where st: "read_events enc dec (max_line_bytes mb) me mb fb start_state (raw_lines content) = Inr st"
    using assms by (cases "read_events enc dec (max_line_bytes mb) me mb fb start_state (raw_lines content)")
      (simp_all add: copy_bounded_ledger_events_def)
  let ?o = "cp_total st - int (length (cp_tail st)) - int (length (opt_list (cp_first st)))"
  show thesis
  proof (cases "?o \<le> 0")
    case True
    then show thesis using that(1) [OF st] assms st by (simp add: copy_bounded_ledger_events_def Let_def)
  next
    case False
    then obtain first e where f: "cp_first st = Some first" "dec_event dec first = Some e"
      using assms st by (auto simp: copy_bounded_ledger_events_def Let_def split: option.split_asm)
    let ?marker = "\<lambda>n. enc (JObj (omitted_event (ledger_event_sequence e)
      (case map_of e ''timestamp'' of Some t \<Rightarrow> t | None \<Rightarrow> JNull) n))"
    have "rbind (fit_marker ?marker me mb first (cp_total st - int (length (cp_tail st)) - 1) (cp_tail st))
        (\<lambda>(m, tail, n). Inr (event_copy_of (first # m # tail) n (cp_truncated st))) = Inr c"
      using assms st False f by (simp add: copy_bounded_ledger_events_def Let_def)
    then obtain m tail n where
      "fit_marker ?marker me mb first (cp_total st - int (length (cp_tail st)) - 1) (cp_tail st) = Inr (m, tail, n)"
      "c = event_copy_of (first # m # tail) n (cp_truncated st)"
      by (cases "fit_marker ?marker me mb first (cp_total st - int (length (cp_tail st)) - 1) (cp_tail st)") auto
    then show thesis using that(2) [OF st _ f(1)] False f(1) by simp
  qed
qed

lemma ledger_copy_bounds:
  assumes "copy_bounded_ledger_events enc dec max_events max_bytes fallback content = Inr c"
    "1 \<le> max_events" "2 \<le> max_bytes"
    "\<forall>q k. int (length (enc (JObj (truncated_event q fallback k)))) < max_bytes"
  shows "int (length (ec_lines c)) \<le> max_events \<and> ec_bytes c \<le> max_bytes \<and> ec_bytes c = line_bytes (ec_lines c)"
  using assms(1)
proof (cases rule: copy_events_cases)
  case (1 st)
  have "within_limits max_events max_bytes start_state"
    using assms(2) by (simp add: within_limits_def start_state_def state_ok_def)
  with read_events_within [OF max_line_below [OF assms(3)] assms(4) 1(1)] have
    "within_limits max_events max_bytes st" by blast
  then show ?thesis using 1(3) assms(2,3)
    by (cases "cp_first st") (auto simp: within_limits_def state_ok_def event_copy_of_def first_bytes_def)
next
  case (2 st first marker m tail n)
  then show ?thesis using fit_marker_spec [OF 2(4)] by (auto simp: event_copy_of_def)
qed



subsection \<open>A concrete stream\<close>

text \<open>A coder that keeps the type of an event and prints the last digit of its number.\<close>

definition sample_enc :: "json \<Rightarrow> string" where
  "sample_enc j = (case j of JObj e \<Rightarrow> show_int (ledger_event_sequence e mod 10) | _ \<Rightarrow> [])"

definition sample_dec :: "string \<Rightarrow> json option" where
  "sample_dec s = Some (JObj [(''type'', JStr s)])"

definition sample_stream :: string where
  "sample_stream = concat (map (\<lambda>c. [c, newline]) ''abcdefgh'')"

lemma sample_copy:
  "case copy_bounded_ledger_events sample_enc sample_dec 4 10 [] sample_stream of
     Inl _ \<Rightarrow> False | Inr c \<Rightarrow> ec_omitted c = 5 \<and> ec_lines c = [''1'', ''1'', ''7'', ''8'']"
  by code_simp

lemma sample_enc_short: "length (sample_enc j) \<le> 1"
proof -
  have "length (show_int (n mod 10)) = 1" for n
    by (subst show_int_def, subst show_nat.simps) (simp add: nat_less_iff)
  then show ?thesis by (simp add: sample_enc_def split: json.split)
qed



end
