(* ===== verification/Go_Duration.thy ===== *)
theory Go_Duration
  imports Go_Time
begin

text \<open>
  \<open>time.ParseDuration\<close> of the Go standard library, which reads the retention, keep and
  timeout settings: a sign, then one or more decimal numbers with a unit, in nanoseconds
  and within 64 bits.  A fraction is taken exactly and cut to nanoseconds; the library
  computes it in \<open>float64\<close>.  \<open>parse_duration_bounds\<close> says that a result is a 64-bit value.
\<close>

definition limit63 :: int where "limit63 = 2 ^ 63"

definition digit_int :: "char \<Rightarrow> int" where
  "digit_int c = int (digit_val c)"

text \<open>\<open>leadingInt\<close>, \<open>leadingFraction\<close>\<close>

fun leading_int :: "int \<Rightarrow> string \<Rightarrow> (int \<times> string) option" where
  "leading_int x [] = Some (x, [])"
| "leading_int x (c # s) =
     (if is_digit c
      then (if x > limit63 div 10 \<or> x * 10 + digit_int c > limit63 then None
            else leading_int (x * 10 + digit_int c) s)
      else Some (x, c # s))"

fun leading_fraction :: "int \<Rightarrow> int \<Rightarrow> bool \<Rightarrow> string \<Rightarrow> int \<times> int \<times> string" where
  "leading_fraction x scale overflow [] = (x, scale, [])"
| "leading_fraction x scale overflow (c # s) =
     (if is_digit c
      then (if overflow then leading_fraction x scale True s
            else if x > (limit63 - 1) div 10 then leading_fraction x scale True s
            else if x * 10 + digit_int c > limit63 then leading_fraction x scale True s
            else leading_fraction (x * 10 + digit_int c) (scale * 10) False s)
      else (x, scale, c # s))"

definition unit_of :: "string \<Rightarrow> int option" where
  "unit_of u =
     map_of [(''ns'', 1), (''us'', 1000), ([CHR 0xC2, CHR 0xB5, CHR ''s''], 1000),
       ([CHR 0xCE, CHR 0xBC, CHR ''s''], 1000), (''ms'', 1000000), (''s'', 1000000000),
       (''m'', 60000000000), (''h'', 3600000000000)] u"

definition fraction_part :: "string \<Rightarrow> int \<times> int \<times> bool \<times> string" where
  "fraction_part s =
     (if s \<noteq> [] \<and> hd s = CHR ''.''
      then (case leading_fraction 0 1 False (tl s) of
              (f, scale, r) \<Rightarrow> (f, scale, length r \<noteq> length (tl s), r))
      else (0, 1, False, s))"

text \<open>One number with its unit, added to \<open>d\<close>.\<close>

definition add_term :: "int \<Rightarrow> int \<Rightarrow> int \<Rightarrow> int \<Rightarrow> int \<Rightarrow> int option" where
  "add_term d v f scale unit =
     (if v > limit63 div unit then None
      else (let v' = v * unit + (if f > 0 then f * unit div scale else 0)
            in if v' > limit63 \<or> d + v' > limit63 then None else Some (d + v')))"

definition duration_term :: "int \<Rightarrow> string \<Rightarrow> (int \<times> string) option" where
  "duration_term d s =
     (if s = [] \<or> hd s \<noteq> CHR ''.'' \<and> \<not> is_digit (hd s) then None
      else (case leading_int 0 s of
              None \<Rightarrow> None
            | Some (v, s1) \<Rightarrow>
                (case fraction_part s1 of
                   (f, scale, post, s2) \<Rightarrow>
                     (let u = takeWhile (\<lambda>c. c \<noteq> CHR ''.'' \<and> \<not> is_digit c) s2
                      in if length s1 = length s \<and> \<not> post then None
                         else if u = [] then None
                         else (case unit_of u of
                                 None \<Rightarrow> None
                               | Some unit \<Rightarrow>
                                   map_option (\<lambda>d'. (d', drop (length u) s2)) (add_term d v f scale unit))))))"

text \<open>Every term takes at least its unit, so the length of the text is enough fuel.\<close>

fun duration_terms :: "nat \<Rightarrow> int \<Rightarrow> string \<Rightarrow> int option" where
  "duration_terms fuel d [] = Some d"
| "duration_terms 0 d (c # s) = None"
| "duration_terms (Suc fuel) d (c # s) =
     (case duration_term d (c # s) of
        None \<Rightarrow> None
      | Some (d', s') \<Rightarrow> duration_terms fuel d' s')"

definition parse_duration :: "string \<Rightarrow> int option" where
  "parse_duration s =
     (let neg = (s \<noteq> [] \<and> hd s = CHR ''-'');
          t = (if s \<noteq> [] \<and> hd s \<in> {CHR ''-'', CHR ''+''} then tl s else s) in
      if t = ''0'' then Some 0
      else if t = [] then None
      else (case duration_terms (length t) 0 t of
              None \<Rightarrow> None
            | Some d \<Rightarrow> if neg then Some (- d) else if d > limit63 - 1 then None else Some d))"

lemma leading_int_nonneg: "leading_int x s = Some (v, r) \<Longrightarrow> 0 \<le> x \<Longrightarrow> 0 \<le> v"
  by (induction x s rule: leading_int.induct) (auto simp: digit_int_def split: if_split_asm)

lemma leading_fraction_nonneg:
  "leading_fraction x scale ov s = (f, scale', r) \<Longrightarrow> 0 \<le> x \<Longrightarrow> 0 < scale \<Longrightarrow> 0 \<le> f \<and> 0 < scale'"
  by (induction x scale ov s rule: leading_fraction.induct) (auto simp: digit_int_def split: if_split_asm)

lemma unit_pos: "unit_of u = Some k \<Longrightarrow> 0 < k"
  by (auto simp: unit_of_def split: if_split_asm)

lemma fraction_part_nonneg: "fraction_part s = (f, scale, post, r) \<Longrightarrow> 0 \<le> f \<and> 0 < scale"
  by (auto simp: fraction_part_def split: if_split_asm prod.split_asm dest: leading_fraction_nonneg)

lemma add_term_range:
  assumes "add_term d v f scale unit = Some d'" "0 \<le> d" "0 \<le> v" "0 \<le> f" "0 < scale" "0 < unit"
  shows "0 \<le> d' \<and> d' \<le> limit63"
proof -
  have "0 \<le> v * unit" "0 \<le> f * unit div scale" using assms by (simp_all add: pos_imp_zdiv_nonneg_iff)
  then show ?thesis using assms(1,2) by (auto simp: add_term_def Let_def split: if_split_asm)
qed

lemma duration_term_range:
  "duration_term d s = Some (d', r) \<Longrightarrow> 0 \<le> d \<Longrightarrow> 0 \<le> d' \<and> d' \<le> limit63"
  unfolding duration_term_def Let_def
  by (auto split: if_split_asm option.split_asm prod.split_asm simp del: hd_conv_nth
      dest!: fraction_part_nonneg leading_int_nonneg unit_pos dest: add_term_range)

lemma duration_terms_range:
  "duration_terms n d s = Some r \<Longrightarrow> 0 \<le> d \<Longrightarrow> d \<le> limit63 \<Longrightarrow> 0 \<le> r \<and> r \<le> limit63"
proof (induction n d s rule: duration_terms.induct)
  case (3 n d c s)
  then show ?case using duration_term_range [of d "c # s"] by (auto split: option.split_asm)
qed auto

lemma parse_duration_bounds:
  assumes "parse_duration s = Some d"
  shows "- limit63 \<le> d \<and> d < limit63"
proof -
  have r: "0 \<le> x \<and> x \<le> limit63" if "duration_terms n 0 t = Some x" for n t x
    using duration_terms_range [OF that] by (simp add: limit63_def)
  have "0 < limit63" by (simp add: limit63_def)
  then show ?thesis
    using assms unfolding parse_duration_def Let_def
    by (fastforce split: prod.split_asm if_split_asm option.split_asm dest: r)
qed

end
