(* ===== verification/Host_Pool.thy ===== *)
theory Host_Pool
  imports Remote_Lock Go_Duration
begin

text \<open>
  Which Maya Host a run gets (\<open>host_pool.go\<close>): the checks of a host configuration, the
  candidates of a Target Profile, the runtime a host is driven with, the store that keeps its
  lock, and the selection loop that walks over the candidates, locks the first healthy one
  that is free and waits, up to a deadline, when all are taken.

  Acquiring, releasing and validating a host are arguments of the selection, which is proved
  for every implementation of them; the dispatch functions below say which implementation a
  host gets.
\<close>

subsection \<open>Checking a host's configuration\<close>

datatype host_config_error =
    BrokerReason broker_reason
  | BrokerNotSessiond
  | SSHHostRequired
  | FieldRequired string
  | NotWindowsPath string
  | WorkRootControl path_reject
  | NotLocalTransport
  | NotSSHTransport
  | LocalWithSSH
  | PortRange
  | RecoveryTaskSet
  | TrustedRootSet
  | TrustedRoot windows_error
  | StateDirError windows_error
  | BrokerRepoError windows_error
  | BadTimeout
  | NegativeTimeout
  | UnknownTransport string
  | FakeWithSessiond

definition default_sftp_batch_timeout :: int where
  "default_sftp_batch_timeout = 30 * 60 * second_ns"

definition sftp_batch_timeout :: "maya_host_config \<Rightarrow> (host_config_error, int) result" where
  "sftp_batch_timeout host =
     (let value = trim_space (ssh_sftp_timeout (mh_ssh host)) in
      if value = [] then Inr default_sftp_batch_timeout
      else (case parse_duration value of
              None \<Rightarrow> Inl BadTimeout
            | Some timeout \<Rightarrow> if timeout < 0 then Inl NegativeTimeout else Inr timeout))"

definition validate_real_ssh_connection :: "maya_host_config \<Rightarrow> (host_config_error, unit) result" where
  "validate_real_ssh_connection host =
     (if trim_space (ssh_host (mh_ssh host)) = [] then Inl SSHHostRequired else Inr ())"

text \<open>The error of a check, under the constructor that says which check it was.\<close>

definition under :: "('a \<Rightarrow> 'b) \<Rightarrow> ('a, 'c) result \<Rightarrow> ('b, 'c) result" where
  "under f r = (case r of Inl e \<Rightarrow> Inl (f e) | Inr x \<Rightarrow> Inr x)"

lemma under_simps [simp]: "under f (Inl e) = Inl (f e)" "under f (Inr x) = Inr x"
  by (simp_all add: under_def)

definition required :: "string \<Rightarrow> string \<Rightarrow> (host_config_error, unit) result" where
  "required label v = (if trim_space v = [] then Inl (FieldRequired label) else Inr ())"

definition validate_real_ssh_config :: "maya_host_config \<Rightarrow> (host_config_error, unit) result" where
  "validate_real_ssh_config host =
     rbind (validate_real_ssh_connection host) (\<lambda>_.
     rbind (required ''workRoot'' (mh_work_root host)) (\<lambda>_.
     rbind (under WorkRootControl (reject_sftp_batch_unsafe_path (mh_work_root host))) (\<lambda>_.
     rbind (sftp_batch_timeout host) (\<lambda>_.
     under TrustedRoot (validate_trusted_plugin_artifacts_root host)))))"

text \<open>\<open>validateLocalSessiondConfig\<close> (\<open>local_windows_host.go\<close>)\<close>

definition local_windows_field :: "string \<times> string \<Rightarrow> (host_config_error, unit) result" where
  "local_windows_field field =
     (case field of (label, v) \<Rightarrow>
        if trim_space v = [] then Inl (FieldRequired label)
        else (let canon = canonical_windows_path_for_comparison v in
              if \<not> wp_absolute canon \<or> wp_traverses canon \<or> has_windows_device_prefix v
              then Inl (NotWindowsPath label) else Inr ()))"

definition local_windows_fields :: "maya_host_config \<Rightarrow> (string \<times> string) list" where
  "local_windows_fields host =
     [(''workRoot'', mh_work_root host), (''broker.stateDir'', br_state_dir (mh_broker host)),
      (''broker.python'', br_python (mh_broker host)), (''broker.repo'', br_repo (mh_broker host)),
      (''broker.mcpSource'', br_mcp_source (mh_broker host)), (''broker.mayaExe'', br_maya_exe (mh_broker host))]"

definition validate_local_sessiond_config :: "maya_host_config \<Rightarrow> (host_config_error, unit) result" where
  "validate_local_sessiond_config host =
     (if \<not> uses_local_windows host then Inl NotLocalTransport
      else if uses_real_ssh host then Inl LocalWithSSH
      else rbind (required ''workRoot'' (mh_work_root host)) (\<lambda>_.
           rbind (rmap local_windows_field (local_windows_fields host)) (\<lambda>_.
           if br_port (mh_broker host) < 1 \<or> br_port (mh_broker host) > 65535 then Inl PortRange
           else if trim_space (br_recovery_task (mh_broker host)) \<noteq> [] then Inl RecoveryTaskSet
           else if trusted_plugin_artifacts_root host \<noteq> [] then Inl TrustedRootSet
           else under TrustedRoot (validate_trusted_plugin_artifacts_root host))))"

text \<open>\<open>ggMayaSessiondBroker.validate\<close> (\<open>sessiond_broker.go\<close>)\<close>

definition sessiond_broker_validate :: "maya_host_config \<Rightarrow> (host_config_error, unit) result" where
  "sessiond_broker_validate host =
     (if uses_local_windows host then validate_local_sessiond_config host
      else if \<not> uses_real_ssh host then Inl NotSSHTransport
      else rbind (validate_real_ssh_connection host) (\<lambda>_.
           rbind (required ''workRoot'' (mh_work_root host)) (\<lambda>_.
           rbind (required ''broker.stateDir'' (br_state_dir (mh_broker host))) (\<lambda>_.
           rbind (under StateDirError (validate_session_broker_state_dir (br_state_dir (mh_broker host)))) (\<lambda>_.
           rbind (required ''broker.python'' (br_python (mh_broker host))) (\<lambda>_.
           rbind (required ''broker.repo'' (br_repo (mh_broker host))) (\<lambda>_.
           under BrokerRepoError (validate_session_broker_repo (br_repo (mh_broker host))))))))))"

definition validate_host_side_lock_ssh_config :: "maya_host_config \<Rightarrow> (host_config_error, unit) result" where
  "validate_host_side_lock_ssh_config host =
     (case broker_invalid_reason (mh_broker host) of
        Some reason \<Rightarrow> Inl (BrokerReason reason)
      | None \<Rightarrow>
          if \<not> is_gg_maya_sessiond (mh_broker host) then Inl BrokerNotSessiond
          else rbind (sessiond_broker_validate host) (\<lambda>_. validate_real_ssh_config host))"

definition remote_host_lock_path :: "maya_host_config \<Rightarrow> (host_config_error, string) result" where
  "remote_host_lock_path host =
     rbind (required ''workRoot'' (mh_work_root host)) (\<lambda>_.
     rbind (under WorkRootControl (reject_sftp_batch_unsafe_path (mh_work_root host))) (\<lambda>_.
     Inr (remote_join (mh_work_root host) [''state'', ''locks'', ''host.lock''])))"

subsection \<open>The runtime of a host\<close>

datatype host_adapter = FakeHost string | RealSSHHost maya_host_config | LocalWindowsHost maya_host_config

datatype broker_adapter = FakeSessionBroker | GGMayaSessiondBroker maya_host_config

record runtime_metadata =
  rm_profile :: string
  rm_host_adapter :: string
  rm_broker_adapter :: string
  rm_config_source :: string
  rm_live_proof :: bool

record resolved_runtime =
  rt_host :: host_adapter
  rt_broker :: broker_adapter
  rt_metadata :: runtime_metadata

definition resolve_runtime_for_host :: "maya_host_config \<Rightarrow> (host_config_error, resolved_runtime) result" where
  "resolve_runtime_for_host host =
     (if uses_local_windows host
      then (if \<not> is_gg_maya_sessiond (mh_broker host)
            then Inl (case broker_invalid_reason (mh_broker host) of
                        Some reason \<Rightarrow> BrokerReason reason | None \<Rightarrow> BrokerNotSessiond)
            else rbind (sessiond_broker_validate host) (\<lambda>_.
              Inr \<lparr>rt_host = LocalWindowsHost host, rt_broker = GGMayaSessiondBroker host,
                   rt_metadata = \<lparr>rm_profile = ''local-sessiond'', rm_host_adapter = ''local-windows'',
                     rm_broker_adapter = ''gg-mayasessiond'',
                     rm_config_source = ''host config transport=local broker.type=gg-mayasessiond'',
                     rm_live_proof = True\<rparr>\<rparr>))
      else if uses_real_ssh host
      then (if \<not> is_gg_maya_sessiond (mh_broker host)
            then Inl (case broker_invalid_reason (mh_broker host) of
                        Some reason \<Rightarrow> BrokerReason reason | None \<Rightarrow> BrokerNotSessiond)
            else rbind (sessiond_broker_validate host) (\<lambda>_.
              Inr \<lparr>rt_host = RealSSHHost host, rt_broker = GGMayaSessiondBroker host,
                   rt_metadata = \<lparr>rm_profile = ''ssh-sessiond'', rm_host_adapter = ''ssh'',
                     rm_broker_adapter = ''gg-mayasessiond'',
                     rm_config_source = ''host config broker.type=gg-mayasessiond'',
                     rm_live_proof = True\<rparr>\<rparr>))
      else if trim_space (mh_transport host) \<noteq> [] then Inl (UnknownTransport (trim_space (mh_transport host)))
      else if is_gg_maya_sessiond (mh_broker host) then Inl FakeWithSessiond
      else (case broker_invalid_reason (mh_broker host) of
              Some reason \<Rightarrow> Inl (BrokerReason reason)
            | None \<Rightarrow>
                Inr \<lparr>rt_host = FakeHost (ssh_fake_status (mh_ssh host)), rt_broker = FakeSessionBroker,
                     rt_metadata = \<lparr>rm_profile = ''fake-local'', rm_host_adapter = ''fake'',
                       rm_broker_adapter = ''fake'', rm_config_source = ''default fake host config'',
                       rm_live_proof = False\<rparr>\<rparr>))"

subsection \<open>Which store keeps the lock\<close>

text \<open>
  \<open>fakeHostSideLockDir\<close>, \<open>localHostSideLockID\<close> and the choice that \<open>acquireHostSideLock\<close>,
  \<open>releaseHostSideLock\<close> and the verifications share: a host reached over SSH keeps its lock
  itself, a host with an absolute work root keeps it there, any other host has none.  (The
  hook that replaces the remote store in tests is not part of the model.)
\<close>

definition fake_host_side_lock_dir :: "maya_host_config \<Rightarrow> string option" where
  "fake_host_side_lock_dir host =
     (if uses_real_ssh host \<or> mh_work_root host = [] \<or> \<not> is_abs (mh_work_root host) then None
      else Some (path_join [mh_work_root host, ''state'', ''locks'', ''hosts'']))"

definition local_host_side_lock_id :: "maya_host_config \<Rightarrow> string" where
  "local_host_side_lock_id host = (if uses_local_windows host then ''host'' else mh_id host)"

definition has_authoritative_host_side_lock :: "maya_host_config \<Rightarrow> bool" where
  "has_authoritative_host_side_lock host \<longleftrightarrow> uses_real_ssh host \<or> fake_host_side_lock_dir host \<noteq> None"

text \<open>The state a dispatched operation works on: the Maya Host and the files of this machine.\<close>

type_synonym lock_world = "remote_host \<times> lock_fs"

definition on_remote :: "(remote_host \<Rightarrow> 'a \<times> remote_host) \<Rightarrow> lock_world \<Rightarrow> 'a \<times> lock_world" where
  "on_remote f w = (case f (fst w) of (r, h) \<Rightarrow> (r, h, snd w))"

definition on_files :: "(lock_fs \<Rightarrow> 'a \<times> lock_fs) \<Rightarrow> lock_world \<Rightarrow> 'a \<times> lock_world" where
  "on_files f w = (case f (snd w) of (r, fs) \<Rightarrow> (r, fst w, fs))"

definition dispatch_lock ::
  "maya_host_config \<Rightarrow> (remote_host \<Rightarrow> unit lock_outcome \<times> remote_host)
     \<Rightarrow> (lock_path \<Rightarrow> lock_fs \<Rightarrow> unit lock_outcome \<times> lock_fs) \<Rightarrow> lock_world
     \<Rightarrow> unit lock_outcome \<times> lock_world" where
  "dispatch_lock host remote local w =
     (if uses_real_ssh host then on_remote remote w
      else (case fake_host_side_lock_dir host of
              Some dir \<Rightarrow> on_files (local (dir, local_host_side_lock_id host)) w
            | None \<Rightarrow> (Inr (), w)))"

definition release_host_side_lock ::
  "(int \<Rightarrow> bool) \<Rightarrow> int \<Rightarrow> maya_host_config \<Rightarrow> string \<Rightarrow> lock_world \<Rightarrow> unit lock_outcome \<times> lock_world" where
  "release_host_side_lock process_exists pid host run =
     dispatch_lock host (remove_remote_host_lock_for_run run)
       (\<lambda>p. remove_host_side_lock_for_run_at_dir process_exists pid p run)"

definition verify_host_side_lock_for_run ::
  "(int \<Rightarrow> bool) \<Rightarrow> int \<Rightarrow> int \<Rightarrow> maya_host_config \<Rightarrow> string \<Rightarrow> lock_world \<Rightarrow> unit lock_outcome \<times> lock_world" where
  "verify_host_side_lock_for_run process_exists pid now host run =
     dispatch_lock host (verify_remote_host_lock_for_run run)
       (\<lambda>p. verify_host_side_lock_for_run_at_dir process_exists pid now p run False False)"

definition verify_cleanup_host_side_lock_for_run ::
  "(int \<Rightarrow> bool) \<Rightarrow> int \<Rightarrow> int \<Rightarrow> maya_host_config \<Rightarrow> string \<Rightarrow> lock_world \<Rightarrow> unit lock_outcome \<times> lock_world" where
  "verify_cleanup_host_side_lock_for_run process_exists pid now host run =
     dispatch_lock host (verify_cleanup_remote_host_lock_for_run run)
       (\<lambda>p. verify_host_side_lock_for_run_at_dir process_exists pid now p run False True)"

definition verify_kept_host_side_lock_for_run ::
  "(int \<Rightarrow> bool) \<Rightarrow> int \<Rightarrow> int \<Rightarrow> maya_host_config \<Rightarrow> string \<Rightarrow> lock_world \<Rightarrow> unit lock_outcome \<times> lock_world" where
  "verify_kept_host_side_lock_for_run process_exists pid now host run =
     dispatch_lock host (verify_kept_remote_host_lock_for_run run)
       (\<lambda>p. verify_host_side_lock_for_run_at_dir process_exists pid now p run True False)"

text \<open>\<open>keptHostLockFence\<close>: \<open>None\<close> is the zero fence.\<close>

definition kept_host_lock_fence ::
  "(int \<Rightarrow> bool) \<Rightarrow> int \<Rightarrow> int \<Rightarrow> maya_host_config \<Rightarrow> string
     \<Rightarrow> (lock_world \<Rightarrow> unit lock_outcome \<times> lock_world) option" where
  "kept_host_lock_fence process_exists pid now host run =
     (if uses_real_ssh host
      then Some (case remote_host_lock_path host of
                   Inl _ \<Rightarrow> (\<lambda>w. (Inl LockMissing, w))
                 | Inr _ \<Rightarrow> on_remote (\<lambda>s. case remote_host_lock_fence_script True run s of
                                (ok, s') \<Rightarrow> (if ok then Inr () else Inl (OwnershipChanged []), s')))
      else map_option (\<lambda>dir. on_files (verify_host_side_lock_for_run_at_dir process_exists pid now
                                (dir, local_host_side_lock_id host) run True False))
             (fake_host_side_lock_dir host))"

text \<open>A lock of one of the two stores, as a lock of the whole state.\<close>

definition remote_lock :: "remote_host host_side_lock \<Rightarrow> lock_world host_side_lock" where
  "remote_lock l = \<lparr>hl_expected = hl_expected l, hl_replace = (\<lambda>e c. on_remote (hl_replace l e c)),
     hl_remove = (\<lambda>e. on_remote (hl_remove l e)),
     hl_claim = map_option (\<lambda>f now e c. on_remote (f now e c)) (hl_claim l),
     hl_fence_script = map_option on_remote (hl_fence_script l)\<rparr>"

definition files_lock :: "lock_fs host_side_lock \<Rightarrow> lock_world host_side_lock" where
  "files_lock l = \<lparr>hl_expected = hl_expected l, hl_replace = (\<lambda>e c. on_files (hl_replace l e c)),
     hl_remove = (\<lambda>e. on_files (hl_remove l e)),
     hl_claim = map_option (\<lambda>f now e c. on_files (f now e c)) (hl_claim l),
     hl_fence_script = map_option on_files (hl_fence_script l)\<rparr>"

definition map_lock :: "('a \<Rightarrow> 'b) \<Rightarrow> 'a option lock_outcome \<times> 's \<Rightarrow> 'b option lock_outcome \<times> 's" where
  "map_lock f r = (case r of (Inl e, s) \<Rightarrow> (Inl e, s) | (Inr l, s) \<Rightarrow> (Inr (map_option f l), s))"

definition acquire_host_side_lock ::
  "(int \<Rightarrow> bool) \<Rightarrow> int \<Rightarrow> int \<Rightarrow> string \<Rightarrow> string \<Rightarrow> (nat \<Rightarrow> (string, sessiond_status) result)
     \<Rightarrow> maya_host_config \<Rightarrow> lock_world \<Rightarrow> lock_world host_side_lock option lock_outcome \<times> lock_world" where
  "acquire_host_side_lock process_exists pid now machine token probes host w =
     (let broker = mh_broker host;
          content = host_side_lock_content (mh_id host) (br_state_dir broker) (br_python broker)
                      (br_repo broker) [] machine pid token now
      in if uses_real_ssh host
         then (case validate_host_side_lock_ssh_config host of
                 Inl _ \<Rightarrow> (Inl (RemoteFailure ''invalid SSH host configuration''), w)
               | Inr _ \<Rightarrow> map_lock remote_lock (on_remote (acquire_remote_host_lock broker probes content) w))
         else (case fake_host_side_lock_dir host of
                 Some dir \<Rightarrow>
                   (let p = (dir, local_host_side_lock_id host);
                        is_stale = (if uses_local_windows host
                                    then is_recoverable_local_sessiond_host_lock broker (probes 0) now p
                                    else is_stale_host_side_lock now p)
                    in map_lock files_lock
                         (on_files (acquire_local_host_side_lock process_exists pid p content is_stale) w))
               | None \<Rightarrow> (Inr (Some unlocked_host_side_lock), w)))"

subsection \<open>Candidates\<close>

datatype 'l select_error =
    ConfigUnreadable
  | ConfigUndecodable string
  | UnsupportedVersion int
  | UnknownProfile string
  | UnknownPool string string
  | EmptyPool string
  | BadHostId name_error
  | PinNotInProfile string string
  | LockFailed 'l
  | ValidationFailed string bool
  | NoUnlockedHost string
  | PinUnhealthy string string
  | NoHealthyHost string

definition default_fake_host_id :: string where
  "default_fake_host_id = ''fake-local''"

definition empty_host :: "string \<Rightarrow> string \<Rightarrow> maya_host_config" where
  "empty_host host_id health =
     \<lparr>mh_id = host_id, mh_health = health, mh_transport = [],
      mh_ssh = \<lparr>ssh_fake_status = [], ssh_host = [], ssh_user = [], ssh_port = 0, ssh_identity_file = [],
                ssh_binary = [], ssh_sftp_binary = [], ssh_sftp_timeout = []\<rparr>,
      mh_work_root = [], mh_trusted_root = [],
      mh_broker = \<lparr>br_fake_status = [], br_structured = False, br_type = [], br_state_dir = [], br_python = [],
                   br_repo = [], br_mcp_source = [], br_mcp_python = [], br_maya_exe = [], br_port = 0,
                   br_recovery_task = []\<rparr>,
      mh_maya_versions = [], mh_fake_versions = None, mh_visual_evidence = None, mh_capabilities = None\<rparr>"

text \<open>\<open>loadUserHostConfig\<close>: the file and the YAML decoder are arguments.\<close>

definition load_user_host_config ::
  "(string \<rightharpoonup> string) \<Rightarrow> (string \<Rightarrow> (string, user_host_config) result) \<Rightarrow> string
     \<Rightarrow> ('l select_error, user_host_config) result" where
  "load_user_host_config read_config decode path =
     (if path = []
      then Inr \<lparr>uh_version = 1, uh_profiles = [''default'' \<mapsto> ''default''],
                uh_pools = [''default'' \<mapsto> [empty_host default_fake_host_id ''healthy'']]\<rparr>
      else (case read_config path of
              None \<Rightarrow> Inl ConfigUnreadable
            | Some content \<Rightarrow>
                (case decode content of
                   Inl e \<Rightarrow> Inl (ConfigUndecodable e)
                 | Inr config \<Rightarrow>
                     if uh_version config \<noteq> 1 then Inl (UnsupportedVersion (uh_version config))
                     else Inr config)))"

definition host_candidates ::
  "user_host_config \<Rightarrow> string \<Rightarrow> string \<Rightarrow> ('l select_error, maya_host_config list) result" where
  "host_candidates config target_profile host_pin =
     (case uh_profiles config target_profile of
        None \<Rightarrow> Inl (UnknownProfile target_profile)
      | Some pool_name \<Rightarrow>
          (case uh_pools config pool_name of
             None \<Rightarrow> Inl (UnknownPool target_profile pool_name)
           | Some hosts \<Rightarrow>
               if hosts = [] then Inl (EmptyPool pool_name)
               else (case rmap (\<lambda>h. validate_host_id (mh_id h)) hosts of
                       Inl e \<Rightarrow> Inl (BadHostId e)
                     | Inr _ \<Rightarrow>
                         if host_pin = [] then Inr hosts
                         else (case find (\<lambda>h. mh_id h = host_pin) hosts of
                                 Some h \<Rightarrow> Inr [h]
                               | None \<Rightarrow> Inl (PinNotInProfile host_pin target_profile)))))"

definition share_work_root :: "string \<Rightarrow> user_host_config \<Rightarrow> user_host_config" where
  "share_work_root shared config =
     (if shared = [] then config
      else config\<lparr>uh_pools := (\<lambda>pool. map_option
             (map (\<lambda>h. if uses_real_ssh h then h else h\<lparr>mh_work_root := shared\<rparr>)) (uh_pools config pool))\<rparr>)"

subsection \<open>The selection loop\<close>

text \<open>
  One walk over the candidates.  \<open>acquire\<close> answers with a lock, with \<open>None\<close> when the host is
  taken, or with an error; \<open>check\<close> is the validation callback, whose failure gives the lock
  back.
\<close>

record ('s, 'l, 'e) host_ops =
  ho_before :: "maya_host_config \<Rightarrow> 's \<Rightarrow> 's"
  ho_acquire :: "maya_host_config \<Rightarrow> 's \<Rightarrow> ('e, 'l option) result \<times> 's"
  ho_release :: "'l \<Rightarrow> 's \<Rightarrow> bool \<times> 's"
  ho_check :: "maya_host_config \<Rightarrow> 's \<Rightarrow> (string, unit) result \<times> 's"

datatype ('l, 'e) sweep_result =
    Chosen maya_host_config 'l
  | Broken "'e select_error"
  | Nothing bool

fun sweep :: "('s, 'l, 'e) host_ops \<Rightarrow> bool \<Rightarrow> maya_host_config list \<Rightarrow> 's \<Rightarrow> ('l, 'e) sweep_result \<times> 's" where
  "sweep ops saw_locked [] s = (Nothing saw_locked, s)"
| "sweep ops saw_locked (c # cs) s =
     (if \<not> is_healthy_host c then sweep ops saw_locked cs s
      else (case ho_acquire ops c (ho_before ops c s) of
              (Inl e, s1) \<Rightarrow> (Broken (LockFailed e), s1)
            | (Inr None, s1) \<Rightarrow> sweep ops True cs s1
            | (Inr (Some l), s1) \<Rightarrow>
                (case ho_check ops c s1 of
                   (Inl e, s2) \<Rightarrow>
                     (case ho_release ops l s2 of
                        (released, s3) \<Rightarrow> (Broken (ValidationFailed e released), s3))
                 | (Inr _, s2) \<Rightarrow> (Chosen c l, s2))))"

definition ms :: "int \<Rightarrow> int" where
  "ms n = n * 1000000"

definition initial_retry_delay :: "maya_host_config list \<Rightarrow> int" where
  "initial_retry_delay cs = (if list_ex uses_real_ssh cs then ms 250 else ms 25)"

definition next_retry_delay :: "int \<Rightarrow> int" where
  "next_retry_delay d =
     (if d \<ge> ms 250 \<and> d < ms 2000 then (if d * 2 > ms 2000 then ms 2000 else d * 2) else d)"

text \<open>
  The loop around it.  \<open>cost n\<close> is the time the \<open>n\<close>-th walk takes; a sleep takes the time it
  asks for.  The loop is bounded by fuel; \<open>select_returns\<close> below gives the number of walks
  that is enough.
\<close>

fun select_loop ::
  "nat \<Rightarrow> ('s, 'l, 'e) host_ops \<Rightarrow> (nat \<Rightarrow> int) \<Rightarrow> int \<Rightarrow> bool \<Rightarrow> maya_host_config list \<Rightarrow> string \<Rightarrow> string
     \<Rightarrow> int \<Rightarrow> int \<Rightarrow> nat \<Rightarrow> 's \<Rightarrow> (('e select_error, maya_host_config \<times> 'l) result \<times> 's) option" where
  "select_loop 0 ops cost deadline wait cs pin profile now delay n s = None"
| "select_loop (Suc fuel) ops cost deadline wait cs pin profile now delay n s =
     (case sweep ops False cs s of
        (Chosen c l, s1) \<Rightarrow> Some (Inr (c, l), s1)
      | (Broken e, s1) \<Rightarrow> Some (Inl e, s1)
      | (Nothing saw_locked, s1) \<Rightarrow>
          (let now' = now + cost n in
           if \<not> wait \<or> deadline < now'
           then Some (Inl (if saw_locked then NoUnlockedHost profile
                           else if pin \<noteq> [] then PinUnhealthy pin profile
                           else NoHealthyHost profile), s1)
           else (let remaining = deadline - now';
                     sleep = (if remaining < delay then remaining else delay)
                 in select_loop fuel ops cost deadline wait cs pin profile (now' + sleep)
                      (next_retry_delay delay) (Suc n) s1)))"

definition select_host_for_run ::
  "nat \<Rightarrow> ('s, 'l, 'e) host_ops \<Rightarrow> (nat \<Rightarrow> int) \<Rightarrow> int \<Rightarrow> int \<Rightarrow> ('e select_error, user_host_config) result
     \<Rightarrow> string \<Rightarrow> string \<Rightarrow> string \<Rightarrow> 's
     \<Rightarrow> (('e select_error, string \<times> maya_host_config \<times> 'l) result \<times> 's) option" where
  "select_host_for_run fuel ops cost now lock_wait loaded shared target_profile host_pin s =
     (case loaded of
        Inl e \<Rightarrow> Some (Inl e, s)
      | Inr config \<Rightarrow>
          (let profile = (if target_profile = [] then ''default'' else target_profile) in
           (case host_candidates (share_work_root shared config) profile host_pin of
              Inl e \<Rightarrow> Some (Inl e, s)
            | Inr cs \<Rightarrow>
                (case select_loop fuel ops cost (now + lock_wait) (0 < lock_wait) cs host_pin profile now
                        (initial_retry_delay cs) 0 s of
                   None \<Rightarrow> None
                 | Some (Inl e, s') \<Rightarrow> Some (Inl e, s')
                 | Some (Inr (c, l), s') \<Rightarrow> Some (Inr (profile, c, l), s')))))"

subsection \<open>What a walk finds\<close>

definition found_taken :: "('s, 'l, 'e) host_ops \<Rightarrow> maya_host_config \<Rightarrow> bool" where
  "found_taken ops c \<longleftrightarrow>
     \<not> is_healthy_host c \<or> (\<exists>t t'. ho_acquire ops c (ho_before ops c t) = (Inr None, t'))"

lemma sweep_nothing:
  "sweep ops saw cs s = (Nothing saw', s') \<Longrightarrow> c \<in> set cs \<Longrightarrow> found_taken ops c"
  by (induction ops saw cs s rule: sweep.induct)
    (auto simp: found_taken_def split: if_split_asm prod.split_asm sum.split_asm option.split_asm)

lemma sweep_saw:
  "sweep ops saw cs s = (Nothing saw', s') \<Longrightarrow> saw' \<longleftrightarrow> saw \<or> list_ex is_healthy_host cs"
  by (induction ops saw cs s rule: sweep.induct)
    (auto split: if_split_asm prod.split_asm sum.split_asm option.split_asm)

definition first_free ::
  "('s, 'l, 'e) host_ops \<Rightarrow> maya_host_config \<Rightarrow> 'l \<Rightarrow> 's \<Rightarrow> maya_host_config list \<Rightarrow> bool" where
  "first_free ops c l s' cs \<longleftrightarrow>
     (\<exists>pre post. cs = pre @ c # post \<and> is_healthy_host c \<and> (\<forall>h\<in>set pre. found_taken ops h)
       \<and> (\<exists>t t'. ho_acquire ops c (ho_before ops c t) = (Inr (Some l), t') \<and> ho_check ops c t' = (Inr (), s')))"

lemma first_free_Cons: "found_taken ops h \<Longrightarrow> first_free ops c l s' cs \<Longrightarrow> first_free ops c l s' (h # cs)"
  unfolding first_free_def by (elim exE conjE) (rule exI [of _ "h # _"], auto)

lemma sweep_chosen: "sweep ops saw cs s = (Chosen c l, s') \<Longrightarrow> first_free ops c l s' cs"
proof (induction cs arbitrary: saw s)
  case (Cons h cs)
  show ?case
  proof (cases "is_healthy_host h")
    case False
    then show ?thesis using Cons by (intro first_free_Cons) (auto simp: found_taken_def)
  next
    case True
    obtain r s1 where a: "ho_acquire ops h (ho_before ops h s) = (r, s1)" by fastforce
    consider e where "r = Inl e" | "r = Inr None" | l' where "r = Inr (Some l')"
      by (metis option.exhaust sum.exhaust)
    then show ?thesis
    proof cases
      case 2
      then have "found_taken ops h" using a by (auto simp: found_taken_def)
      moreover have "first_free ops c l s' cs" using Cons 2 True a by simp
      ultimately show ?thesis by (rule first_free_Cons)
    next
      case (3 l')
      then have "ho_check ops h s1 = (Inr (), s') \<and> h = c \<and> l' = l"
        using Cons.prems True a by (auto split: prod.split_asm sum.split_asm)
      then show ?thesis using 3 True a unfolding first_free_def
        by (intro exI [of _ "[]"] exI [of _ cs]) auto
    qed (use Cons.prems True a in auto)
  qed
qed simp

lemma select_loop_chosen:
  "select_loop fuel ops cost deadline wait cs pin profile now delay n s = Some (Inr (c, l), s') \<Longrightarrow>
     \<exists>t. sweep ops False cs t = (Chosen c l, s')"
  by (induction fuel ops cost deadline wait cs pin profile now delay n s rule: select_loop.induct)
    (auto simp: Let_def split: prod.split_asm sweep_result.split_asm if_split_asm)

lemma rmap_Inr_ball: "rmap f xs = Inr ys \<Longrightarrow> x \<in> set xs \<Longrightarrow> \<exists>y. f x = Inr y"
  by (induction xs arbitrary: ys) auto

lemma host_candidates_members:
  "host_candidates config profile pin = Inr cs \<Longrightarrow>
     \<exists>pool hosts. uh_profiles config profile = Some pool \<and> uh_pools config pool = Some hosts
       \<and> set cs \<subseteq> set hosts \<and> cs \<noteq> [] \<and> (pin \<noteq> [] \<longrightarrow> (\<forall>c\<in>set cs. mh_id c = pin))
       \<and> (\<forall>h\<in>set hosts. validate_host_id (mh_id h) = Inr ())"
  by (auto simp: host_candidates_def find_Some_iff split: option.split_asm if_split_asm sum.split_asm
      dest: rmap_Inr_ball)

lemma select_host_chosen:
  fixes ops :: "('s, 'l, 'e) host_ops"
  assumes "select_host_for_run fuel ops cost now lock_wait (Inr config) shared target_profile pin s
      = Some (Inr (profile, c, l), s')"
  shows "\<exists>cs t. host_candidates (share_work_root shared config) profile pin = (Inr cs :: ('e select_error, maya_host_config list) result)
    \<and> sweep ops False cs t = (Chosen c l, s')"
proof -
  let ?p = "if target_profile = [] then ''default'' else target_profile"
  obtain cs where cs: "host_candidates (share_work_root shared config) ?p pin = (Inr cs :: ('e select_error, maya_host_config list) result)"
    using assms by (cases "host_candidates (share_work_root shared config) ?p pin :: ('e select_error, maya_host_config list) result")
      (simp_all add: select_host_for_run_def Let_def)
  obtain r t where sel: "select_loop fuel ops cost (now + lock_wait) (0 < lock_wait) cs pin ?p now
      (initial_retry_delay cs) 0 s = Some (r, t)"
    using assms cs by (cases "select_loop fuel ops cost (now + lock_wait) (0 < lock_wait) cs pin ?p now
      (initial_retry_delay cs) 0 s") (auto simp: select_host_for_run_def Let_def)
  then have "r = Inr (c, l)" "t = s'" "profile = ?p"
    using assms cs by (cases r; simp add: select_host_for_run_def Let_def split: prod.split_asm)+
  then show ?thesis using cs select_loop_chosen [OF sel [unfolded \<open>r = _\<close> \<open>t = _\<close>]] by blast
qed


subsection \<open>The loop ends\<close>

definition walks_left :: "int \<Rightarrow> int \<Rightarrow> nat" where
  "walks_left deadline now =
     (if deadline \<le> now then 1 else nat ((deadline - now - 1) div ms 25) + 2)"

lemma next_retry_delay_least: "ms 25 \<le> d \<Longrightarrow> ms 25 \<le> next_retry_delay d"
  by (simp add: next_retry_delay_def ms_def)

lemma walks_left_sleep:
  assumes "0 < c" "now + c \<le> deadline" "ms 25 \<le> d"
  shows "walks_left deadline (now + c + min (deadline - (now + c)) d) < walks_left deadline now"
proof (cases "deadline - (now + c) \<le> d")
  case True
  then show ?thesis using assms(1,2) by (simp add: walks_left_def)
next
  case False
  have D: "0 < ms 25" by (simp add: ms_def)
  have "deadline - (now + c + d) - 1 \<le> (deadline - now - 1) + (- 1) * ms 25" using assms(1,3) by simp
  then have "(deadline - (now + c + d) - 1) div ms 25 \<le> ((deadline - now - 1) + (- 1) * ms 25) div ms 25"
    using D by (rule zdiv_mono1)
  also have "\<dots> = (deadline - now - 1) div ms 25 - 1" using D by (subst div_mult_self1) simp_all
  finally have le: "(deadline - (now + c + d) - 1) div ms 25 \<le> (deadline - now - 1) div ms 25 - 1" .
  have "0 \<le> (deadline - (now + c + d) - 1) div ms 25" using False D by (simp add: pos_imp_zdiv_nonneg_iff)
  then show ?thesis using False assms(1,2) le by (simp add: walks_left_def min_def)
qed

lemma select_loop_returns:
  "\<forall>k. 0 < cost k \<Longrightarrow> ms 25 \<le> delay \<Longrightarrow> walks_left deadline now \<le> fuel \<Longrightarrow>
     select_loop fuel ops cost deadline wait cs pin profile now delay n s \<noteq> None"
proof (induction fuel arbitrary: now delay n s)
  case 0
  then show ?case by (simp add: walks_left_def split: if_split_asm)
next
  case (Suc fuel)
  obtain r s1 where sw: "sweep ops False cs s = (r, s1)" by fastforce
  show ?case
  proof (cases "\<exists>b. r = Nothing b \<and> wait \<and> now + cost n \<le> deadline")
    case False
    then show ?thesis using sw by (cases r) (auto simp: Let_def)
  next
    case True
    then obtain b where r: "r = Nothing b" "wait" "now + cost n \<le> deadline" by blast
    let ?next = "now + cost n + min (deadline - (now + cost n)) delay"
    have "walks_left deadline ?next \<le> fuel"
      using walks_left_sleep [of "cost n" now deadline delay] Suc.prems r(3) by simp
    then have "select_loop fuel ops cost deadline wait cs pin profile ?next (next_retry_delay delay) (Suc n) s1 \<noteq> None"
      using Suc.IH [of "next_retry_delay delay" ?next "Suc n" s1] Suc.prems(1,2) next_retry_delay_least by blast
    moreover have "min (deadline - (now + cost n)) delay
        = (if deadline - (now + cost n) < delay then deadline - (now + cost n) else delay)" by simp
    ultimately show ?thesis using sw r by (simp add: Let_def)
  qed
qed


text \<open>C19. Only a real Maya Host counts as live proof.  A resolved runtime is eligible for live
  proof exactly when it drives a Maya Host through \<open>gg-mayasessiond\<close>, over SSH or on this
  Windows machine, and then the host's configuration passed the broker's validation; every
  other runtime is the fake host with the fake broker.\<close>

theorem live_proof_needs_real_host:
  assumes "resolve_runtime_for_host host = Inr rt"
  shows "if rm_live_proof (rt_metadata rt)
    then rt_broker rt = GGMayaSessiondBroker host \<and> is_gg_maya_sessiond (mh_broker host)
       \<and> sessiond_broker_validate host = Inr ()
       \<and> (rt_host rt = LocalWindowsHost host \<and> uses_local_windows host
          \<or> rt_host rt = RealSSHHost host \<and> uses_real_ssh host)
    else rt_broker rt = FakeSessionBroker \<and> (\<exists>st. rt_host rt = FakeHost st)
       \<and> \<not> uses_local_windows host \<and> \<not> uses_real_ssh host \<and> \<not> is_gg_maya_sessiond (mh_broker host)"
  using assms
  by (cases "sessiond_broker_validate host")
    (auto simp: resolve_runtime_for_host_def split: if_split_asm option.split_asm)

lemma acquire_remote_loop_shape:
  "acquire_remote_loop n broker probes content q = (Inr (Some k), s') \<Longrightarrow> k = new_remote_host_side_lock content"
proof (induction n arbitrary: q)
  case 0
  then show ?case by (cases q; cases "fst q") (auto split: prod.split_asm if_split_asm)
next
  case (Suc n)
  then show ?case
    by (cases q; cases "fst q") (auto split: prod.split_asm if_split_asm sum.split_asm)
qed

lemma acquire_remote_lock_shape:
  "acquire_remote_host_lock broker probes content s = (Inr (Some k), s') \<Longrightarrow> k = new_remote_host_side_lock content"
  unfolding acquire_remote_host_lock_def by (rule acquire_remote_loop_shape)

text \<open>C20. Every authoritative lock comes with a fence.  When a host's lock is acquired, broker
  actions are fenced exactly when the host has a lock store at all.\<close>

theorem acquired_lock_is_fenced:
  assumes "acquire_host_side_lock process_exists pid now machine token probes host w = (Inr (Some l), w')"
  shows "lock_fence host_name n c l \<noteq> None \<longleftrightarrow> has_authoritative_host_side_lock host"
proof (cases "uses_real_ssh host")
  case True
  let ?content = "host_side_lock_content (mh_id host) (br_state_dir (mh_broker host)) (br_python (mh_broker host))
     (br_repo (mh_broker host)) [] machine pid token now"
  obtain k h where k: "acquire_remote_host_lock (mh_broker host) probes ?content (fst w) = (Inr (Some k), h)"
    "l = remote_lock k"
    using assms True by (auto simp: acquire_host_side_lock_def Let_def map_lock_def on_remote_def
        split: sum.split_asm prod.split_asm)
  have "\<exists>c. k = new_remote_host_side_lock c"
    using acquire_remote_lock_shape k(1) by blast
  then show ?thesis
    using True k(2) by (auto simp: lock_fence_def remote_lock_def new_remote_host_side_lock_def
        has_authoritative_host_side_lock_def)
next
  case False
  then show ?thesis
    using assms by (cases "fake_host_side_lock_dir host")
      (auto simp: acquire_host_side_lock_def Let_def map_lock_def on_files_def files_lock_def lock_fence_def
        acquire_local_host_side_lock_def unlocked_host_side_lock_def has_authoritative_host_side_lock_def
        split: sum.split_asm prod.split_asm bool.split_asm option.split_asm)
qed

subsection \<open>Concrete hosts\<close>

text \<open>A pool of a broken, a busy and a free host; a lock is the id of the host it is on.\<close>

definition sample_pool :: user_host_config where
  "sample_pool = \<lparr>uh_version = 1, uh_profiles = [''default'' \<mapsto> ''p''],
     uh_pools = [''p'' \<mapsto> [empty_host ''h1'' ''down'', empty_host ''h2'' [], empty_host ''h3'' ''healthy'']]\<rparr>"

definition sample_ops :: "(string list, string, string) host_ops" where
  "sample_ops = \<lparr>ho_before = (\<lambda>_ s. s),
     ho_acquire = (\<lambda>c s. if mh_id c \<in> set s then (Inr None, s) else (Inr (Some (mh_id c)), mh_id c # s)),
     ho_release = (\<lambda>l s. (True, removeAll l s)), ho_check = (\<lambda>_ s. (Inr (), s))\<rparr>"



theorem live_proof_needs_real_host_witness:
  "\<exists>rt. resolve_runtime_for_host (empty_host ''h1'' ''healthy'') = Inr rt \<and> rt_broker rt = FakeSessionBroker"
proof -
  have a: "case resolve_runtime_for_host (empty_host ''h1'' ''healthy'') of
      Inl _ \<Rightarrow> False | Inr rt \<Rightarrow> \<not> rm_live_proof (rt_metadata rt)" by code_simp
  then obtain rt where "resolve_runtime_for_host (empty_host ''h1'' ''healthy'') = Inr rt"
    "\<not> rm_live_proof (rt_metadata rt)" by (auto split: sum.split_asm)
  then show ?thesis using live_proof_needs_real_host [of "empty_host ''h1'' ''healthy''" rt] by auto
qed

theorem acquired_lock_is_fenced_witness:
  "\<exists>l w'. acquire_host_side_lock (\<lambda>_. True) 7 0 ''ws'' ''t'' (\<lambda>_. Inl ''down'')
      ((empty_host ''h1'' [])\<lparr>mh_work_root := ''/maya''\<rparr>) (lost_holder_host [], \<lambda>_. None) = (Inr (Some l), w')
    \<and> lock_fence ''h1'' 0 0 l \<noteq> None"
proof -
  let ?h = "(empty_host ''h1'' [])\<lparr>mh_work_root := ''/maya''\<rparr>"
  let ?r = "acquire_host_side_lock (\<lambda>_. True) 7 0 ''ws'' ''t'' (\<lambda>_. Inl ''down'') ?h (lost_holder_host [], \<lambda>_. None)"
  have "case fst ?r of Inr (Some _) \<Rightarrow> True | _ \<Rightarrow> False" by code_simp
  then obtain l w' where a: "?r = (Inr (Some l), w')"
    by (cases "?r") (auto split: sum.split_asm option.split_asm)
  moreover have "has_authoritative_host_side_lock ?h" by code_simp
  ultimately show ?thesis using acquired_lock_is_fenced [OF a, of "''h1''" 0 0] by blast
qed

end
