(* ===== verification/Run_Ledger.thy ===== *)
theory Run_Ledger
  imports Ledger_Events Host_Pool
begin

text \<open>
  The embedded run ledger (\<open>run_ledger.go\<close>): one directory per run with a record, the retained
  events and the retained session log.  The retention policy, the checks of a record that is
  read back, the listing (newest first), pruning, the history filters, the synchronisation of
  the retained artifacts with the run's own files, and the states a record goes through when
  a run ends or is stopped.

  The ledger is the list of its directory entries as \<open>os.ReadDir\<close> gives them; a record is its
  decoded content or the way it fails to be one.
\<close>

subsection \<open>The retention policy\<close>

record run_ledger_policy =
  lp_retention :: int
  lp_max_events :: int
  lp_max_event_bytes :: int
  lp_max_log_bytes :: int

definition hours :: "int \<Rightarrow> int" where
  "hours n = seconds (n * 3600)"

definition default_run_ledger_policy :: run_ledger_policy where
  "default_run_ledger_policy =
     \<lparr>lp_retention = hours (30 * 24), lp_max_events = 10000, lp_max_event_bytes = 8 * 1024 * 1024,
      lp_max_log_bytes = 1024 * 1024\<rparr>"

datatype policy_error = RetentionNotPositive | MaxEventsRange | MaxEventBytesRange | MaxLogBytesRange

definition policy_limit :: "policy_error \<Rightarrow> int \<Rightarrow> int \<Rightarrow> int \<Rightarrow> int \<Rightarrow> (policy_error, int) result" where
  "policy_limit e configured low high fallback =
     (if configured = 0 then Inr fallback
      else if configured < low \<or> configured > high then Inl e
      else Inr configured)"

definition resolve_run_ledger_policy :: "run_ledger_config \<Rightarrow> (policy_error, run_ledger_policy) result" where
  "resolve_run_ledger_policy config =
     (let d = default_run_ledger_policy in
      rbind (if rlc_retention config = [] then Inr (lp_retention d)
             else (case parse_duration (rlc_retention config) of
                     None \<Rightarrow> Inl RetentionNotPositive
                   | Some r \<Rightarrow> if r \<le> 0 then Inl RetentionNotPositive else Inr r)) (\<lambda>retention.
      rbind (policy_limit MaxEventsRange (rlc_max_events config) 3 100000 (lp_max_events d)) (\<lambda>events.
      rbind (policy_limit MaxEventBytesRange (rlc_max_event_bytes config) 1024 (64 * 1024 * 1024)
               (lp_max_event_bytes d)) (\<lambda>event_bytes.
      rbind (policy_limit MaxLogBytesRange (rlc_max_log_bytes config) 96 (64 * 1024 * 1024)
               (lp_max_log_bytes d)) (\<lambda>log_bytes.
      Inr \<lparr>lp_retention = retention, lp_max_events = events, lp_max_event_bytes = event_bytes,
           lp_max_log_bytes = log_bytes\<rparr>)))))"

text \<open>\<open>availableRunLedgerPolicy\<close>: no policy when the repository's configuration is broken.\<close>

definition available_run_ledger_policy ::
  "(config_error, repo_run_config \<times> string) result \<Rightarrow> run_ledger_policy option" where
  "available_run_ledger_policy loaded =
     (case loaded of
        Inl ConfigNotFound \<Rightarrow> Some default_run_ledger_policy
      | Inl _ \<Rightarrow> None
      | Inr (config, _) \<Rightarrow>
          (case resolve_run_ledger_policy (rc_ledger config) of Inl _ \<Rightarrow> None | Inr policy \<Rightarrow> Some policy))"

subsection \<open>Records\<close>

record run_ledger_record =
  lr_version :: int
  lr_run :: string
  lr_scenario :: string
  lr_profile :: string
  lr_host :: string
  lr_state :: string
  lr_status :: string
  lr_accepted :: string
  lr_updated :: string
  lr_completed :: string
  lr_evidence :: string
  lr_events :: string
  lr_log :: string
  lr_event_count :: int
  lr_event_bytes :: int
  lr_events_omitted :: int
  lr_events_truncated :: bool
  lr_log_bytes :: int
  lr_log_truncated :: bool
  lr_stop_phase :: string

datatype artifact = Absent | Regular string | Irregular

datatype stored_record = NoRecord | SymlinkRecord | CorruptRecord | StoredRecord run_ledger_record

record ledger_dir =
  ld_record :: stored_record
  ld_events :: artifact
  ld_log :: artifact

datatype ledger_entry = LedgerDir ledger_dir | OtherEntry

type_synonym ledger = "(string \<times> ledger_entry) list"

datatype ledger_error =
    LedgerName name_error
  | RunNotFound string
  | LedgerIO string
  | RecordSymlink string
  | RecordCorrupt string
  | RecordVersion string int
  | RecordOtherRun string string
  | RecordAcceptedAt string
  | RecordPaths string
  | RetentionTime string
  | NotDirectory string
  | SinceNegative
  | SinceInvalid
  | EventsError event_error
  | EventsSource
  | ArtifactIrregular
  | LogMissing

definition run_ledger_schema_version :: int where
  "run_ledger_schema_version = 1"

definition evidence_dir :: "string \<Rightarrow> string" where
  "evidence_dir run = path_join [''artifacts'', ''maya-stall'', run]"

definition check_run_ledger_record :: "string \<Rightarrow> run_ledger_record \<Rightarrow> (ledger_error, run_ledger_record) result" where
  "check_run_ledger_record run r =
     (if lr_version r \<noteq> run_ledger_schema_version then Inl (RecordVersion run (lr_version r))
      else if lr_run r \<noteq> run then Inl (RecordOtherRun run (lr_run r))
      else if parse_rfc3339nano (lr_accepted r) = None then Inl (RecordAcceptedAt run)
      else if lr_events r \<noteq> ''events.jsonl'' \<or> lr_log r \<noteq> ''logs/session.log''
              \<or> lr_evidence r \<noteq> evidence_dir run
      then Inl (RecordPaths run)
      else Inr r)"

definition read_run_ledger_record :: "ledger \<Rightarrow> string \<Rightarrow> (ledger_error, run_ledger_record) result" where
  "read_run_ledger_record ledger run =
     (case validate_run_id run of
        Inl e \<Rightarrow> Inl (LedgerName e)
      | Inr _ \<Rightarrow>
          (case map_of ledger run of
             None \<Rightarrow> Inl (RunNotFound run)
           | Some OtherEntry \<Rightarrow> Inl (LedgerIO run)
           | Some (LedgerDir d) \<Rightarrow>
               (case ld_record d of
                  NoRecord \<Rightarrow> Inl (RunNotFound run)
                | SymlinkRecord \<Rightarrow> Inl (RecordSymlink run)
                | CorruptRecord \<Rightarrow> Inl (RecordCorrupt run)
                | StoredRecord r \<Rightarrow> check_run_ledger_record run r)))"

text \<open>\<open>writeRunLedgerRecord\<close>: the directory is there, or is made.\<close>

definition write_run_ledger_record :: "ledger \<Rightarrow> run_ledger_record \<Rightarrow> ledger" where
  "write_run_ledger_record ledger r =
     (let d = (case map_of ledger (lr_run r) of
                 Some (LedgerDir d) \<Rightarrow> d
               | _ \<Rightarrow> \<lparr>ld_record = NoRecord, ld_events = Absent, ld_log = Absent\<rparr>)
      in AList.update (lr_run r) (LedgerDir (d\<lparr>ld_record := StoredRecord r\<rparr>)) ledger)"

definition has_run_record :: "ledger_entry \<Rightarrow> bool" where
  "has_run_record e = (case e of LedgerDir d \<Rightarrow> ld_record d \<noteq> NoRecord | OtherEntry \<Rightarrow> False)"

definition listed_entry :: "string \<times> ledger_entry \<Rightarrow> bool" where
  "listed_entry e = (case e of (name, entry) \<Rightarrow>
     \<not> has_prefix name ''.'' \<and> (case validate_run_id name of Inr _ \<Rightarrow> True | Inl _ \<Rightarrow> False) \<and> has_run_record entry)"

text \<open>\<open>runIDCollisionOrdinal\<close>: the number after the last dash.\<close>

definition run_id_collision_ordinal :: "string \<Rightarrow> int" where
  "run_id_collision_ordinal run =
     (if CHR ''-'' \<notin> set run then 0
      else (case atoi (rev (takeWhile (\<lambda>c. c \<noteq> CHR ''-'') (rev run))) of
              None \<Rightarrow> 0
            | Some n \<Rightarrow> if n < 0 then 0 else n))"

text \<open>A time that does not parse is the zero time, 0001-01-01.\<close>

definition zero_time :: int where
  "zero_time = - seconds 62135596800"

definition parse_or_zero :: "string \<Rightarrow> int" where
  "parse_or_zero s = (case parse_rfc3339nano s of Some t \<Rightarrow> t | None \<Rightarrow> zero_time)"

definition newer_record :: "run_ledger_record \<Rightarrow> run_ledger_record \<Rightarrow> bool" where
  "newer_record l r \<longleftrightarrow>
     (let left = parse_or_zero (lr_accepted l); right = parse_or_zero (lr_accepted r) in
      if left = right
      then (if run_id_collision_ordinal (lr_run l) \<noteq> run_id_collision_ordinal (lr_run r)
            then run_id_collision_ordinal (lr_run l) > run_id_collision_ordinal (lr_run r)
            else lr_run l > lr_run r)
      else left > right)"

definition sort_run_ledger_records_newest :: "run_ledger_record list \<Rightarrow> run_ledger_record list" where
  "sort_run_ledger_records_newest = sort_by newer_record"

definition list_run_ledger_records :: "bool \<Rightarrow> ledger \<Rightarrow> (ledger_error, run_ledger_record list) result" where
  "list_run_ledger_records skip_invalid ledger =
     (let names = map fst (filter listed_entry ledger) in
      rbind (if skip_invalid
             then Inr (concat (map (\<lambda>n. case read_run_ledger_record ledger n of Inl _ \<Rightarrow> [] | Inr r \<Rightarrow> [r]) names))
             else rmap (read_run_ledger_record ledger) names)
        (\<lambda>rs. Inr (sort_run_ledger_records_newest rs)))"

subsection \<open>Pruning\<close>

definition terminal_states :: "string list" where
  "terminal_states = [''completed'', ''failed'', ''canceled'']"

definition retained_at :: "run_ledger_record \<Rightarrow> string" where
  "retained_at r = (if lr_completed r = [] then lr_updated r else lr_completed r)"

fun prune_records ::
  "int \<Rightarrow> string \<Rightarrow> run_ledger_record list \<Rightarrow> ledger \<Rightarrow> (ledger_error, unit) result \<times> ledger" where
  "prune_records cutoff current [] ledger = (Inr (), ledger)"
| "prune_records cutoff current (r # rs) ledger =
     (if lr_run r = current \<or> lr_state r \<notin> set terminal_states then prune_records cutoff current rs ledger
      else (case parse_rfc3339nano (retained_at r) of
              None \<Rightarrow> (Inl (RetentionTime (lr_run r)), ledger)
            | Some t \<Rightarrow>
                if \<not> t < cutoff then prune_records cutoff current rs ledger
                else (case map_of ledger (lr_run r) of
                        None \<Rightarrow> prune_records cutoff current rs ledger
                      | Some OtherEntry \<Rightarrow> (Inl (NotDirectory (lr_run r)), ledger)
                      | Some (LedgerDir d) \<Rightarrow>
                          prune_records cutoff current rs (filter (\<lambda>e. fst e \<noteq> lr_run r) ledger))))"

definition prune_run_ledger ::
  "run_ledger_policy \<Rightarrow> int \<Rightarrow> string \<Rightarrow> ledger \<Rightarrow> (ledger_error, unit) result \<times> ledger" where
  "prune_run_ledger policy now current ledger =
     (case list_run_ledger_records True ledger of
        Inl e \<Rightarrow> (Inl e, ledger)
      | Inr records \<Rightarrow> prune_records (now - lp_retention policy) current records ledger)"

subsection \<open>History\<close>

record history_options =
  hi_json :: bool
  hi_scenario :: string
  hi_host :: string
  hi_state :: string
  hi_since :: string
  hi_before_run :: string
  hi_control_plane :: string
  hi_token_env :: string

definition no_history_options :: history_options where
  "no_history_options = \<lparr>hi_json = False, hi_scenario = [], hi_host = [], hi_state = [], hi_since = [],
     hi_before_run = [], hi_control_plane = [], hi_token_env = []\<rparr>"

datatype usage_error = NeedsValue string | NeedsRunID | UnknownOption string

definition history_value_option :: "string \<Rightarrow> (string \<Rightarrow> history_options \<Rightarrow> history_options) option" where
  "history_value_option arg =
     map_of [(''--scenario'', (\<lambda>v p. p\<lparr>hi_scenario := v\<rparr>)), (''--host'', (\<lambda>v p. p\<lparr>hi_host := v\<rparr>)),
       (''--state'', (\<lambda>v p. p\<lparr>hi_state := v\<rparr>)), (''--since'', (\<lambda>v p. p\<lparr>hi_since := v\<rparr>)),
       (''--before-run'', (\<lambda>v p. p\<lparr>hi_before_run := v\<rparr>)), (''--control-plane'', (\<lambda>v p. p\<lparr>hi_control_plane := v\<rparr>)),
       (''--control-plane-token-env'', (\<lambda>v p. p\<lparr>hi_token_env := v\<rparr>))] arg"

fun parse_history_args :: "history_options \<Rightarrow> string list \<Rightarrow> (usage_error, history_options) result" where
  "parse_history_args opts [] = Inr opts"
| "parse_history_args opts (arg # args) =
     (if arg = ''--json'' then parse_history_args (opts\<lparr>hi_json := True\<rparr>) args
      else (case history_value_option arg of
              None \<Rightarrow> Inl (UnknownOption arg)
            | Some set_value \<Rightarrow>
                (case args of
                   [] \<Rightarrow> Inl (NeedsValue arg)
                 | v # rest \<Rightarrow>
                     if v = [] \<or> has_prefix v ''--'' then Inl (NeedsValue arg)
                     else if arg = ''--before-run'' \<and> (case validate_run_id v of Inl _ \<Rightarrow> True | Inr _ \<Rightarrow> False)
                     then Inl NeedsRunID
                     else parse_history_args (set_value v opts) rest)))"

text \<open>\<open>historySinceCutoff\<close>: \<open>None\<close> is the zero time, no cutoff.\<close>

definition history_since_cutoff :: "string \<Rightarrow> int \<Rightarrow> (ledger_error, int option) result" where
  "history_since_cutoff v now =
     (if v = [] then Inr None
      else (case parse_duration v of
              Some d \<Rightarrow> if d < 0 then Inl SinceNegative else Inr (Some (now - d))
            | None \<Rightarrow>
                (case parse_rfc3339nano v of
                   None \<Rightarrow> Inl SinceInvalid
                 | Some t \<Rightarrow> Inr (if t = zero_time then None else Some t))))"

definition run_matches_history_options ::
  "run_ledger_record \<Rightarrow> history_options \<Rightarrow> int option \<Rightarrow> (ledger_error, bool) result" where
  "run_matches_history_options r opts cutoff =
     (if hi_scenario opts \<noteq> [] \<and> lr_scenario r \<noteq> hi_scenario opts
         \<or> hi_host opts \<noteq> [] \<and> lr_host r \<noteq> hi_host opts
         \<or> hi_state opts \<noteq> [] \<and> lr_state r \<noteq> hi_state opts
      then Inr False
      else (case cutoff of
              None \<Rightarrow> Inr True
            | Some c \<Rightarrow>
                (case parse_rfc3339nano (lr_accepted r) of
                   None \<Rightarrow> Inl (RecordAcceptedAt (lr_run r))
                 | Some t \<Rightarrow> Inr (\<not> t < c))))"

fun filter_result :: "('a \<Rightarrow> ('e, bool) result) \<Rightarrow> 'a list \<Rightarrow> ('e, 'a list) result" where
  "filter_result p [] = Inr []"
| "filter_result p (x # xs) =
     rbind (p x) (\<lambda>keep. rbind (filter_result p xs) (\<lambda>ys. Inr (if keep then x # ys else ys)))"

text \<open>\<open>printRunHistory\<close>: prune, list, filter; the printing is left out.\<close>

definition run_history ::
  "run_ledger_policy option \<Rightarrow> history_options \<Rightarrow> int \<Rightarrow> ledger
     \<Rightarrow> (ledger_error, run_ledger_record list) result \<times> ledger" where
  "run_history policy opts now ledger =
     (case history_since_cutoff (hi_since opts) now of
        Inl e \<Rightarrow> (Inl e, ledger)
      | Inr cutoff \<Rightarrow>
          (case (case policy of None \<Rightarrow> (Inr (), ledger) | Some p \<Rightarrow> prune_run_ledger p now [] ledger) of
             (Inl e, ledger') \<Rightarrow> (Inl e, ledger')
           | (Inr _, ledger') \<Rightarrow>
               (rbind (list_run_ledger_records False ledger')
                  (filter_result (\<lambda>r. run_matches_history_options r opts cutoff)), ledger')))"

subsection \<open>Which source a retained artifact is copied from\<close>

text \<open>\<open>lastRunLedgerEventSequence\<close>: the largest sequence number of the lines.\<close>

fun last_sequence ::
  "(json \<Rightarrow> string) \<Rightarrow> (string \<Rightarrow> json option) \<Rightarrow> int \<Rightarrow> int \<Rightarrow> string list \<Rightarrow> (event_error, int) result" where
  "last_sequence enc dec n largest [] = Inr largest"
| "last_sequence enc dec n largest (raw # raws) =
     (case read_bounded_ledger_event enc dec max_retained_event_bytes (format_rfc3339nano 0) (n + 1) raw of
        Inl e \<Rightarrow> Inl e
      | Inr None \<Rightarrow> last_sequence enc dec n largest raws
      | Inr (Some (line, _)) \<Rightarrow>
          (case dec_event dec line of
             None \<Rightarrow> Inl BadEvent
           | Some e \<Rightarrow> last_sequence enc dec (n + 1) (max largest (ledger_event_sequence e)) raws))"

definition last_run_ledger_event_sequence ::
  "(json \<Rightarrow> string) \<Rightarrow> (string \<Rightarrow> json option) \<Rightarrow> string \<Rightarrow> (event_error, int) result" where
  "last_run_ledger_event_sequence enc dec content = last_sequence enc dec 0 0 (raw_lines content)"

definition artifact_sequence ::
  "(json \<Rightarrow> string) \<Rightarrow> (string \<Rightarrow> json option) \<Rightarrow> artifact \<Rightarrow> int option" where
  "artifact_sequence enc dec a =
     (case a of
        Regular c \<Rightarrow> (case last_run_ledger_event_sequence enc dec c of Inl _ \<Rightarrow> None | Inr n \<Rightarrow> Some n)
      | _ \<Rightarrow> None)"

text \<open>
  \<open>selectRunLedgerArtifactSource\<close>, once for the events and once for the log: the content to copy
  from, if the retained copy is to be replaced.  A source that is not a regular file is an error.
\<close>

definition select_events_source ::
  "(json \<Rightarrow> string) \<Rightarrow> (string \<Rightarrow> json option) \<Rightarrow> artifact \<Rightarrow> artifact \<Rightarrow> artifact
     \<Rightarrow> (ledger_error, string option) result" where
  "select_events_source enc dec primary fallback dest =
     (case primary of
        Irregular \<Rightarrow> Inl ArtifactIrregular
      | Regular p \<Rightarrow>
          (case last_run_ledger_event_sequence enc dec p of
             Inl _ \<Rightarrow> (if artifact_sequence enc dec dest \<noteq> None then Inr None else Inl EventsSource)
           | Inr n \<Rightarrow>
               Inr (if (case artifact_sequence enc dec dest of Some m \<Rightarrow> m \<ge> n | None \<Rightarrow> False)
                    then None else Some p))
      | Absent \<Rightarrow>
          (case fallback of
             Irregular \<Rightarrow> Inl ArtifactIrregular
           | Absent \<Rightarrow> Inr None
           | Regular f \<Rightarrow>
               (case dest of
                  Absent \<Rightarrow> Inr (Some f)
                | Irregular \<Rightarrow> Inl ArtifactIrregular
                | Regular d \<Rightarrow>
                    rbind (under EventsError (last_run_ledger_event_sequence enc dec f)) (\<lambda>n.
                    rbind (under EventsError (last_run_ledger_event_sequence enc dec d)) (\<lambda>m.
                    Inr (if n > m then Some f else None))))))"

definition select_log_source :: "artifact \<Rightarrow> artifact \<Rightarrow> artifact \<Rightarrow> (ledger_error, string option) result" where
  "select_log_source primary fallback dest =
     (case primary of
        Irregular \<Rightarrow> Inl ArtifactIrregular
      | Regular p \<Rightarrow>
          Inr (if (case dest of Regular d \<Rightarrow> fst (log_source_bytes d) \<ge> int (length p) | _ \<Rightarrow> False)
               then None else Some p)
      | Absent \<Rightarrow>
          (case fallback of
             Irregular \<Rightarrow> Inl ArtifactIrregular
           | Absent \<Rightarrow> Inr None
           | Regular f \<Rightarrow>
               (case dest of
                  Absent \<Rightarrow> Inr (Some f)
                | Irregular \<Rightarrow> Inl ArtifactIrregular
                | Regular d \<Rightarrow> Inr (if int (length f) > fst (log_source_bytes d) then Some f else None))))"

text \<open>\<open>retainedRunLedgerEventMetadata\<close>\<close>

fun retained_metadata ::
  "(string \<Rightarrow> json option) \<Rightarrow> string list \<Rightarrow> (event_error, int \<times> int \<times> bool) result" where
  "retained_metadata dec [] = Inr (0, 0, False)"
| "retained_metadata dec (raw # raws) =
     (if trim_space raw = [] then retained_metadata dec raws
      else (case dec_event dec (trim_space raw) of
              None \<Rightarrow> Inl BadEvent
            | Some e \<Rightarrow>
                rbind (retained_metadata dec raws) (\<lambda>(count, omitted, truncated).
                  let t = jstr e ''type'';
                      missing = (if t = ''run-ledger.events.truncated''
                                 then (case jobj e ''details'' of
                                         Some d \<Rightarrow> (case map_of d ''omittedCount'' of
                                                      Some (JNum r) \<Rightarrow> truncate_rat r | _ \<Rightarrow> 0)
                                       | None \<Rightarrow> 0)
                                 else 0)
                  in Inr (count + 1, omitted + missing,
                          truncated \<or> t = ''run-ledger.event.truncated'' \<or> t = ''run-ledger.events.truncated''))))"

subsection \<open>Synchronising the retained artifacts\<close>

text \<open>What the run itself left behind: its own state and its evidence bundle.\<close>

record run_files =
  rf_state_events :: artifact
  rf_evidence_events :: artifact
  rf_state_log :: artifact
  rf_evidence_log :: artifact

definition set_event_fields :: "event_copy \<Rightarrow> run_ledger_record \<Rightarrow> run_ledger_record" where
  "set_event_fields c r = r\<lparr>lr_event_count := int (length (ec_lines c)), lr_event_bytes := ec_bytes c,
     lr_events_omitted := ec_omitted c, lr_events_truncated := ec_truncated c\<rparr>"

definition joined_lines :: "string list \<Rightarrow> string" where
  "joined_lines ls = concat (map (\<lambda>l. l @ [newline]) ls)"

definition sync_events ::
  "(json \<Rightarrow> string) \<Rightarrow> (string \<Rightarrow> json option) \<Rightarrow> run_ledger_policy \<Rightarrow> run_files \<Rightarrow> run_ledger_record \<Rightarrow> artifact
     \<Rightarrow> (ledger_error, run_ledger_record \<times> artifact) result" where
  "sync_events enc dec policy files r dest =
     (let copy = (\<lambda>content. rbind (under EventsError (copy_bounded_ledger_events enc dec (lp_max_events policy)
                                (lp_max_event_bytes policy) (lr_accepted r) content))
                    (\<lambda>c. Inr (set_event_fields c r, Regular (joined_lines (ec_lines c)))))
      in rbind (select_events_source enc dec (rf_state_events files) (rf_evidence_events files) dest) (\<lambda>source.
           case source of
             Some content \<Rightarrow> copy content
           | None \<Rightarrow>
               (case dest of
                  Regular d \<Rightarrow>
                    rbind (under EventsError (retained_metadata dec (raw_lines d))) (\<lambda>(count, omitted, truncated).
                      if count > lp_max_events policy \<or> int (length d) > lp_max_event_bytes policy then copy d
                      else Inr (r\<lparr>lr_event_count := count, lr_event_bytes := int (length d),
                                  lr_events_omitted := omitted, lr_events_truncated := truncated\<rparr>, dest))
                | _ \<Rightarrow> Inl ArtifactIrregular)))"

definition sync_log ::
  "run_ledger_policy \<Rightarrow> run_files \<Rightarrow> run_ledger_record \<Rightarrow> artifact
     \<Rightarrow> (ledger_error, run_ledger_record \<times> artifact) result" where
  "sync_log policy files r dest =
     (let copy = (\<lambda>content. case copy_bounded_ledger_log 64 (lp_max_log_bytes policy) content of
                    None \<Rightarrow> Inl (LedgerIO (lr_run r))
                  | Some (c, truncated) \<Rightarrow>
                      Inr (r\<lparr>lr_log_bytes := int (length c), lr_log_truncated := truncated\<rparr>, Regular c))
      in rbind (select_log_source (rf_state_log files) (rf_evidence_log files) dest) (\<lambda>source.
           case source of
             Some content \<Rightarrow> copy content
           | None \<Rightarrow>
               (case dest of
                  Regular d \<Rightarrow>
                    (if int (length d) > lp_max_log_bytes policy then copy d
                     else Inr (r\<lparr>lr_log_bytes := int (length d), lr_log_truncated := snd (log_source_bytes d)\<rparr>, dest))
                | _ \<Rightarrow> Inl LogMissing)))"

text \<open>\<open>syncRunLedgerArtifacts\<close>: the new record (not yet written) and the retained files.\<close>

definition sync_run_ledger_artifacts ::
  "(json \<Rightarrow> string) \<Rightarrow> (string \<Rightarrow> json option) \<Rightarrow> run_ledger_policy \<Rightarrow> run_files \<Rightarrow> run_ledger_record \<Rightarrow> ledger_dir
     \<Rightarrow> (ledger_error, run_ledger_record) result \<times> ledger_dir" where
  "sync_run_ledger_artifacts enc dec policy files r d =
     (case sync_events enc dec policy files r (ld_events d) of
        Inl e \<Rightarrow> (Inl e, d)
      | Inr (r1, events) \<Rightarrow>
          (case sync_log policy files r1 (ld_log d) of
             Inl e \<Rightarrow> (Inl e, d\<lparr>ld_events := events\<rparr>)
           | Inr (r2, logs) \<Rightarrow> (Inr r2, d\<lparr>ld_events := events, ld_log := logs\<rparr>)))"

subsection \<open>The end of a run\<close>

record ledger_outcome =
  lo_scenario :: string
  lo_profile :: string
  lo_host :: string
  lo_status :: string
  lo_stop_policy :: string
  lo_cleanup_failed :: bool

definition terminal_run_ledger_state :: "ledger_outcome \<Rightarrow> string" where
  "terminal_run_ledger_state outcome =
     (if lo_stop_policy outcome = ''kept'' then ''kept''
      else if lo_stop_policy outcome = ''unresolved'' \<or> lo_cleanup_failed outcome then ''cleanup-failed''
      else if lo_status outcome = ''passed'' then ''completed''
      else ''failed'')"

text \<open>The record and the directory of a run; operations on other entries do not happen.\<close>

definition update_dir :: "ledger \<Rightarrow> string \<Rightarrow> ledger_dir \<Rightarrow> ledger" where
  "update_dir ledger run d = AList.update run (LedgerDir d) ledger"

definition dir_of :: "ledger \<Rightarrow> string \<Rightarrow> ledger_dir" where
  "dir_of ledger run = (case map_of ledger run of
     Some (LedgerDir d) \<Rightarrow> d | _ \<Rightarrow> \<lparr>ld_record = NoRecord, ld_events = Absent, ld_log = Absent\<rparr>)"

definition sync_and_write ::
  "(json \<Rightarrow> string) \<Rightarrow> (string \<Rightarrow> json option) \<Rightarrow> run_ledger_policy \<Rightarrow> run_files \<Rightarrow> (run_ledger_record \<Rightarrow> run_ledger_record)
     \<Rightarrow> run_ledger_record \<Rightarrow> ledger \<Rightarrow> (ledger_error, unit) result \<times> ledger" where
  "sync_and_write enc dec policy files stamp r ledger =
     (case sync_run_ledger_artifacts enc dec policy files r (dir_of ledger (lr_run r)) of
        (Inl e, d) \<Rightarrow> (Inl e, update_dir ledger (lr_run r) d)
      | (Inr r', d) \<Rightarrow> (Inr (), update_dir ledger (lr_run r) (d\<lparr>ld_record := StoredRecord (stamp r')\<rparr>)))"

definition finalize_run_ledger ::
  "(json \<Rightarrow> string) \<Rightarrow> (string \<Rightarrow> json option) \<Rightarrow> run_ledger_policy \<Rightarrow> run_files \<Rightarrow> ledger_outcome \<Rightarrow> string \<Rightarrow> int
     \<Rightarrow> ledger \<Rightarrow> (ledger_error, unit) result \<times> ledger" where
  "finalize_run_ledger enc dec policy files outcome run now ledger =
     (case read_run_ledger_record ledger run of
        Inl e \<Rightarrow> (Inl e, ledger)
      | Inr r \<Rightarrow>
          (let state = terminal_run_ledger_state outcome;
               updated = format_rfc3339nano now;
               r' = r\<lparr>lr_scenario := lo_scenario outcome, lr_profile := lo_profile outcome,
                      lr_host := lo_host outcome, lr_status := lo_status outcome, lr_state := state,
                      lr_updated := updated,
                      lr_completed := (if state \<noteq> ''kept'' \<and> state \<noteq> ''submitted'' then updated
                                       else lr_completed r)\<rparr>
           in sync_and_write enc dec policy files (\<lambda>r. r) r' ledger))"

text \<open>\<open>fallbackRunLedgerPolicy\<close>: the limits the record itself shows.\<close>

definition fallback_run_ledger_policy :: "run_ledger_record \<Rightarrow> run_ledger_policy" where
  "fallback_run_ledger_policy r =
     (let d = default_run_ledger_policy in
      d\<lparr>lp_max_events := (if lr_events_truncated r \<and> lr_event_count r \<ge> 3 then lr_event_count r else lp_max_events d),
        lp_max_event_bytes := (if lr_events_truncated r \<and> lr_event_bytes r \<ge> 1024 then lr_event_bytes r
                               else lp_max_event_bytes d),
        lp_max_log_bytes := (if lr_log_truncated r \<and> lr_log_bytes r \<ge> 96 then lr_log_bytes r
                             else lp_max_log_bytes d)\<rparr>)"

definition refresh_run_ledger_artifacts ::
  "(json \<Rightarrow> string) \<Rightarrow> (string \<Rightarrow> json option) \<Rightarrow> run_ledger_policy option \<Rightarrow> run_files \<Rightarrow> string \<Rightarrow> int
     \<Rightarrow> ledger \<Rightarrow> (ledger_error, unit) result \<times> ledger" where
  "refresh_run_ledger_artifacts enc dec available files run now ledger =
     (case read_run_ledger_record ledger run of
        Inl e \<Rightarrow> (Inl e, ledger)
      | Inr r \<Rightarrow>
          sync_and_write enc dec (case available of Some p \<Rightarrow> p | None \<Rightarrow> fallback_run_ledger_policy r) files
            (\<lambda>r. r\<lparr>lr_updated := format_rfc3339nano now\<rparr>) r ledger)"

text \<open>
  \<open>updateRunLedgerAfterStop\<close>: the stop settles a kept or half-cleaned run.  The record is
  written first; the events are synchronised afterwards, if the run still has any.
\<close>

definition update_run_ledger_after_stop ::
  "(json \<Rightarrow> string) \<Rightarrow> (string \<Rightarrow> json option) \<Rightarrow> run_ledger_policy option \<Rightarrow> run_files \<Rightarrow> string \<Rightarrow> bool \<Rightarrow> int
     \<Rightarrow> ledger \<Rightarrow> (ledger_error, unit) result \<times> ledger" where
  "update_run_ledger_after_stop enc dec available files run stop_failed now ledger =
     (case read_run_ledger_record ledger run of
        Inl (RunNotFound _) \<Rightarrow> (Inr (), ledger)
      | Inl e \<Rightarrow> (Inl e, ledger)
      | Inr r \<Rightarrow>
          if lr_state r \<noteq> ''kept'' \<and> lr_state r \<noteq> ''cleanup-failed'' then (Inr (), ledger)
          else (let updated = format_rfc3339nano now;
                    r' = (if stop_failed
                          then r\<lparr>lr_updated := updated, lr_state := ''cleanup-failed'', lr_completed := []\<rparr>
                          else r\<lparr>lr_updated := updated,
                                 lr_state := (if lr_status r = ''passed'' then ''completed'' else ''failed''),
                                 lr_completed := updated, lr_stop_phase := []\<rparr>);
                    ledger' = write_run_ledger_record ledger r'
                in if rf_state_events files = Absent then (Inr (), ledger')
                   else (case available of
                           None \<Rightarrow> (Inr (), ledger')
                         | Some policy \<Rightarrow> sync_and_write enc dec policy files (\<lambda>r. r) r' ledger')))"

text \<open>
  \<open>checkpointRunLedgerStopPhase\<close>: a stop that got past the session leaves the run in
  \<open>cleanup-failed\<close> until it is done.  The evidence bundle is an argument.
\<close>

record evidence_bundle =
  eb_run :: string
  eb_scenario :: string
  eb_profile :: string
  eb_host :: string
  eb_status :: string

definition stop_phases :: "string list" where
  "stop_phases = [''session-stopped'', ''broker-cleaned'', ''host-lock-released'']"

definition checkpoint_run_ledger_stop_phase ::
  "(string, evidence_bundle) result \<Rightarrow> string \<Rightarrow> string \<Rightarrow> int \<Rightarrow> ledger \<Rightarrow> (ledger_error, unit) result \<times> ledger" where
  "checkpoint_run_ledger_stop_phase bundle run phase now ledger =
     (case read_run_ledger_record ledger run of
        Inl e \<Rightarrow> (Inl e, ledger)
      | Inr r \<Rightarrow>
          (let updated = format_rfc3339nano now;
               r1 = r\<lparr>lr_stop_phase := phase\<rparr>;
               done = (\<lambda>r. (Inr (), write_run_ledger_record ledger (r\<lparr>lr_updated := updated\<rparr>))) in
           if phase \<notin> set stop_phases then done r1
           else (let r2 = r1\<lparr>lr_state := ''cleanup-failed'', lr_completed := []\<rparr> in
                 if [] \<notin> {lr_scenario r, lr_profile r, lr_host r, lr_status r} then done r2
                 else (case bundle of
                         Inl e \<Rightarrow> (Inl (LedgerIO e), ledger)
                       | Inr b \<Rightarrow>
                           if eb_run b \<noteq> run then (Inl (RecordOtherRun run (eb_run b)), ledger)
                           else done (r2\<lparr>lr_scenario := eb_scenario b, lr_profile := eb_profile b,
                                         lr_host := eb_host b, lr_status := eb_status b\<rparr>)))))"

subsection \<open>Policies\<close>

lemma rbind_Inr: "rbind r f = Inr y \<longleftrightarrow> (\<exists>x. r = Inr x \<and> f x = Inr y)"
  by (cases r) auto

lemma policy_limit_range:
  "policy_limit e c low high fallback = Inr n \<Longrightarrow> low \<le> fallback \<Longrightarrow> fallback \<le> high \<Longrightarrow> low \<le> n \<and> n \<le> high"
  by (auto simp: policy_limit_def split: if_split_asm)

definition valid_policy :: "run_ledger_policy \<Rightarrow> bool" where
  "valid_policy p \<longleftrightarrow> 0 < lp_retention p \<and> 3 \<le> lp_max_events p \<and> lp_max_events p \<le> 100000
     \<and> 1024 \<le> lp_max_event_bytes p \<and> lp_max_event_bytes p \<le> 64 * 1024 * 1024
     \<and> 96 \<le> lp_max_log_bytes p \<and> lp_max_log_bytes p \<le> 64 * 1024 * 1024"

text \<open>Every retention policy is usable.  A configuration is either rejected or gives a policy
  with a positive retention and limits inside the ranges the bounded copies need, and leaving
  a setting out gives the default.\<close>

theorem policy_in_range:
  assumes "resolve_run_ledger_policy config = Inr policy"
  shows "valid_policy policy"
proof -
  let ?d = default_run_ledger_policy
  obtain r e b l where p: "policy = \<lparr>lp_retention = r, lp_max_events = e, lp_max_event_bytes = b, lp_max_log_bytes = l\<rparr>"
    and r: "(if rlc_retention config = [] then Inr (lp_retention ?d)
             else (case parse_duration (rlc_retention config) of
                     None \<Rightarrow> Inl RetentionNotPositive
                   | Some r \<Rightarrow> if r \<le> 0 then Inl RetentionNotPositive else Inr r)) = Inr r"
    and e: "policy_limit MaxEventsRange (rlc_max_events config) 3 100000 (lp_max_events ?d) = Inr e"
    and b: "policy_limit MaxEventBytesRange (rlc_max_event_bytes config) 1024 (64 * 1024 * 1024) (lp_max_event_bytes ?d) = Inr b"
    and l: "policy_limit MaxLogBytesRange (rlc_max_log_bytes config) 96 (64 * 1024 * 1024) (lp_max_log_bytes ?d) = Inr l"
    using assms unfolding resolve_run_ledger_policy_def Let_def rbind_Inr by auto
  have "0 < r" using r by (auto simp: default_run_ledger_policy_def hours_def split: if_split_asm option.split_asm)
  then show ?thesis
    using policy_limit_range [OF e] policy_limit_range [OF b] policy_limit_range [OF l] p
    by (simp add: valid_policy_def default_run_ledger_policy_def)
qed

subsection \<open>Listing\<close>

lemma strict_total_lex:
  fixes f :: "'a \<Rightarrow> 'k::linorder" and g :: "'a \<Rightarrow> 'l::linorder" and h :: "'a \<Rightarrow> 'm::linorder"
  shows "strict_total (\<lambda>x y. if f x = f y then (if g x \<noteq> g y then g y < g x else h y < h x) else f y < f x) h"
  by unfold_locales (auto split: if_split_asm)

lemma newer_record_eq:
  "newer_record = (\<lambda>l r. if parse_or_zero (lr_accepted l) = parse_or_zero (lr_accepted r)
     then (if run_id_collision_ordinal (lr_run l) \<noteq> run_id_collision_ordinal (lr_run r)
           then run_id_collision_ordinal (lr_run r) < run_id_collision_ordinal (lr_run l)
           else lr_run r < lr_run l)
     else parse_or_zero (lr_accepted r) < parse_or_zero (lr_accepted l))"
  by (intro ext) (simp add: newer_record_def Let_def)

interpretation newest: strict_total newer_record lr_run
  unfolding newer_record_eq by (rule strict_total_lex)

lemma read_record_run: "read_run_ledger_record ledger run = Inr r \<Longrightarrow> lr_run r = run"
  by (auto simp: read_run_ledger_record_def check_run_ledger_record_def
      split: sum.split_asm option.split_asm ledger_entry.split_asm stored_record.split_asm if_split_asm)

lemma rmap_Inr_mem: "rmap f xs = Inr ys \<Longrightarrow> x \<in> set xs \<Longrightarrow> f x = Inr y \<Longrightarrow> y \<in> set ys"
  by (induction xs arbitrary: ys) (auto simp: rbind_Inr)

lemma list_records_set:
  assumes "list_run_ledger_records skip ledger = Inr rs"
  shows "set rs = {r. \<exists>n e. (n, e) \<in> set ledger \<and> listed_entry (n, e) \<and> read_run_ledger_record ledger n = Inr r}"
proof (cases skip)
  case True
  then show ?thesis using assms
    by (auto simp: list_run_ledger_records_def Let_def sort_run_ledger_records_newest_def
        split: sum.split_asm if_split_asm) (blast | metis)+
next
  case False
  then obtain ys where y: "rmap (read_run_ledger_record ledger) (map fst (filter listed_entry ledger)) = Inr ys"
    "rs = sort_run_ledger_records_newest ys"
    using assms by (auto simp: list_run_ledger_records_def Let_def rbind_Inr)
  have "set ys = {r. \<exists>n e. (n, e) \<in> set ledger \<and> listed_entry (n, e) \<and> read_run_ledger_record ledger n = Inr r}"
  proof (intro equalityI subsetI CollectI)
    fix r assume "r \<in> set ys"
    from rmap_Inr_set [OF y(1) this] show "\<exists>n e. (n, e) \<in> set ledger \<and> listed_entry (n, e)
        \<and> read_run_ledger_record ledger n = Inr r" by auto
  next
    fix r assume "r \<in> {r. \<exists>n e. (n, e) \<in> set ledger \<and> listed_entry (n, e) \<and> read_run_ledger_record ledger n = Inr r}"
    then obtain n where "n \<in> set (map fst (filter listed_entry ledger))" "read_run_ledger_record ledger n = Inr r"
      by force
    then show "r \<in> set ys" by (rule rmap_Inr_mem [OF y(1)])
  qed
  then show ?thesis using y(2) by (simp add: sort_run_ledger_records_newest_def)
qed

lemma filter_result_Inr:
  "filter_result p xs = Inr ys \<Longrightarrow> ys = filter (\<lambda>x. p x = Inr True) xs"
  by (induction xs arbitrary: ys) (auto simp: rbind_Inr split: if_split_asm)

lemma list_records_sorted:
  "list_run_ledger_records skip ledger = Inr rs \<Longrightarrow> sorted_wrt (\<lambda>x y. \<not> newer_record y x) rs"
  by (auto simp: list_run_ledger_records_def Let_def rbind_Inr sort_run_ledger_records_newest_def
      newest.sorted_sort_by)


subsection \<open>Pruning removes what has expired\<close>

definition prunable :: "int \<Rightarrow> string \<Rightarrow> run_ledger_record \<Rightarrow> bool" where
  "prunable cutoff current r \<longleftrightarrow>
     lr_run r \<noteq> current \<and> lr_state r \<in> set terminal_states
   \<and> (\<exists>t. parse_rfc3339nano (retained_at r) = Some t \<and> t < cutoff)"

lemma map_of_filter_key: "n \<notin> gone \<Longrightarrow> map_of (filter (\<lambda>e. fst e \<notin> gone) l) n = map_of l n"
  by (induction l) auto

lemma prune_records_filter:
  "prune_records cutoff current rs ledger = (res, ledger') \<Longrightarrow>
     \<exists>gone. ledger' = filter (\<lambda>e. fst e \<notin> gone) ledger
       \<and> gone \<subseteq> {lr_run r |r. r \<in> set rs \<and> prunable cutoff current r}
       \<and> (res = Inr () \<longrightarrow> (\<forall>r\<in>set rs. prunable cutoff current r \<longrightarrow> map_of ledger' (lr_run r) = None))"
proof (induction rs arbitrary: ledger)
  case Nil
  then show ?case by (auto intro!: exI [of _ "{}"])
next
  case (Cons r rs)
  let ?keep = "prune_records cutoff current rs ledger = (res, ledger')"
  have keep: ?case if k: ?keep and n: "prunable cutoff current r \<longrightarrow> map_of ledger (lr_run r) = None"
  proof -
    from Cons.IH [OF k] obtain gone where g: "ledger' = filter (\<lambda>e. fst e \<notin> gone) ledger"
      "gone \<subseteq> {lr_run r |r. r \<in> set rs \<and> prunable cutoff current r}"
      "res = Inr () \<longrightarrow> (\<forall>r\<in>set rs. prunable cutoff current r \<longrightarrow> map_of ledger' (lr_run r) = None)" by blast
    have "prunable cutoff current r \<longrightarrow> map_of ledger' (lr_run r) = None"
      using n g(1) by (auto simp: map_of_eq_None_iff)
    then show ?thesis using g by (intro exI [of _ gone]) auto
  qed
  show ?case
  proof (cases "lr_run r = current \<or> lr_state r \<notin> set terminal_states")
    case True
    then show ?thesis using keep Cons.prems by (auto simp: prunable_def)
  next
    case False
    show ?thesis
    proof (cases "parse_rfc3339nano (retained_at r)")
      case None
      then show ?thesis using Cons.prems False by (intro exI [of _ "{}"]) auto
    next
      case (Some t)
      show ?thesis
      proof (cases "t < cutoff")
        case True
        then have p: "prunable cutoff current r" using False Some by (simp add: prunable_def)
        show ?thesis
        proof (cases "map_of ledger (lr_run r)")
          case None
          then show ?thesis using keep Cons.prems False Some True by simp
        next
          case (Some e)
          show ?thesis
          proof (cases e)
            case OtherEntry
            then show ?thesis using Cons.prems False True Some \<open>parse_rfc3339nano _ = _\<close> by (intro exI [of _ "{}"]) auto
          next
            case (LedgerDir d)
            then have "prune_records cutoff current rs (filter (\<lambda>e. fst e \<noteq> lr_run r) ledger) = (res, ledger')"
              using Cons.prems False True Some \<open>parse_rfc3339nano _ = _\<close> by simp
            from Cons.IH [OF this] obtain gone where g:
              "ledger' = filter (\<lambda>e. fst e \<notin> gone) (filter (\<lambda>e. fst e \<noteq> lr_run r) ledger)"
              "gone \<subseteq> {lr_run r |r. r \<in> set rs \<and> prunable cutoff current r}"
              "res = Inr () \<longrightarrow> (\<forall>r\<in>set rs. prunable cutoff current r \<longrightarrow> map_of ledger' (lr_run r) = None)" by blast
            have l: "ledger' = filter (\<lambda>e. fst e \<notin> insert (lr_run r) gone) ledger"
              unfolding g(1) filter_filter by (rule filter_cong) auto
            moreover have "map_of ledger' (lr_run r) = None" unfolding l map_of_eq_None_iff by auto
            ultimately show ?thesis using g(2,3) p by (intro exI [of _ "insert (lr_run r) gone"]) auto
          qed
        qed
      next
        case False
        then show ?thesis using keep Cons.prems \<open>\<not> (_ \<or> _)\<close> Some by (auto simp: prunable_def)
      qed
    qed
  qed
qed

definition readable :: "ledger \<Rightarrow> string \<Rightarrow> run_ledger_record \<Rightarrow> bool" where
  "readable ledger n r \<longleftrightarrow>
     (\<exists>e. (n, e) \<in> set ledger \<and> listed_entry (n, e)) \<and> read_run_ledger_record ledger n = Inr r"

text \<open>C25. Pruning removes exactly the expired, finished runs.  Every entry that disappears is a
  readable record of a run other than the current one, in a terminal state, whose retention
  time has passed; all other entries stay as they were - kept, submitted and half-cleaned
  runs and records that cannot be read among them - and when pruning succeeds no such run
  is left.\<close>

theorem prune_exact:
  assumes "prune_run_ledger policy now current ledger = (res, ledger')"
  shows "\<exists>gone. ledger' = filter (\<lambda>e. fst e \<notin> gone) ledger
    \<and> (\<forall>n\<in>gone. \<exists>r. readable ledger n r \<and> prunable (now - lp_retention policy) current r)
    \<and> (res = Inr () \<longrightarrow> (\<forall>n r. readable ledger n r \<longrightarrow> prunable (now - lp_retention policy) current r \<longrightarrow>
         n \<notin> fst ` set ledger'))"
proof -
  obtain rs where rs: "list_run_ledger_records True ledger = Inr rs"
    by (simp add: list_run_ledger_records_def Let_def)
  have p: "prune_records (now - lp_retention policy) current rs ledger = (res, ledger')"
    using assms rs by (simp add: prune_run_ledger_def)
  obtain gone where g: "ledger' = filter (\<lambda>e. fst e \<notin> gone) ledger"
    "gone \<subseteq> {lr_run r |r. r \<in> set rs \<and> prunable (now - lp_retention policy) current r}"
    "res = Inr () \<longrightarrow> (\<forall>r\<in>set rs. prunable (now - lp_retention policy) current r \<longrightarrow> map_of ledger' (lr_run r) = None)"
    using prune_records_filter [OF p] by blast
  have in_rs: "r \<in> set rs \<longleftrightarrow> (\<exists>n. readable ledger n r)" for r
    unfolding list_records_set [OF rs] readable_def by blast
  have run: "readable ledger n r \<Longrightarrow> lr_run r = n" for n r
    using read_record_run by (auto simp: readable_def)
  have "\<forall>n\<in>gone. \<exists>r. readable ledger n r \<and> prunable (now - lp_retention policy) current r"
    using g(2) in_rs run by blast
  moreover have "res = Inr () \<longrightarrow> (\<forall>n r. readable ledger n r \<longrightarrow>
      prunable (now - lp_retention policy) current r \<longrightarrow> n \<notin> fst ` set ledger')"
    using g(3) in_rs run unfolding map_of_eq_None_iff by blast
  ultimately show ?thesis using g(1) by blast
qed

subsection \<open>A finished record tells the truth\<close>

lemma joined_lines_length: "int (length (joined_lines ls)) = line_bytes ls"
  by (induction ls) (simp_all add: joined_lines_def)

text \<open>The fields a synchronised record has to agree with, and the limits they are under.\<close>

definition events_recorded :: "run_ledger_policy \<Rightarrow> run_ledger_record \<Rightarrow> artifact \<Rightarrow> bool" where
  "events_recorded policy r events \<longleftrightarrow>
     lr_event_count r \<le> lp_max_events policy \<and> lr_event_bytes r \<le> lp_max_event_bytes policy
   \<and> (\<exists>c. events = Regular c \<and> lr_event_bytes r = int (length c))"

definition log_recorded :: "run_ledger_policy \<Rightarrow> run_ledger_record \<Rightarrow> artifact \<Rightarrow> bool" where
  "log_recorded policy r log_file \<longleftrightarrow>
     lr_log_bytes r \<le> lp_max_log_bytes policy
   \<and> (\<exists>c. log_file = Regular c \<and> lr_log_bytes r = int (length c) \<and> lr_log_truncated r = snd (log_source_bytes c))"

definition markers_fit :: "(json \<Rightarrow> string) \<Rightarrow> run_ledger_policy \<Rightarrow> string \<Rightarrow> bool" where
  "markers_fit enc policy accepted \<longleftrightarrow>
     (\<forall>q k. int (length (enc (JObj (truncated_event q accepted k)))) < lp_max_event_bytes policy)"

lemma sync_events_recorded:
  assumes "sync_events enc dec policy files r dest = Inr (r', events)" "valid_policy policy"
    "markers_fit enc policy (lr_accepted r)"
  shows "events_recorded policy r' events \<and> (\<exists>a b c d. r' = r\<lparr>lr_event_count := a, lr_event_bytes := b,
    lr_events_omitted := c, lr_events_truncated := d\<rparr>)"
proof -
  let ?copy = "\<lambda>content. rbind (under EventsError (copy_bounded_ledger_events enc dec (lp_max_events policy)
      (lp_max_event_bytes policy) (lr_accepted r) content))
      (\<lambda>c. Inr (set_event_fields c r, Regular (joined_lines (ec_lines c))))"
  have copied: ?thesis if cp: "?copy content = Inr (r', events)" for content
  proof -
    obtain c where c: "copy_bounded_ledger_events enc dec (lp_max_events policy) (lp_max_event_bytes policy)
        (lr_accepted r) content = Inr c" "r' = set_event_fields c r" "events = Regular (joined_lines (ec_lines c))"
      using cp by (auto simp: rbind_Inr under_def split: sum.split_asm)
    have "int (length (ec_lines c)) \<le> lp_max_events policy \<and> ec_bytes c \<le> lp_max_event_bytes policy
        \<and> ec_bytes c = line_bytes (ec_lines c)"
      using ledger_copy_bounds [OF c(1)] assms(2,3) by (simp add: valid_policy_def markers_fit_def)
    then show ?thesis using c(2,3) by (auto simp: events_recorded_def set_event_fields_def joined_lines_length)
  qed
  obtain source where s: "select_events_source enc dec (rf_state_events files) (rf_evidence_events files) dest = Inr source"
    using assms(1) by (auto simp: sync_events_def Let_def rbind_Inr)
  show ?thesis
  proof (cases source)
    case (Some content)
    then show ?thesis using assms(1) s copied [of content] by (simp add: sync_events_def Let_def)
  next
    case None
    obtain d where d: "dest = Regular d" using assms(1) s None
      by (cases dest) (auto simp: sync_events_def Let_def)
    then obtain count omitted truncated where m: "retained_metadata dec (raw_lines d) = Inr (count, omitted, truncated)"
      using assms(1) s None by (auto simp: sync_events_def Let_def rbind_Inr under_def split: sum.split_asm)
    show ?thesis
    proof (cases "count > lp_max_events policy \<or> int (length d) > lp_max_event_bytes policy")
      case True
      then show ?thesis using assms(1) s None d m copied [of d] by (simp add: sync_events_def Let_def)
    next
      case False
      then have "r' = r\<lparr>lr_event_count := count, lr_event_bytes := int (length d),
          lr_events_omitted := omitted, lr_events_truncated := truncated\<rparr>" "events = dest"
        using assms(1) s None d m by (simp_all add: sync_events_def Let_def)
      then show ?thesis using False d by (auto simp: events_recorded_def)
    qed
  qed
qed

lemma sync_log_recorded:
  assumes "sync_log policy files r dest = Inr (r', log_file)" "valid_policy policy"
    "\<And>c. Regular c \<in> {rf_state_log files, rf_evidence_log files, dest} \<Longrightarrow> fst (log_source_bytes c) \<le> max_int"
  shows "log_recorded policy r' log_file \<and> (\<exists>a b. r' = r\<lparr>lr_log_bytes := a, lr_log_truncated := b\<rparr>)"
proof -
  let ?copy = "\<lambda>content. case copy_bounded_ledger_log 64 (lp_max_log_bytes policy) content of
      None \<Rightarrow> Inl (LedgerIO (lr_run r))
    | Some (c, truncated) \<Rightarrow> Inr (r\<lparr>lr_log_bytes := int (length c), lr_log_truncated := truncated\<rparr>, Regular c)"
  have copied: ?thesis if cp: "?copy content = Inr (r', log_file)" and sz: "fst (log_source_bytes content) \<le> max_int" for content
  proof -
    have "96 \<le> lp_max_log_bytes policy" "lp_max_log_bytes policy \<le> max_int"
      using assms(2) by (simp_all add: valid_policy_def max_int_def)
    from ledger_log_bounds [OF this sz] obtain c t where
      "copy_bounded_ledger_log 64 (lp_max_log_bytes policy) content = Some (c, t)"
      "int (length c) \<le> lp_max_log_bytes policy" "snd (log_source_bytes c) = t" by auto
    then show ?thesis using cp by (auto simp: log_recorded_def)
  qed
  obtain source where s: "select_log_source (rf_state_log files) (rf_evidence_log files) dest = Inr source"
    using assms(1) by (auto simp: sync_log_def Let_def rbind_Inr)
  show ?thesis
  proof (cases source)
    case (Some content)
    have "Regular content \<in> {rf_state_log files, rf_evidence_log files, dest}"
      using s Some by (auto simp: select_log_source_def split: artifact.split_asm if_split_asm)
    then show ?thesis using assms(1,3) s Some copied [of content] by (simp add: sync_log_def Let_def)
  next
    case None
    obtain d where d: "dest = Regular d" using assms(1) s None
      by (cases dest) (auto simp: sync_log_def Let_def)
    show ?thesis
    proof (cases "int (length d) > lp_max_log_bytes policy")
      case True
      then show ?thesis using assms(1,3) s None d copied [of d] by (simp add: sync_log_def Let_def)
    next
      case False
      then have "r' = r\<lparr>lr_log_bytes := int (length d), lr_log_truncated := snd (log_source_bytes d)\<rparr>" "log_file = dest"
        using assms(1) s None d by (simp_all add: sync_log_def Let_def)
      then show ?thesis using False d by (auto simp: log_recorded_def)
    qed
  qed
qed

lemma update_dir_lookup [simp]: "map_of (update_dir ledger run d) run = Some (LedgerDir d)"
  by (simp add: update_dir_def update_conv')


subsection \<open>Stopping settles a run, once\<close>

lemma sync_events_form:
  "sync_events enc dec policy files r dest = Inr (r', events) \<Longrightarrow>
     \<exists>a b c d. r' = r\<lparr>lr_event_count := a, lr_event_bytes := b, lr_events_omitted := c, lr_events_truncated := d\<rparr>"
  by (auto simp: sync_events_def Let_def rbind_Inr set_event_fields_def split: option.split_asm artifact.split_asm if_split_asm) blast+

lemma sync_log_form:
  assumes "sync_log policy files r dest = Inr (r', log_file)"
  shows "\<exists>a b. r' = r\<lparr>lr_log_bytes := a, lr_log_truncated := b\<rparr>"
proof -
  obtain source where s: "select_log_source (rf_state_log files) (rf_evidence_log files) dest = Inr source"
    using assms by (auto simp: sync_log_def Let_def rbind_Inr)
  show ?thesis
    using assms s by (cases source)
      (auto simp: sync_log_def Let_def split: option.split_asm artifact.split_asm if_split_asm prod.split_asm)
qed

text \<open>A record that differs from another one in the numbers of its artifacts only.\<close>

definition counted :: "run_ledger_record \<Rightarrow> run_ledger_record \<Rightarrow> bool" where
  "counted r r' \<longleftrightarrow>
     r' = r\<lparr>lr_event_count := lr_event_count r', lr_event_bytes := lr_event_bytes r',
       lr_events_omitted := lr_events_omitted r', lr_events_truncated := lr_events_truncated r',
       lr_log_bytes := lr_log_bytes r', lr_log_truncated := lr_log_truncated r'\<rparr>"

lemma counted_fields:
  "counted r r' \<Longrightarrow> lr_version r' = lr_version r \<and> lr_run r' = lr_run r \<and> lr_accepted r' = lr_accepted r
     \<and> lr_events r' = lr_events r \<and> lr_log r' = lr_log r \<and> lr_evidence r' = lr_evidence r \<and> lr_state r' = lr_state r
     \<and> lr_completed r' = lr_completed r \<and> lr_stop_phase r' = lr_stop_phase r \<and> lr_status r' = lr_status r"
  by (cases r; cases r') (simp add: counted_def)

lemma sync_artifacts_record:
  "sync_run_ledger_artifacts enc dec policy files r d = (res, d') \<Longrightarrow>
     ld_record d' = ld_record d \<and> (\<forall>r'. res = Inr r' \<longrightarrow> counted r r')"
  by (auto simp: sync_run_ledger_artifacts_def counted_def dest!: sync_events_form sync_log_form split: sum.split_asm)

lemma read_update_dir:
  "validate_run_id run = Inr () \<Longrightarrow> ld_record d = StoredRecord r \<Longrightarrow>
     read_run_ledger_record (update_dir ledger run d) run = check_run_ledger_record run r"
  by (simp add: read_run_ledger_record_def)

lemma write_record_dir:
  "write_run_ledger_record ledger r = update_dir ledger (lr_run r) ((dir_of ledger (lr_run r))\<lparr>ld_record := StoredRecord r\<rparr>)"
  by (simp add: write_run_ledger_record_def update_dir_def dir_of_def Let_def split: option.split ledger_entry.split)

lemma dir_of_update [simp]: "dir_of (update_dir ledger run d) run = d"
  by (simp add: dir_of_def)

lemma sync_and_write_read:
  assumes "sync_and_write enc dec policy files (\<lambda>r. r) r ledger = (res, ledger')" "lr_run r = run"
    "validate_run_id run = Inr ()" "ld_record (dir_of ledger run) = StoredRecord r"
  shows "\<exists>r'. counted r r' \<and> read_run_ledger_record ledger' run = check_run_ledger_record run r'"
proof -
  obtain q d where q: "sync_run_ledger_artifacts enc dec policy files r (dir_of ledger run) = (q, d)" by fastforce
  note s = sync_artifacts_record [OF q]
  show ?thesis
  proof (cases q)
    case (Inl e)
    then have "ledger' = update_dir ledger run d" using assms(1,2) q by (simp add: sync_and_write_def)
    then have "read_run_ledger_record ledger' run = check_run_ledger_record run r"
      using s assms(3,4) by (simp add: read_update_dir)
    then show ?thesis by (intro exI [of _ r]) (simp add: counted_def)
  next
    case (Inr r')
    then have "ledger' = update_dir ledger run (d\<lparr>ld_record := StoredRecord r'\<rparr>)"
      using assms(1,2) q by (simp add: sync_and_write_def)
    then have "read_run_ledger_record ledger' run = check_run_ledger_record run r'"
      using assms(3) by (simp add: read_update_dir)
    then show ?thesis using s Inr by blast
  qed
qed

lemma read_record_check:
  "read_run_ledger_record ledger run = Inr r \<Longrightarrow> validate_run_id run = Inr () \<and> check_run_ledger_record run r = Inr r"
  by (auto simp: read_run_ledger_record_def check_run_ledger_record_def
      split: sum.split_asm option.split_asm ledger_entry.split_asm stored_record.split_asm if_split_asm)

lemma check_record_cong:
  "check_run_ledger_record run r = Inr r \<Longrightarrow> lr_version r' = lr_version r \<Longrightarrow> lr_run r' = lr_run r \<Longrightarrow>
     lr_accepted r' = lr_accepted r \<Longrightarrow> lr_events r' = lr_events r \<Longrightarrow> lr_log r' = lr_log r \<Longrightarrow>
     lr_evidence r' = lr_evidence r \<Longrightarrow> check_run_ledger_record run r' = Inr r'"
  by (auto simp: check_run_ledger_record_def split: if_split_asm)

definition settled :: "run_ledger_record \<Rightarrow> bool \<Rightarrow> int \<Rightarrow> run_ledger_record" where
  "settled r stop_failed now =
     (if stop_failed
      then r\<lparr>lr_updated := format_rfc3339nano now, lr_state := ''cleanup-failed'', lr_completed := []\<rparr>
      else r\<lparr>lr_updated := format_rfc3339nano now,
             lr_state := (if lr_status r = ''passed'' then ''completed'' else ''failed''),
             lr_completed := format_rfc3339nano now, lr_stop_phase := []\<rparr>)"

lemma settled_read:
  assumes "read_run_ledger_record ledger run = Inr r" "lr_state r = ''kept'' \<or> lr_state r = ''cleanup-failed''"
    "update_run_ledger_after_stop enc dec available files run stop_failed now ledger = (res, ledger')"
  shows "\<exists>r'. counted (settled r stop_failed now) r' \<and> read_run_ledger_record ledger' run = Inr r'"
proof -
  define s where "s = settled r stop_failed now"
  note v = read_record_check [OF assms(1)]
  have run: "lr_run s = run" "lr_run r = run" using read_record_run [OF assms(1)] by (simp_all add: s_def settled_def)
  have s: "lr_version s = lr_version r" "lr_accepted s = lr_accepted r" "lr_events s = lr_events r"
    "lr_log s = lr_log r" "lr_evidence s = lr_evidence r" by (simp_all add: s_def settled_def)
  let ?l = "write_run_ledger_record ledger s"
  have l: "read_run_ledger_record ?l run = check_run_ledger_record run s"
    using v run by (simp add: write_record_dir read_update_dir)
  have d: "ld_record (dir_of ?l run) = StoredRecord s" using run by (simp add: write_record_dir)
  have "(res, ledger') = (if rf_state_events files = Absent then (Inr (), ?l)
      else (case available of None \<Rightarrow> (Inr (), ?l)
            | Some policy \<Rightarrow> sync_and_write enc dec policy files (\<lambda>r. r) s ?l))"
  proof -
    have nk: "\<not> (lr_state r \<noteq> ''kept'' \<and> lr_state r \<noteq> ''cleanup-failed'')" using assms(2) by blast
    show ?thesis
      unfolding assms(3) [symmetric] update_run_ledger_after_stop_def assms(1) sum.case if_not_P [OF nk] Let_def
        s_def settled_def ..
  qed
  then consider "ledger' = ?l" | policy where "sync_and_write enc dec policy files (\<lambda>r. r) s ?l = (res, ledger')"
    by (cases available) (auto split: if_split_asm)
  then have "\<exists>r'. counted s r' \<and> read_run_ledger_record ledger' run = check_run_ledger_record run r'"
  proof cases
    case 1
    then show ?thesis using l by (intro exI [of _ s]) (simp add: counted_def)
  next
    case (2 policy)
    then show ?thesis using sync_and_write_read [OF 2 run(1) _ d] v by blast
  qed
  then obtain r' where r': "counted s r'" "read_run_ledger_record ledger' run = check_run_ledger_record run r'"
    by blast
  have "check_run_ledger_record run r' = Inr r'"
    by (rule check_record_cong [of run r]) (use v run s counted_fields [OF r'(1)] in simp_all)
  then show ?thesis using r' by (auto simp: s_def)
qed

definition stopped_state :: "run_ledger_record \<Rightarrow> bool \<Rightarrow> string" where
  "stopped_state r stop_failed =
     (if stop_failed then ''cleanup-failed'' else if lr_status r = ''passed'' then ''completed'' else ''failed'')"

text \<open>C29. A stop settles a run exactly once.  For a run that is kept or half-cleaned, the record
  after the stop is readable and says \<open>cleanup-failed\<close> without a completion time when the stop
  failed, and otherwise \<open>completed\<close> or \<open>failed\<close> by the recorded status, with a completion time
  and no stop phase - also when synchronising the events fails afterwards.  For a run in any
  other state a stop changes nothing at all.\<close>

theorem stop_settles_once:
  assumes "read_run_ledger_record ledger run = Inr r"
    "update_run_ledger_after_stop enc dec available files run stop_failed now ledger = (res, ledger')"
  shows "if lr_state r = ''kept'' \<or> lr_state r = ''cleanup-failed''
    then \<exists>r'. read_run_ledger_record ledger' run = Inr r' \<and> lr_state r' = stopped_state r stop_failed
      \<and> lr_completed r' = (if stop_failed then [] else format_rfc3339nano now)
      \<and> lr_stop_phase r' = (if stop_failed then lr_stop_phase r else []) \<and> lr_status r' = lr_status r
    else res = Inr () \<and> ledger' = ledger"
proof (cases "lr_state r = ''kept'' \<or> lr_state r = ''cleanup-failed''")
  case False
  then show ?thesis using assms by (auto simp: update_run_ledger_after_stop_def)
next
  case True
  obtain r' where r': "counted (settled r stop_failed now) r'" "read_run_ledger_record ledger' run = Inr r'"
    using settled_read [OF assms(1) True assms(2)] by blast
  then show ?thesis using True counted_fields [OF r'(1)] by (simp add: settled_def stopped_state_def)
qed

subsection \<open>A concrete ledger\<close>

definition sample_record :: "string \<Rightarrow> string \<Rightarrow> string \<Rightarrow> run_ledger_record" where
  "sample_record run state completed =
     \<lparr>lr_version = 1, lr_run = run, lr_scenario = ''smoke'', lr_profile = ''default'', lr_host = ''h1'',
      lr_state = state, lr_status = ''passed'', lr_accepted = ''2025-07-25T09:54:56Z'',
      lr_updated = ''2025-07-25T09:54:56Z'', lr_completed = completed,
      lr_evidence = evidence_dir run, lr_events = ''events.jsonl'', lr_log = ''logs/session.log'',
      lr_event_count = 1, lr_event_bytes = 2, lr_events_omitted = 0, lr_events_truncated = False,
      lr_log_bytes = 0, lr_log_truncated = False, lr_stop_phase = []\<rparr>"

definition sample_entry :: "run_ledger_record \<Rightarrow> string \<times> ledger_entry" where
  "sample_entry r = (lr_run r, LedgerDir \<lparr>ld_record = StoredRecord r, ld_events = Regular ''a'', ld_log = Regular []\<rparr>)"

definition sample_ledger :: ledger where
  "sample_ledger = map sample_entry
     [sample_record ''r1'' ''completed'' ''2025-07-25T09:54:56Z'', sample_record ''r2'' ''kept'' []]"

definition no_files :: run_files where
  "no_files = \<lparr>rf_state_events = Absent, rf_evidence_events = Absent, rf_state_log = Absent, rf_evidence_log = Absent\<rparr>"

text \<open>40 days after the run was done.\<close>

definition sample_now :: int where
  "sample_now = seconds 1756893296"

theorem policy_in_range_witness:
  "valid_policy default_run_ledger_policy"
proof (rule policy_in_range)
  show "resolve_run_ledger_policy \<lparr>rlc_retention = [], rlc_max_events = 0, rlc_max_event_bytes = 0, rlc_max_log_bytes = 0\<rparr>
      = Inr default_run_ledger_policy"
    by (simp add: resolve_run_ledger_policy_def policy_limit_def default_run_ledger_policy_def)
qed

lemma sample_prune:
  "map fst (snd (prune_run_ledger default_run_ledger_policy sample_now [] sample_ledger)) = [''r2'']"
  by code_simp

theorem prune_exact_witness:
  "\<exists>res ledger' r. prune_run_ledger default_run_ledger_policy sample_now [] sample_ledger = (res, ledger')
     \<and> map fst ledger' = [''r2''] \<and> readable sample_ledger ''r1'' r
     \<and> prunable (sample_now - lp_retention default_run_ledger_policy) [] r"
proof -
  obtain res ledger' where p: "prune_run_ledger default_run_ledger_policy sample_now [] sample_ledger = (res, ledger')"
    by fastforce
  then have k: "map fst ledger' = [''r2'']" using sample_prune by simp
  obtain gone where g: "ledger' = filter (\<lambda>e. fst e \<notin> gone) sample_ledger"
    "\<forall>n\<in>gone. \<exists>r. readable sample_ledger n r \<and> prunable (sample_now - lp_retention default_run_ledger_policy) [] r"
    using prune_exact [OF p] by blast
  have "''r1'' \<in> gone"
  proof (rule ccontr)
    assume "''r1'' \<notin> gone"
    then have "''r1'' \<in> set (map fst ledger')"
      unfolding g(1) by (simp add: sample_ledger_def sample_entry_def sample_record_def)
    then show False using k by simp
  qed
  then obtain r where "readable sample_ledger ''r1'' r"
    "prunable (sample_now - lp_retention default_run_ledger_policy) [] r" using g(2) by blast
  then show ?thesis using p k by (intro exI conjI)
qed


theorem stop_settles_once_witness:
  "\<exists>res ledger' r'. update_run_ledger_after_stop sample_enc sample_dec None no_files ''r2'' False sample_now sample_ledger
      = (res, ledger') \<and> read_run_ledger_record ledger' ''r2'' = Inr r' \<and> lr_state r' = ''completed''"
proof -
  let ?r = "sample_record ''r2'' ''kept'' []"
  have r: "read_run_ledger_record sample_ledger ''r2'' = Inr ?r" by code_simp
  obtain res ledger' where u: "update_run_ledger_after_stop sample_enc sample_dec None no_files ''r2'' False sample_now
      sample_ledger = (res, ledger')" by fastforce
  have "lr_state ?r = ''kept''" "stopped_state ?r False = ''completed''"
    by (simp_all add: sample_record_def stopped_state_def)
  then obtain r' where "read_run_ledger_record ledger' ''r2'' = Inr r'" "lr_state r' = ''completed''"
    using stop_settles_once [OF r u] by auto
  with u show ?thesis by (intro exI conjI)
qed

definition sample_outcome :: ledger_outcome where
  "sample_outcome = \<lparr>lo_scenario = ''smoke'', lo_profile = ''default'', lo_host = ''h1'', lo_status = ''passed'',
     lo_stop_policy = ''kept'', lo_cleanup_failed = False\<rparr>"


end
