(* ===== verification/Control_Records.thy ===== *)
theory Control_Records
  imports Run_Ledger Capabilities
begin

text \<open>
  The records the control plane keeps (\<open>control_plane.go\<close>, \<open>host_agent.go\<close>): submissions,
  assignments of runs to Windows Host Agents with their durable host locks, the agents'
  identifiers, and the comparisons of lock tokens and broker sessions.
\<close>

subsection \<open>Submissions and terminal results\<close>

record control_plane_file =
  cf_path :: string
  cf_kind :: string
  cf_content :: string

record submission =
  sb_version :: int
  sb_scenario :: string
  sb_profile :: string
  sb_stop_after :: string
  sb_keep_ttl :: string
  sb_config_name :: string
  sb_config :: string
  sb_files :: "control_plane_file list"
  sb_error :: string

record run_command =
  rc_version :: int
  rc_kind :: string
  rc_accepted :: bool
  rc_run :: string
  rc_scenario :: string
  rc_profile :: string
  rc_host :: string
  rc_status :: string
  rc_state_dir :: string
  rc_evidence_dir :: string
  rc_failed_layer :: string
  rc_diagnostic :: string
  rc_hint :: string
  rc_stop_policy :: string
  rc_follow_up :: "string list"
  rc_error :: string
  rc_warnings :: "string list"

definition control_plane_api_version :: int where
  "control_plane_api_version = 1"

definition host_agent_api_version :: int where
  "host_agent_api_version = 1"

definition target_profile_for_submission :: "submission \<Rightarrow> string" where
  "target_profile_for_submission submission =
     (if sb_profile submission = [] then ''default'' else sb_profile submission)"

subsection \<open>Assignments and host locks\<close>

record broker_identity =
  bi_adapter :: string
  bi_session :: string

record assignment_record =
  ar_version :: int
  ar_run :: string
  ar_agent :: string
  ar_host :: string
  ar_token :: string
  ar_state :: string
  ar_created :: string
  ar_submission :: submission
  ar_event_prefix :: string
  ar_capabilities :: capability_record
  ar_build :: string
  ar_binding_required :: bool
  ar_broker :: "broker_identity option"
  ar_terminal :: "run_command option"
  ar_terminal_ledger :: "run_ledger_record option"
  ar_assigned_ledger :: "run_ledger_record option"
  ar_progress :: int
  ar_digest :: string

record host_lock_record =
  hr_version :: int
  hr_run :: string
  hr_agent :: string
  hr_host :: string
  hr_token :: string
  hr_state :: string
  hr_created :: string
  hr_binding_required :: bool
  hr_broker :: "broker_identity option"

definition same_lock_token :: "string \<Rightarrow> string \<Rightarrow> bool" where
  "same_lock_token got want \<longleftrightarrow> got \<noteq> [] \<and> got = want"

definition same_broker_session :: "broker_identity option \<Rightarrow> broker_identity option \<Rightarrow> bool" where
  "same_broker_session left right \<longleftrightarrow>
     (case left of
        None \<Rightarrow> right = None
      | Some l \<Rightarrow> (case right of None \<Rightarrow> False | Some r \<Rightarrow> l = r))"

definition invalid_broker_session :: "broker_identity option \<Rightarrow> bool" where
  "invalid_broker_session session \<longleftrightarrow>
     (case session of None \<Rightarrow> False | Some s \<Rightarrow> bi_adapter s = [] \<or> bi_session s = [])"

lemma same_broker_session_iff [simp]: "same_broker_session l r \<longleftrightarrow> l = r"
  by (auto simp: same_broker_session_def split: option.splits)

lemma same_lock_token_iff: "same_lock_token got want \<longleftrightarrow> got = want \<and> want \<noteq> []"
  by (auto simp: same_lock_token_def)

text \<open>\<open>validateHostAgentStateID\<close>: the identifier is also a file name, on Windows too.\<close>

datatype agent_id_error = AgentIDLength | AgentIDCharacter | AgentIDReserved string | AgentHostName name_error

definition windows_device_names :: "string list" where
  "windows_device_names =
     [''con'', ''prn'', ''aux'', ''nul'']
     @ map (\<lambda>d. ''com'' @ d) [''1'', ''2'', ''3'', ''4'', ''5'', ''6'', ''7'', ''8'', ''9'']
     @ map (\<lambda>d. ''lpt'' @ d) [''1'', ''2'', ''3'', ''4'', ''5'', ''6'', ''7'', ''8'', ''9'']"

definition agent_id_char :: "string \<Rightarrow> nat \<Rightarrow> bool" where
  "agent_id_char v i \<longleftrightarrow>
     (let c = of_char (v ! i) :: int in
      97 \<le> c \<and> c \<le> 122 \<or> is_digit (v ! i) \<or> v ! i = CHR ''-'' \<and> 0 < i \<and> i < length v - 1)"

definition validate_host_agent_state_id :: "string \<Rightarrow> (agent_id_error, unit) result" where
  "validate_host_agent_state_id v =
     (if length v = 0 \<or> length v > 63 then Inl AgentIDLength
      else if \<not> list_all (agent_id_char v) [0..<length v] then Inl AgentIDCharacter
      else if v \<in> set windows_device_names then Inl (AgentIDReserved v)
      else Inr ())"

definition validate_host_agent_id :: "string \<Rightarrow> (agent_id_error, unit) result" where
  "validate_host_agent_id agent = validate_host_agent_state_id agent"

definition validate_host_agent_host_id :: "string \<Rightarrow> (agent_id_error, unit) result" where
  "validate_host_agent_host_id host =
     (case validate_host_id host of
        Inl e \<Rightarrow> Inl (AgentHostName e)
      | Inr _ \<Rightarrow> validate_host_agent_state_id host)"

end
