(* ===== verification/Transition_Store.thy ===== *)
theory Transition_Store
  imports Control_Records
begin

text \<open>
  The host agent transition store (\<open>host_agent_transition_store.go\<close>): the write-ahead journal
  that keeps an assignment, its durable host lock and the run's ledger record in step.

  The model is the data directory with explicit faults.  Every operation that changes the disk
  takes the next entry of a schedule: it may be refused, it may take effect and still report an
  error, and the process may die before, in the middle of, or after it; a process that died
  changes nothing any more.  An empty schedule is a disk that works.
\<close>

subsection \<open>The disk and its faults\<close>

datatype fault = Fine | Refused | Late | Dies | Dies_torn | Dies_late

datatype journal_entry = Journal "assignment_record option" | Alien

record disk =
  dk_alive :: bool
  dk_faults :: "fault list"
  dk_journal :: "(string \<times> journal_entry) list"
  dk_assignments :: "string \<Rightarrow> assignment_record option"
  dk_locks :: "string \<Rightarrow> host_lock_record option"
  dk_ledgers :: "string \<Rightarrow> ledger"

datatype disk_error =
    WriteFailed
  | ProcessDied
  | JournalPath string
  | JournalUnreadable string
  | JournalInvalid string
  | NoTerminalLedger
  | NoAssignedLedger
  | AssignmentUnreadable string
  | AssignmentMismatch
  | LockUnreadable string
  | LockMismatch
  | LockRetained
  | LedgerNotPublished
  | LedgerUnreadable ledger_error
  | DiskErrors "disk_error list"

type_synonym 'a disk_op = "disk \<Rightarrow> (disk_error, 'a) result \<times> disk"

definition take_fault :: "disk \<Rightarrow> fault \<times> disk" where
  "take_fault s =
     (case dk_faults s of [] \<Rightarrow> (Fine, s) | f # fs \<Rightarrow> (f, s\<lparr>dk_faults := fs\<rparr>))"

text \<open>One mutation: \<open>effect\<close> is what it does, \<open>torn\<close> what it leaves when the process dies inside it.\<close>

definition mutate :: "(disk \<Rightarrow> disk) \<Rightarrow> (disk \<Rightarrow> disk) \<Rightarrow> unit disk_op" where
  "mutate effect torn s =
     (if \<not> dk_alive s then (Inl ProcessDied, s)
      else (case take_fault s of (f, s') \<Rightarrow>
        (case f of
           Fine \<Rightarrow> (Inr (), effect s')
         | Refused \<Rightarrow> (Inl WriteFailed, s')
         | Late \<Rightarrow> (Inl WriteFailed, effect s')
         | Dies \<Rightarrow> (Inl ProcessDied, s'\<lparr>dk_alive := False\<rparr>)
         | Dies_torn \<Rightarrow> (Inl ProcessDied, (torn s')\<lparr>dk_alive := False\<rparr>)
         | Dies_late \<Rightarrow> (Inl ProcessDied, (effect s')\<lparr>dk_alive := False\<rparr>))))"

definition and_then :: "'a disk_op \<Rightarrow> ('a \<Rightarrow> 'b disk_op) \<Rightarrow> 'b disk_op" where
  "and_then m f s = (case m s of (Inl e, s') \<Rightarrow> (Inl e, s') | (Inr x, s') \<Rightarrow> f x s')"

definition fail_op :: "disk_error \<Rightarrow> 'a disk_op" where
  "fail_op e s = (Inl e, s)"

text \<open>
  \<open>writePrivateJSON\<close> writes a temporary file beside the target, syncs it and renames it over the
  target.  In the journal's directory the name of such a file is the target's between a dot and
  \<open>.tmp-\<close> with a random suffix, so it is not a \<open>.json\<close> file; the other directories are only read
  by name.
\<close>

definition journal_name :: "string \<Rightarrow> string" where
  "journal_name run = run @ ''.json''"

definition temporary_name :: "string \<Rightarrow> string" where
  "temporary_name name = ''.'' @ name @ ''.tmp-0''"

definition write_journal :: "assignment_record \<Rightarrow> unit disk_op" where
  "write_journal r =
     mutate (\<lambda>s. s\<lparr>dk_journal := AList.update (journal_name (ar_run r)) (Journal (Some r)) (dk_journal s)\<rparr>)
       (\<lambda>s. s\<lparr>dk_journal := AList.update (temporary_name (journal_name (ar_run r))) Alien (dk_journal s)\<rparr>)"

text \<open>\<open>os.Remove\<close> of a journal entry.\<close>

definition remove_journal :: "string \<Rightarrow> unit disk_op" where
  "remove_journal name = mutate (\<lambda>s. s\<lparr>dk_journal := filter (\<lambda>e. fst e \<noteq> name) (dk_journal s)\<rparr>) (\<lambda>s. s)"

definition sync_directory :: "unit disk_op" where
  "sync_directory = mutate (\<lambda>s. s) (\<lambda>s. s)"

definition save_assignment :: "assignment_record \<Rightarrow> unit disk_op" where
  "save_assignment r = mutate (\<lambda>s. s\<lparr>dk_assignments := (dk_assignments s)(ar_run r := Some r)\<rparr>) (\<lambda>s. s)"

text \<open>\<open>runLedgerStore.Replace\<close>, in the ledger of the run's own directory.\<close>

definition replace_ledger :: "string \<Rightarrow> run_ledger_record \<Rightarrow> unit disk_op" where
  "replace_ledger run r =
     mutate (\<lambda>s. s\<lparr>dk_ledgers := (dk_ledgers s)(run := write_run_ledger_record (dk_ledgers s run) r)\<rparr>) (\<lambda>s. s)"

definition lock_of :: "assignment_record \<Rightarrow> string \<Rightarrow> host_lock_record" where
  "lock_of r state =
     \<lparr>hr_version = host_agent_api_version, hr_run = ar_run r, hr_agent = ar_agent r, hr_host = ar_host r,
      hr_token = ar_token r, hr_state = state, hr_created = ar_created r,
      hr_binding_required = ar_binding_required r, hr_broker = ar_broker r\<rparr>"

definition persist_host_lock :: "assignment_record \<Rightarrow> string \<Rightarrow> unit disk_op" where
  "persist_host_lock r state =
     mutate (\<lambda>s. s\<lparr>dk_locks := (dk_locks s)(ar_host r := Some (lock_of r state))\<rparr>) (\<lambda>s. s)"

definition remove_host_lock :: "string \<Rightarrow> unit disk_op" where
  "remove_host_lock host = mutate (\<lambda>s. s\<lparr>dk_locks := (dk_locks s)(host := None)\<rparr>) (\<lambda>s. s)"

subsection \<open>The store\<close>

definition apply_transition :: "assignment_record \<Rightarrow> unit disk_op" where
  "apply_transition r =
     (if ar_state r = ''completed''
      then and_then (save_assignment r) (\<lambda>_.
             case ar_terminal_ledger r of
               None \<Rightarrow> fail_op NoTerminalLedger
             | Some ledger \<Rightarrow>
                 and_then (replace_ledger (ar_run r) ledger) (\<lambda>_.
                 and_then (remove_host_lock (ar_host r)) (\<lambda>_. sync_directory)))
      else (case ar_assigned_ledger r of
              None \<Rightarrow> fail_op NoAssignedLedger
            | Some ledger \<Rightarrow>
                and_then (replace_ledger (ar_run r) ledger) (\<lambda>_.
                and_then (persist_host_lock r (ar_state r)) (\<lambda>_. save_assignment r))))"

definition persist_transition :: "assignment_record \<Rightarrow> unit disk_op" where
  "persist_transition r =
     and_then (write_journal r) (\<lambda>_.
     and_then (apply_transition r) (\<lambda>_.
     and_then (remove_journal (journal_name (ar_run r))) (\<lambda>_. sync_directory)))"

definition verify_completed :: "assignment_record \<Rightarrow> disk \<Rightarrow> (disk_error, unit) result" where
  "verify_completed want s =
     (case ar_terminal_ledger want of
        None \<Rightarrow> Inl NoTerminalLedger
      | Some terminal \<Rightarrow>
          (case read_run_ledger_record (dk_ledgers s (ar_run want)) (ar_run want) of
             Inl e \<Rightarrow> Inl (DiskErrors [LedgerNotPublished, LedgerUnreadable e])
           | Inr live \<Rightarrow>
               if lr_state live \<noteq> lr_state terminal \<or> lr_status live \<noteq> lr_status terminal
                  \<or> lr_accepted live \<noteq> lr_accepted terminal
               then Inl LedgerNotPublished
               else if dk_locks s (ar_host want) \<noteq> None then Inl LockRetained
               else Inr ()))"

definition verify_active :: "assignment_record \<Rightarrow> disk \<Rightarrow> (disk_error, unit) result" where
  "verify_active want s =
     (case dk_locks s (ar_host want) of
        None \<Rightarrow> Inl (LockUnreadable (ar_host want))
      | Some lock \<Rightarrow>
          if hr_state lock \<noteq> ar_state want \<or> hr_run lock \<noteq> ar_run want \<or> hr_agent lock \<noteq> ar_agent want
             \<or> \<not> same_lock_token (hr_token lock) (ar_token want)
             \<or> hr_binding_required lock \<noteq> ar_binding_required want
             \<or> \<not> same_broker_session (hr_broker lock) (ar_broker want)
          then Inl LockMismatch
          else (case ar_assigned_ledger want of
                  None \<Rightarrow> Inl NoAssignedLedger
                | Some assigned \<Rightarrow>
                    (case read_run_ledger_record (dk_ledgers s (ar_run want)) (ar_run want) of
                       Inl e \<Rightarrow> Inl (DiskErrors [LedgerNotPublished, LedgerUnreadable e])
                     | Inr live \<Rightarrow>
                         if lr_host live \<noteq> ar_host want \<or> lr_accepted live \<noteq> lr_accepted assigned
                         then Inl LedgerNotPublished else Inr ())))"

definition verify_transition :: "assignment_record \<Rightarrow> disk \<Rightarrow> (disk_error, unit) result" where
  "verify_transition want s =
     (case dk_assignments s (ar_run want) of
        None \<Rightarrow> Inl (AssignmentUnreadable (ar_run want))
      | Some got \<Rightarrow>
          if ar_state got \<noteq> ar_state want \<or> ar_agent got \<noteq> ar_agent want \<or> ar_host got \<noteq> ar_host want
             \<or> \<not> same_lock_token (ar_token got) (ar_token want)
             \<or> ar_binding_required got \<noteq> ar_binding_required want
             \<or> \<not> same_broker_session (ar_broker got) (ar_broker want)
          then Inl AssignmentMismatch
          else if ar_state want = ''completed'' then verify_completed want s
          else verify_active want s)"

text \<open>
  What the handler does to a journalled record before it is applied again: \<open>prepare\<close> is a
  parameter of the store, the control plane passes \<open>prepareRecoveredHostAgentTransition\<close>.
  An entry whose name is not a \<open>.json\<close> file's, or a directory, stops the recovery.
\<close>

type_synonym prepare = "disk \<Rightarrow> assignment_record \<Rightarrow> string \<Rightarrow> (disk_error, assignment_record) result"

fun recover_entries :: "prepare \<Rightarrow> (string \<times> journal_entry) list \<Rightarrow> unit disk_op" where
  "recover_entries prep [] s = (Inr (), s)"
| "recover_entries prep ((name, entry) # entries) s =
     (case entry of
        Alien \<Rightarrow> (Inl (JournalPath name), s)
      | Journal content \<Rightarrow>
          if cut_suffix name ''.json'' = None then (Inl (JournalPath name), s)
          else (case content of
                  None \<Rightarrow> (Inl (JournalUnreadable name), s)
                | Some r \<Rightarrow>
                    (case prep s r name of
                       Inl e \<Rightarrow> (Inl e, s)
                     | Inr r' \<Rightarrow>
                         and_then (apply_transition r') (\<lambda>_.
                         and_then (remove_journal name) (\<lambda>_.
                         and_then sync_directory (\<lambda>_. recover_entries prep entries))) s)))"

definition recover_transitions :: "prepare \<Rightarrow> unit disk_op" where
  "recover_transitions prep s = recover_entries prep (dk_journal s) s"

definition commit_transition :: "prepare \<Rightarrow> assignment_record \<Rightarrow> unit disk_op" where
  "commit_transition prep r s =
     (case persist_transition r s of
        (Inr _, s1) \<Rightarrow> (Inr (), s1)
      | (Inl e, s1) \<Rightarrow>
          (case recover_transitions prep s1 of (recovered, s2) \<Rightarrow>
             (case (recovered, verify_transition r s2) of
                (Inr _, Inr _) \<Rightarrow> (Inr (), s2)
              | (r1, r2) \<Rightarrow> (Inl (DiskErrors (e # (case r1 of Inl x \<Rightarrow> [x] | Inr _ \<Rightarrow> [])
                                            @ (case r2 of Inl x \<Rightarrow> [x] | Inr _ \<Rightarrow> []))), s2))))"

text \<open>
  \<open>prepareRecoveredHostAgentTransition\<close>: the journalled record has to fit an enrolled agent; the
  record of an agent that was quarantined with this run is rewritten to end the run there.
\<close>

definition transition_states :: "string list" where
  "transition_states = [''assigned'', ''confirmed'', ''finishing'', ''quarantined'', ''completed'']"

definition recovered_terminal :: "assignment_record \<Rightarrow> run_ledger_record \<Rightarrow> run_command" where
  "recovered_terminal r ledger =
     \<lparr>rc_version = control_plane_api_version, rc_kind = ''run'', rc_accepted = True, rc_run = ar_run r,
      rc_scenario = sb_scenario (ar_submission r),
      rc_profile = target_profile_for_submission (ar_submission r), rc_host = ar_host r,
      rc_status = lr_status ledger, rc_state_dir = [], rc_evidence_dir = [], rc_failed_layer = [],
      rc_diagnostic = [], rc_hint = [], rc_stop_policy = ''unresolved'', rc_follow_up = [],
      rc_error = [], rc_warnings = []\<rparr>"

definition prepare_recovered :: "(string \<Rightarrow> host_agent option) \<Rightarrow> prepare" where
  "prepare_recovered agents s r name =
     (case agents (ar_agent r) of
        None \<Rightarrow> Inl (JournalInvalid name)
      | Some agent \<Rightarrow>
          if ar_version r \<noteq> host_agent_api_version \<or> \<not> (case validate_run_id (ar_run r) of Inl _ \<Rightarrow> False | Inr _ \<Rightarrow> True)
             \<or> name \<noteq> journal_name (ar_run r) \<or> en_host_id (ha_enrollment agent) \<noteq> ar_host r
             \<or> ar_token r = [] \<or> ar_state r \<notin> set transition_states
          then Inl (JournalInvalid name)
          else if as_state (ha_status agent) \<noteq> ''quarantined'' \<or> as_run_id (ha_status agent) \<noteq> ar_run r
                  \<or> ar_state r = ''completed''
          then Inr r
          else (case read_run_ledger_record (dk_ledgers s (ar_run r)) (ar_run r) of
                  Inl e \<Rightarrow> Inl (LedgerUnreadable e)
                | Inr ledger \<Rightarrow>
                    Inr (r\<lparr>ar_state := ''quarantined'', ar_assigned_ledger := Some ledger,
                           ar_terminal_ledger := Some ledger,
                           ar_terminal := Some (recovered_terminal r ledger)\<rparr>)))"

subsection \<open>What a transition leaves on the disk\<close>

text \<open>The effect of a whole transition, and the disk as the next process finds it.\<close>

definition applied :: "assignment_record \<Rightarrow> disk \<Rightarrow> disk" where
  "applied r s =
     (let put = (\<lambda>l. s\<lparr>dk_assignments := (dk_assignments s)(ar_run r := Some r),
                       dk_ledgers := (dk_ledgers s)(ar_run r := write_run_ledger_record (dk_ledgers s (ar_run r)) l)\<rparr>) in
      if ar_state r = ''completed''
      then (put (the (ar_terminal_ledger r)))\<lparr>dk_locks := (dk_locks s)(ar_host r := None)\<rparr>
      else (put (the (ar_assigned_ledger r)))\<lparr>dk_locks := (dk_locks s)(ar_host r := Some (lock_of r (ar_state r)))\<rparr>)"

definition restart :: "disk \<Rightarrow> disk" where
  "restart s = s\<lparr>dk_alive := True, dk_faults := []\<rparr>"

definition complete_transition :: "assignment_record \<Rightarrow> bool" where
  "complete_transition r \<longleftrightarrow>
     (if ar_state r = ''completed'' then ar_terminal_ledger r \<noteq> None else ar_assigned_ledger r \<noteq> None)"

text \<open>An effect that neither looks at nor changes the schedule.\<close>

definition quiet :: "(disk \<Rightarrow> disk) \<Rightarrow> bool" where
  "quiet f \<longleftrightarrow> (\<forall>s a fs. f (s\<lparr>dk_alive := a, dk_faults := fs\<rparr>) = (f s)\<lparr>dk_alive := a, dk_faults := fs\<rparr>)"

lemma restart_idem [simp]: "restart (restart s) = restart s"
  by (simp add: restart_def)

lemma quiet_restart: "quiet f \<Longrightarrow> restart (f s) = f (restart s)"
  by (simp add: quiet_def restart_def)

lemma mutate_cases:
  assumes "mutate f g s = (res, s')" "quiet f" "quiet g"
  shows "restart s' = restart s \<and> res \<noteq> Inr () \<or> restart s' = f (restart s)
    \<or> Dies_torn \<in> set (dk_faults s) \<and> res \<noteq> Inr () \<and> restart s' = g (restart s)"
proof -
  have same: "restart (s\<lparr>dk_faults := fs\<rparr>) = restart s" "restart (t\<lparr>dk_alive := a\<rparr>) = restart t" for fs t a
    by (simp_all add: restart_def)
  show ?thesis
    using assms
    by (auto simp: mutate_def take_fault_def same quiet_restart split: if_split_asm list.split_asm fault.split_asm)
qed

lemma mutate_calm: "quiet f \<Longrightarrow> mutate f g (restart s) = (Inr (), f (restart s))"
  by (simp add: mutate_def take_fault_def restart_def)

lemma mutate_faults: "mutate f g s = (res, s') \<Longrightarrow> quiet f \<Longrightarrow> quiet g \<Longrightarrow> set (dk_faults s') \<subseteq> set (dk_faults s)"
proof -
  assume m: "mutate f g s = (res, s')" "quiet f" "quiet g"
  have keep: "dk_faults (f t) = dk_faults t" "dk_faults (g t) = dk_faults t" for t
  proof -
    have "t = t\<lparr>dk_alive := dk_alive t, dk_faults := dk_faults t\<rparr>" by simp
    then show "dk_faults (f t) = dk_faults t" "dk_faults (g t) = dk_faults t"
      using m(2,3) unfolding quiet_def by (metis disk.select_convs(2) disk.surjective disk.update_convs(2))+
  qed
  show ?thesis
    using m(1) by (auto simp: mutate_def take_fault_def keep split: if_split_asm list.split_asm fault.split_asm)
qed

text \<open>One step of a transition: an effect that the whole transition absorbs.\<close>

definition part_of :: "assignment_record \<Rightarrow> (disk \<Rightarrow> disk) \<Rightarrow> bool" where
  "part_of r f \<longleftrightarrow> quiet f \<and> (\<forall>t. applied r (f t) = applied r t \<and> dk_journal (f t) = dk_journal t)"

lemma restart_journal [simp]: "dk_journal (restart s) = dk_journal s"
  by (simp add: restart_def)

lemma write_record_again [simp]:
  "write_run_ledger_record (write_run_ledger_record ledger r) r = write_run_ledger_record ledger r"
proof -
  have "map_of (AList.update k v ledger) k = Some v" for k v by (simp add: update_conv')
  then show ?thesis
    by (simp add: write_run_ledger_record_def Let_def split: option.split ledger_entry.split)
qed

lemma part_of_id: "part_of r (\<lambda>s. s)"
  by (simp add: part_of_def quiet_def)

lemma part_of_save: "part_of r (\<lambda>s. s\<lparr>dk_assignments := (dk_assignments s)(ar_run r := Some r)\<rparr>)"
  by (simp add: part_of_def quiet_def applied_def Let_def)

lemma part_of_ledger:
  "l = the (if ar_state r = ''completed'' then ar_terminal_ledger r else ar_assigned_ledger r) \<Longrightarrow>
     part_of r (\<lambda>s. s\<lparr>dk_ledgers := (dk_ledgers s)(ar_run r := write_run_ledger_record (dk_ledgers s (ar_run r)) l)\<rparr>)"
  by (simp add: part_of_def quiet_def applied_def Let_def)

lemma part_of_lock:
  "k = (if ar_state r = ''completed'' then None else Some (lock_of r (ar_state r))) \<Longrightarrow>
     part_of r (\<lambda>s. s\<lparr>dk_locks := (dk_locks s)(ar_host r := k)\<rparr>)"
  by (simp add: part_of_def quiet_def applied_def Let_def)

text \<open>A disk from which redoing \<open>r\<close> leads where it leads from \<open>s\<close>.\<close>

definition redoable :: "assignment_record \<Rightarrow> disk \<Rightarrow> disk \<Rightarrow> bool" where
  "redoable r s s' \<longleftrightarrow> applied r (restart s') = applied r (restart s) \<and> dk_journal s' = dk_journal s
     \<and> set (dk_faults s') \<subseteq> set (dk_faults s)"

lemma redoable_refl [simp]: "redoable r s s"
  by (simp add: redoable_def)

lemma redoable_trans: "redoable r s t \<Longrightarrow> redoable r t u \<Longrightarrow> redoable r s u"
  by (auto simp: redoable_def)

lemma mutate_part:
  assumes "mutate f (\<lambda>s. s) s = (res, s')" "part_of r f"
  shows "redoable r s s'" "res = Inr () \<Longrightarrow> restart s' = f (restart s)"
proof -
  have q: "quiet f" "quiet (\<lambda>s. s)" using assms(2) by (simp_all add: part_of_def quiet_def)
  note c = mutate_cases [OF assms(1) q] and m = mutate_faults [OF assms(1) q]
  have j: "dk_journal s' = dk_journal s"
    using c assms(2) by (metis part_of_def restart_journal)
  show "redoable r s s'" using c assms(2) m j by (auto simp: redoable_def part_of_def)
  show "res = Inr () \<Longrightarrow> restart s' = f (restart s)" using c by auto
qed

lemma and_then_cases:
  assumes "and_then m k s = (res, s')"
  obtains (failed) e where "m s = (Inl e, s')" "res = Inl e"
    | (passed) x t where "m s = (Inr x, t)" "k x t = (res, s')"
  using assms by (auto simp: and_then_def split: prod.split_asm sum.split_asm)

lemma and_then_part:
  assumes "and_then (mutate f (\<lambda>s. s)) k s = (res, s')" "part_of r f"
    and k: "\<And>t t' res'. k () t = (res', t') \<Longrightarrow>
      redoable r t t' \<and> (res' = Inr () \<longrightarrow> restart t' = h (restart t))"
  shows "redoable r s s' \<and> (res = Inr () \<longrightarrow> restart s' = h (f (restart s)))"
  using assms(1)
proof (cases rule: and_then_cases)
  case (failed e)
  then show ?thesis using mutate_part [OF failed(1) assms(2)] by simp
next
  case (passed x t)
  note m = mutate_part [OF passed(1) assms(2)]
  have "redoable r t s' \<and> (res = Inr () \<longrightarrow> restart s' = h (restart t))" using k passed(2) by simp
  then show ?thesis using m redoable_trans by auto
qed

lemma apply_result:
  assumes "apply_transition r s = (res, s')" "complete_transition r"
  shows "redoable r s s' \<and> (res = Inr () \<longrightarrow> restart s' = applied r (restart s))"
proof (cases "ar_state r = ''completed''")
  case True
  then obtain l where l: "ar_terminal_ledger r = Some l" using assms(2) by (auto simp: complete_transition_def)
  let ?a = "\<lambda>s. s\<lparr>dk_assignments := (dk_assignments s)(ar_run r := Some r)\<rparr>"
  let ?l = "\<lambda>s. s\<lparr>dk_ledgers := (dk_ledgers s)(ar_run r := write_run_ledger_record (dk_ledgers s (ar_run r)) l)\<rparr>"
  let ?k = "\<lambda>s. s\<lparr>dk_locks := (dk_locks s)(ar_host r := None)\<rparr>"
  have p: "part_of r ?l" "part_of r ?k" using True l by (auto intro!: part_of_ledger part_of_lock)
  have sync: "sync_directory t = (res', t') \<Longrightarrow> redoable r t t' \<and> (res' = Inr () \<longrightarrow> restart t' = restart t)" for t t' res'
    unfolding sync_directory_def using mutate_part [OF _ part_of_id] by blast
  have 1: "and_then (remove_host_lock (ar_host r)) (\<lambda>_. sync_directory) t = (res', t') \<Longrightarrow>
      redoable r t t' \<and> (res' = Inr () \<longrightarrow> restart t' = ?k (restart t))" for t t' res'
    unfolding remove_host_lock_def by (rule and_then_part [OF _ p(2), where h = "\<lambda>s. s"]) (assumption, erule sync)
  have 2: "and_then (replace_ledger (ar_run r) l) (\<lambda>_. and_then (remove_host_lock (ar_host r)) (\<lambda>_. sync_directory)) t
      = (res', t') \<Longrightarrow> redoable r t t' \<and> (res' = Inr () \<longrightarrow> restart t' = ?k (?l (restart t)))" for t t' res'
    unfolding replace_ledger_def by (rule and_then_part [OF _ p(1), where h = ?k]) (assumption, erule 1)
  have "redoable r s s' \<and> (res = Inr () \<longrightarrow> restart s' = ?k (?l (?a (restart s))))"
    using assms(1) True l unfolding apply_transition_def save_assignment_def
    by (intro and_then_part [OF _ part_of_save, where h = "\<lambda>s. ?k (?l s)"]) (simp, rule 2, simp)
  then show ?thesis using True l by (simp add: applied_def Let_def)
next
  case False
  then obtain l where l: "ar_assigned_ledger r = Some l" using assms(2) by (auto simp: complete_transition_def)
  let ?a = "\<lambda>s. s\<lparr>dk_assignments := (dk_assignments s)(ar_run r := Some r)\<rparr>"
  let ?l = "\<lambda>s. s\<lparr>dk_ledgers := (dk_ledgers s)(ar_run r := write_run_ledger_record (dk_ledgers s (ar_run r)) l)\<rparr>"
  let ?k = "\<lambda>s. s\<lparr>dk_locks := (dk_locks s)(ar_host r := Some (lock_of r (ar_state r)))\<rparr>"
  have p: "part_of r ?l" "part_of r ?k" using False l by (auto intro!: part_of_ledger part_of_lock)
  have save: "save_assignment r t = (res', t') \<Longrightarrow> redoable r t t' \<and> (res' = Inr () \<longrightarrow> restart t' = ?a (restart t))" for t t' res'
    unfolding save_assignment_def using mutate_part [OF _ part_of_save] by blast
  have 1: "and_then (persist_host_lock r (ar_state r)) (\<lambda>_. save_assignment r) t = (res', t') \<Longrightarrow>
      redoable r t t' \<and> (res' = Inr () \<longrightarrow> restart t' = ?a (?k (restart t)))" for t t' res'
    unfolding persist_host_lock_def by (rule and_then_part [OF _ p(2), where h = ?a]) (assumption, erule save)
  have "redoable r s s' \<and> (res = Inr () \<longrightarrow> restart s' = ?a (?k (?l (restart s))))"
    using assms(1) False l unfolding apply_transition_def replace_ledger_def
    by (intro and_then_part [OF _ p(1), where h = "\<lambda>s. ?a (?k s)"]) (simp, rule 1, simp)
  then show ?thesis using False l by (simp add: applied_def Let_def)
qed

text \<open>The journal holds \<open>r\<close> and nothing else, and redoing it gives the whole transition.\<close>

definition journalled :: "assignment_record \<Rightarrow> disk \<Rightarrow> disk \<Rightarrow> bool" where
  "journalled r s t \<longleftrightarrow> dk_journal t = [(journal_name (ar_run r), Journal (Some r))]
     \<and> (applied r (restart t))\<lparr>dk_journal := []\<rparr> = applied r (restart s)"

definition finish_transition :: "assignment_record \<Rightarrow> unit disk_op" where
  "finish_transition r =
     and_then (apply_transition r) (\<lambda>_.
     and_then (remove_journal (journal_name (ar_run r))) (\<lambda>_. sync_directory))"

lemma applied_journal: "dk_journal (applied r s) = dk_journal s"
  by (simp add: applied_def Let_def)

lemma redoable_journalled: "redoable r t t' \<Longrightarrow> journalled r s t \<Longrightarrow> journalled r s t'"
  by (simp add: journalled_def redoable_def)

lemma quiet_journal: "quiet (\<lambda>s. s\<lparr>dk_journal := f (dk_journal s)\<rparr>)" "quiet (\<lambda>s. s)"
  by (simp_all add: quiet_def)

lemma finish_result:
  assumes "finish_transition r t = (res, t')" "complete_transition r" "journalled r s t"
  shows "(journalled r s t' \<and> res \<noteq> Inr () \<or> restart t' = applied r (restart s))
    \<and> set (dk_faults t') \<subseteq> set (dk_faults t)"
  using assms(1) unfolding finish_transition_def
proof (cases rule: and_then_cases)
  case (failed e)
  then show ?thesis
    using apply_result [OF failed(1) assms(2)] redoable_journalled [OF _ assms(3)] by (auto simp: redoable_def)
next
  case (passed x t1)
  note a = apply_result [OF passed(1) assms(2)]
  have t1: "journalled r s t1" "restart t1 = applied r (restart t)" "set (dk_faults t1) \<subseteq> set (dk_faults t)"
    using a redoable_journalled [OF _ assms(3)] by (auto simp: redoable_def)
  let ?rm = "\<lambda>s. s\<lparr>dk_journal := filter (\<lambda>e. fst e \<noteq> journal_name (ar_run r)) (dk_journal s)\<rparr>"
  have gone: "?rm (restart t1) = applied r (restart s)"
  proof -
    have "filter (\<lambda>e. fst e \<noteq> journal_name (ar_run r)) (dk_journal (restart t1)) = []"
      using t1(1) by (simp add: journalled_def)
    moreover have "(restart t1)\<lparr>dk_journal := []\<rparr> = applied r (restart s)"
      using assms(3) t1(2) by (simp add: journalled_def)
    ultimately show ?thesis by simp
  qed
  from passed(2) show ?thesis
  proof (cases rule: and_then_cases)
    case (failed e)
    note c = mutate_cases [OF failed(1) [unfolded remove_journal_def] quiet_journal]
      and f = mutate_faults [OF failed(1) [unfolded remove_journal_def] quiet_journal]
    show ?thesis
    proof (cases "restart t' = ?rm (restart t1)")
      case True
      then have "restart t' = applied r (restart s)" unfolding gone .
      moreover have "set (dk_faults t') \<subseteq> set (dk_faults t)" using f t1(3) by (rule subset_trans)
      ultimately show ?thesis by blast
    next
      case False
      with c have same: "restart t' = restart t1" by (elim disjE conjE) simp_all
      have "dk_journal t' = dk_journal t1" using arg_cong [OF same, of dk_journal] by simp
      then have "journalled r s t'" using t1(1) by (simp add: journalled_def same)
      moreover have "set (dk_faults t') \<subseteq> set (dk_faults t)" using f t1(3) by (rule subset_trans)
      ultimately show ?thesis using failed(2) by simp
    qed
  next
    case (passed y t2)
    note c = mutate_cases [OF passed(1) [unfolded remove_journal_def] quiet_journal]
      and f = mutate_faults [OF passed(1) [unfolded remove_journal_def] quiet_journal]
    have "restart t2 = ?rm (restart t1)" using c by (elim disjE conjE) simp_all
    then have "restart t2 = applied r (restart s)" unfolding gone .
    moreover have "restart t' = restart t2"
      using mutate_cases [OF passed(2) [unfolded sync_directory_def] quiet_journal(2) quiet_journal(2)]
      by (elim disjE conjE) simp_all
    moreover have "set (dk_faults t') \<subseteq> set (dk_faults t)"
      using mutate_faults [OF passed(2) [unfolded sync_directory_def] quiet_journal(2) quiet_journal(2)] f t1(3)
      by (meson subset_trans)
    ultimately show ?thesis by simp
  qed
qed

lemma apply_calm: "complete_transition r \<Longrightarrow> apply_transition r (restart s) = (Inr (), applied r (restart s))"
  by (auto simp: apply_transition_def complete_transition_def applied_def Let_def and_then_def mutate_def
      take_fault_def restart_def save_assignment_def replace_ledger_def persist_host_lock_def
      remove_host_lock_def sync_directory_def split: if_split_asm)

lemma recover_one:
  assumes "journalled r s t" "prep t r (journal_name (ar_run r)) = Inr r"
  shows "recover_transitions prep t = finish_transition r t"
proof -
  have unit: "and_then m (\<lambda>_ s. (Inr (), s)) = m" for m :: "unit disk_op"
    by (auto simp: and_then_def fun_eq_iff split: prod.split sum.split)
  have nil: "recover_entries prep [] = (\<lambda>s. (Inr (), s))" by (simp add: fun_eq_iff)
  show ?thesis
    using assms
    by (simp add: recover_transitions_def journalled_def finish_transition_def journal_name_def nil unit
        del: recover_entries.simps(1))
qed

lemma recover_none: "dk_journal t = [] \<Longrightarrow> recover_transitions prep t = (Inr (), t)"
  by (simp add: recover_transitions_def)

lemma finish_calm:
  assumes "journalled r s (restart t)" "complete_transition r"
  shows "finish_transition r (restart t) = (Inr (), applied r (restart s))"
proof -
  have "filter (\<lambda>e. fst e \<noteq> journal_name (ar_run r)) (dk_journal (applied r (restart t))) = []"
    using assms(1) by (simp add: journalled_def applied_journal)
  moreover have "(applied r (restart t))\<lparr>dk_journal := []\<rparr> = applied r (restart s)"
    using assms(1) by (simp add: journalled_def)
  moreover have "dk_alive (applied r (restart t))" "dk_faults (applied r (restart t)) = []" for t
    by (simp_all add: applied_def Let_def restart_def)
  ultimately show ?thesis
    by (simp add: finish_transition_def and_then_def apply_calm [OF assms(2)] remove_journal_def sync_directory_def
        mutate_def take_fault_def)
qed

text \<open>The states of the disk while a transition is on its way.\<close>

definition in_transit :: "assignment_record \<Rightarrow> disk \<Rightarrow> disk \<Rightarrow> bool" where
  "in_transit r s t \<longleftrightarrow> restart t = restart s \<or> journalled r s t \<or> restart t = applied r (restart s)"

lemma persist_result:
  assumes "persist_transition r s = (res, t)" "complete_transition r" "dk_journal s = []"
    "Dies_torn \<notin> set (dk_faults s)"
  shows "in_transit r s t \<and> (res = Inr () \<longrightarrow> restart t = applied r (restart s))
    \<and> set (dk_faults t) \<subseteq> set (dk_faults s)"
proof -
  have p: "persist_transition r = and_then (write_journal r) (\<lambda>_. finish_transition r)"
    by (simp add: persist_transition_def finish_transition_def)
  let ?J = "\<lambda>s. s\<lparr>dk_journal := AList.update (journal_name (ar_run r)) (Journal (Some r)) (dk_journal s)\<rparr>"
  let ?T = "\<lambda>s. s\<lparr>dk_journal := AList.update (temporary_name (journal_name (ar_run r))) Alien (dk_journal s)\<rparr>"
  have q: "quiet ?J" "quiet ?T" by (rule quiet_journal)+
  have put: "journalled r s u" if "restart u = ?J (restart s)" for u
  proof -
    have "dk_journal u = [(journal_name (ar_run r), Journal (Some r))]"
      using arg_cong [OF that, of dk_journal] assms(3) by simp
    moreover have "(applied r (?J (restart s)))\<lparr>dk_journal := []\<rparr> = applied r (restart s)"
      using assms(3) by (simp add: applied_def Let_def restart_def)
    ultimately show ?thesis by (simp add: journalled_def that)
  qed
  from assms(1) [unfolded p] show ?thesis
  proof (cases rule: and_then_cases)
    case (failed e)
    note c = mutate_cases [OF failed(1) [unfolded write_journal_def] q]
      and f = mutate_faults [OF failed(1) [unfolded write_journal_def] q]
    have "restart t = restart s \<or> restart t = ?J (restart s)" using c assms(4) by blast
    then show ?thesis using put f failed(2) by (auto simp: in_transit_def)
  next
    case (passed x u)
    note c = mutate_cases [OF passed(1) [unfolded write_journal_def] q]
      and f = mutate_faults [OF passed(1) [unfolded write_journal_def] q]
    have "restart u = ?J (restart s)" using c by (elim disjE conjE) simp_all
    then have "journalled r s u" by (rule put)
    then have "(journalled r s t \<and> res \<noteq> Inr () \<or> restart t = applied r (restart s))
        \<and> set (dk_faults t) \<subseteq> set (dk_faults u)"
      by (rule finish_result [OF passed(2) assms(2)])
    then show ?thesis using f unfolding in_transit_def by blast
  qed
qed

lemma recover_in_transit:
  assumes "recover_transitions prep t = (res, u)" "in_transit r s t" "complete_transition r"
    "dk_journal s = []" "\<And>d. prep d r (journal_name (ar_run r)) = Inr r"
  shows "in_transit r s u \<and> (res = Inr () \<longrightarrow> restart u = restart s \<or> restart u = applied r (restart s))
    \<and> set (dk_faults u) \<subseteq> set (dk_faults t)"
proof (cases "journalled r s t")
  case True
  then have "finish_transition r t = (res, u)" using assms(1,5) recover_one by metis
  from finish_result [OF this assms(3) True] show ?thesis by (auto simp: in_transit_def)
next
  case False
  then have same: "restart t = restart s \<or> restart t = applied r (restart s)"
    using assms(2) by (simp add: in_transit_def)
  then have "dk_journal (restart t) = []"
    by (elim disjE) (simp_all only: applied_journal restart_journal assms(4))
  then have "dk_journal t = []" by simp
  then have "u = t" using recover_none assms(1) by (metis prod.inject)
  then show ?thesis using assms(2) same by simp
qed

lemma verify_restart: "verify_transition r (restart s) = verify_transition r s"
proof -
  have "dk_assignments (restart s) = dk_assignments s" "dk_locks (restart s) = dk_locks s"
    "dk_ledgers (restart s) = dk_ledgers s"
    by (simp_all add: restart_def)
  then show ?thesis by (simp only: verify_transition_def verify_completed_def verify_active_def)
qed

lemma commit_in_transit:
  assumes "commit_transition prep r s = (res, t)" "complete_transition r" "dk_journal s = []"
    "Dies_torn \<notin> set (dk_faults s)" "\<And>d. prep d r (journal_name (ar_run r)) = Inr r"
  shows "in_transit r s t \<and> (res = Inr () \<longrightarrow>
    restart t = applied r (restart s) \<or> restart t = restart s \<and> verify_transition r s = Inr ())
    \<and> set (dk_faults t) \<subseteq> set (dk_faults s)"
proof -
  obtain res1 t1 where 1: "persist_transition r s = (res1, t1)" by fastforce
  note p = persist_result [OF 1 assms(2-4)]
  show ?thesis
  proof (cases res1)
    case (Inr x)
    then show ?thesis using assms(1) 1 p by (auto simp: commit_transition_def)
  next
    case (Inl e)
    obtain res2 t2 where 2: "recover_transitions prep t1 = (res2, t2)" by fastforce
    note q = recover_in_transit [OF 2 conjunct1 [OF p] assms(2,3,5)]
    have "t = t2" "res = Inr () \<Longrightarrow> res2 = Inr () \<and> verify_transition r t2 = Inr ()"
      using assms(1) 1 2 Inl by (auto simp: commit_transition_def split: sum.split_asm)
    moreover have "set (dk_faults t2) \<subseteq> set (dk_faults s)" using p q by blast
    ultimately show ?thesis using q verify_restart [of r t2] verify_restart [of r s] by metis
  qed
qed

lemma recover_after:
  assumes "in_transit r s t" "complete_transition r" "dk_journal s = []"
    "\<And>d. prep d r (journal_name (ar_run r)) = Inr r"
  shows "\<exists>u. recover_transitions prep (restart t) = (Inr (), u)
    \<and> (u = restart s \<or> u = applied r (restart s)) \<and> (\<not> journalled r s t \<longrightarrow> u = restart t)"
proof (cases "journalled r s t")
  case True
  then have j: "journalled r s (restart t)" by (simp add: journalled_def)
  show ?thesis using recover_one [where prep = prep, OF j assms(4)] finish_calm [OF j assms(2)] True by simp
next
  case False
  then have same: "restart t = restart s \<or> restart t = applied r (restart s)"
    using assms(1) by (simp add: in_transit_def)
  then have "dk_journal (restart t) = []"
    by (elim disjE) (simp_all only: applied_journal restart_journal assms(3))
  then show ?thesis using same recover_none by blast
qed

text \<open>A journalled record that the restarted control plane takes as it is.\<close>

definition acceptable_transition :: "(string \<Rightarrow> host_agent option) \<Rightarrow> assignment_record \<Rightarrow> bool" where
  "acceptable_transition agents r \<longleftrightarrow>
     (case agents (ar_agent r) of
        None \<Rightarrow> False
      | Some agent \<Rightarrow>
          ar_version r = 1 \<and> validate_run_id (ar_run r) = Inr () \<and> en_host_id (ha_enrollment agent) = ar_host r
          \<and> ar_token r \<noteq> [] \<and> ar_state r \<in> set transition_states
          \<and> (as_state (ha_status agent) = ''quarantined'' \<and> as_run_id (ha_status agent) = ar_run r
             \<longrightarrow> ar_state r = ''completed''))"

lemma prepare_acceptable:
  "acceptable_transition agents r \<Longrightarrow> prepare_recovered agents d r (journal_name (ar_run r)) = Inr r"
  by (auto simp: acceptable_transition_def prepare_recovered_def host_agent_api_version_def split: option.split_asm)

text \<open>C31. The transition journal makes an assignment's transition atomic: whichever disk operations
  of a commit are refused, fail late, or kill the process, the next start recovers, and leaves
  the disk either as it was before or with the whole transition (assignment, host lock and run
  record together) and an empty journal.  A commit that reported success is there in full,
  unless an equal one was there before and passes the verification already.\<close>

theorem commit_atomic:
  assumes "commit_transition (prepare_recovered agents) r s = (res, t)"
    "acceptable_transition agents r" "complete_transition r" "dk_journal s = []"
    "Dies_torn \<notin> set (dk_faults s)"
  shows "\<exists>u. recover_transitions (prepare_recovered agents) (restart t) = (Inr (), u)
    \<and> dk_journal u = [] \<and> (u = restart s \<or> u = applied r (restart s))
    \<and> (res = Inr () \<longrightarrow> u = applied r (restart s) \<or> verify_transition r s = Inr ())"
proof -
  note prep = prepare_acceptable [OF assms(2)]
  note c = commit_in_transit [OF assms(1,3,4,5) prep]
  obtain u where u: "recover_transitions (prepare_recovered agents) (restart t) = (Inr (), u)"
    "u = restart s \<or> u = applied r (restart s)" "\<not> journalled r s t \<longrightarrow> u = restart t"
    using recover_after [where prep = "prepare_recovered agents", OF conjunct1 [OF c] assms(3,4) prep] by blast
  have "dk_journal u = []" using u(2) assms(4) by (elim disjE) (simp_all add: applied_journal)
  moreover have "u = applied r (restart s) \<or> verify_transition r s = Inr ()" if ok: "res = Inr ()"
  proof (cases "journalled r s t")
    case True
    then have "dk_journal (restart t) \<noteq> []" by (simp add: journalled_def)
    then have "restart t \<noteq> applied r (restart s)" "restart t \<noteq> restart s"
      using assms(4) by (metis applied_journal restart_journal)+
    then show ?thesis using c ok by simp
  next
    case False
    then show ?thesis using c ok u(3) by auto
  qed
  ultimately show ?thesis using u(1,2) by blast
qed

text \<open>
  The hypothesis on \<open>Dies_torn\<close> is needed: \<open>writePrivateJSON\<close> writes a temporary file into the
  journal's own directory, and the recovery refuses every name there that does not end in
  \<open>.json\<close>.  (The queue's directory skips such files, \<open>isQueuedRunAtomicTemporary\<close>.)
\<close>

lemma torn_recovery_stuck:
  assumes "dk_alive s" "dk_journal s = []" "dk_faults s = Dies_torn # fs"
    "commit_transition prep r s = (res, t)"
  shows "dk_journal t = [(temporary_name (journal_name (ar_run r)), Alien)] \<and> res \<noteq> Inr ()"
proof -
  obtain u where u: "persist_transition r s = (Inl ProcessDied, u)"
    "dk_journal u = [(temporary_name (journal_name (ar_run r)), Alien)]"
    using assms(1-3)
    by (simp add: persist_transition_def write_journal_def and_then_def mutate_def take_fault_def)
  then have "recover_transitions prep u = (Inl (JournalPath (temporary_name (journal_name (ar_run r)))), u)"
    by (simp add: recover_transitions_def)
  then show ?thesis using assms(4) u by (auto simp: commit_transition_def)
qed

text \<open>C32. A control plane that dies inside the first write of a transition does not start again by
  itself: the temporary file left in the journal's directory fails every later recovery before
  it recovers anything, and no recovery removes it.\<close>

theorem torn_journal_blocks_restart:
  assumes "dk_alive s" "dk_journal s = []" "dk_faults s = Dies_torn # fs"
    "commit_transition prep r s = (res, t)"
  shows "recover_transitions prep (restart t) =
      (Inl (JournalPath (temporary_name (journal_name (ar_run r)))), restart t)"
  using torn_recovery_stuck [OF assms] by (simp add: recover_transitions_def)

subsection \<open>Witnesses\<close>

definition sample_submission :: submission where
  "sample_submission =
     \<lparr>sb_version = 1, sb_scenario = ''smoke'', sb_profile = [], sb_stop_after = ''always'', sb_keep_ttl = [],
      sb_config_name = ''maya-stall.yaml'', sb_config = [], sb_files = [], sb_error = []\<rparr>"

definition sample_assignment :: assignment_record where
  "sample_assignment =
     \<lparr>ar_version = 1, ar_run = ''r1'', ar_agent = ''a1'', ar_host = ''h1'', ar_token = ''t'', ar_state = ''assigned'',
      ar_created = [], ar_submission = sample_submission, ar_event_prefix = [],
      ar_capabilities = sample_report, ar_build = ''2025.3'', ar_binding_required = True, ar_broker = None,
      ar_terminal = None, ar_terminal_ledger = None, ar_assigned_ledger = Some (sample_record ''r1'' ''submitted'' []),
      ar_progress = 0, ar_digest = []\<rparr>"

definition blank_disk :: "fault list \<Rightarrow> disk" where
  "blank_disk fs =
     \<lparr>dk_alive = True, dk_faults = fs, dk_journal = [], dk_assignments = Map.empty, dk_locks = Map.empty,
      dk_ledgers = (\<lambda>_. [])\<rparr>"

definition sample_agents :: "string \<Rightarrow> host_agent option" where
  "sample_agents = [''a1'' \<mapsto> sample_agent ''h1'' ''a1'']"

theorem commit_atomic_witness:
  "\<exists>u. recover_transitions (prepare_recovered sample_agents)
        (restart (snd (commit_transition (prepare_recovered sample_agents) sample_assignment
           (blank_disk [Fine, Fine, Dies])))) = (Inr (), u)
     \<and> dk_journal u = []
     \<and> (u = restart (blank_disk [Fine, Fine, Dies])
        \<or> u = applied sample_assignment (restart (blank_disk [Fine, Fine, Dies])))"
proof -
  have "acceptable_transition sample_agents sample_assignment" "complete_transition sample_assignment" by code_simp+
  moreover have "dk_journal (blank_disk fs) = []" "dk_faults (blank_disk fs) = fs" for fs
    by (simp_all add: blank_disk_def)
  moreover have "Dies_torn \<notin> set [Fine, Fine, Dies]" by simp
  ultimately show ?thesis
    using commit_atomic [of sample_agents sample_assignment "blank_disk [Fine, Fine, Dies]"] by (metis surjective_pairing)
qed

theorem torn_journal_blocks_restart_witness:
  "recover_transitions (prepare_recovered sample_agents)
      (restart (snd (commit_transition (prepare_recovered sample_agents) sample_assignment (blank_disk [Dies_torn])))) =
    (Inl (JournalPath ''.r1.json.tmp-0''),
     restart (snd (commit_transition (prepare_recovered sample_agents) sample_assignment (blank_disk [Dies_torn]))))"
proof -
  have "temporary_name (journal_name (ar_run sample_assignment)) = ''.r1.json.tmp-0''" by code_simp
  moreover have "dk_alive (blank_disk [Dies_torn])" "dk_journal (blank_disk [Dies_torn]) = []"
    "dk_faults (blank_disk [Dies_torn]) = Dies_torn # []" by (simp_all add: blank_disk_def)
  ultimately show ?thesis
    using torn_journal_blocks_restart [of "blank_disk [Dies_torn]" "[]" "prepare_recovered sample_agents" sample_assignment]
    by (metis surjective_pairing)
qed

end
