(* ===== verification/Agent_Control.thy ===== *)
theory Agent_Control
  imports Transition_Store
begin

text \<open>
  The control plane's side of the Windows Host Agents (\<open>host_agent.go\<close>): enrollment,
  authentication, process sessions with their lease, and the life of an assignment from its
  confirmation to its completion or quarantine.

  The handler's maps are lists of entries.  The Go maps hold pointers, and several handlers
  compare them after they gave up the mutex: every object carries a serial number, and an object
  that left its map can not be seen any more.  Each definition is one region under the mutex, or
  a handler that keeps it; what the outside gives (the clock, fresh tokens, the outcomes of the
  writes, the staged evidence of a finished run) is an argument.
\<close>

subsection \<open>State\<close>

record live_assignment =
  la_record :: assignment_record
  la_serial :: nat
  la_finishing :: bool
  la_finished :: bool
  la_original :: "run_ledger_record option"
  la_terminal :: "run_ledger_record option"
  la_holds_lock :: bool

record control =
  ct_agents :: "(string \<times> nat \<times> host_agent) list"
  ct_assignments :: "(string \<times> live_assignment) list"
  ct_next :: nat
  ct_disk :: disk

datatype 'a reply = Reject int string | Reply int 'a

definition find_agent :: "control \<Rightarrow> string \<Rightarrow> (nat \<times> host_agent) option" where
  "find_agent c agent = map_of (ct_agents c) agent"

definition the_agents :: "control \<Rightarrow> string \<Rightarrow> host_agent option" where
  "the_agents c agent = map_option snd (find_agent c agent)"

text \<open>A change of the object an identifier names; nothing happens when there is none.\<close>

definition change_agent :: "string \<Rightarrow> (host_agent \<Rightarrow> host_agent) \<Rightarrow> control \<Rightarrow> control" where
  "change_agent agent f c =
     (case find_agent c agent of
        None \<Rightarrow> c
      | Some (n, a) \<Rightarrow> c\<lparr>ct_agents := AList.update agent (n, f a) (ct_agents c)\<rparr>)"

definition find_assignment :: "control \<Rightarrow> string \<Rightarrow> live_assignment option" where
  "find_assignment c run = map_of (ct_assignments c) run"

definition change_assignment :: "string \<Rightarrow> (live_assignment \<Rightarrow> live_assignment) \<Rightarrow> control \<Rightarrow> control" where
  "change_assignment run f c =
     (case find_assignment c run of
        None \<Rightarrow> c
      | Some a \<Rightarrow> c\<lparr>ct_assignments := AList.update run (f a) (ct_assignments c)\<rparr>)"

definition drop_assignment :: "string \<Rightarrow> control \<Rightarrow> control" where
  "drop_assignment run c = c\<lparr>ct_assignments := AList.delete run (ct_assignments c)\<rparr>"

definition change_status :: "(agent_status \<Rightarrow> agent_status) \<Rightarrow> host_agent \<Rightarrow> host_agent" where
  "change_status f a = a\<lparr>ha_status := f (ha_status a)\<rparr>"

subsection \<open>Credentials\<close>

definition maximum_credential_bytes :: nat where
  "maximum_credential_bytes = 4096"

definition minimum_credential_bytes :: nat where
  "minimum_credential_bytes = 32"

definition hex_digit :: "nat \<Rightarrow> char" where
  "hex_digit d = ''0123456789abcdef'' ! d"

definition hex_value :: "char \<Rightarrow> nat option" where
  "hex_value c =
     (let n = of_char c :: nat in
      if 48 \<le> n \<and> n \<le> 57 then Some (n - 48)
      else if 97 \<le> n \<and> n \<le> 102 then Some (n - 87)
      else if 65 \<le> n \<and> n \<le> 70 then Some (n - 55)
      else None)"

definition hex_encode :: "string \<Rightarrow> string" where
  "hex_encode s = concat (map (\<lambda>c. [hex_digit (of_char c div 16), hex_digit (of_char c mod 16)]) s)"

fun hex_decode :: "string \<Rightarrow> string option" where
  "hex_decode [] = Some []"
| "hex_decode [c] = None"
| "hex_decode (h # l # s) =
     (case (hex_value h, hex_value l, hex_decode s) of
        (Some a, Some b, Some r) \<Rightarrow> Some (char_of (16 * a + b) # r)
      | _ \<Rightarrow> None)"

text \<open>
  \<open>requestMatchesHostAgentCredential\<close>; \<open>sha256\<close> gives the digest's bytes.  The comparison takes
  the same time for all inputs, which is not modelled.
\<close>

definition request_matches_credential :: "(string \<Rightarrow> string) \<Rightarrow> string \<Rightarrow> host_agent option \<Rightarrow> bool" where
  "request_matches_credential sha256 header agent =
     (case agent of
        None \<Rightarrow> False
      | Some a \<Rightarrow>
          (case cut_prefix header ''Bearer '' of
             None \<Rightarrow> False
           | Some provided \<Rightarrow>
               if length provided = 0 \<or> length provided > maximum_credential_bytes then False
               else (case hex_decode (en_credential_sha256 (ha_enrollment a)) of
                       None \<Rightarrow> False
                     | Some want \<Rightarrow> want = sha256 provided)))"

definition authorized_host_agent :: "(string \<Rightarrow> string) \<Rightarrow> string \<Rightarrow> string \<Rightarrow> control \<Rightarrow> bool" where
  "authorized_host_agent sha256 header agent c =
     request_matches_credential sha256 header (the_agents c agent)"

definition authorized_operator :: "string \<Rightarrow> string \<Rightarrow> bool" where
  "authorized_operator token header =
     (case cut_prefix header ''Bearer '' of None \<Rightarrow> False | Some provided \<Rightarrow> provided = token)"

subsection \<open>Process sessions\<close>

definition host_agent_session_lease :: int where
  "host_agent_session_lease = seconds 60"

definition session_over :: "int \<Rightarrow> host_agent \<Rightarrow> bool" where
  "session_over now a \<longleftrightarrow> as_session_id (ha_status a) \<noteq> [] \<and> \<not> now < ha_session_expires a"

definition end_session :: "string \<Rightarrow> host_agent \<Rightarrow> host_agent" where
  "end_session state a =
     (change_status (\<lambda>s. s\<lparr>as_session_id := [], as_state := state\<rparr>) a)\<lparr>ha_session_expires := zero_time\<rparr>"

definition expire_session :: "host_agent \<Rightarrow> host_agent" where
  "expire_session a =
     end_session (if as_run_id (ha_status a) = [] then ''offline'' else ''locked'') a"

definition touch_host_agent_session :: "int \<Rightarrow> host_agent \<Rightarrow> host_agent" where
  "touch_host_agent_session now a = a\<lparr>ha_session_expires := now + host_agent_session_lease\<rparr>"

definition accept_host_agent_session :: "int \<Rightarrow> string \<Rightarrow> string \<Rightarrow> control \<Rightarrow> bool \<times> control" where
  "accept_host_agent_session now agent session c =
     (case the_agents c agent of
        None \<Rightarrow> (False, c)
      | Some a \<Rightarrow>
          if \<not> same_lock_token session (as_session_id (ha_status a)) then (False, c)
          else if \<not> now < ha_session_expires a then (False, change_agent agent expire_session c)
          else (True, change_agent agent (touch_host_agent_session now) c))"

definition disconnect_host_agent_session :: "string \<Rightarrow> string \<Rightarrow> control \<Rightarrow> control" where
  "disconnect_host_agent_session agent session c =
     (case the_agents c agent of
        None \<Rightarrow> c
      | Some a \<Rightarrow>
          if as_run_id (ha_status a) = [] \<and> same_lock_token session (as_session_id (ha_status a))
          then change_agent agent (end_session ''offline'') c else c)"

subsection \<open>Enrollment\<close>

record enrollment_request =
  er_version :: int
  er_agent :: string
  er_host :: string
  er_credential :: string

definition valid_enrollment :: "enrollment_request \<Rightarrow> bool" where
  "valid_enrollment q \<longleftrightarrow>
     \<not> (er_version q \<noteq> host_agent_api_version \<or> validate_host_agent_id (er_agent q) \<noteq> Inr ()
        \<or> validate_host_agent_host_id (er_host q) \<noteq> Inr ()
        \<or> length (er_credential q) < minimum_credential_bytes
        \<or> length (er_credential q) > maximum_credential_bytes)"

definition new_status :: "string \<Rightarrow> string \<Rightarrow> string \<Rightarrow> agent_status" where
  "new_status agent host state =
     \<lparr>as_version = host_agent_api_version, as_kind = ''host-agent-status'', as_agent_id = agent,
      as_host_id = host, as_slots = 1, as_state = state, as_run_id = [], as_session_id = [],
      as_session_binding = False,
      as_capabilities = \<lparr>cr_version = 0, cr_reported_at = no_stamp, cr_online = False, cr_health = [],
        cr_maintenance = False, cr_quarantined = False, cr_profiles = [], cr_pools = Map.empty,
        cr_caps = \<lparr>cap_maya_builds = [], cap_session_build = [], cap_python = [], cap_broker_version = [],
          cap_broker_features = None, cap_capture = None, cap_control = None, cap_renderers = None,
          cap_gpu = None, cap_display = None, cap_licensing = None, cap_trusted = None\<rparr>\<rparr>\<rparr>"

definition new_agent :: "(string \<Rightarrow> string) \<Rightarrow> int \<Rightarrow> enrollment_request \<Rightarrow> host_agent" where
  "new_agent sha256 now q =
     \<lparr>ha_enrollment = \<lparr>en_version = host_agent_api_version, en_agent_id = er_agent q, en_host_id = er_host q,
        en_credential_sha256 = hex_encode (sha256 (er_credential q)), en_enrolled_at = format_rfc3339nano now\<rparr>,
      ha_status = new_status (er_agent q) (er_host q) ''enrolled'',
      ha_session_expires = zero_time, ha_takeover_not_before = zero_time\<rparr>"

definition agent_busy :: "host_agent \<Rightarrow> bool" where
  "agent_busy a \<longleftrightarrow> as_run_id (ha_status a) \<noteq> [] \<or> as_session_id (ha_status a) \<noteq> []
     \<or> as_state (ha_status a) = ''reserving''"

definition host_taken :: "string \<Rightarrow> string \<Rightarrow> control \<Rightarrow> bool" where
  "host_taken agent host c \<longleftrightarrow>
     list_ex (\<lambda>(i, n, a). i \<noteq> agent \<and> en_host_id (ha_enrollment a) = host) (ct_agents c)"

text \<open>\<open>io k\<close> says whether the k-th write of the handler succeeds.\<close>

definition serve_host_agent_enrollment ::
  "(string \<Rightarrow> string) \<Rightarrow> int \<Rightarrow> (nat \<Rightarrow> bool) \<Rightarrow> enrollment_request \<Rightarrow> control \<Rightarrow> agent_status reply \<times> control" where
  "serve_host_agent_enrollment sha256 now io q c =
     (if \<not> valid_enrollment q then (Reject 400 ''invalid Windows Host Agent enrollment'', c)
      else
       (let agent = er_agent q;
            over = (case the_agents c agent of None \<Rightarrow> False | Some a \<Rightarrow> session_over now a);
            c1 = (if over then change_agent agent expire_session c else c) in
        if over \<and> \<not> io 0 then (Reject 500 ''persist expired Windows Host Agent session'', c1)
        else if (case the_agents c1 agent of None \<Rightarrow> False | Some a \<Rightarrow> agent_busy a)
        then (Reject 409 ''Windows Host Agent is active'', c1)
        else if host_taken agent (er_host q) c1 then (Reject 409 ''Maya Host is already enrolled'', c1)
        else if \<not> io 1 \<or> \<not> io 2 then (Reject 500 ''persist Windows Host Agent enrollment'', c1)
        else if \<not> io 3 then (Reject 500 ''persist Windows Host Agent status'', c1)
        else (let a = new_agent sha256 now q in
              (Reply 201 (ha_status a),
               c1\<lparr>ct_agents := AList.update agent (ct_next c1, a) (ct_agents c1), ct_next := Suc (ct_next c1)\<rparr>))))"

subsection \<open>Quarantine\<close>

definition is_agent :: "control \<Rightarrow> string \<Rightarrow> nat \<Rightarrow> bool" where
  "is_agent c agent n \<longleftrightarrow> (case find_agent c agent of None \<Rightarrow> False | Some (m, a) \<Rightarrow> m = n)"

definition is_assignment :: "control \<Rightarrow> string \<Rightarrow> nat \<Rightarrow> bool" where
  "is_assignment c run n \<longleftrightarrow> (case find_assignment c run of None \<Rightarrow> False | Some a \<Rightarrow> la_serial a = n)"

datatype agent_error =
    OwnershipChanged
  | SessionChanged
  | EvidenceFailed string
  | CommitFailed disk_error
  | CleanupFailed string
  | ReleaseFailed string
  | NoTerminalState
  | LedgerReplaceFailed

text \<open>A commit of the transition store with the handler's own \<open>prepare\<close>.\<close>

definition commit :: "assignment_record \<Rightarrow> control \<Rightarrow> (disk_error, unit) result \<times> control" where
  "commit r c =
     (case commit_transition (prepare_recovered (the_agents c)) r (ct_disk c) of
        (res, d) \<Rightarrow> (res, c\<lparr>ct_disk := d\<rparr>))"

text \<open>
  What the failed run's own lifecycle stages before a quarantine: the terminal answer and the
  finalised ledger record, or the error that stops it.
\<close>

type_synonym staged = "(agent_error, run_command \<times> run_ledger_record) result"

definition quarantined_record :: "assignment_record \<Rightarrow> run_command \<Rightarrow> run_ledger_record \<Rightarrow> assignment_record" where
  "quarantined_record r terminal ledger =
     r\<lparr>ar_state := ''quarantined'', ar_assigned_ledger := Some ledger, ar_terminal_ledger := Some ledger,
       ar_terminal := Some terminal\<rparr>"

definition quarantine_locked :: "live_assignment \<Rightarrow> staged \<Rightarrow> control \<Rightarrow> (agent_error, unit) result \<times> control" where
  "quarantine_locked a staged c =
     (case staged of
        Inl e \<Rightarrow> (Inl e, c)
      | Inr (terminal, ledger) \<Rightarrow>
          (let q = quarantined_record (la_record a) terminal ledger in
           case commit q c of
             (Inl e, c1) \<Rightarrow> (Inl (CommitFailed e), c1)
           | (Inr _, c1) \<Rightarrow>
               (Inr (), change_agent (ar_agent q) (end_session ''quarantined'')
                 (change_assignment (ar_run q)
                    (\<lambda>l. l\<lparr>la_record := q, la_terminal := Some ledger, la_finished := True\<rparr>) c1))))"

text \<open>\<open>quarantineHostAgentAssignment\<close>, called with the assignment and the agent looked up before.\<close>

definition quarantine_host_agent_assignment ::
  "live_assignment \<Rightarrow> nat \<Rightarrow> staged \<Rightarrow> control \<Rightarrow> (agent_error, unit) result \<times> control" where
  "quarantine_host_agent_assignment a n staged c =
     (case find_assignment c (ar_run (la_record a)) of
        None \<Rightarrow> (Inl OwnershipChanged, c)
      | Some l \<Rightarrow>
          if la_serial l \<noteq> la_serial a \<or> \<not> is_agent c (ar_agent (la_record l)) n \<or> la_finishing l
          then (Inl OwnershipChanged, c)
          else if ar_state (la_record l) = ''quarantined'' \<and> la_finished l then (Inr (), c)
          else if ar_state (la_record l) \<noteq> ''confirmed'' \<and> ar_state (la_record l) \<noteq> ''quarantined''
          then (Inl OwnershipChanged, c)
          else quarantine_locked l staged c)"

subsection \<open>Status, registration, heartbeat\<close>

definition serve_host_agent_status ::
  "int \<Rightarrow> staged \<Rightarrow> string \<Rightarrow> control \<Rightarrow> agent_status reply \<times> control" where
  "serve_host_agent_status now staged agent c =
     (case find_agent c agent of
        None \<Rightarrow> (Reject 404 ''Windows Host Agent not found'', c)
      | Some (n, a) \<Rightarrow>
          if \<not> session_over now a then (Reply 200 (ha_status a), c)
          else
            (let expired = (\<lambda>c. let c1 = change_agent agent expire_session c in
                              (Reply 200 (ha_status (expire_session a)), c1)) in
             case find_assignment c (as_run_id (ha_status a)) of
               None \<Rightarrow> expired c
             | Some l \<Rightarrow>
                 if ar_state (la_record l) = ''confirmed'' \<and> \<not> la_finishing l
                 then (case quarantine_host_agent_assignment l n staged c of
                         (Inl e, c1) \<Rightarrow> (Reject 500 ''persist expired Windows Host Agent quarantine'', c1)
                       | (Inr _, c1) \<Rightarrow>
                           (Reply 200 (case the_agents c1 agent of None \<Rightarrow> ha_status a | Some a' \<Rightarrow> ha_status a'), c1))
                 else expired c))"

record registration_request =
  gr_version :: int
  gr_agent :: string
  gr_host :: string
  gr_slots :: int
  gr_session_binding :: bool
  gr_capabilities :: capability_record

text \<open>What a registration meets when the agent still has a run.\<close>

datatype registration_check =
    Admitted
  | Refusal string
  | QuarantineFirst live_assignment

definition check_assigned_run :: "int \<Rightarrow> host_agent \<Rightarrow> live_assignment option \<Rightarrow> registration_check" where
  "check_assigned_run now a assignment =
     (if as_run_id (ha_status a) = [] then Admitted
      else (case assignment of
              None \<Rightarrow> Admitted
            | Some l \<Rightarrow>
                if ar_state (la_record l) = ''quarantined''
                then Refusal ''Windows Host Agent assignment is quarantined''
                else if ar_state (la_record l) = ''finishing''
                then Refusal ''Windows Host Agent cleanup is still committing''
                else if la_finishing l then Refusal ''Windows Host Agent completion is still committing''
                else if ar_state (la_record l) = ''confirmed'' \<and> \<not> la_finishing l
                        \<and> (session_over now a
                           \<or> as_session_id (ha_status a) = [] \<and> \<not> now < ha_takeover_not_before a)
                then QuarantineFirst l
                else Admitted))"

definition registered :: "registration_request \<Rightarrow> string \<Rightarrow> agent_status \<Rightarrow> agent_status" where
  "registered q token s =
     s\<lparr>as_session_id := token, as_session_binding := gr_session_binding q,
       as_capabilities := gr_capabilities q,
       as_state := (if as_run_id s = [] then ''ready'' else ''locked'')\<rparr>"

definition valid_registration :: "registration_request \<Rightarrow> string \<Rightarrow> host_agent \<Rightarrow> bool" where
  "valid_registration q agent a \<longleftrightarrow>
     \<not> (gr_version q \<noteq> host_agent_api_version \<or> gr_agent q \<noteq> agent
        \<or> gr_host q \<noteq> en_host_id (ha_enrollment a) \<or> gr_slots q \<noteq> 1
        \<or> cr_version (gr_capabilities q) \<noteq> maya_host_capability_record_version
        \<or> \<not> complete_target_profile_host_pool_mapping (gr_capabilities q))"

text \<open>\<open>token\<close> is the fresh session token, or \<open>None\<close> when there is no randomness.\<close>

definition register_session ::
  "int \<Rightarrow> bool \<Rightarrow> string option \<Rightarrow> registration_request \<Rightarrow> string \<Rightarrow> host_agent \<Rightarrow> control \<Rightarrow> agent_status reply \<times> control" where
  "register_session now persisted token q agent a c =
     (if as_run_id (ha_status a) \<noteq> [] \<and> as_session_id (ha_status a) = [] \<and> now < ha_takeover_not_before a
      then (Reject 409 ''Windows Host Agent recovery grace is still active'', c)
      else if as_session_id (ha_status a) \<noteq> [] \<and> now < ha_session_expires a
      then (Reject 409 ''Windows Host Agent already has an active process'', c)
      else (case token of
              None \<Rightarrow> (Reject 500 ''create Windows Host Agent session'', c)
            | Some session \<Rightarrow>
                if \<not> persisted then (Reject 500 ''persist Windows Host Agent registration'', c)
                else (Reply 200 (registered q session (ha_status a)),
                      change_agent agent
                        (\<lambda>b. (change_status (registered q session) b)
                               \<lparr>ha_session_expires := now + host_agent_session_lease,
                                ha_takeover_not_before := zero_time\<rparr>) c)))"

definition serve_host_agent_registration ::
  "(string \<Rightarrow> string) \<Rightarrow> string \<Rightarrow> int \<Rightarrow> bool \<Rightarrow> string option \<Rightarrow> staged \<Rightarrow> registration_request \<Rightarrow> string
     \<Rightarrow> control \<Rightarrow> agent_status reply \<times> control" where
  "serve_host_agent_registration sha256 header now persisted token staged q agent c =
     (case find_agent c agent of
        None \<Rightarrow> (Reject 401 ''Windows Host Agent authentication changed'', c)
      | Some (n, a) \<Rightarrow>
          if \<not> request_matches_credential sha256 header (Some a)
          then (Reject 401 ''Windows Host Agent authentication changed'', c)
          else if \<not> valid_registration q agent a then (Reject 400 ''invalid Windows Host Agent registration'', c)
          else if as_state (ha_status a) = ''quarantined''
          then (Reject 409 ''Windows Host Agent assignment is quarantined'', c)
          else (case check_assigned_run now a (find_assignment c (as_run_id (ha_status a))) of
                  Refusal message \<Rightarrow> (Reject 409 message, c)
                | QuarantineFirst l \<Rightarrow>
                    (case quarantine_host_agent_assignment l n staged c of
                       (Inl e, c1) \<Rightarrow> (Reject 500 ''persist quarantined Windows Host Agent assignment'', c1)
                     | (Inr _, c1) \<Rightarrow>
                         (Reject 409 ''confirmed Windows Host Agent assignment quarantined after process loss'', c1))
                | Admitted \<Rightarrow> register_session now persisted token q agent a c))"

definition serve_host_agent_heartbeat ::
  "(string \<Rightarrow> string) \<Rightarrow> string \<Rightarrow> int \<Rightarrow> bool \<Rightarrow> int \<Rightarrow> string \<Rightarrow> capability_record \<Rightarrow> string
     \<Rightarrow> control \<Rightarrow> agent_status reply \<times> control" where
  "serve_host_agent_heartbeat sha256 header now persisted version session caps agent c =
     (if version \<noteq> host_agent_api_version \<or> session = [] \<or> cr_version caps \<noteq> maya_host_capability_record_version
         \<or> \<not> complete_target_profile_host_pool_mapping caps
      then (Reject 400 ''invalid Windows Host Agent heartbeat'', c)
      else if \<not> authorized_host_agent sha256 header agent c
      then (Reject 401 ''Windows Host Agent authentication changed'', c)
      else (case accept_host_agent_session now agent session c of
              (False, c1) \<Rightarrow> (Reject 409 ''Windows Host Agent session changed'', c1)
            | (True, c1) \<Rightarrow>
                (let c2 = change_agent agent (change_status (\<lambda>s. s\<lparr>as_capabilities := caps\<rparr>)) c1 in
                 if \<not> persisted then (Reject 500 ''persist Windows Host Agent capabilities'', c2)
                 else (case the_agents c2 agent of
                         None \<Rightarrow> (Reject 401 ''Windows Host Agent authentication changed'', c2)
                       | Some a \<Rightarrow> (Reply 200 (ha_status a), c2)))))"

subsection \<open>Polling and confirmation\<close>

record assignment_response =
  xr_version :: int
  xr_kind :: string
  xr_run :: string
  xr_agent :: string
  xr_host :: string
  xr_token :: string
  xr_submission :: submission
  xr_event_prefix :: string
  xr_capabilities :: capability_record
  xr_build :: string

definition assignment_response_of :: "assignment_record \<Rightarrow> assignment_response" where
  "assignment_response_of r =
     \<lparr>xr_version = host_agent_api_version, xr_kind = ''host-agent-assignment'', xr_run = ar_run r,
      xr_agent = ar_agent r, xr_host = ar_host r, xr_token = ar_token r, xr_submission = ar_submission r,
      xr_event_prefix = ar_event_prefix r, xr_capabilities = ar_capabilities r, xr_build = ar_build r\<rparr>"

text \<open>One round of the poll: an answer, or \<open>None\<close> to wait for the agent's notification.\<close>

definition poll_assignment ::
  "(string \<Rightarrow> string) \<Rightarrow> string \<Rightarrow> int \<Rightarrow> int \<Rightarrow> string \<Rightarrow> string \<Rightarrow> control
     \<Rightarrow> assignment_response reply option \<times> control" where
  "poll_assignment sha256 header now version session agent c =
     (if version \<noteq> host_agent_api_version \<or> session = []
      then (Some (Reject 400 ''invalid Windows Host Agent poll''), c)
      else if \<not> authorized_host_agent sha256 header agent c
      then (Some (Reject 401 ''Windows Host Agent authentication changed''), c)
      else (case accept_host_agent_session now agent session c of
              (False, c1) \<Rightarrow> (Some (Reject 409 ''Windows Host Agent session changed''), c1)
            | (True, c1) \<Rightarrow>
                (case the_agents c1 agent of
                   None \<Rightarrow> (None, c1)
                 | Some a \<Rightarrow>
                     if as_run_id (ha_status a) = [] then (None, c1)
                     else (case find_assignment c1 (as_run_id (ha_status a)) of
                             None \<Rightarrow> (None, c1)
                           | Some l \<Rightarrow>
                               if ar_state (la_record l) = ''assigned'' \<or> ar_state (la_record l) = ''confirmed''
                               then (Some (Reply 200 (assignment_response_of (la_record l))), c1)
                               else (None, c1)))))"

record lock_request =
  lq_version :: int
  lq_run :: string
  lq_token :: string
  lq_session :: string

text \<open>
  The guard the handlers of an assignment share: the message names the assignment, carries its
  token, and comes from the agent's live process session.  It touches the session's lease.
\<close>

definition owns_assignment ::
  "int \<Rightarrow> (live_assignment \<Rightarrow> bool) \<Rightarrow> lock_request \<Rightarrow> string \<Rightarrow> string \<Rightarrow> control \<Rightarrow> live_assignment option \<times> control" where
  "owns_assignment now allowed q agent run c =
     (case find_assignment c run of
        None \<Rightarrow> (None, c)
      | Some l \<Rightarrow>
          if lq_version q \<noteq> host_agent_api_version \<or> lq_run q \<noteq> run \<or> ar_agent (la_record l) \<noteq> agent
             \<or> \<not> same_lock_token (lq_token q) (ar_token (la_record l)) \<or> \<not> allowed l
          then (None, c)
          else (case accept_host_agent_session now agent (lq_session q) c of
                  (False, c1) \<Rightarrow> (None, c1)
                | (True, c1) \<Rightarrow> (Some l, c1)))"

definition put_record :: "assignment_record \<Rightarrow> control \<Rightarrow> control" where
  "put_record r c = change_assignment (ar_run r) (\<lambda>l. l\<lparr>la_record := r\<rparr>) c"

text \<open>
  \<open>serveHostAgentConfirm\<close>.  The first look at the assignment only finds the mutex that
  serialises its checkpoints; the guards are taken again under it.
\<close>

definition serve_host_agent_confirm ::
  "(string \<Rightarrow> string) \<Rightarrow> string \<Rightarrow> int \<Rightarrow> lock_request \<Rightarrow> string \<Rightarrow> string \<Rightarrow> control \<Rightarrow> agent_status reply \<times> control" where
  "serve_host_agent_confirm sha256 header now q agent run c =
     (if validate_run_id run \<noteq> Inr () then (Reject 400 ''invalid Host Agent Run ID'', c)
      else if \<not> authorized_host_agent sha256 header agent c
      then (Reject 401 ''Windows Host Agent authentication changed'', c)
      else (case owns_assignment now
                   (\<lambda>l. ar_state (la_record l) = ''assigned'' \<or> ar_state (la_record l) = ''confirmed'') q agent run c of
              (None, c1) \<Rightarrow> (Reject 409 ''Host Lock ownership changed'', c1)
            | (Some l, c1) \<Rightarrow>
                (let r = (la_record l)\<lparr>ar_state := ''confirmed''\<rparr>;
                     c2 = change_agent agent (change_status (\<lambda>s. s\<lparr>as_state := ''running''\<rparr>)) (put_record r c1) in
                 case commit r c2 of
                   (Inl e, c3) \<Rightarrow>
                     (Reject 500 ''persist Host Lock confirmation'',
                      change_agent agent (change_status (\<lambda>s. s\<lparr>as_state := ''locked''\<rparr>)) (put_record (la_record l) c3))
                 | (Inr _, c3) \<Rightarrow>
                     (case the_agents c3 agent of
                        None \<Rightarrow> (Reject 401 ''Windows Host Agent authentication changed'', c3)
                      | Some a \<Rightarrow> (Reply 200 (ha_status a), c3)))))"

definition serve_host_agent_session ::
  "(string \<Rightarrow> string) \<Rightarrow> string \<Rightarrow> int \<Rightarrow> lock_request \<Rightarrow> broker_identity \<Rightarrow> string \<Rightarrow> string \<Rightarrow> control
     \<Rightarrow> agent_status reply \<times> control" where
  "serve_host_agent_session sha256 header now q broker agent run c =
     (if validate_run_id run \<noteq> Inr () then (Reject 400 ''invalid Host Agent Run ID'', c)
      else if bi_adapter broker = [] \<or> bi_session broker = []
      then (Reject 400 ''invalid Maya UI Session binding'', c)
      else if \<not> authorized_host_agent sha256 header agent c
      then (Reject 401 ''Windows Host Agent authentication changed'', c)
      else (case owns_assignment now
                   (\<lambda>l. ar_binding_required (la_record l) \<and> ar_state (la_record l) = ''confirmed'') q agent run c of
              (None, c1) \<Rightarrow> (Reject 409 ''Host Lock ownership changed'', c1)
            | (Some l, c1) \<Rightarrow>
                (let answer = (\<lambda>c. case the_agents c agent of
                                    None \<Rightarrow> (Reject 401 ''Windows Host Agent authentication changed'', c)
                                  | Some a \<Rightarrow> (Reply 200 (ha_status a), c)) in
                 case ar_broker (la_record l) of
                   Some bound \<Rightarrow>
                     if bound \<noteq> broker then (Reject 409 ''Host Lock Maya UI Session changed'', c1) else answer c1
                 | None \<Rightarrow>
                     (let r = (la_record l)\<lparr>ar_broker := Some broker\<rparr> in
                      case commit r (put_record r c1) of
                        (Inl e, c2) \<Rightarrow> (Reject 500 ''persist Maya UI Session binding'', put_record (la_record l) c2)
                      | (Inr _, c2) \<Rightarrow> answer c2))))"

subsection \<open>Completion\<close>

text \<open>\<open>validHostAgentCompletionSession\<close> and \<open>validateHostAgentCompletionIdentity\<close>.\<close>

definition valid_completion_session ::
  "bool \<Rightarrow> string \<Rightarrow> broker_identity option \<Rightarrow> broker_identity option \<Rightarrow> bool" where
  "valid_completion_session binding status lock_session evidence_session \<longleftrightarrow>
     (if \<not> binding then True
      else if lock_session = None then status = ''failed'' \<and> \<not> invalid_broker_session evidence_session
      else if evidence_session = None then False
      else same_broker_session lock_session evidence_session)"

definition valid_completion_identity :: "assignment_record \<Rightarrow> run_command \<Rightarrow> bool" where
  "valid_completion_identity r t \<longleftrightarrow>
     \<not> (rc_version t \<noteq> control_plane_api_version \<or> rc_kind t \<noteq> ''run'' \<or> \<not> rc_accepted t \<or> rc_run t \<noteq> ar_run r
        \<or> rc_scenario t \<noteq> sb_scenario (ar_submission r)
        \<or> rc_profile t \<noteq> target_profile_for_submission (ar_submission r) \<or> rc_host t \<noteq> ar_host r
        \<or> rc_stop_policy t \<noteq> ''stopped'' \<or> length (rc_follow_up t) \<noteq> 0)"

definition clear_run :: "host_agent \<Rightarrow> host_agent" where
  "clear_run a = end_session ''offline'' (change_status (\<lambda>s. s\<lparr>as_run_id := []\<rparr>) a)"

text \<open>
  \<open>quarantineHostAgentCleanupFailure\<close>; \<open>evidence\<close> says whether the failure could be written into
  the evidence bundle, \<open>terminal\<close> is the answer of the failed run.
\<close>

definition quarantine_cleanup_failure ::
  "int \<Rightarrow> bool \<Rightarrow> run_command \<Rightarrow> live_assignment \<Rightarrow> agent_error \<Rightarrow> control \<Rightarrow> (agent_error, unit) result \<times> control" where
  "quarantine_cleanup_failure now evidence terminal a cleanup_error c =
     (case la_terminal a of
        None \<Rightarrow> (Inl NoTerminalState, c)
      | Some l \<Rightarrow>
          (let ledger = l\<lparr>lr_state := ''cleanup-failed'', lr_status := ''failed'',
                          lr_updated := format_rfc3339nano now, lr_completed := format_rfc3339nano now\<rparr> in
           if \<not> evidence then (Inl cleanup_error, c)
           else
             (let q = quarantined_record (la_record a) terminal ledger in
              case commit q c of
                (Inl e, c1) \<Rightarrow> (Inl cleanup_error, c1)
              | (Inr _, c1) \<Rightarrow>
                  (Inl cleanup_error,
                   change_agent (ar_agent q) (end_session ''quarantined'')
                     (change_assignment (ar_run q)
                        (\<lambda>x. x\<lparr>la_record := q, la_terminal := Some ledger, la_finishing := False,
                               la_finished := True\<rparr>) c1)))))"

text \<open>
  The end of an assignment: the transition to \<open>finishing\<close>, the cleanup of the run's state, the
  release of the host lock, the transition to \<open>completed\<close>.
\<close>

definition complete_assignment :: "live_assignment \<Rightarrow> assignment_record \<Rightarrow> control \<Rightarrow> (agent_error, unit) result \<times> control" where
  "complete_assignment a finishing c =
     (let completed = finishing\<lparr>ar_state := ''completed''\<rparr> in
      case commit completed c of
        (Inl e, c1) \<Rightarrow> (Inl (CommitFailed e), c1)
      | (Inr _, c1) \<Rightarrow>
          (Inr (), drop_assignment (ar_run completed) (change_agent (ar_agent completed) clear_run c1)))"

definition finish_host_agent_assignment ::
  "int \<Rightarrow> bool \<Rightarrow> bool \<Rightarrow> bool \<Rightarrow> run_command \<Rightarrow> run_command \<Rightarrow> live_assignment \<Rightarrow> string \<Rightarrow> control
     \<Rightarrow> (agent_error, unit) result \<times> control" where
  "finish_host_agent_assignment now cleaned released evidence terminal failed a session c =
     (case find_assignment c (ar_run (la_record a)) of
        None \<Rightarrow> (Inl OwnershipChanged, c)
      | Some l \<Rightarrow>
          if la_serial l \<noteq> la_serial a \<or> ar_state (la_record l) \<noteq> ''confirmed'' \<or> \<not> la_finishing l
          then (Inl OwnershipChanged, c)
          else
            (case accept_host_agent_session now (ar_agent (la_record l)) session c of
               (False, c1) \<Rightarrow> (Inl SessionChanged, c1)
             | (True, c1) \<Rightarrow>
                 (let finishing = (la_record l)\<lparr>ar_state := ''finishing'', ar_terminal := Some terminal,
                                    ar_terminal_ledger := la_terminal l, ar_assigned_ledger := la_terminal l\<rparr> in
                  case commit finishing c1 of
                    (Inl e, c2) \<Rightarrow> (Inl (CommitFailed e), c2)
                  | (Inr _, c2) \<Rightarrow>
                      (let c3 = put_record finishing c2; l' = l\<lparr>la_record := finishing\<rparr> in
                       if \<not> cleaned
                       then quarantine_cleanup_failure now evidence failed l' (CleanupFailed (ar_run finishing)) c3
                       else if la_holds_lock l \<and> \<not> released
                       then quarantine_cleanup_failure now evidence failed l' (ReleaseFailed (ar_host finishing)) c3
                       else complete_assignment l' finishing
                              (change_assignment (ar_run finishing) (\<lambda>x. x\<lparr>la_holds_lock := False\<rparr>) c3)))))"

definition reset_host_agent_finishing :: "bool \<Rightarrow> live_assignment \<Rightarrow> control \<Rightarrow> (agent_error, unit) result \<times> control" where
  "reset_host_agent_finishing replaced a c =
     (case find_assignment c (ar_run (la_record a)) of
        None \<Rightarrow> (Inr (), c)
      | Some l \<Rightarrow>
          if la_serial l \<noteq> la_serial a \<or> ar_state (la_record l) \<noteq> ''confirmed'' then (Inr (), c)
          else (case la_original l of
                  None \<Rightarrow> (Inr (), change_assignment (ar_run (la_record l)) (\<lambda>x. x\<lparr>la_finishing := False\<rparr>) c)
                | Some original \<Rightarrow>
                    if \<not> replaced then (Inl LedgerReplaceFailed, c)
                    else (Inr (), change_assignment (ar_run (la_record l)) (\<lambda>x. x\<lparr>la_finishing := False\<rparr>)
                            (c\<lparr>ct_disk := (ct_disk c)\<lparr>dk_ledgers := (dk_ledgers (ct_disk c))
                               (ar_run (la_record l) := write_run_ledger_record
                                  (dk_ledgers (ct_disk c) (ar_run (la_record l))) original)\<rparr>\<rparr>))))"

definition resume_finishing ::
  "bool \<Rightarrow> bool \<Rightarrow> live_assignment \<Rightarrow> control \<Rightarrow> (agent_error, run_command) result \<times> control" where
  "resume_finishing cleaned released a c =
     (case (ar_terminal (la_record a), ar_terminal_ledger (la_record a)) of
        (Some terminal, Some _) \<Rightarrow>
          if \<not> cleaned then (Inl (CleanupFailed (ar_run (la_record a))), c)
          else if \<not> released then (Inl (ReleaseFailed (ar_host (la_record a))), c)
          else (case complete_assignment a (la_record a)
                       (change_assignment (ar_run (la_record a)) (\<lambda>x. x\<lparr>la_holds_lock := False\<rparr>) c) of
                  (Inl e, c1) \<Rightarrow> (Inl e, c1)
                | (Inr _, c1) \<Rightarrow> (Inr terminal, c1))
      | _ \<Rightarrow> (Inl NoTerminalState, c))"

text \<open>
  The checks of \<open>acceptHostAgentCompletion\<close> on what the agent sent, once it is staged: the ledger
  record, the result, and the identity in the evidence bundle.
\<close>

record staged_result =
  sr_final :: bool
  sr_cleanup :: string
  sr_status :: string
  sr_result_status :: string

record staged_evidence =
  se_scenario :: string
  se_profile :: string
  se_host :: string
  se_status :: string
  se_broker :: "broker_identity option"
  se_visual :: "(string \<times> string) list"

datatype completion_error =
    TerminalMismatch
  | NotCleaned
  | CleanupIncomplete
  | EvidenceIdentity
  | EvidenceSession
  | VisualIdentity
  | StatusMismatch
  | LedgerIdentity

definition terminal_ledger_state :: "run_ledger_record \<Rightarrow> bool" where
  "terminal_ledger_state r \<longleftrightarrow>
     \<not> (lr_status r = ''passed'' \<and> lr_state r \<noteq> ''completed'' \<or> lr_status r = ''failed'' \<and> lr_state r \<noteq> ''failed''
        \<or> lr_status r \<noteq> ''passed'' \<and> lr_status r \<noteq> ''failed'')"

definition merged_ledger :: "run_ledger_record \<Rightarrow> run_ledger_record \<Rightarrow> run_ledger_record" where
  "merged_ledger original record =
     record\<lparr>lr_version := lr_version original, lr_run := lr_run original, lr_scenario := lr_scenario original,
            lr_profile := lr_profile original, lr_host := lr_host original, lr_accepted := lr_accepted original,
            lr_evidence := lr_evidence original, lr_events := lr_events original, lr_log := lr_log original,
            lr_event_count := 0, lr_event_bytes := 0, lr_events_omitted := 0, lr_events_truncated := False,
            lr_log_bytes := 0, lr_log_truncated := False\<rparr>"

definition check_completion ::
  "assignment_record \<Rightarrow> run_command \<Rightarrow> run_ledger_record \<Rightarrow> staged_result \<Rightarrow> staged_evidence \<Rightarrow> run_ledger_record
     \<Rightarrow> (completion_error, run_ledger_record) result" where
  "check_completion a terminal record res ev original =
     (let profile = target_profile_for_submission (ar_submission a) in
      if \<not> valid_completion_identity a terminal then Inl TerminalMismatch
      else if lr_host record \<noteq> ar_host a \<or> \<not> terminal_ledger_state record then Inl NotCleaned
      else if \<not> sr_final res \<or> sr_cleanup res \<noteq> ''completed'' then Inl CleanupIncomplete
      else if se_scenario ev \<noteq> sb_scenario (ar_submission a) \<or> se_profile ev \<noteq> profile \<or> se_host ev \<noteq> ar_host a
      then Inl EvidenceIdentity
      else if \<not> valid_completion_session (ar_binding_required a) (lr_status record) (ar_broker a) (se_broker ev)
      then Inl EvidenceSession
      else if list_ex (\<lambda>(p, h). p \<noteq> [] \<and> p \<noteq> profile \<or> h \<noteq> [] \<and> h \<noteq> ar_host a) (se_visual ev)
      then Inl VisualIdentity
      else if rc_status terminal \<noteq> lr_status record \<or> sr_status res \<noteq> lr_status record
              \<or> sr_result_status res \<noteq> lr_status record \<or> se_status ev \<noteq> lr_status record
      then Inl StatusMismatch
      else if lr_run record \<noteq> lr_run original \<or> lr_scenario record \<noteq> lr_scenario original
              \<or> lr_profile record \<noteq> lr_profile original \<or> lr_host record \<noteq> lr_host original
      then Inl LedgerIdentity
      else Inr (merged_ledger original record))"

text \<open>\<open>validateFinishingHostAgentAssignment\<close>, checked when a restart finds a finishing assignment.\<close>

definition valid_finishing_assignment :: "assignment_record \<Rightarrow> bool" where
  "valid_finishing_assignment a \<longleftrightarrow>
     (case (ar_terminal a, ar_terminal_ledger a, ar_assigned_ledger a) of
        (Some t, Some ledger, Some assigned) \<Rightarrow>
          valid_completion_identity a t
          \<and> \<not> (lr_run ledger \<noteq> ar_run a \<or> lr_scenario ledger \<noteq> sb_scenario (ar_submission a)
               \<or> lr_profile ledger \<noteq> target_profile_for_submission (ar_submission a) \<or> lr_host ledger \<noteq> ar_host a
               \<or> lr_accepted ledger \<noteq> lr_accepted assigned \<or> lr_status ledger \<noteq> rc_status t)
          \<and> terminal_ledger_state ledger
      | _ \<Rightarrow> False)"

text \<open>The first region of \<open>serveHostAgentComplete\<close> and \<open>serveHostAgentFail\<close>.\<close>

datatype completion_start =
    Answered "run_command reply"
  | Resumable live_assignment
  | Started live_assignment

definition begin_host_agent_completion ::
  "(string \<Rightarrow> string) \<Rightarrow> string \<Rightarrow> int \<Rightarrow> lock_request \<Rightarrow> string \<Rightarrow> string \<Rightarrow> control \<Rightarrow> completion_start \<times> control" where
  "begin_host_agent_completion sha256 header now q agent run c =
     (let conflict = Answered (Reject 409 ''Host Lock ownership changed'') in
      if validate_run_id run \<noteq> Inr () then (Answered (Reject 400 ''invalid Host Agent Run ID''), c)
      else if \<not> authorized_host_agent sha256 header agent c
      then (Answered (Reject 401 ''Windows Host Agent authentication changed''), c)
      else (case find_assignment c run of
              None \<Rightarrow>
                (case dk_assignments (ct_disk c) run of
                   None \<Rightarrow> (conflict, c)
                 | Some done \<Rightarrow>
                     (case ar_terminal done of
                        None \<Rightarrow> (conflict, c)
                      | Some t \<Rightarrow>
                          if ar_state done = ''completed'' \<and> ar_agent done = agent
                             \<and> same_lock_token (lq_token q) (ar_token done)
                          then (Answered (Reply 200 t), c) else (conflict, c)))
            | Some l \<Rightarrow>
                if ar_state (la_record l) = ''finishing''
                then (case owns_assignment now (\<lambda>_. True) q agent run c of
                        (None, c1) \<Rightarrow> (conflict, c1)
                      | (Some l', c1) \<Rightarrow> (Resumable l', c1))
                else (case owns_assignment now (\<lambda>l. ar_state (la_record l) = ''confirmed'' \<and> \<not> la_finishing l) q agent run c of
                        (None, c1) \<Rightarrow> (conflict, c1)
                      | (Some l', c1) \<Rightarrow>
                          (Started l', change_assignment run (\<lambda>x. x\<lparr>la_finishing := True\<rparr>) c1))))"

text \<open>The completion was not accepted; or it was, and its ledger records are kept for the commit.\<close>

definition abandon_completion :: "live_assignment \<Rightarrow> control \<Rightarrow> control" where
  "abandon_completion a c =
     (case find_assignment c (ar_run (la_record a)) of
        None \<Rightarrow> c
      | Some l \<Rightarrow>
          if la_serial l = la_serial a
          then change_assignment (ar_run (la_record a)) (\<lambda>x. x\<lparr>la_finishing := False\<rparr>) c else c)"

definition stage_completion :: "run_ledger_record \<Rightarrow> run_ledger_record \<Rightarrow> live_assignment \<Rightarrow> control \<Rightarrow> control" where
  "stage_completion original terminal a c =
     (case find_assignment c (ar_run (la_record a)) of
        None \<Rightarrow> c
      | Some l \<Rightarrow>
          if la_serial l = la_serial a
          then change_assignment (ar_run (la_record a))
                 (\<lambda>x. x\<lparr>la_original := Some original, la_terminal := Some terminal\<rparr>) c else c)"

definition begin_host_agent_failure ::
  "(string \<Rightarrow> string) \<Rightarrow> string \<Rightarrow> int \<Rightarrow> string \<Rightarrow> lock_request \<Rightarrow> string \<Rightarrow> string \<Rightarrow> control \<Rightarrow> completion_start \<times> control" where
  "begin_host_agent_failure sha256 header now diagnostic q agent run c =
     (if validate_run_id run \<noteq> Inr () then (Answered (Reject 400 ''invalid Host Agent Run ID''), c)
      else if lq_version q \<noteq> host_agent_api_version \<or> lq_run q \<noteq> run \<or> diagnostic = [] \<or> length diagnostic > 512
      then (Answered (Reject 400 ''invalid Windows Host Agent failure''), c)
      else if \<not> authorized_host_agent sha256 header agent c
      then (Answered (Reject 401 ''Windows Host Agent authentication changed''), c)
      else (case owns_assignment now (\<lambda>l. ar_state (la_record l) = ''confirmed'' \<and> \<not> la_finishing l) q agent run c of
              (None, c1) \<Rightarrow> (Answered (Reject 409 ''Host Lock ownership changed''), c1)
            | (Some l, c1) \<Rightarrow> (Started l, change_assignment run (\<lambda>x. x\<lparr>la_finishing := True\<rparr>) c1)))"

text \<open>
  The commit of an assignment in \<open>runScenarioThroughHostAgent\<close>, from the write-ahead marker to the
  locked agent: \<open>fresh\<close> is the assignment record, \<open>n\<close> the agent object that was selected.  The
  agent has to be the one that was reserved, still without a run and with a live session.
\<close>

definition reservation_current :: "string \<Rightarrow> nat \<Rightarrow> control \<Rightarrow> bool" where
  "reservation_current agent n c \<longleftrightarrow>
     (case find_agent c agent of
        None \<Rightarrow> False
      | Some (m, a) \<Rightarrow> m = n \<and> as_state (ha_status a) = ''reserving'' \<and> as_run_id (ha_status a) = [])"

definition lock_agent :: "string \<Rightarrow> assignment_record \<Rightarrow> control \<Rightarrow> control" where
  "lock_agent state r c =
     change_agent (ar_agent r)
       (change_status (\<lambda>s. s\<lparr>as_state := state, as_run_id := ar_run r\<rparr>))
       (c\<lparr>ct_assignments := AList.update (ar_run r)
             \<lparr>la_record = r, la_serial = ct_next c, la_finishing = False, la_finished = False,
              la_original = None, la_terminal = None, la_holds_lock = True\<rparr> (ct_assignments c),
          ct_next := Suc (ct_next c)\<rparr>)"

definition commit_assignment ::
  "int \<Rightarrow> bool \<Rightarrow> assignment_record \<Rightarrow> nat \<Rightarrow> control \<Rightarrow> (agent_error, unit) result \<times> control" where
  "commit_assignment now marked r n c =
     (if \<not> reservation_current (ar_agent r) n c then (Inl OwnershipChanged, c)
      else (case the_agents c (ar_agent r) of
              None \<Rightarrow> (Inl OwnershipChanged, c)
            | Some a \<Rightarrow>
                if as_session_id (ha_status a) = [] \<or> \<not> now < ha_session_expires a
                then (Inl SessionChanged, c)
                else (case commit r c of
                        (Inl e, c1) \<Rightarrow>
                          (Inl (CommitFailed e),
                           change_agent (ar_agent r) (end_session ''quarantined'')
                             (lock_agent ''quarantined'' (r\<lparr>ar_state := ''quarantined''\<rparr>) c1))
                      | (Inr _, c1) \<Rightarrow>
                          if marked then (Inr (), lock_agent ''locked'' r c1)
                          else (Inl (CommitFailed WriteFailed),
                                change_agent (ar_agent r) (end_session ''quarantined'')
                                  (lock_agent ''quarantined'' (r\<lparr>ar_state := ''quarantined''\<rparr>) c1)))))"

end
