(* ===== verification/Agent_System.thy ===== *)
theory Agent_System
  imports Agent_Control
begin

text \<open>
  The handlers of \<open>Agent_Control\<close> as steps of one system, in any order and with any outcome of
  their writes, and what holds in every state it reaches.
\<close>

subsection \<open>Lookups after changes\<close>

named_theorems control_simps

lemma find_agent_change [control_simps]:
  "find_agent (change_agent agent f c) x =
     (if x = agent then map_option (\<lambda>(n, a). (n, f a)) (find_agent c agent) else find_agent c x)"
  by (auto simp: change_agent_def find_agent_def update_conv' split: option.split)

lemma find_assignment_change_agent [control_simps]: "find_assignment (change_agent agent f c) = find_assignment c"
  by (auto simp: change_agent_def find_assignment_def fun_eq_iff split: option.split)

lemma find_agent_change_assignment [control_simps]: "find_agent (change_assignment run g c) = find_agent c"
  by (auto simp: change_assignment_def find_agent_def fun_eq_iff split: option.split)

lemma find_assignment_change [control_simps]:
  "find_assignment (change_assignment run g c) x =
     (if x = run then map_option g (find_assignment c run) else find_assignment c x)"
  by (auto simp: change_assignment_def find_assignment_def update_conv' split: option.split)

lemma find_drop [control_simps]:
  "find_assignment (drop_assignment run c) x = (if x = run then None else find_assignment c x)"
  "find_agent (drop_assignment run c) = find_agent c"
  by (auto simp: drop_assignment_def find_assignment_def find_agent_def fun_eq_iff delete_conv')

lemma find_disk [control_simps]:
  "find_agent (c\<lparr>ct_disk := d\<rparr>) = find_agent c" "find_assignment (c\<lparr>ct_disk := d\<rparr>) = find_assignment c"
  by (simp_all add: find_agent_def find_assignment_def fun_eq_iff)

lemma find_commit:
  "commit r c = (res, c') \<Longrightarrow> find_agent c' = find_agent c \<and> find_assignment c' = find_assignment c"
  by (auto simp: commit_def control_simps split: prod.split_asm)

lemma the_agents_find: "the_agents c x = Some a \<longleftrightarrow> (\<exists>n. find_agent c x = Some (n, a))"
  by (auto simp: the_agents_def)

subsection \<open>Coherence\<close>

text \<open>
  Every agent carries its own identifier and its enrolled host, no two agents have one host, and
  every live assignment belongs to the agent that carries its run, on that agent's host.
\<close>

definition coherent :: "control \<Rightarrow> bool" where
  "coherent c \<longleftrightarrow>
     (\<forall>i n a. find_agent c i = Some (n, a) \<longrightarrow>
        as_agent_id (ha_status a) = i \<and> as_host_id (ha_status a) = en_host_id (ha_enrollment a))
   \<and> (\<forall>i j n m a b. find_agent c i = Some (n, a) \<longrightarrow> find_agent c j = Some (m, b) \<longrightarrow>
        en_host_id (ha_enrollment a) = en_host_id (ha_enrollment b) \<longrightarrow> i = j)
   \<and> (\<forall>run l. find_assignment c run = Some l \<longrightarrow>
        run \<noteq> [] \<and> ar_run (la_record l) = run
        \<and> (\<exists>n a. find_agent c (ar_agent (la_record l)) = Some (n, a) \<and> as_run_id (ha_status a) = run
             \<and> en_host_id (ha_enrollment a) = ar_host (la_record l)))"

definition keeps_identity :: "(host_agent \<Rightarrow> host_agent) \<Rightarrow> bool" where
  "keeps_identity f \<longleftrightarrow>
     (\<forall>a. ha_enrollment (f a) = ha_enrollment a \<and> as_agent_id (ha_status (f a)) = as_agent_id (ha_status a)
        \<and> as_host_id (ha_status (f a)) = as_host_id (ha_status a)
        \<and> as_run_id (ha_status (f a)) = as_run_id (ha_status a))"

lemma keeps_identity_simps [simp, intro]:
  "keeps_identity expire_session" "keeps_identity (end_session state)"
  "keeps_identity (touch_host_agent_session now)"
  "keeps_identity (change_status (\<lambda>s. s\<lparr>as_state := state\<rparr>))"
  "keeps_identity (change_status (\<lambda>s. s\<lparr>as_capabilities := caps\<rparr>))"
  "keeps_identity (\<lambda>b. (change_status (registered q session) b)
      \<lparr>ha_session_expires := t, ha_takeover_not_before := u\<rparr>)"
  by (simp_all add: keeps_identity_def expire_session_def end_session_def touch_host_agent_session_def
      change_status_def registered_def)

definition same_identity :: "assignment_record \<Rightarrow> assignment_record \<Rightarrow> bool" where
  "same_identity r q \<longleftrightarrow> ar_run r = ar_run q \<and> ar_agent r = ar_agent q \<and> ar_host r = ar_host q"

lemma coherentD:
  assumes "coherent c"
  shows "find_agent c i = Some (n, a) \<Longrightarrow> as_agent_id (ha_status a) = i"
    "find_agent c i = Some (n, a) \<Longrightarrow> as_host_id (ha_status a) = en_host_id (ha_enrollment a)"
    "find_agent c i = Some (n, a) \<Longrightarrow> find_agent c j = Some (m, b) \<Longrightarrow>
       en_host_id (ha_enrollment a) = en_host_id (ha_enrollment b) \<Longrightarrow> i = j"
    "find_assignment c run = Some l \<Longrightarrow> run \<noteq> []"
    "find_assignment c run = Some l \<Longrightarrow> ar_run (la_record l) = run"
    "find_assignment c run = Some l \<Longrightarrow> \<exists>n a. find_agent c (ar_agent (la_record l)) = Some (n, a)
       \<and> as_run_id (ha_status a) = run \<and> en_host_id (ha_enrollment a) = ar_host (la_record l)"
  using assms unfolding coherent_def by blast+

lemma coherent_cong:
  "find_agent c' = find_agent c \<Longrightarrow> find_assignment c' = find_assignment c \<Longrightarrow> coherent c \<Longrightarrow> coherent c'"
  by (simp add: coherent_def)

lemma coherent_change_agent:
  assumes "coherent c" "keeps_identity f"
  shows "coherent (change_agent agent f c)"
proof -
  have old: "\<exists>b. find_agent c i = Some (n, b) \<and> ha_enrollment a = ha_enrollment b
      \<and> as_agent_id (ha_status a) = as_agent_id (ha_status b) \<and> as_host_id (ha_status a) = as_host_id (ha_status b)
      \<and> as_run_id (ha_status a) = as_run_id (ha_status b)"
    if "find_agent (change_agent agent f c) i = Some (n, a)" for i n a
    using that assms(2) by (auto simp: control_simps keeps_identity_def split: if_split_asm)
  have new: "\<exists>a. find_agent (change_agent agent f c) i = Some (n, a) \<and> ha_enrollment a = ha_enrollment b
      \<and> as_run_id (ha_status a) = as_run_id (ha_status b)"
    if "find_agent c i = Some (n, b)" for i n b
    using that assms(2) by (auto simp: control_simps keeps_identity_def)
  show ?thesis
    unfolding coherent_def
  proof (intro conjI allI impI)
    fix i n a
    assume "find_agent (change_agent agent f c) i = Some (n, a)"
    from old [OF this] show "as_agent_id (ha_status a) = i"
      "as_host_id (ha_status a) = en_host_id (ha_enrollment a)"
      using coherentD(1,2) [OF assms(1)] by auto
  next
    fix i j n m a b
    assume "find_agent (change_agent agent f c) i = Some (n, a)"
      "find_agent (change_agent agent f c) j = Some (m, b)"
      "en_host_id (ha_enrollment a) = en_host_id (ha_enrollment b)"
    then show "i = j" using old coherentD(3) [OF assms(1)] by metis
  next
    fix run l
    assume "find_assignment (change_agent agent f c) run = Some l"
    then have l: "find_assignment c run = Some l" by (simp add: control_simps)
    from coherentD(6) [OF assms(1) l] obtain n b where b: "find_agent c (ar_agent (la_record l)) = Some (n, b)"
      "as_run_id (ha_status b) = run" "en_host_id (ha_enrollment b) = ar_host (la_record l)" by blast
    from new [OF b(1)] show "\<exists>n a. find_agent (change_agent agent f c) (ar_agent (la_record l)) = Some (n, a)
        \<and> as_run_id (ha_status a) = run \<and> en_host_id (ha_enrollment a) = ar_host (la_record l)"
      using b(2,3) by metis
    show "run \<noteq> []" "ar_run (la_record l) = run" using coherentD(4,5) [OF assms(1) l] by auto
  qed
qed

lemma coherent_change_assignment:
  assumes "coherent c" "\<And>l. find_assignment c run = Some l \<Longrightarrow> same_identity (la_record (g l)) (la_record l)"
  shows "coherent (change_assignment run g c)"
proof -
  have old: "\<exists>k. find_assignment c i = Some k \<and> same_identity (la_record l) (la_record k)"
    if "find_assignment (change_assignment run g c) i = Some l" for i l
    using that assms(2) by (auto simp: control_simps same_identity_def split: if_split_asm)
  show ?thesis
    unfolding coherent_def find_agent_change_assignment
  proof (intro conjI allI impI)
    fix i n a
    assume "find_agent c i = Some (n, a)"
    then show "as_agent_id (ha_status a) = i" "as_host_id (ha_status a) = en_host_id (ha_enrollment a)"
      using coherentD(1,2) [OF assms(1)] by auto
  next
    fix i j n m a b
    assume "find_agent c i = Some (n, a)" "find_agent c j = Some (m, b)"
      "en_host_id (ha_enrollment a) = en_host_id (ha_enrollment b)"
    then show "i = j" using coherentD(3) [OF assms(1)] by blast
  next
    fix i l
    assume "find_assignment (change_assignment run g c) i = Some l"
    from old [OF this] obtain k where k: "find_assignment c i = Some k" "same_identity (la_record l) (la_record k)"
      by blast
    show "i \<noteq> []" "ar_run (la_record l) = i"
      "\<exists>n a. find_agent c (ar_agent (la_record l)) = Some (n, a) \<and> as_run_id (ha_status a) = i
        \<and> en_host_id (ha_enrollment a) = ar_host (la_record l)"
      using coherentD(4-6) [OF assms(1) k(1)] k(2) by (simp_all add: same_identity_def)
  qed
qed

lemma coherent_commit: "commit r c = (res, c') \<Longrightarrow> coherent c \<Longrightarrow> coherent c'"
  using find_commit coherent_cong by blast

lemma coherent_put_record:
  assumes "coherent c" "find_assignment c (ar_run r) = Some l" "same_identity r (la_record l)"
  shows "coherent (put_record r c)"
  unfolding put_record_def by (rule coherent_change_assignment) (use assms in auto)

lemma coherent_release:
  assumes c: "coherent c" and l: "find_assignment c run = Some l" and "same_identity r (la_record l)"
  shows "coherent (drop_assignment run (change_agent (ar_agent r) clear_run c))"
proof -
  have agent: "ar_agent r = ar_agent (la_record l)" using assms(3) by (simp add: same_identity_def)
  have old: "\<exists>b. find_agent c i = Some (n, b) \<and> ha_enrollment a = ha_enrollment b
      \<and> as_agent_id (ha_status a) = as_agent_id (ha_status b) \<and> as_host_id (ha_status a) = as_host_id (ha_status b)"
    if "find_agent (drop_assignment run (change_agent (ar_agent r) clear_run c)) i = Some (n, a)" for i n a
    using that by (auto simp: control_simps clear_run_def end_session_def change_status_def split: if_split_asm)
  show ?thesis
    unfolding coherent_def
  proof (intro conjI allI impI)
    fix i n a
    assume "find_agent (drop_assignment run (change_agent (ar_agent r) clear_run c)) i = Some (n, a)"
    from old [OF this] show "as_agent_id (ha_status a) = i"
      "as_host_id (ha_status a) = en_host_id (ha_enrollment a)"
      using coherentD(1,2) [OF c] by auto
  next
    fix i j n m a b
    assume "find_agent (drop_assignment run (change_agent (ar_agent r) clear_run c)) i = Some (n, a)"
      "find_agent (drop_assignment run (change_agent (ar_agent r) clear_run c)) j = Some (m, b)"
      "en_host_id (ha_enrollment a) = en_host_id (ha_enrollment b)"
    then show "i = j" using old coherentD(3) [OF c] by metis
  next
    fix i k
    assume "find_assignment (drop_assignment run (change_agent (ar_agent r) clear_run c)) i = Some k"
    then have k: "find_assignment c i = Some k" "i \<noteq> run" by (auto simp: control_simps split: if_split_asm)
    note kc = coherentD(4-6) [OF c k(1)]
    obtain n a where a: "find_agent c (ar_agent (la_record k)) = Some (n, a)" "as_run_id (ha_status a) = i"
      "en_host_id (ha_enrollment a) = ar_host (la_record k)" using kc(3) by blast
    have "ar_agent (la_record k) \<noteq> ar_agent r"
      using coherentD(6) [OF c l] a(1,2) k(2) agent by auto
    then show "\<exists>n a. find_agent (drop_assignment run (change_agent (ar_agent r) clear_run c)) (ar_agent (la_record k)) = Some (n, a)
        \<and> as_run_id (ha_status a) = i \<and> en_host_id (ha_enrollment a) = ar_host (la_record k)"
      using a by (simp add: control_simps)
    show "i \<noteq> []" "ar_run (la_record k) = i" using kc(1,2) by auto
  qed
qed

lemma find_lock_agent:
  "find_assignment (lock_agent state r c) x =
     (if x = ar_run r then Some \<lparr>la_record = r, la_serial = ct_next c, la_finishing = False, la_finished = False,
        la_original = None, la_terminal = None, la_holds_lock = True\<rparr> else find_assignment c x)"
  "find_agent (lock_agent state r c) x =
     (if x = ar_agent r
      then map_option (\<lambda>(n, a). (n, change_status (\<lambda>s. s\<lparr>as_state := state, as_run_id := ar_run r\<rparr>) a)) (find_agent c x)
      else find_agent c x)"
  by (auto simp: lock_agent_def control_simps) (simp_all add: find_assignment_def find_agent_def update_conv')

text \<open>A new assignment for an agent without a run.\<close>

lemma coherent_lock_agent:
  assumes c: "coherent c" and a: "find_agent c (ar_agent r) = Some (n, a)" "as_run_id (ha_status a) = []"
    "en_host_id (ha_enrollment a) = ar_host r" and run: "ar_run r \<noteq> []"
  shows "coherent (lock_agent state r c)"
proof -
  have old: "\<exists>b. find_agent c i = Some (m, b) \<and> ha_enrollment d = ha_enrollment b
      \<and> as_agent_id (ha_status d) = as_agent_id (ha_status b) \<and> as_host_id (ha_status d) = as_host_id (ha_status b)"
    if "find_agent (lock_agent state r c) i = Some (m, d)" for i m d
    using that by (auto simp: find_lock_agent change_status_def split: if_split_asm)
  show ?thesis
    unfolding coherent_def
  proof (intro conjI allI impI)
    fix i m d
    assume "find_agent (lock_agent state r c) i = Some (m, d)"
    from old [OF this] show "as_agent_id (ha_status d) = i" "as_host_id (ha_status d) = en_host_id (ha_enrollment d)"
      using coherentD(1,2) [OF c] by auto
  next
    fix i j m k d b
    assume "find_agent (lock_agent state r c) i = Some (m, d)" "find_agent (lock_agent state r c) j = Some (k, b)"
      "en_host_id (ha_enrollment d) = en_host_id (ha_enrollment b)"
    then show "i = j" using old coherentD(3) [OF c] by metis
  next
    fix i l
    assume l: "find_assignment (lock_agent state r c) i = Some l"
    show "i \<noteq> []" "ar_run (la_record l) = i"
      using l run coherentD(4,5) [OF c] by (auto simp: find_lock_agent split: if_split_asm)
    show "\<exists>m d. find_agent (lock_agent state r c) (ar_agent (la_record l)) = Some (m, d)
        \<and> as_run_id (ha_status d) = i \<and> en_host_id (ha_enrollment d) = ar_host (la_record l)"
    proof (cases "i = ar_run r")
      case True
      then show ?thesis using l a by (auto simp: find_lock_agent change_status_def)
    next
      case False
      then have k: "find_assignment c i = Some l" using l by (simp add: find_lock_agent)
      then have "ar_agent (la_record l) \<noteq> ar_agent r"
        using coherentD(4,6) [OF c k] a(1,2) by auto
      then show ?thesis using coherentD(6) [OF c k] by (simp add: find_lock_agent)
    qed
  qed
qed

subsection \<open>The handlers keep the state coherent\<close>

lemma accept_session:
  assumes "accept_host_agent_session now agent session c = (b, c')" "coherent c"
  shows "coherent c'" "find_assignment c' = find_assignment c"
  using assms
  by (auto simp: accept_host_agent_session_def control_simps intro: coherent_change_agent
      split: option.split_asm if_split_asm)

lemma owns_assignment_result:
  assumes "owns_assignment now allowed q agent run c = (res, c')" "coherent c"
  shows "coherent c'" "find_assignment c' = find_assignment c"
    "res = Some l \<Longrightarrow> find_assignment c run = Some l \<and> ar_agent (la_record l) = agent \<and> allowed l"
proof -
  have "coherent c' \<and> find_assignment c' = find_assignment c
      \<and> (res = Some l \<longrightarrow> find_assignment c run = Some l \<and> ar_agent (la_record l) = agent \<and> allowed l)"
    using assms accept_session [OF _ assms(2)]
    by (auto simp: owns_assignment_def split: option.split_asm if_split_asm prod.split_asm bool.split_asm)
  then show "coherent c'" "find_assignment c' = find_assignment c"
    "res = Some l \<Longrightarrow> find_assignment c run = Some l \<and> ar_agent (la_record l) = agent \<and> allowed l" by auto
qed

lemma same_identity_simps [simp]:
  "same_identity r r" "same_identity (quarantined_record r t l) r"
  "same_identity (r\<lparr>ar_state := s\<rparr>) q = same_identity r q"
  "same_identity (r\<lparr>ar_broker := b\<rparr>) q = same_identity r q"
  "same_identity (r\<lparr>ar_terminal := x\<rparr>) q = same_identity r q"
  "same_identity (r\<lparr>ar_terminal_ledger := y\<rparr>) q = same_identity r q"
  "same_identity (r\<lparr>ar_assigned_ledger := y\<rparr>) q = same_identity r q"
  by (simp_all add: same_identity_def quarantined_record_def)

text \<open>The change of an assignment's record to one of the same identity, in a state with its entry.\<close>

lemma coherent_new_record:
  assumes "coherent c" "find_assignment c (ar_run (la_record l)) = Some k" "same_identity (la_record k) (la_record l)"
    "same_identity r (la_record l)" "\<And>x. la_record (g x) = r"
  shows "coherent (change_assignment (ar_run r) g c)"
proof (rule coherent_change_assignment [OF assms(1)])
  fix x
  assume "find_assignment c (ar_run r) = Some x"
  then have "x = k" using assms(2,4) by (simp add: same_identity_def)
  then show "same_identity (la_record (g x)) (la_record x)"
    using assms(3,4,5) by (auto simp: same_identity_def)
qed

lemma coherent_flag:
  "coherent c \<Longrightarrow> (\<And>x. la_record (g x) = la_record x) \<Longrightarrow> coherent (change_assignment run g c)"
  by (rule coherent_change_assignment) auto

lemma quarantine_locked_coherent:
  assumes "quarantine_locked l staged c = (res, c')" "coherent c" "find_assignment c (ar_run (la_record l)) = Some l"
  shows "coherent c'"
proof (cases staged)
  case (Inr p)
  obtain t k where p: "p = (t, k)" by (cases p)
  let ?q = "quarantined_record (la_record l) t k"
  obtain r c1 where r: "commit ?q c = (r, c1)" by fastforce
  then have c1: "coherent c1" "find_assignment c1 = find_assignment c"
    using coherent_commit assms(2) find_commit by blast+
  have "coherent (change_assignment (ar_run ?q) (\<lambda>x. x\<lparr>la_record := ?q, la_terminal := Some k, la_finished := True\<rparr>) c1)"
    by (rule coherent_new_record [OF c1(1), of l l]) (use assms(3) c1(2) in auto)
  then show ?thesis
    using assms(1) Inr p r c1(1) by (auto simp: quarantine_locked_def Let_def intro: coherent_change_agent split: sum.split_asm)
qed (use assms in \<open>auto simp: quarantine_locked_def\<close>)

lemma quarantine_coherent:
  assumes "quarantine_host_agent_assignment a n staged c = (res, c')" "coherent c"
  shows "coherent c'"
proof -
  have "coherent c'" if "quarantine_locked l staged c = (res, c')" "find_assignment c (ar_run (la_record a)) = Some l" for l
    using quarantine_locked_coherent [OF that(1) assms(2)] coherentD(5) [OF assms(2) that(2)] that(2) by simp
  then show ?thesis
    using assms by (auto simp: quarantine_host_agent_assignment_def split: option.split_asm if_split_asm)
qed

lemma status_coherent:
  "serve_host_agent_status now staged agent c = (res, c') \<Longrightarrow> coherent c \<Longrightarrow> coherent c'"
  by (auto simp: serve_host_agent_status_def Let_def intro: coherent_change_agent quarantine_coherent
      split: option.split_asm if_split_asm prod.split_asm sum.split_asm)

lemma registration_coherent:
  "serve_host_agent_registration sha256 header now persisted token staged q agent c = (res, c') \<Longrightarrow>
     coherent c \<Longrightarrow> coherent c'"
  by (auto simp: serve_host_agent_registration_def register_session_def intro: coherent_change_agent quarantine_coherent
      split: option.split_asm if_split_asm prod.split_asm sum.split_asm registration_check.split_asm)

lemma heartbeat_coherent:
  "serve_host_agent_heartbeat sha256 header now persisted version session caps agent c = (res, c') \<Longrightarrow>
     coherent c \<Longrightarrow> coherent c'"
  using accept_session(1) [where c = c]
  by (auto simp: serve_host_agent_heartbeat_def Let_def intro: coherent_change_agent
      split: option.split_asm if_split_asm prod.split_asm bool.split_asm)

lemma poll_coherent:
  "poll_assignment sha256 header now version session agent c = (res, c') \<Longrightarrow> coherent c \<Longrightarrow> coherent c'"
  using accept_session(1) [where c = c]
  by (auto simp: poll_assignment_def split: option.split_asm if_split_asm prod.split_asm bool.split_asm)

lemma disconnect_coherent: "coherent c \<Longrightarrow> coherent (disconnect_host_agent_session agent session c)"
  by (auto simp: disconnect_host_agent_session_def intro: coherent_change_agent split: option.split)

lemma confirm_coherent:
  assumes "serve_host_agent_confirm sha256 header now q agent run c = (res, c')" "coherent c"
  shows "coherent c'"
proof -
  let ?allowed = "\<lambda>l. ar_state (la_record l) = ''assigned'' \<or> ar_state (la_record l) = ''confirmed''"
  obtain o1 c1 where o: "owns_assignment now ?allowed q agent run c = (o1, c1)" by fastforce
  note o1 = owns_assignment_result [OF o assms(2)]
  show ?thesis
  proof (cases o1)
    case None
    then show ?thesis using assms o o1(1) by (auto simp: serve_host_agent_confirm_def split: if_split_asm)
  next
    case (Some l)
    note l = o1(3) [OF Some]
    have l1: "find_assignment c1 (ar_run (la_record l)) = Some l"
      using l o1(2) coherentD(5) [OF assms(2)] by auto
    let ?r = "(la_record l)\<lparr>ar_state := ''confirmed''\<rparr>"
    let ?c2 = "change_agent agent (change_status (\<lambda>s. s\<lparr>as_state := ''running''\<rparr>)) (put_record ?r c1)"
    have c2: "coherent ?c2"
      by (intro coherent_change_agent coherent_put_record [OF o1(1), of _ l]) (use l1 in auto)
    obtain r3 c3 where r3: "commit ?r ?c2 = (r3, c3)" by fastforce
    have c3: "coherent c3" "find_assignment c3 = find_assignment ?c2"
      using coherent_commit [OF r3 c2] find_commit [OF r3] by auto
    have "coherent (put_record (la_record l) c3)"
      by (rule coherent_put_record [OF c3(1), of _ "l\<lparr>la_record := ?r\<rparr>"])
        (use l1 c3(2) in \<open>auto simp: control_simps put_record_def same_identity_def\<close>)
    then show ?thesis
      using assms o Some r3 c3(1)
      by (auto simp: serve_host_agent_confirm_def Let_def intro: coherent_change_agent
          split: if_split_asm sum.split_asm option.split_asm)
  qed
qed

lemma session_coherent:
  assumes "serve_host_agent_session sha256 header now q broker agent run c = (res, c')" "coherent c"
  shows "coherent c'"
proof -
  let ?allowed = "\<lambda>l. ar_binding_required (la_record l) \<and> ar_state (la_record l) = ''confirmed''"
  obtain o1 c1 where o: "owns_assignment now ?allowed q agent run c = (o1, c1)" by fastforce
  note o1 = owns_assignment_result [OF o assms(2)]
  show ?thesis
  proof (cases o1)
    case None
    then show ?thesis using assms o o1(1) by (auto simp: serve_host_agent_session_def split: if_split_asm)
  next
    case (Some l)
    note l = o1(3) [OF Some]
    have l1: "find_assignment c1 (ar_run (la_record l)) = Some l"
      using l o1(2) coherentD(5) [OF assms(2)] by auto
    let ?r = "(la_record l)\<lparr>ar_broker := Some broker\<rparr>"
    have c2: "coherent (put_record ?r c1)"
      by (rule coherent_put_record [OF o1(1), of _ l]) (use l1 in auto)
    obtain r3 c3 where r3: "commit ?r (put_record ?r c1) = (r3, c3)" by fastforce
    have c3: "coherent c3" "find_assignment c3 = find_assignment (put_record ?r c1)"
      using coherent_commit [OF r3 c2] find_commit [OF r3] by auto
    have "coherent (put_record (la_record l) c3)"
      by (rule coherent_put_record [OF c3(1), of _ "l\<lparr>la_record := ?r\<rparr>"])
        (use l1 c3(2) in \<open>auto simp: control_simps put_record_def same_identity_def\<close>)
    then show ?thesis
      using assms o Some r3 c3(1) o1(1)
      by (auto simp: serve_host_agent_session_def Let_def split: if_split_asm sum.split_asm option.split_asm)
  qed
qed

lemma begin_completion_coherent:
  assumes "begin_host_agent_completion sha256 header now q agent run c = (res, c')" "coherent c"
  shows "coherent c'"
  using assms owns_assignment_result(1) [OF _ assms(2)]
  by (auto simp: begin_host_agent_completion_def Let_def intro: coherent_flag
      split: if_split_asm sum.split_asm option.split_asm prod.split_asm)

lemma begin_failure_coherent:
  assumes "begin_host_agent_failure sha256 header now diagnostic q agent run c = (res, c')" "coherent c"
  shows "coherent c'"
  using assms owns_assignment_result(1) [OF _ assms(2)]
  by (auto simp: begin_host_agent_failure_def intro: coherent_flag split: if_split_asm option.split_asm prod.split_asm)

lemma stage_coherent:
  "coherent c \<Longrightarrow> coherent (stage_completion original terminal a c)" "coherent c \<Longrightarrow> coherent (abandon_completion a c)"
  by (auto simp: stage_completion_def abandon_completion_def intro: coherent_flag split: option.split)

lemma reset_coherent:
  assumes "reset_host_agent_finishing replaced a c = (res, c')" "coherent c"
  shows "coherent c'"
proof -
  have d: "coherent (c\<lparr>ct_disk := d\<rparr>)" for d
    by (rule coherent_cong [OF _ _ assms(2)]) (simp_all add: control_simps)
  show ?thesis
    using assms d by (auto simp: reset_host_agent_finishing_def intro: coherent_flag split: option.split_asm if_split_asm)
qed

lemma cleanup_failure_coherent:
  assumes "quarantine_cleanup_failure now evidence terminal a e c = (res, c')" "coherent c"
    "find_assignment c (ar_run (la_record a)) = Some k" "same_identity (la_record k) (la_record a)"
  shows "coherent c'"
proof (cases "la_terminal a")
  case (Some t)
  let ?ledger = "t\<lparr>lr_state := ''cleanup-failed'', lr_status := ''failed'',
      lr_updated := format_rfc3339nano now, lr_completed := format_rfc3339nano now\<rparr>"
  let ?q = "quarantined_record (la_record a) terminal ?ledger"
  obtain r c1 where r: "commit ?q c = (r, c1)" by fastforce
  then have c1: "coherent c1" "find_assignment c1 = find_assignment c"
    using coherent_commit assms(2) find_commit by blast+
  have "coherent (change_assignment (ar_run ?q)
      (\<lambda>x. x\<lparr>la_record := ?q, la_terminal := Some ?ledger, la_finishing := False, la_finished := True\<rparr>) c1)"
    by (rule coherent_new_record [OF c1(1), of a k]) (use assms(3,4) c1(2) in auto)
  then show ?thesis
    using assms(1,2) Some r c1(1)
    by (auto simp: quarantine_cleanup_failure_def Let_def intro: coherent_change_agent split: sum.split_asm if_split_asm)
qed (use assms in \<open>auto simp: quarantine_cleanup_failure_def\<close>)

lemma complete_coherent:
  assumes "complete_assignment a r c = (res, c')" "coherent c" "find_assignment c (ar_run r) = Some k"
    "same_identity r (la_record k)"
  shows "coherent c'"
proof -
  obtain x c1 where x: "commit (r\<lparr>ar_state := ''completed''\<rparr>) c = (x, c1)" by fastforce
  then have c1: "coherent c1" "find_assignment c1 = find_assignment c"
    using coherent_commit assms(2) find_commit by blast+
  have "coherent (drop_assignment (ar_run r) (change_agent (ar_agent (r\<lparr>ar_state := ''completed''\<rparr>)) clear_run c1))"
    by (rule coherent_release [OF c1(1)]) (use assms(3,4) c1(2) in auto)
  then show ?thesis using assms(1) x c1(1) by (auto simp: complete_assignment_def Let_def split: sum.split_asm)
qed

lemma finish_coherent:
  assumes "finish_host_agent_assignment now cleaned released evidence terminal failed a session c = (res, c')" "coherent c"
  shows "coherent c'"
proof (cases "find_assignment c (ar_run (la_record a))")
  case (Some l)
  obtain b c1 where b: "accept_host_agent_session now (ar_agent (la_record l)) session c = (b, c1)" by fastforce
  note c1 = accept_session [OF b assms(2)]
  have l: "find_assignment c1 (ar_run (la_record l)) = Some l" "ar_run (la_record l) = ar_run (la_record a)"
    using Some c1(2) coherentD(5) [OF assms(2) Some] by auto
  define f where "f = (la_record l)\<lparr>ar_state := ''finishing'', ar_terminal := Some terminal,
      ar_terminal_ledger := la_terminal l, ar_assigned_ledger := la_terminal l\<rparr>"
  have id: "same_identity f (la_record l)" "ar_run f = ar_run (la_record l)" by (simp_all add: f_def)
  obtain x c2 where x: "commit f c1 = (x, c2)" by fastforce
  have c2: "coherent c2" "find_assignment c2 = find_assignment c1"
    using coherent_commit [OF x c1(1)] find_commit [OF x] by auto
  have c3: "coherent (put_record f c2)" "find_assignment (put_record f c2) (ar_run f) = Some (l\<lparr>la_record := f\<rparr>)"
    using coherent_put_record [OF c2(1), of f l] l id c2(2) by (auto simp: put_record_def control_simps)
  let ?c4 = "change_assignment (ar_run f) (\<lambda>x. x\<lparr>la_holds_lock := False\<rparr>) (put_record f c2)"
  have c4: "coherent ?c4" "find_assignment ?c4 (ar_run f) = Some (l\<lparr>la_record := f, la_holds_lock := False\<rparr>)"
    using coherent_flag [OF c3(1)] c3(2) by (auto simp: control_simps)
  have fail: "coherent c'" if "quarantine_cleanup_failure now evidence failed (l\<lparr>la_record := f\<rparr>) e (put_record f c2) = (res, c')" for e
    by (rule cleanup_failure_coherent [OF that c3(1), of "l\<lparr>la_record := f\<rparr>"]) (use c3(2) in auto)
  have finish: "coherent c'" if "complete_assignment (l\<lparr>la_record := f\<rparr>) f ?c4 = (res, c')"
    by (rule complete_coherent [OF that c4(1,2)]) simp
  show ?thesis
    using assms Some b x c1(1) c2(1) fail finish
    by (auto simp: finish_host_agent_assignment_def Let_def f_def [symmetric]
        split: if_split_asm bool.split_asm sum.split_asm)
qed (use assms in \<open>auto simp: finish_host_agent_assignment_def\<close>)

lemma resume_coherent:
  assumes "resume_finishing cleaned released a c = (res, c')" "coherent c"
    "find_assignment c (ar_run (la_record a)) = Some a"
  shows "coherent c'"
proof -
  let ?c1 = "change_assignment (ar_run (la_record a)) (\<lambda>x. x\<lparr>la_holds_lock := False\<rparr>) c"
  obtain y c2 where y: "complete_assignment a (la_record a) ?c1 = (y, c2)" by fastforce
  have "coherent c2"
    by (rule complete_coherent [OF y, of "a\<lparr>la_holds_lock := False\<rparr>"])
      (use assms(2,3) in \<open>auto simp: control_simps intro: coherent_flag\<close>)
  then show ?thesis
    using assms(1,2) y by (auto simp: resume_finishing_def split: option.split_asm if_split_asm sum.split_asm)
qed

lemma enrollment_coherent:
  assumes "serve_host_agent_enrollment sha256 now io q c = (res, c')" "coherent c"
  shows "coherent c'"
proof -
  let ?i = "er_agent q"
  define c1 where "c1 = (if (case the_agents c ?i of None \<Rightarrow> False | Some a \<Rightarrow> session_over now a)
      then change_agent ?i expire_session c else c)"
  have c1: "coherent c1" using assms(2) by (auto simp: c1_def intro: coherent_change_agent)
  have "coherent (c1\<lparr>ct_agents := AList.update ?i (n, new_agent sha256 now q) (ct_agents c1), ct_next := m\<rparr>)"
    if free: "\<not> (case the_agents c1 ?i of None \<Rightarrow> False | Some a \<Rightarrow> agent_busy a)" "\<not> host_taken ?i (er_host q) c1" for n m
  proof -
    let ?c = "c1\<lparr>ct_agents := AList.update ?i (n, new_agent sha256 now q) (ct_agents c1), ct_next := m\<rparr>"
    have f: "find_agent ?c i = (if i = ?i then Some (n, new_agent sha256 now q) else find_agent c1 i)"
      "find_assignment ?c = find_assignment c1" for i
      by (auto simp: find_agent_def find_assignment_def update_conv' fun_eq_iff)
    have other: "en_host_id (ha_enrollment a) \<noteq> er_host q" if "find_agent c1 i = Some (k, a)" "i \<noteq> ?i" for i k a
      using free(2) map_of_SomeD [OF that(1) [unfolded find_agent_def]] that(2)
      by (auto simp: host_taken_def list_ex_iff)
    have idle: "as_run_id (ha_status a) = []" if "find_agent c1 ?i = Some (k, a)" for k a
      using free(1) that by (simp add: the_agents_def agent_busy_def)
    show ?thesis
      unfolding coherent_def f
    proof (intro conjI allI impI)
      fix i k a
      assume "(if i = ?i then Some (n, new_agent sha256 now q) else find_agent c1 i) = Some (k, a)"
      then show "as_agent_id (ha_status a) = i" "as_host_id (ha_status a) = en_host_id (ha_enrollment a)"
        using coherentD(1,2) [OF c1] by (auto simp: new_agent_def new_status_def split: if_split_asm)
    next
      fix i j k l a b
      assume "(if i = ?i then Some (n, new_agent sha256 now q) else find_agent c1 i) = Some (k, a)"
        "(if j = ?i then Some (n, new_agent sha256 now q) else find_agent c1 j) = Some (l, b)"
        "en_host_id (ha_enrollment a) = en_host_id (ha_enrollment b)"
      note h = this
      have new: "en_host_id (ha_enrollment (new_agent sha256 now q)) = er_host q" by (simp add: new_agent_def)
      show "i = j"
      proof (cases "i = ?i")
        case True
        then have "a = new_agent sha256 now q" using h(1) by simp
        then have "en_host_id (ha_enrollment b) = er_host q" using h(3) new by simp
        then show ?thesis using True h(2) other [of j l b] by (cases "j = ?i") auto
      next
        case False
        then have a: "find_agent c1 i = Some (k, a)" using h(1) by simp
        show ?thesis
        proof (cases "j = ?i")
          case True
          then have "b = new_agent sha256 now q" using h(2) by simp
          then show ?thesis using h(3) new other [OF a False] by simp
        next
          case False
          then show ?thesis using h(2,3) coherentD(3) [OF c1 a] by simp
        qed
      qed
    next
      fix run l
      assume l: "find_assignment c1 run = Some l"
      note d = coherentD(4-6) [OF c1 l]
      show "run \<noteq> []" "ar_run (la_record l) = run" using d(1,2) by auto
      have "ar_agent (la_record l) \<noteq> ?i" using d(1,3) idle by auto
      then show "\<exists>k a. (if ar_agent (la_record l) = ?i then Some (n, new_agent sha256 now q)
            else find_agent c1 (ar_agent (la_record l))) = Some (k, a)
          \<and> as_run_id (ha_status a) = run \<and> en_host_id (ha_enrollment a) = ar_host (la_record l)"
        using d(3) by simp
    qed
  qed
  then show ?thesis
    using assms c1
    by (auto simp: serve_host_agent_enrollment_def Let_def c1_def [symmetric] intro: coherent_change_agent
        split: if_split_asm)
qed

lemma commit_assignment_coherent:
  assumes "commit_assignment now marked r n c = (res, c')" "coherent c" "ar_run r \<noteq> []"
    "\<And>a. the_agents c (ar_agent r) = Some a \<Longrightarrow> as_host_id (ha_status a) = ar_host r"
  shows "coherent c'"
proof (cases "reservation_current (ar_agent r) n c")
  case True
  then obtain a where a: "find_agent c (ar_agent r) = Some (n, a)" "as_run_id (ha_status a) = []"
    by (auto simp: reservation_current_def split: option.split_asm prod.split_asm)
  then have ag: "the_agents c (ar_agent r) = Some a" by (simp add: the_agents_def)
  have host: "en_host_id (ha_enrollment a) = ar_host r"
    using assms(4) [OF ag] coherentD(2) [OF assms(2) a(1)] by simp
  obtain x c1 where x: "commit r c = (x, c1)" by fastforce
  have c1: "coherent c1" "find_agent c1 = find_agent c"
    using coherent_commit [OF x assms(2)] find_commit [OF x] by auto
  have l: "coherent (lock_agent state (r\<lparr>ar_state := s\<rparr>) c1)" "coherent (lock_agent state r c1)" for state s
    by (rule coherent_lock_agent [OF c1(1)]; use a host assms(3) c1(2) in simp)+
  show ?thesis
    using assms(1,2) True ag x l
    by (auto simp: commit_assignment_def intro: coherent_change_agent split: if_split_asm sum.split_asm)
qed (use assms in \<open>simp add: commit_assignment_def\<close>)

subsection \<open>The system\<close>

text \<open>
  One step is one region under the handler's mutex.  The clock \<open>now\<close>, the outcomes of writes,
  fresh tokens and staged results are whatever the step chooses; \<open>a\<close> is an assignment some
  handler looked up earlier.  \<open>Reserve\<close> and \<open>Unreserve\<close> stand for the dispatcher of the queue,
  which only moves an agent's state between \<open>ready\<close> and \<open>reserving\<close>.
\<close>

inductive agent_step :: "(string \<Rightarrow> string) \<Rightarrow> control \<Rightarrow> control \<Rightarrow> bool" for sha256 where
  Enroll: "serve_host_agent_enrollment sha256 now io q c = (res, c') \<Longrightarrow> agent_step sha256 c c'"
| Status: "serve_host_agent_status now staged agent c = (res1, c') \<Longrightarrow> agent_step sha256 c c'"
| Register: "serve_host_agent_registration sha256 header now persisted token staged g agent c = (res1, c') \<Longrightarrow>
    agent_step sha256 c c'"
| Heartbeat: "serve_host_agent_heartbeat sha256 header now persisted version session caps agent c = (res1, c') \<Longrightarrow>
    agent_step sha256 c c'"
| Poll: "poll_assignment sha256 header now version session agent c = (res2, c') \<Longrightarrow> agent_step sha256 c c'"
| Disconnect: "agent_step sha256 c (disconnect_host_agent_session agent session c)"
| Reserve: "agent_step sha256 c (change_agent agent (change_status (\<lambda>s. s\<lparr>as_state := state\<rparr>)) c)"
| Assign: "commit_assignment now marked r n c = (res3, c') \<Longrightarrow> ar_run r \<noteq> [] \<Longrightarrow>
    (\<And>a. the_agents c (ar_agent r) = Some a \<Longrightarrow> as_host_id (ha_status a) = ar_host r) \<Longrightarrow> agent_step sha256 c c'"
| Confirm: "serve_host_agent_confirm sha256 header now lq agent run c = (res1, c') \<Longrightarrow> agent_step sha256 c c'"
| Bind: "serve_host_agent_session sha256 header now lq broker agent run c = (res1, c') \<Longrightarrow> agent_step sha256 c c'"
| Complete: "begin_host_agent_completion sha256 header now lq agent run c = (res4, c') \<Longrightarrow> agent_step sha256 c c'"
| Fail: "begin_host_agent_failure sha256 header now diagnostic lq agent run c = (res4, c') \<Longrightarrow> agent_step sha256 c c'"
| Stage: "agent_step sha256 c (stage_completion original terminal a c)"
| Abandon: "agent_step sha256 c (abandon_completion a c)"
| Finish: "finish_host_agent_assignment now cleaned released evidence cmd failed a session c = (res3, c') \<Longrightarrow>
    agent_step sha256 c c'"
| Reset: "reset_host_agent_finishing replaced a c = (res3, c') \<Longrightarrow> agent_step sha256 c c'"
| Resume: "find_assignment c (ar_run (la_record a)) = Some a \<Longrightarrow>
    resume_finishing cleaned released a c = (res5, c') \<Longrightarrow> agent_step sha256 c c'"
| Quarantine: "quarantine_host_agent_assignment a n staged c = (res3, c') \<Longrightarrow> agent_step sha256 c c'"

lemmas agent_step_coherent_rules =
  enrollment_coherent status_coherent registration_coherent heartbeat_coherent poll_coherent
  disconnect_coherent commit_assignment_coherent confirm_coherent session_coherent
  begin_completion_coherent begin_failure_coherent stage_coherent finish_coherent reset_coherent
  resume_coherent quarantine_coherent

lemma step_coherent: "agent_step sha256 c c' \<Longrightarrow> coherent c \<Longrightarrow> coherent c'"
  by (induction rule: agent_step.induct)
    (blast intro: agent_step_coherent_rules coherent_change_agent keeps_identity_simps)+

definition empty_control :: "disk \<Rightarrow> control" where
  "empty_control d = \<lparr>ct_agents = [], ct_assignments = [], ct_next = 0, ct_disk = d\<rparr>"

lemma coherent_empty: "coherent (empty_control d)"
  by (simp add: coherent_def empty_control_def find_agent_def find_assignment_def)

lemma reachable_coherent: "(agent_step sha256)\<^sup>*\<^sup>* (empty_control d) c \<Longrightarrow> coherent c"
  by (induction rule: rtranclp_induct) (auto intro: coherent_empty step_coherent)

text \<open>C33. At any time, after any sequence of requests in any order with any failures and losses, a
  Maya Host has at most one live assignment: two assignments with the same host are the same
  run.  And an agent whose identifier the assignment names is enrolled for that host and
  carries that run.\<close>

theorem one_assignment_per_host:
  assumes "(agent_step sha256)\<^sup>*\<^sup>* (empty_control d) c"
    "find_assignment c run1 = Some l1" "find_assignment c run2 = Some l2"
    "ar_host (la_record l1) = ar_host (la_record l2)"
  shows "run1 = run2 \<and> (\<exists>a. the_agents c (ar_agent (la_record l1)) = Some a
    \<and> en_host_id (ha_enrollment a) = ar_host (la_record l1) \<and> as_run_id (ha_status a) = run1)"
proof -
  note c = reachable_coherent [OF assms(1)]
  obtain n a where a: "find_agent c (ar_agent (la_record l1)) = Some (n, a)" "as_run_id (ha_status a) = run1"
    "en_host_id (ha_enrollment a) = ar_host (la_record l1)" using coherentD(6) [OF c assms(2)] by blast
  obtain m b where b: "find_agent c (ar_agent (la_record l2)) = Some (m, b)" "as_run_id (ha_status b) = run2"
    "en_host_id (ha_enrollment b) = ar_host (la_record l2)" using coherentD(6) [OF c assms(3)] by blast
  have "ar_agent (la_record l1) = ar_agent (la_record l2)"
    using coherentD(3) [OF c a(1) b(1)] a(3) b(3) assms(4) by simp
  then have "run1 = run2" using a(1,2) b(1,2) by simp
  then show ?thesis using a by (auto simp: the_agents_def)
qed

subsection \<open>Completion\<close>

lemma commit_success:
  assumes "commit r c = (Inr (), c')" "acceptable_transition (the_agents c) r" "complete_transition r"
    "dk_journal (ct_disk c) = []" "Dies_torn \<notin> set (dk_faults (ct_disk c))"
  shows "dk_journal (ct_disk c') = []" "Dies_torn \<notin> set (dk_faults (ct_disk c'))"
    "ar_state r = ''completed'' \<Longrightarrow> dk_locks (ct_disk c') (ar_host r) = None"
proof -
  obtain d where d: "commit_transition (prepare_recovered (the_agents c)) r (ct_disk c) = (Inr (), d)" "ct_disk c' = d"
    using assms(1) by (auto simp: commit_def split: prod.split_asm)
  note t = commit_in_transit [OF d(1) assms(3,4,5) prepare_acceptable [OF assms(2)]]
  have cases: "restart d = applied r (restart (ct_disk c))
      \<or> restart d = restart (ct_disk c) \<and> verify_transition r (ct_disk c) = Inr ()" using t by simp
  then have "dk_journal (restart d) = []"
    by (elim disjE conjE) (simp_all only: applied_journal restart_journal assms(4))
  then show "dk_journal (ct_disk c') = []" by (simp add: d(2))
  show "Dies_torn \<notin> set (dk_faults (ct_disk c'))" using t assms(5) d(2) by blast
  show "dk_locks (ct_disk c') (ar_host r) = None" if done': "ar_state r = ''completed''"
  proof -
    have locks: "dk_locks (restart s) = dk_locks s" for s by (simp add: restart_def)
    have "dk_locks (restart d) (ar_host r) = None"
      using cases
    proof (elim disjE conjE)
      assume "restart d = applied r (restart (ct_disk c))"
      then show ?thesis using done' by (simp add: applied_def Let_def)
    next
      assume d': "restart d = restart (ct_disk c)" and v: "verify_transition r (ct_disk c) = Inr ()"
      then have "dk_locks (ct_disk c) (ar_host r) = None"
        using done' by (auto simp: verify_transition_def verify_completed_def
            split: option.split_asm if_split_asm sum.split_asm)
      then show ?thesis using d' locks by metis
    qed
    then show ?thesis using d(2) locks by metis
  qed
qed

lemma disk_changes [simp]:
  "ct_disk (change_agent agent f c) = ct_disk c" "ct_disk (change_assignment run g c) = ct_disk c"
  "ct_disk (drop_assignment run c) = ct_disk c" "ct_disk (put_record r c) = ct_disk c"
  by (simp_all add: change_agent_def change_assignment_def drop_assignment_def put_record_def split: option.split)

lemma accept_session_true:
  "accept_host_agent_session now agent session c = (True, c') \<Longrightarrow>
     ct_disk c' = ct_disk c \<and> the_agents c' = (\<lambda>x. if x = agent then map_option (touch_host_agent_session now) (the_agents c x) else the_agents c x)"
  by (auto simp: accept_host_agent_session_def the_agents_def control_simps fun_eq_iff
      split: option.split_asm if_split_asm)

lemma the_agents_changes [simp]:
  "the_agents (change_assignment run g c) = the_agents c" "the_agents (put_record r c) = the_agents c"
  "the_agents (drop_assignment run c) = the_agents c"
  by (simp_all add: the_agents_def fun_eq_iff control_simps put_record_def)

lemma commit_the_agents: "commit r c = (res, c') \<Longrightarrow> the_agents c' = the_agents c"
  using find_commit by (auto simp: the_agents_def fun_eq_iff)

text \<open>What a finished assignment has behind it.\<close>

definition released_host :: "control \<Rightarrow> assignment_record \<Rightarrow> bool" where
  "released_host c r \<longleftrightarrow>
     find_assignment c (ar_run r) = None \<and> dk_locks (ct_disk c) (ar_host r) = None
   \<and> (case the_agents c (ar_agent r) of
        None \<Rightarrow> False
      | Some a \<Rightarrow> as_state (ha_status a) = ''offline'' \<and> as_run_id (ha_status a) = [] \<and> as_session_id (ha_status a) = [])"

lemma complete_assignment_releases:
  assumes "complete_assignment l r c = (Inr (), c')" "acceptable_transition (the_agents c) r"
    "ar_terminal_ledger r \<noteq> None" "dk_journal (ct_disk c) = []" "Dies_torn \<notin> set (dk_faults (ct_disk c))"
  shows "released_host c' r"
proof -
  let ?r = "r\<lparr>ar_state := ''completed''\<rparr>"
  obtain c1 where c1: "commit ?r c = (Inr (), c1)"
    "c' = drop_assignment (ar_run r) (change_agent (ar_agent r) clear_run c1)"
    using assms(1) by (auto simp: complete_assignment_def Let_def split: prod.split_asm sum.split_asm)
  have acc: "acceptable_transition (the_agents c) ?r"
    using assms(2) by (auto simp: acceptable_transition_def transition_states_def split: option.split_asm)
  have comp: "complete_transition ?r" using assms(3) by (simp add: complete_transition_def)
  obtain a where a: "the_agents c (ar_agent r) = Some a"
    using assms(2) by (auto simp: acceptable_transition_def split: option.split_asm)
  then obtain n where n: "find_agent c1 (ar_agent r) = Some (n, a)"
    using commit_the_agents [OF c1(1)] by (metis the_agents_find)
  have "dk_locks (ct_disk c1) (ar_host r) = None"
    using commit_success(3) [OF c1(1) acc comp assms(4,5)] by simp
  then show ?thesis
    using n by (simp add: released_host_def c1(2) control_simps the_agents_def clear_run_def end_session_def change_status_def)
qed

text \<open>C34. An assignment that finishes successfully leaves nothing behind: the run's state was cleaned,
  the shared lock was released when it was held, the durable host lock is gone, the assignment
  is gone, and the agent has no run and no session - on a disk with arbitrary failing writes.\<close>

theorem completion_releases_host:
  assumes "finish_host_agent_assignment now cleaned released evidence terminal failed a session c = (Inr (), c')"
    "find_assignment c (ar_run (la_record a)) = Some l" "ar_run (la_record l) = ar_run (la_record a)"
    "acceptable_transition (the_agents c) (la_record l)" "la_terminal l \<noteq> None"
    "\<And>x. the_agents c (ar_agent (la_record l)) = Some x \<Longrightarrow> as_state (ha_status x) \<noteq> ''quarantined''"
    "dk_journal (ct_disk c) = []" "Dies_torn \<notin> set (dk_faults (ct_disk c))"
  shows "cleaned \<and> (la_holds_lock l \<longrightarrow> released) \<and> released_host c' (la_record l)"
proof -
  obtain b c1 where b: "accept_host_agent_session now (ar_agent (la_record l)) session c = (b, c1)" by fastforce
  define f where "f = (la_record l)\<lparr>ar_state := ''finishing'', ar_terminal := Some terminal,
      ar_terminal_ledger := la_terminal l, ar_assigned_ledger := la_terminal l\<rparr>"
  obtain x c2 where x: "commit f c1 = (x, c2)" by fastforce
  let ?c4 = "change_assignment (ar_run f) (\<lambda>x. x\<lparr>la_holds_lock := False\<rparr>) (put_record f c2)"
  have fail: "quarantine_cleanup_failure now evidence failed k e d \<noteq> (Inr (), c')" for k e d
    by (auto simp: quarantine_cleanup_failure_def Let_def split: option.split if_split prod.split sum.split)
  have parts: "b" "x = Inr ()" "cleaned" "la_holds_lock l \<longrightarrow> released"
    "complete_assignment (l\<lparr>la_record := f\<rparr>) f ?c4 = (Inr (), c')"
    using assms(1,2) b x fail
    by (auto simp: finish_host_agent_assignment_def Let_def f_def [symmetric]
        split: if_split_asm bool.split_asm sum.split_asm)
  have b': "accept_host_agent_session now (ar_agent (la_record l)) session c = (True, c1)" using b parts(1) by simp
  note s = accept_session_true [OF b']
  have acc: "acceptable_transition (the_agents c1) f"
    using assms(4,6) s by (auto simp: acceptable_transition_def f_def transition_states_def touch_host_agent_session_def
        split: option.split_asm)
  have comp: "complete_transition f" using assms(5) by (simp add: complete_transition_def f_def)
  have x': "commit f c1 = (Inr (), c2)" using x parts(2) by simp
  have j: "dk_journal (ct_disk c1) = []" "Dies_torn \<notin> set (dk_faults (ct_disk c1))" using s assms(7,8) by simp_all
  note k = commit_success(1,2) [OF x' acc comp j]
  have "released_host c' f"
    by (rule complete_assignment_releases [OF parts(5)])
      (use acc k assms(5) commit_the_agents [OF x'] in \<open>simp_all add: f_def\<close>)
  then have "released_host c' (la_record l)" by (simp add: released_host_def f_def)
  then show ?thesis using parts(3,4) by blast
qed

subsection \<open>Witnesses\<close>

definition sample_enrollment :: enrollment_request where
  "sample_enrollment =
     \<lparr>er_version = 1, er_agent = ''a1'', er_host = ''h1'', er_credential = replicate 32 (CHR ''k'')\<rparr>"

definition sample_registration :: registration_request where
  "sample_registration =
     \<lparr>gr_version = 1, gr_agent = ''a1'', gr_host = ''h1'', gr_slots = 1, gr_session_binding = True,
      gr_capabilities = sample_report\<rparr>"

definition enrolled_control :: control where
  "enrolled_control =
     snd (serve_host_agent_enrollment (\<lambda>s. s) 0 (\<lambda>_. True) sample_enrollment (empty_control (blank_disk [])))"

definition registered_control :: control where
  "registered_control =
     snd (serve_host_agent_registration (\<lambda>s. s) (''Bearer '' @ replicate 32 (CHR ''k'')) 0 True (Some ''s'')
       (Inl OwnershipChanged) sample_registration ''a1'' enrolled_control)"

definition reserved_control :: control where
  "reserved_control = change_agent ''a1'' (change_status (\<lambda>s. s\<lparr>as_state := ''reserving''\<rparr>)) registered_control"

definition assigned_control :: control where
  "assigned_control = snd (commit_assignment 0 True sample_assignment 0 reserved_control)"

lemma assigned_reachable: "(agent_step (\<lambda>s. s))\<^sup>*\<^sup>* (empty_control (blank_disk [])) assigned_control"
proof -
  have "agent_step (\<lambda>s. s) (empty_control (blank_disk [])) enrolled_control"
    unfolding enrolled_control_def by (rule Enroll) (rule surjective_pairing)
  moreover have "agent_step (\<lambda>s. s) enrolled_control registered_control"
    unfolding registered_control_def by (rule Register) (rule surjective_pairing)
  moreover have "agent_step (\<lambda>s. s) registered_control reserved_control"
    unfolding reserved_control_def by (rule Reserve)
  moreover have "map_option (\<lambda>a. as_host_id (ha_status a)) (the_agents reserved_control ''a1'') = Some ''h1''" by code_simp
  then have "agent_step (\<lambda>s. s) reserved_control assigned_control"
    unfolding assigned_control_def
    by (intro Assign [OF surjective_pairing]) (auto simp: sample_assignment_def)
  ultimately show ?thesis by (meson r_into_rtranclp rtranclp_trans)
qed

theorem one_assignment_per_host_witness:
  "\<exists>l. find_assignment assigned_control ''r1'' = Some l
     \<and> (\<exists>a. the_agents assigned_control (ar_agent (la_record l)) = Some a
          \<and> en_host_id (ha_enrollment a) = ar_host (la_record l) \<and> as_run_id (ha_status a) = ''r1'')"
proof -
  have "find_assignment assigned_control ''r1'' \<noteq> None" by code_simp
  then obtain l where l: "find_assignment assigned_control ''r1'' = Some l" by blast
  then show ?thesis using one_assignment_per_host [OF assigned_reachable l l refl] by blast
qed

definition finishing_assignment :: live_assignment where
  "finishing_assignment =
     \<lparr>la_record = sample_assignment\<lparr>ar_state := ''confirmed''\<rparr>, la_serial = 1, la_finishing = True,
      la_finished = False, la_original = None, la_terminal = Some (sample_record ''r1'' ''completed'' []),
      la_holds_lock = True\<rparr>"

definition finishing_control :: control where
  "finishing_control =
     \<lparr>ct_agents = [(''a1'', 0, change_status (\<lambda>s. s\<lparr>as_state := ''running'', as_run_id := ''r1''\<rparr>) (sample_agent ''h1'' ''a1''))],
      ct_assignments = [(''r1'', finishing_assignment)], ct_next = 2, ct_disk = blank_disk []\<rparr>"

definition sample_terminal :: run_command where
  "sample_terminal = recovered_terminal sample_assignment (sample_record ''r1'' ''completed'' [])"

theorem completion_releases_host_witness:
  "\<exists>c'. finish_host_agent_assignment 0 True True True sample_terminal sample_terminal finishing_assignment ''s1''
        finishing_control = (Inr (), c') \<and> released_host c' (la_record finishing_assignment)"
proof -
  have "(case fst (finish_host_agent_assignment 0 True True True sample_terminal sample_terminal
      finishing_assignment ''s1'' finishing_control) of Inl _ \<Rightarrow> False | Inr _ \<Rightarrow> True)" by code_simp
  then obtain c' where c': "finish_host_agent_assignment 0 True True True sample_terminal sample_terminal
      finishing_assignment ''s1'' finishing_control = (Inr (), c')"
    by (cases "finish_host_agent_assignment 0 True True True sample_terminal sample_terminal
      finishing_assignment ''s1'' finishing_control") (auto split: sum.split_asm)
  have run: "ar_run (la_record finishing_assignment) = ''r1''" by code_simp
  have find: "find_assignment finishing_control ''r1'' = Some finishing_assignment"
    by (simp add: finishing_control_def find_assignment_def)
  have acc: "acceptable_transition (the_agents finishing_control) (la_record finishing_assignment)" by code_simp
  have state: "map_option (\<lambda>x. as_state (ha_status x)) (the_agents finishing_control (ar_agent (la_record finishing_assignment)))
      = Some ''running''" by code_simp
  have disk: "dk_journal (ct_disk finishing_control) = []" "Dies_torn \<notin> set (dk_faults (ct_disk finishing_control))"
    by code_simp+
  have staged: "la_terminal finishing_assignment \<noteq> None" by (simp add: finishing_assignment_def)
  have find': "find_assignment finishing_control (ar_run (la_record finishing_assignment)) = Some finishing_assignment"
    unfolding run by (rule find)
  have running: "as_state (ha_status x) \<noteq> ''quarantined''"
    if "the_agents finishing_control (ar_agent (la_record finishing_assignment)) = Some x" for x
    using state unfolding that by simp
  have "True \<and> (la_holds_lock finishing_assignment \<longrightarrow> True) \<and> released_host c' (la_record finishing_assignment)"
    by (rule completion_releases_host [OF c' find' refl acc staged _ disk]) (rule running)
  with c' show ?thesis by blast
qed

end
