(* ===== verification/Run_Queue.thy ===== *)
theory Run_Queue
  imports Agent_System
begin

text \<open>
  The control plane's run queue (\<open>run_queue.go\<close>): admission, the order of the queue, the
  dispatcher that lets every idle host claim the earliest run it is compatible with, selection,
  cancellation, and what a status answer says of a queued run.

  The dispatcher gives the mutex up while it takes a host lock, so a dispatch is a sequence of
  regions: the start of a pass, a claim, its settlement, and the publication of the errors at
  the end of the pass.  A queued run is an object with a serial number, as an agent is.
\<close>

subsection \<open>State\<close>

record queue_record =
  qr_version :: int
  qr_run :: string
  qr_state :: string
  qr_accepted :: string
  qr_submission :: submission
  qr_pool :: string
  qr_requirements :: scenario_requirements

datatype selection_error =
    AcquireFailed string string
  | ReleaseFailedFor string string
  | LoadFailed string

record queued_run =
  qd_record :: queue_record
  qd_serial :: nat
  qd_dispatching :: bool
  qd_canceled :: bool
  qd_cancellation_active :: bool
  qd_waiter_released :: bool
  qd_signalled :: bool
  qd_selected :: "(string \<times> nat) option"
  qd_error :: "selection_error option"
  qd_capabilities :: "capability_record option"
  qd_build :: string
  qd_holds_lock :: bool
  qd_contended :: bool

record scheduler =
  sd_control :: control
  sd_queue :: "(string \<times> queued_run) list"
  sd_intents :: "string \<Rightarrow> queue_record option"
  sd_admissions :: nat
  sd_running :: bool
  sd_cycles :: nat
  sd_next :: nat

definition maximum_queued_runs :: nat where
  "maximum_queued_runs = 1000"

definition find_queued :: "scheduler \<Rightarrow> string \<Rightarrow> queued_run option" where
  "find_queued s run = map_of (sd_queue s) run"

definition change_queued :: "string \<Rightarrow> (queued_run \<Rightarrow> queued_run) \<Rightarrow> scheduler \<Rightarrow> scheduler" where
  "change_queued run f s =
     (case find_queued s run of
        None \<Rightarrow> s
      | Some q \<Rightarrow> s\<lparr>sd_queue := AList.update run (f q) (sd_queue s)\<rparr>)"

definition drop_queued :: "string \<Rightarrow> scheduler \<Rightarrow> scheduler" where
  "drop_queued run s = s\<lparr>sd_queue := AList.delete run (sd_queue s)\<rparr>"

definition new_queued_run :: "queue_record \<Rightarrow> nat \<Rightarrow> queued_run" where
  "new_queued_run r n =
     \<lparr>qd_record = r, qd_serial = n, qd_dispatching = False, qd_canceled = False,
      qd_cancellation_active = False, qd_waiter_released = False, qd_signalled = False,
      qd_selected = None, qd_error = None, qd_capabilities = None, qd_build = [],
      qd_holds_lock = False, qd_contended = False\<rparr>"

definition change_control :: "(control \<Rightarrow> control) \<Rightarrow> scheduler \<Rightarrow> scheduler" where
  "change_control f s = s\<lparr>sd_control := f (sd_control s)\<rparr>"

definition agent_list :: "scheduler \<Rightarrow> host_agent list" where
  "agent_list s = map (snd \<circ> snd) (ct_agents (sd_control s))"

subsection \<open>Admission\<close>

definition queue_target_profile :: "queue_record \<Rightarrow> string" where
  "queue_target_profile r =
     (if sb_profile (qr_submission r) = [] then ''default'' else sb_profile (qr_submission r))"

text \<open>An agent that can be given a run: bound to a live process session.\<close>

definition bound_agent :: "int \<Rightarrow> host_agent \<Rightarrow> bool" where
  "bound_agent now a \<longleftrightarrow>
     as_session_id (ha_status a) \<noteq> [] \<and> as_slots (ha_status a) = 1 \<and> as_session_binding (ha_status a)
   \<and> now < ha_session_expires a"

definition offers_profile :: "host_agent \<Rightarrow> string \<Rightarrow> string \<Rightarrow> bool" where
  "offers_profile a profile pool \<longleftrightarrow>
     profile \<in> set (cr_profiles (as_capabilities (ha_status a)))
   \<and> map_str (cr_pools (as_capabilities (ha_status a))) profile = pool"

definition agent_compatible :: "int \<Rightarrow> scenario_requirements \<Rightarrow> host_agent \<Rightarrow> bool" where
  "agent_compatible now requirements a \<longleftrightarrow>
     cd_compatible (decide_maya_host_compatibility requirements (as_capabilities (ha_status a)) now)"

datatype admission_error =
    QueueFull
  | ConflictingPools string "string list"
  | NoCompatibleAgent "candidate_reason list"

definition reported_pools :: "int \<Rightarrow> string \<Rightarrow> scenario_requirements \<Rightarrow> host_agent list \<Rightarrow> string list" where
  "reported_pools now profile requirements agents =
     remdups (filter (\<lambda>p. p \<noteq> [])
       (map (\<lambda>a. map_str (cr_pools (as_capabilities (ha_status a))) profile)
         (filter (\<lambda>a. bound_agent now a
              \<and> as_state (ha_status a) \<in> set [''ready'', ''reserving'', ''locked'', ''running'']
              \<and> profile \<in> set (cr_profiles (as_capabilities (ha_status a)))
              \<and> agent_compatible now requirements a) agents)))"

definition queue_admission ::
  "int \<Rightarrow> string \<Rightarrow> scenario_requirements \<Rightarrow> host_agent list \<Rightarrow> (admission_error, string) result" where
  "queue_admission now profile requirements agents =
     (case reported_pools now profile requirements agents of
        [pool] \<Rightarrow> Inr pool
      | [] \<Rightarrow> Inl (NoCompatibleAgent
                (snd (compatible_host_agent_candidates (map Some agents) profile requirements now)))
      | pools \<Rightarrow> Inl (ConflictingPools profile (sort_strings pools)))"

definition waiting_queue_count :: "scheduler \<Rightarrow> nat" where
  "waiting_queue_count s = length (filter (\<lambda>(run, q). \<not> qd_canceled q) (sd_queue s))"

text \<open>
  The regions of \<open>queueHostAgentRun\<close> for a new run: the reservation of a place, the abandonment of
  the place when the acceptance fails, and the insertion once the run is durably queued.
\<close>

definition reserve_place ::
  "int \<Rightarrow> submission \<Rightarrow> scenario_requirements \<Rightarrow> scheduler \<Rightarrow> (admission_error, string) result \<times> scheduler" where
  "reserve_place now submission requirements s =
     (if waiting_queue_count s + sd_admissions s \<ge> maximum_queued_runs then (Inl QueueFull, s)
      else (case queue_admission now (target_profile_for_submission submission) requirements (agent_list s) of
              Inl e \<Rightarrow> (Inl e, s)
            | Inr pool \<Rightarrow> (Inr pool, s\<lparr>sd_admissions := Suc (sd_admissions s)\<rparr>)))"

definition abandon_place :: "scheduler \<Rightarrow> scheduler" where
  "abandon_place s = s\<lparr>sd_admissions := sd_admissions s - 1\<rparr>"

definition admitting_record :: "string \<Rightarrow> submission \<Rightarrow> string \<Rightarrow> scenario_requirements \<Rightarrow> queue_record" where
  "admitting_record run submission pool requirements =
     \<lparr>qr_version = 1, qr_run = run, qr_state = ''admitting'', qr_accepted = [], qr_submission = submission,
      qr_pool = pool, qr_requirements = requirements\<rparr>"

definition insert_queued_run :: "queue_record \<Rightarrow> string \<Rightarrow> scheduler \<Rightarrow> scheduler" where
  "insert_queued_run r accepted_at s =
     (let r' = r\<lparr>qr_state := ''queued'', qr_accepted := accepted_at\<rparr> in
      s\<lparr>sd_admissions := sd_admissions s - 1,
        sd_intents := (sd_intents s)(qr_run r' := Some r'),
        sd_queue := AList.update (qr_run r') (new_queued_run r' (sd_next s)) (sd_queue s),
        sd_next := Suc (sd_next s)\<rparr>)"

text \<open>A recovered run whose state could not be loaded stays in the queue, inert until a restart.\<close>

definition load_failed :: "string \<Rightarrow> nat \<Rightarrow> string \<Rightarrow> scheduler \<Rightarrow> scheduler" where
  "load_failed run n message s =
     (case find_queued s run of
        None \<Rightarrow> s
      | Some q \<Rightarrow>
          if qd_serial q = n
          then change_queued run (\<lambda>q. q\<lparr>qd_dispatching := True, qd_error := Some (LoadFailed message)\<rparr>) s
          else s)"

subsection \<open>Order\<close>

definition queued_before :: "queued_run \<Rightarrow> queued_run \<Rightarrow> bool" where
  "queued_before l r \<longleftrightarrow>
     (case (parse_rfc3339nano (qr_accepted (qd_record l)), parse_rfc3339nano (qr_accepted (qd_record r))) of
        (Some left, Some right) \<Rightarrow>
          if left \<noteq> right then left < right else qr_run (qd_record l) < qr_run (qd_record r)
      | (Some left, None) \<Rightarrow> True
      | (None, Some right) \<Rightarrow> False
      | (None, None) \<Rightarrow> qr_run (qd_record l) < qr_run (qd_record r))"

definition ordered_queued_runs :: "(string \<times> queued_run) list \<Rightarrow> queued_run list" where
  "ordered_queued_runs queue = sort_by queued_before (filter (\<lambda>q. \<not> qd_canceled q) (map snd queue))"

definition queue_key :: "queued_run \<Rightarrow> nat \<times> int \<times> string" where
  "queue_key q =
     (case parse_rfc3339nano (qr_accepted (qd_record q)) of
        Some t \<Rightarrow> (0, t, qr_run (qd_record q))
      | None \<Rightarrow> (1, 0, qr_run (qd_record q)))"

lemma lex_less_if: "(if (a::int) \<noteq> b then a < b else P) \<longleftrightarrow> a < b \<or> a \<le> b \<and> P"
  by auto

lemma queued_before_key: "queued_before = (\<lambda>l r. queue_key l < queue_key r)"
  by (simp add: queued_before_def queue_key_def fun_eq_iff lex_less_if split: option.split split del: if_split)

interpretation queue_order: strict_total queued_before queue_key
  unfolding queued_before_key by (rule strict_total_key)

subsection \<open>A dispatch pass\<close>

definition expire_ready :: "int \<Rightarrow> host_agent \<Rightarrow> host_agent" where
  "expire_ready now a =
     (if as_state (ha_status a) = ''ready'' \<and> session_over now a then end_session ''offline'' a else a)"

definition ready_agent :: "int \<Rightarrow> host_agent \<Rightarrow> bool" where
  "ready_agent now a \<longleftrightarrow> as_state (ha_status a) = ''ready'' \<and> as_run_id (ha_status a) = [] \<and> bound_agent now a"

definition host_order :: "string \<times> nat \<times> host_agent \<Rightarrow> string \<times> nat \<times> host_agent \<Rightarrow> bool" where
  "host_order l r \<longleftrightarrow> agent_before (snd (snd l)) (snd (snd r))"

definition begin_dispatch :: "int \<Rightarrow> scheduler \<Rightarrow> (string \<times> nat) list \<times> scheduler" where
  "begin_dispatch now s =
     (let agents = map (\<lambda>(i, n, a). (i, n, expire_ready now a)) (ct_agents (sd_control s));
          hosts = sort_by host_order (filter (\<lambda>(i, n, a). ready_agent now a) agents) in
      (map (\<lambda>(i, n, a). (as_agent_id (ha_status a), n)) hosts,
       s\<lparr>sd_cycles := Suc (sd_cycles s),
         sd_queue := map (\<lambda>(run, q). (run, q\<lparr>qd_contended := False\<rparr>)) (sd_queue s),
         sd_control := (sd_control s)\<lparr>ct_agents := agents\<rparr>\<rparr>))"

definition wants_host :: "int \<Rightarrow> host_agent \<Rightarrow> queued_run \<Rightarrow> bool" where
  "wants_host now a q \<longleftrightarrow>
     \<not> (qd_dispatching q \<or> qd_canceled q
        \<or> \<not> offers_profile a (queue_target_profile (qd_record q)) (qr_pool (qd_record q)))
   \<and> agent_compatible now (qr_requirements (qd_record q)) a"

record host_claim =
  hc_agent :: string
  hc_object :: nat
  hc_host :: string
  hc_session :: string
  hc_run :: string
  hc_serial :: nat

definition set_agent_state :: "string \<Rightarrow> string \<Rightarrow> scheduler \<Rightarrow> scheduler" where
  "set_agent_state agent state =
     change_control (change_agent agent (change_status (\<lambda>s. s\<lparr>as_state := state\<rparr>)))"

text \<open>One host of the pass looks for its run.\<close>

definition claim_run :: "int \<Rightarrow> string \<times> nat \<Rightarrow> scheduler \<Rightarrow> host_claim option \<times> scheduler" where
  "claim_run now host s =
     (case find_agent (sd_control s) (fst host) of
        None \<Rightarrow> (None, s)
      | Some (n, a) \<Rightarrow>
          if n \<noteq> snd host \<or> \<not> ready_agent now a then (None, s)
          else (case find (wants_host now a) (ordered_queued_runs (sd_queue s)) of
                  None \<Rightarrow> (None, s)
                | Some q \<Rightarrow>
                    (Some \<lparr>hc_agent = fst host, hc_object = n, hc_host = as_host_id (ha_status a),
                           hc_session = as_session_id (ha_status a), hc_run = qr_run (qd_record q),
                           hc_serial = qd_serial q\<rparr>,
                     set_agent_state (fst host) ''reserving''
                       (change_queued (qr_run (qd_record q)) (\<lambda>q. q\<lparr>qd_dispatching := True\<rparr>) s))))"

definition reset_queue_host_claim :: "int \<Rightarrow> host_claim \<Rightarrow> scheduler \<Rightarrow> scheduler" where
  "reset_queue_host_claim now cl s =
     (case find_agent (sd_control s) (hc_agent cl) of
        None \<Rightarrow> s
      | Some (n, a) \<Rightarrow>
          if n \<noteq> hc_object cl \<or> as_state (ha_status a) \<noteq> ''reserving'' \<or> as_run_id (ha_status a) \<noteq> []
             \<or> as_session_id (ha_status a) \<noteq> hc_session cl then s
          else if hc_session cl = [] \<or> \<not> now < ha_session_expires a
          then change_control (change_agent (hc_agent cl) (end_session ''offline'')) s
          else set_agent_state (hc_agent cl) ''ready'' s)"

definition candidate_claim_current :: "host_claim \<Rightarrow> scheduler \<Rightarrow> bool" where
  "candidate_claim_current cl s \<longleftrightarrow>
     (case find_queued s (hc_run cl) of
        None \<Rightarrow> False
      | Some q \<Rightarrow> qd_serial q = hc_serial cl \<and> qd_dispatching q \<and> \<not> qd_canceled q \<and> qd_selected q = None)"

definition host_claim_current :: "host_claim \<Rightarrow> scheduler \<Rightarrow> bool" where
  "host_claim_current cl s \<longleftrightarrow>
     (case find_agent (sd_control s) (hc_agent cl) of
        None \<Rightarrow> False
      | Some (n, a) \<Rightarrow>
          n = hc_object cl \<and> as_state (ha_status a) = ''reserving'' \<and> as_run_id (ha_status a) = []
        \<and> as_session_id (ha_status a) = hc_session cl)"

text \<open>The candidate and the host are still each other's, and the host still satisfies the run.\<close>

definition claim_eligible :: "int \<Rightarrow> host_claim \<Rightarrow> scheduler \<Rightarrow> bool" where
  "claim_eligible now cl s \<longleftrightarrow>
     candidate_claim_current cl s \<and> host_claim_current cl s
   \<and> (case (find_queued s (hc_run cl), the_agents (sd_control s) (hc_agent cl)) of
        (Some q, Some a) \<Rightarrow>
          now < ha_session_expires a
        \<and> offers_profile a (queue_target_profile (qd_record q)) (qr_pool (qd_record q))
        \<and> agent_compatible now (qr_requirements (qd_record q)) a
      | _ \<Rightarrow> False)"

datatype lock_attempt = LockError string | LockBusy | LockHeld

datatype settlement = Failed | Contended | Returned | Selected

text \<open>The claim is given back: the host and the candidate that are still claimed are free again.\<close>

definition give_back :: "int \<Rightarrow> host_claim \<Rightarrow> bool \<Rightarrow> scheduler \<Rightarrow> scheduler" where
  "give_back now cl contended s =
     (let s1 = (if host_claim_current cl s then reset_queue_host_claim now cl s else s) in
      if candidate_claim_current cl s
      then change_queued (hc_run cl)
             (\<lambda>q. q\<lparr>qd_dispatching := False, qd_contended := qd_contended q \<or> contended\<rparr>) s1
      else s1)"

definition settle_claim :: "int \<Rightarrow> host_claim \<Rightarrow> lock_attempt \<Rightarrow> scheduler \<Rightarrow> settlement \<times> scheduler" where
  "settle_claim now cl outcome s =
     (case outcome of
        LockError message \<Rightarrow> (Failed, give_back now cl False s)
      | LockBusy \<Rightarrow> (Contended, give_back now cl True s)
      | LockHeld \<Rightarrow>
          if \<not> claim_eligible now cl s then (Returned, give_back now cl False s)
          else (case the_agents (sd_control s) (hc_agent cl) of
                  None \<Rightarrow> (Returned, s)
                | Some a \<Rightarrow>
                    (Selected,
                     change_queued (hc_run cl)
                       (\<lambda>q. q\<lparr>qd_error := None, qd_contended := False,
                             qd_selected := Some (hc_agent cl, hc_object cl),
                             qd_capabilities := Some (as_capabilities (ha_status a)),
                             qd_build := cd_selected_build (decide_maya_host_compatibility
                               (qr_requirements (qd_record q)) (as_capabilities (ha_status a)) now),
                             qd_holds_lock := True, qd_signalled := True\<rparr>) s)))"

text \<open>
  The errors a pass collected for its candidates.  An error of the acquisition is kept unless the
  candidate has one, a failed release of a lock that is not needed any more replaces it, and a
  selection deletes it.
\<close>

type_synonym selection_errors = "((string \<times> nat) \<times> selection_error) list"

definition note_settlement ::
  "host_claim \<Rightarrow> settlement \<Rightarrow> string \<Rightarrow> selection_errors \<Rightarrow> selection_errors" where
  "note_settlement cl outcome message errors =
     (let candidate = (hc_run cl, hc_serial cl) in
      case outcome of
        Failed \<Rightarrow> (if map_of errors candidate = None
                   then AList.update candidate (AcquireFailed (hc_host cl) message) errors else errors)
      | Selected \<Rightarrow> AList.delete candidate errors
      | _ \<Rightarrow> errors)"

definition note_release ::
  "host_claim \<Rightarrow> string option \<Rightarrow> scheduler \<Rightarrow> selection_errors \<Rightarrow> selection_errors" where
  "note_release cl failure s errors =
     (case (failure, find_queued s (hc_run cl)) of
        (Some message, Some q) \<Rightarrow>
          if qd_serial q = hc_serial cl \<and> \<not> qd_canceled q \<and> \<not> qd_dispatching q
          then AList.update (hc_run cl, hc_serial cl) (ReleaseFailedFor (hc_host cl) message) errors
          else errors
      | _ \<Rightarrow> errors)"

definition queue_has_compatible_busy_host :: "int \<Rightarrow> queued_run \<Rightarrow> scheduler \<Rightarrow> bool" where
  "queue_has_compatible_busy_host now q s \<longleftrightarrow>
     list_ex (\<lambda>a. as_state (ha_status a) \<in> set [''reserving'', ''locked'', ''running''] \<and> bound_agent now a
         \<and> offers_profile a (queue_target_profile (qd_record q)) (qr_pool (qd_record q))
         \<and> agent_compatible now (qr_requirements (qd_record q)) a) (agent_list s)"

definition publish_error :: "int \<Rightarrow> (string \<times> nat) \<times> selection_error \<Rightarrow> scheduler \<Rightarrow> scheduler" where
  "publish_error now e s =
     (case e of ((run, n), failure) \<Rightarrow>
        (case find_queued s run of
           None \<Rightarrow> s
         | Some q \<Rightarrow>
             if qd_serial q \<noteq> n \<or> qd_selected q \<noteq> None \<or> qd_dispatching q \<or> qd_canceled q \<or> qd_contended q
                \<or> queue_has_compatible_busy_host now q s then s
             else change_queued run
                    (\<lambda>q. q\<lparr>qd_error := Some failure, qd_dispatching := True, qd_signalled := True\<rparr>) s))"

definition publish_errors :: "int \<Rightarrow> selection_errors \<Rightarrow> scheduler \<Rightarrow> scheduler" where
  "publish_errors now errors s = fold (publish_error now) errors s"

subsection \<open>Selection and reservation\<close>

datatype selection =
    NoneYet
  | SelectionFailed selection_error
  | SelectedHost "string \<times> nat" "capability_record option" string

definition queued_selection :: "string \<Rightarrow> scheduler \<Rightarrow> selection" where
  "queued_selection run s =
     (case find_queued s run of
        None \<Rightarrow> NoneYet
      | Some q \<Rightarrow>
          (case qd_selected q of
             Some host \<Rightarrow> SelectedHost host (qd_capabilities q) (qd_build q)
           | None \<Rightarrow> (case qd_error q of Some e \<Rightarrow> SelectionFailed e | None \<Rightarrow> NoneYet)))"

definition start_queue_scheduler :: "scheduler \<Rightarrow> bool \<times> scheduler" where
  "start_queue_scheduler s =
     (if sd_running s \<or> waiting_queue_count s = 0 then (False, s) else (True, s\<lparr>sd_running := True\<rparr>))"

text \<open>The head of the scheduler's loop: whether it goes on.\<close>

definition queue_scheduler_round :: "scheduler \<Rightarrow> bool \<times> scheduler" where
  "queue_scheduler_round s =
     (if waiting_queue_count s = 0 then (False, s\<lparr>sd_running := False\<rparr>) else (True, s))"

definition reset_queued_dispatch :: "string \<Rightarrow> scheduler \<Rightarrow> scheduler" where
  "reset_queued_dispatch run =
     change_queued run (\<lambda>q. q\<lparr>qd_dispatching := False, qd_selected := None, qd_error := None,
       qd_capabilities := None, qd_build := [], qd_holds_lock := False, qd_contended := False\<rparr>)"

text \<open>The reports of the agent are read again before the assignment is written.\<close>

definition refresh_reservation ::
  "int \<Rightarrow> string \<Rightarrow> string \<Rightarrow> scenario_requirements \<Rightarrow> host_agent \<Rightarrow> scheduler \<Rightarrow> (capability_record \<times> string) option" where
  "refresh_reservation now run profile requirements a s =
     (case find_queued s run of
        None \<Rightarrow> None
      | Some q \<Rightarrow>
          (let caps = as_capabilities (ha_status a);
               decision = decide_maya_host_compatibility requirements caps now in
           if \<not> offers_profile a profile (qr_pool (qd_record q)) \<or> \<not> cd_compatible decision then None
           else Some (caps, cd_selected_build decision)))"

text \<open>
  \<open>runScenarioThroughHostAgent\<close> after the selection: the reservation is no longer the agent's, or
  its session is over, so the run goes back into the queue.
\<close>

definition requeue_lost_reservation :: "int \<Rightarrow> string \<Rightarrow> string \<times> nat \<Rightarrow> scheduler \<Rightarrow> bool \<times> scheduler" where
  "requeue_lost_reservation now run host s =
     (if \<not> reservation_current (fst host) (snd host) (sd_control s)
      then (True, reset_queued_dispatch run s)
      else (case the_agents (sd_control s) (fst host) of
              None \<Rightarrow> (True, reset_queued_dispatch run s)
            | Some a \<Rightarrow>
                if as_session_id (ha_status a) = [] \<or> \<not> now < ha_session_expires a
                then (True, reset_queued_dispatch run
                              (change_control (change_agent (fst host) (end_session ''offline'')) s))
                else (False, s)))"

text \<open>The roll back of a reservation whose agent changed while the assignment was prepared.\<close>

definition roll_back_reservation :: "int \<Rightarrow> string \<Rightarrow> string \<times> nat \<Rightarrow> bool \<Rightarrow> scheduler \<Rightarrow> bool \<times> scheduler" where
  "roll_back_reservation now run host persisted s =
     (if \<not> reservation_current (fst host) (snd host) (sd_control s) then (False, s)
      else (case the_agents (sd_control s) (fst host) of
              None \<Rightarrow> (False, s)
            | Some a \<Rightarrow>
                (let s1 = (if as_session_id (ha_status a) = [] \<or> \<not> now < ha_session_expires a
                           then change_control (change_agent (fst host) (end_session ''offline'')) s
                           else set_agent_state (fst host) ''ready'' s) in
                 if persisted then (True, reset_queued_dispatch run s1) else (False, s1))))"

definition remove_queued_run :: "string \<Rightarrow> bool \<Rightarrow> scheduler \<Rightarrow> bool \<times> scheduler" where
  "remove_queued_run run gone s =
     (if gone then (True, drop_queued run (s\<lparr>sd_intents := (sd_intents s)(run := None)\<rparr>))
      else (False, change_queued run (\<lambda>q. q\<lparr>qd_canceled := True\<rparr>) s))"

text \<open>The commit of the selected run: its assignment, and its removal from the queue.\<close>

definition assign_queued_run ::
  "int \<Rightarrow> bool \<Rightarrow> assignment_record \<Rightarrow> string \<times> nat \<Rightarrow> scheduler \<Rightarrow> (agent_error, unit) result \<times> scheduler" where
  "assign_queued_run now gone r host s =
     (case (find_queued s (ar_run r), the_agents (sd_control s) (fst host)) of
        (Some q, Some a) \<Rightarrow>
          (case refresh_reservation now (ar_run r) (queue_target_profile (qd_record q))
                  (qr_requirements (qd_record q)) a s of
             None \<Rightarrow> (Inl OwnershipChanged, s)
           | Some (caps, build) \<Rightarrow>
               (case commit_assignment now gone (r\<lparr>ar_capabilities := caps, ar_build := build\<rparr>) (snd host) (sd_control s) of
                  (Inl e, c) \<Rightarrow> (Inl e, s\<lparr>sd_control := c\<rparr>)
                | (Inr _, c) \<Rightarrow> (Inr (), snd (remove_queued_run (ar_run r) True (s\<lparr>sd_control := c\<rparr>)))))
      | _ \<Rightarrow> (Inl OwnershipChanged, s))"

subsection \<open>Cancellation\<close>

datatype cancel_error = NotQueued | Dispatching | Canceling | IntentNotWritten

definition begin_cancel :: "bool \<Rightarrow> string \<Rightarrow> scheduler \<Rightarrow> (cancel_error, queued_run) result \<times> scheduler" where
  "begin_cancel written run s =
     (case find_queued s run of
        None \<Rightarrow> (Inl NotQueued, s)
      | Some q \<Rightarrow>
          if qd_dispatching q then (Inl Dispatching, s)
          else if qd_cancellation_active q then (Inl Canceling, s)
          else
            (let canceling = q\<lparr>qd_canceled := True, qd_record := (qd_record q)\<lparr>qr_state := ''canceling''\<rparr>\<rparr>;
                 q' = (if qd_canceled q then q else canceling) in
             if \<not> qd_canceled q \<and> \<not> written
             then (Inl IntentNotWritten,
                   change_queued run (\<lambda>q. q\<lparr>qd_canceled := False, qd_record := (qd_record q)\<lparr>qr_state := ''queued''\<rparr>\<rparr>) s)
             else (Inr q',
                   change_queued run (\<lambda>_. q'\<lparr>qd_cancellation_active := True\<rparr>)
                     (if qd_canceled q then s else s\<lparr>sd_intents := (sd_intents s)(run := Some (qd_record q'))\<rparr>))))"

definition release_queued_waiter :: "queued_run \<Rightarrow> queued_run" where
  "release_queued_waiter q = (if qd_waiter_released q then q else q\<lparr>qd_waiter_released := True\<rparr>)"

text \<open>
  After the terminal evidence: \<open>completed\<close> says whether the cancellation was completed, \<open>terminal\<close>
  whether the ledger says so although it failed, \<open>gone\<close> whether the intent's file is gone.
\<close>

definition end_cancel :: "bool \<Rightarrow> bool \<Rightarrow> bool \<Rightarrow> string \<Rightarrow> nat \<Rightarrow> scheduler \<Rightarrow> bool \<times> scheduler" where
  "end_cancel completed terminal gone run n s =
     (case find_queued s run of
        None \<Rightarrow> (completed \<and> gone, s)
      | Some q \<Rightarrow>
          if \<not> completed
          then (False, if qd_serial q = n
                       then change_queued run (\<lambda>q. (if terminal then release_queued_waiter q else q)
                              \<lparr>qd_cancellation_active := False\<rparr>) s
                       else s)
          else if gone
          then (True, drop_queued run (s\<lparr>sd_intents := (sd_intents s)(run := None)\<rparr>))
          else (False, if qd_serial q = n
                       then change_queued run (\<lambda>q. (release_queued_waiter q)\<lparr>qd_cancellation_active := False\<rparr>) s
                       else s))"

text \<open>The states of the ledger a cancellation writes, and where it starts from.\<close>

definition canceled_ledger :: "int \<Rightarrow> string \<Rightarrow> run_ledger_record \<Rightarrow> run_ledger_record" where
  "canceled_ledger now state r =
     (let updated = format_rfc3339nano now in
      r\<lparr>lr_state := state, lr_status := ''failed'', lr_updated := updated,
        lr_completed := (if lr_completed r = [] then updated else lr_completed r)\<rparr>)"

definition canceling_ledger :: "int \<Rightarrow> run_ledger_record \<Rightarrow> run_ledger_record" where
  "canceling_ledger now r =
     r\<lparr>lr_state := ''canceling'', lr_status := ''failed'', lr_updated := format_rfc3339nano now, lr_completed := []\<rparr>"

definition queued_ledger :: "int \<Rightarrow> run_ledger_record \<Rightarrow> run_ledger_record" where
  "queued_ledger now r = r\<lparr>lr_state := ''queued'', lr_updated := format_rfc3339nano now\<rparr>"

definition cleanup_queued_cancellation :: "int \<Rightarrow> bool \<Rightarrow> run_ledger_record \<Rightarrow> bool \<times> run_ledger_record" where
  "cleanup_queued_cancellation now cleaned r =
     (if \<not> cleaned then (False, canceled_ledger now ''cleanup-failed'' r)
      else (True, canceled_ledger now ''canceled'' r))"

text \<open>\<open>prepared\<close>: the log, the event, the manifest and the evidence of the cancellation were written.\<close>

definition complete_queued_cancellation ::
  "int \<Rightarrow> bool \<Rightarrow> bool \<Rightarrow> run_ledger_record \<Rightarrow> bool \<times> run_ledger_record" where
  "complete_queued_cancellation now prepared cleaned r =
     (if lr_state r = ''canceling'' \<or> lr_state r = ''canceled'' \<or> lr_state r = ''cleanup-failed''
      then cleanup_queued_cancellation now cleaned r
      else if \<not> prepared then (False, r)
      else cleanup_queued_cancellation now cleaned (canceling_ledger now r))"

subsection \<open>Status\<close>

definition queue_wait_reason :: "int \<Rightarrow> queued_run \<Rightarrow> scheduler \<Rightarrow> string" where
  "queue_wait_reason now q s =
     (let usable = filter (\<lambda>a. as_state (ha_status a) \<noteq> ''offline'' \<and> as_state (ha_status a) \<noteq> ''quarantined''
            \<and> bound_agent now a \<and> offers_profile a (queue_target_profile (qd_record q)) (qr_pool (qd_record q))
            \<and> agent_compatible now (qr_requirements (qd_record q)) a) (agent_list s) in
      if qd_contended q then ''compatible-hosts-busy''
      else if list_ex (\<lambda>a. as_state (ha_status a) = ''ready'') usable then ''awaiting-host-assignment''
      else if usable \<noteq> [] then ''compatible-hosts-busy''
      else ''waiting-for-compatible-host'')"

record queue_status =
  qs_run :: string
  qs_host :: string
  qs_state :: string
  qs_status :: string
  qs_cleanup :: string
  qs_position :: nat
  qs_wait_reason :: string
  qs_pool :: string
  qs_requirements :: "scenario_requirements option"

definition queue_position :: "string \<Rightarrow> scheduler \<Rightarrow> nat option" where
  "queue_position run s =
     (let runs = map (qr_run \<circ> qd_record) (ordered_queued_runs (sd_queue s)) in
      if run \<in> set runs then Some (Suc (length (takeWhile (\<lambda>r. r \<noteq> run) runs))) else None)"

definition add_queue_status :: "int \<Rightarrow> scheduler \<Rightarrow> queue_status \<Rightarrow> queue_status" where
  "add_queue_status now s status =
     (case find_queued s (qs_run status) of
        None \<Rightarrow> status
      | Some q \<Rightarrow>
          if qd_canceled q \<and> qr_state (qd_record q) \<noteq> ''canceling''
             \<and> qs_state status \<in> set [''completed'', ''failed'', ''canceled'', ''cleanup-failed'', ''kept'']
          then status
          else if qr_state (qd_record q) = ''canceling''
          then (if qs_state status = ''canceled'' \<or> qs_state status = ''cleanup-failed'' then status
                else status\<lparr>qs_state := ''canceling'', qs_status := [], qs_host := [], qs_cleanup := ''pending'',
                            qs_pool := qr_pool (qd_record q), qs_requirements := Some (qr_requirements (qd_record q))\<rparr>)
          else status\<lparr>qs_state := ''queued'', qs_status := [], qs_host := [], qs_cleanup := ''not-required'',
                      qs_pool := qr_pool (qd_record q), qs_requirements := Some (qr_requirements (qd_record q)),
                      qs_position := (case queue_position (qs_run status) s of
                                        Some n \<Rightarrow> n | None \<Rightarrow> qs_position status),
                      qs_wait_reason := queue_wait_reason now q s\<rparr>)"

subsection \<open>First come, first served\<close>

text \<open>The claim of a host is the run its search finds.\<close>

lemma claim_run_finds:
  assumes "claim_run now host s = (Some cl, s')"
  obtains n a q where "find_agent (sd_control s) (fst host) = Some (n, a)" "n = snd host" "ready_agent now a"
    "find (wants_host now a) (ordered_queued_runs (sd_queue s)) = Some q"
    "cl = \<lparr>hc_agent = fst host, hc_object = n, hc_host = as_host_id (ha_status a),
           hc_session = as_session_id (ha_status a), hc_run = qr_run (qd_record q), hc_serial = qd_serial q\<rparr>"
    "s' = set_agent_state (fst host) ''reserving''
            (change_queued (qr_run (qd_record q)) (\<lambda>q. q\<lparr>qd_dispatching := True\<rparr>) s)"
  using assms by (auto simp: claim_run_def split: option.split_asm prod.split_asm if_split_asm)

lemma ordered_queue_set:
  "q \<in> set (ordered_queued_runs queue) \<longleftrightarrow> (\<exists>run. (run, q) \<in> set queue) \<and> \<not> qd_canceled q"
  by (force simp: ordered_queued_runs_def)


definition sample_queue_record :: "string \<Rightarrow> string \<Rightarrow> queue_record" where
  "sample_queue_record run accepted =
     \<lparr>qr_version = 1, qr_run = run, qr_state = ''queued'', qr_accepted = accepted,
      qr_submission = sample_submission, qr_pool = ''pool-a'', qr_requirements = no_requirements\<rparr>"

definition sample_scheduler :: scheduler where
  "sample_scheduler =
     \<lparr>sd_control = \<lparr>ct_agents = [(''a1'', 0, sample_agent ''h1'' ''a1'')], ct_assignments = [], ct_next = 1,
        ct_disk = blank_disk []\<rparr>,
      sd_queue = [(''r2'', new_queued_run (sample_queue_record ''r2'' ''2025-07-25T09:54:56Z'') 1),
                  (''r1'', new_queued_run (sample_queue_record ''r1'' ''2025-07-25T09:54:57Z'') 0)],
      sd_intents = Map.empty, sd_admissions = 0, sd_running = True, sd_cycles = 0, sd_next = 2\<rparr>"


end
