(* ===== verification/Queue_System.thy ===== *)
theory Queue_System
  imports Run_Queue
begin

text \<open>
  The queue, its dispatcher and the agents' handlers as one system.  The dispatcher is sequential
  (\<open>queueDispatchMu\<close>), so it has a phase; everything else may happen between two of its regions.
\<close>

subsection \<open>Steps\<close>

datatype phase =
    Idle
  | Pass "(string \<times> nat) list" selection_errors
  | Claimed host_claim "(string \<times> nat) list" selection_errors
  | Releasing host_claim "(string \<times> nat) list" selection_errors

inductive queue_step :: "(string \<Rightarrow> string) \<Rightarrow> scheduler \<times> phase \<Rightarrow> scheduler \<times> phase \<Rightarrow> bool" for sha256 where
  Agents: "agent_step sha256 (sd_control s) c \<Longrightarrow> queue_step sha256 (s, p) (s\<lparr>sd_control := c\<rparr>, p)"
| Begin: "begin_dispatch now s = (hosts, s') \<Longrightarrow> queue_step sha256 (s, Idle) (s', Pass hosts [])"
| Skip: "claim_run now h s = (None, s') \<Longrightarrow> queue_step sha256 (s, Pass (h # hs) es) (s', Pass hs es)"
| Claim: "claim_run now h s = (Some cl, s') \<Longrightarrow> queue_step sha256 (s, Pass (h # hs) es) (s', Claimed cl hs es)"
| Settle: "settle_claim now cl outcome s = (res, s') \<Longrightarrow> res \<noteq> Returned \<Longrightarrow>
    queue_step sha256 (s, Claimed cl hs es) (s', Pass hs (note_settlement cl res message es))"
| Return: "settle_claim now cl outcome s = (Returned, s') \<Longrightarrow>
    queue_step sha256 (s, Claimed cl hs es) (s', Releasing cl hs es)"
| Release: "queue_step sha256 (s, Releasing cl hs es) (s, Pass hs (note_release cl failure s es))"
| Publish: "queue_step sha256 (s, Pass [] es) (publish_errors now es s, Idle)"
| Admit: "reserve_place now submission requirements s = (res1, s') \<Longrightarrow> queue_step sha256 (s, p) (s', p)"
| Abandon_place: "queue_step sha256 (s, p) (abandon_place s, p)"
| Insert: "0 < sd_admissions s \<Longrightarrow> find_queued s (qr_run r) = None \<Longrightarrow>
    queue_step sha256 (s, p) (insert_queued_run r accepted s, p)"
| Load_failed: "queue_step sha256 (s, p) (load_failed run n message s, p)"
| Start: "start_queue_scheduler s = (b, s') \<Longrightarrow> queue_step sha256 (s, p) (s', p)"
| Round: "queue_scheduler_round s = (b, s') \<Longrightarrow> queue_step sha256 (s, p) (s', p)"
| Requeue: "requeue_lost_reservation now run host s = (b, s') \<Longrightarrow> queue_step sha256 (s, p) (s', p)"
| Roll_back: "roll_back_reservation now run host persisted s = (b, s') \<Longrightarrow> queue_step sha256 (s, p) (s', p)"
| Remove: "remove_queued_run run gone s = (b, s') \<Longrightarrow> queue_step sha256 (s, p) (s', p)"
| Assign_run: "assign_queued_run now gone r host s = (res2, s') \<Longrightarrow> queue_step sha256 (s, p) (s', p)"
| Begin_cancel: "begin_cancel written run s = (res3, s') \<Longrightarrow> queue_step sha256 (s, p) (s', p)"
| End_cancel: "end_cancel completed terminal gone run n s = (b, s') \<Longrightarrow> queue_step sha256 (s, p) (s', p)"

subsection \<open>Lookups\<close>

named_theorems queue_simps

lemma find_change_queued [queue_simps]:
  "find_queued (change_queued run f s) x =
     (if x = run then map_option f (find_queued s run) else find_queued s x)"
  by (auto simp: change_queued_def find_queued_def update_conv' split: option.split)

lemma next_change_queued [queue_simps]: "sd_next (change_queued run f s) = sd_next s"
  by (simp add: change_queued_def split: option.split)

lemma find_drop_queued [queue_simps]:
  "find_queued (drop_queued run s) x = (if x = run then None else find_queued s x)"
  by (auto simp: drop_queued_def find_queued_def delete_conv')

lemma find_queued_other [queue_simps]:
  "find_queued (s\<lparr>sd_control := c\<rparr>) = find_queued s" "find_queued (s\<lparr>sd_intents := i\<rparr>) = find_queued s"
  "find_queued (s\<lparr>sd_admissions := n\<rparr>) = find_queued s" "find_queued (s\<lparr>sd_running := b\<rparr>) = find_queued s"
  "find_queued (change_control g s) = find_queued s" "find_queued (set_agent_state agent state s) = find_queued s"
  by (simp_all add: find_queued_def fun_eq_iff change_control_def set_agent_state_def)

text \<open>The parts of the state the queue's own invariant reads.\<close>

definition same_queue :: "scheduler \<Rightarrow> scheduler \<Rightarrow> bool" where
  "same_queue s s' \<longleftrightarrow> sd_queue s' = sd_queue s \<and> sd_admissions s' = sd_admissions s"

lemma same_queue_simps [simp]:
  "same_queue s s" "same_queue s (s\<lparr>sd_control := c\<rparr>)" "same_queue s (s\<lparr>sd_intents := i\<rparr>)"
  "same_queue s (s\<lparr>sd_running := b\<rparr>)" "same_queue s (change_control g s)"
  "same_queue s (set_agent_state agent state s)" "same_queue s (reset_queue_host_claim now cl s)"
  by (simp_all add: same_queue_def change_control_def set_agent_state_def reset_queue_host_claim_def
      split: option.split)

lemma same_queue_find: "same_queue s s' \<Longrightarrow> find_queued s' = find_queued s"
  by (simp add: same_queue_def find_queued_def fun_eq_iff)

subsection \<open>The invariant\<close>

text \<open>A run on its way to a host: claimed, but neither with a host nor with an error.\<close>

definition in_flight :: "queued_run \<Rightarrow> bool" where
  "in_flight q \<longleftrightarrow> qd_dispatching q \<and> \<not> qd_canceled q \<and> qd_selected q = None \<and> qd_error q = None"

definition sound_entry :: "string \<Rightarrow> queued_run \<Rightarrow> bool" where
  "sound_entry run q \<longleftrightarrow>
     qr_run (qd_record q) = run \<and> (qd_selected q \<noteq> None \<longrightarrow> qd_dispatching q)
   \<and> (qr_state (qd_record q) = ''canceling'' \<longrightarrow> qd_canceled q \<and> qd_selected q = None)"

definition bounded_queue :: "scheduler \<Rightarrow> bool" where
  "bounded_queue s \<longleftrightarrow> distinct (map fst (sd_queue s)) \<and> waiting_queue_count s + sd_admissions s \<le> maximum_queued_runs"

fun claims :: "phase \<Rightarrow> string \<Rightarrow> queued_run \<Rightarrow> bool" where
  "claims (Claimed cl hs es) run q = (run = hc_run cl \<and> qd_serial q = hc_serial cl)"
| "claims p run q = False"

definition queue_ok :: "scheduler \<times> phase \<Rightarrow> bool" where
  "queue_ok sp \<longleftrightarrow>
     (case sp of (s, p) \<Rightarrow>
        bounded_queue s
      \<and> (\<forall>run q. find_queued s run = Some q \<longrightarrow> sound_entry run q \<and> (in_flight q \<longrightarrow> claims p run q)))"

lemma queue_okD:
  assumes "queue_ok (s, p)"
  shows "bounded_queue s" "find_queued s run = Some q \<Longrightarrow> sound_entry run q"
    "find_queued s run = Some q \<Longrightarrow> in_flight q \<Longrightarrow> claims p run q"
  using assms by (auto simp: queue_ok_def)

lemma queue_ok_same: "queue_ok (s, p) \<Longrightarrow> same_queue s s' \<Longrightarrow> queue_ok (s', p)"
  using same_queue_find [of s s']
  by (simp add: queue_ok_def bounded_queue_def same_queue_def waiting_queue_count_def)

lemma queue_ok_other [simp]:
  "queue_ok (s\<lparr>sd_control := c\<rparr>, p) = queue_ok (s, p)" "queue_ok (s\<lparr>sd_intents := i\<rparr>, p) = queue_ok (s, p)"
  "queue_ok (s\<lparr>sd_running := b\<rparr>, p) = queue_ok (s, p)"
  by (simp_all add: queue_ok_def bounded_queue_def waiting_queue_count_def queue_simps)

subsection \<open>Counting\<close>

lemma count_update:
  "length (filter P (AList.update k v xs)) \<le>
     length (filter P xs) + (if P (k, v) \<and> \<not> (\<exists>u. map_of xs k = Some u \<and> P (k, u)) then 1 else 0)"
  by (induction xs) auto

lemma count_delete: "length (filter P (AList.delete k xs)) \<le> length (filter P xs)"
  by (induction xs) (auto simp: AList.delete_eq)

lemma bounded_change:
  assumes "bounded_queue s" "\<And>q. find_queued s run = Some q \<Longrightarrow> qd_canceled q \<Longrightarrow> qd_canceled (f q)"
  shows "bounded_queue (change_queued run f s)"
proof (cases "find_queued s run")
  case (Some q)
  let ?P = "\<lambda>(run :: string, q). \<not> qd_canceled q"
  have "length (filter ?P (AList.update run (f q) (sd_queue s))) \<le> length (filter ?P (sd_queue s))"
    using count_update [of ?P run "f q" "sd_queue s"] Some assms(2) by (auto simp: find_queued_def split: if_split_asm)
  then show ?thesis
    using assms(1) Some
    by (simp add: bounded_queue_def change_queued_def waiting_queue_count_def distinct_update)
qed (use assms(1) in \<open>simp add: change_queued_def\<close>)

lemma bounded_drop: "bounded_queue s \<Longrightarrow> bounded_queue (drop_queued run s)"
  using count_delete [of "\<lambda>(run :: string, q). \<not> qd_canceled q" run "sd_queue s"]
  by (simp add: bounded_queue_def drop_queued_def waiting_queue_count_def distinct_delete)

text \<open>A change of one entry keeps the invariant when the new entry is sound and not in flight unclaimed.\<close>

lemma queue_ok_change:
  assumes "queue_ok (s, p)"
    "\<And>q. find_queued s run = Some q \<Longrightarrow> sound_entry run q \<Longrightarrow> (in_flight q \<longrightarrow> claims p run q) \<Longrightarrow>
       sound_entry run (f q) \<and> (qd_canceled q \<longrightarrow> qd_canceled (f q)) \<and> (in_flight (f q) \<longrightarrow> claims p run (f q))"
  shows "queue_ok (change_queued run f s, p)"
proof -
  have "bounded_queue (change_queued run f s)"
  proof (rule bounded_change [OF queue_okD(1) [OF assms(1)]])
    fix q assume q: "find_queued s run = Some q" "qd_canceled q"
    have "sound_entry run q" "in_flight q \<longrightarrow> claims p run q" using queue_okD(2,3) [OF assms(1) q(1)] by blast+
    then show "qd_canceled (f q)" using assms(2) [OF q(1)] q(2) by blast
  qed
  moreover have "sound_entry x q \<and> (in_flight q \<longrightarrow> claims p x q)"
    if new: "find_queued (change_queued run f s) x = Some q" for x q
  proof (cases "x = run")
    case True
    then obtain q0 where "find_queued s run = Some q0" "q = f q0" using new by (auto simp: queue_simps)
    then show ?thesis using True assms(2) queue_okD(2,3) [OF assms(1)] by blast
  next
    case False
    then show ?thesis using new queue_okD(2,3) [OF assms(1)] by (simp add: queue_simps)
  qed
  ultimately show ?thesis by (simp add: queue_ok_def)
qed

lemma queue_ok_drop: "queue_ok (s, p) \<Longrightarrow> queue_ok (drop_queued run s, p)"
  by (auto simp: queue_ok_def queue_simps bounded_drop split: if_split_asm)

subsection \<open>The dispatcher keeps the invariant\<close>

lemma sound_entry_fields:
  "qd_record q' = qd_record q \<Longrightarrow> qd_selected q' = qd_selected q \<Longrightarrow> qd_dispatching q' = qd_dispatching q \<Longrightarrow>
     qd_canceled q' = qd_canceled q \<Longrightarrow> sound_entry run q' = sound_entry run q"
  by (simp add: sound_entry_def)

lemma find_queued_begin:
  "begin_dispatch now s = (hosts, s') \<Longrightarrow>
     find_queued s' run = map_option (\<lambda>q. q\<lparr>qd_contended := False\<rparr>) (find_queued s run)"
proof -
  have "map_of (map (\<lambda>(k, q). (k, f q)) xs) run = map_option f (map_of xs run)" for f :: "queued_run \<Rightarrow> queued_run" and xs
    by (induction xs) auto
  then show "begin_dispatch now s = (hosts, s') \<Longrightarrow> ?thesis"
    by (auto simp: begin_dispatch_def Let_def find_queued_def)
qed

lemma begin_dispatch_ok:
  assumes "begin_dispatch now s = (hosts, s')" "queue_ok (s, Idle)"
  shows "queue_ok (s', Pass hosts [])"
proof -
  have q: "sd_queue s' = map (\<lambda>(run, q). (run, q\<lparr>qd_contended := False\<rparr>)) (sd_queue s)"
    "sd_admissions s' = sd_admissions s"
    using assms(1) by (auto simp: begin_dispatch_def Let_def)
  have "map fst (sd_queue s') = map fst (sd_queue s)" by (simp add: q comp_def case_prod_beta)
  moreover have "waiting_queue_count s' = waiting_queue_count s"
    by (simp add: waiting_queue_count_def q filter_map comp_def case_prod_unfold)
  ultimately have "bounded_queue s'" using queue_okD(1) [OF assms(2)] q(2) by (simp add: bounded_queue_def)
  moreover have "sound_entry run q \<and> \<not> in_flight q" if new: "find_queued s' run = Some q" for run q
  proof -
    obtain q0 where q0: "find_queued s run = Some q0" "q = q0\<lparr>qd_contended := False\<rparr>"
      using new by (auto simp: find_queued_begin [OF assms(1)])
    have "sound_entry run q0" "\<not> in_flight q0" using queue_okD(2,3) [OF assms(2) q0(1)] by auto
    then show ?thesis by (simp add: q0(2) sound_entry_def in_flight_def)
  qed
  ultimately show ?thesis by (simp add: queue_ok_def)
qed

lemma queue_ok_phase:
  "queue_ok (s, p) \<Longrightarrow> (\<And>run q. find_queued s run = Some q \<Longrightarrow> in_flight q \<Longrightarrow> claims p' run q) \<Longrightarrow> queue_ok (s, p')"
  by (simp add: queue_ok_def)

lemma entry_found:
  assumes "queue_ok (s, p)" "find P (ordered_queued_runs (sd_queue s)) = Some q"
  shows "find_queued s (qr_run (qd_record q)) = Some q \<and> P q"
proof -
  obtain pre post where o: "ordered_queued_runs (sd_queue s) = pre @ q # post" "P q"
    using find_first [OF assms(2)] by blast
  then obtain run where run: "(run, q) \<in> set (sd_queue s)"
    using ordered_queue_set [of q "sd_queue s"] by auto
  have "distinct (map fst (sd_queue s))" using queue_okD(1) [OF assms(1)] by (simp add: bounded_queue_def)
  then have "find_queued s run = Some q" using run by (simp add: find_queued_def map_of_is_SomeI)
  then show ?thesis using queue_okD(2) [OF assms(1)] o(2) by (simp add: sound_entry_def)
qed

lemma claim_none: "claim_run now h s = (None, s') \<Longrightarrow> s' = s"
  by (auto simp: claim_run_def split: option.split_asm prod.split_asm if_split_asm)

lemma claim_ok:
  assumes "claim_run now h s = (Some cl, s')" "queue_ok (s, Pass (h # hs) es)"
  shows "queue_ok (s', Claimed cl hs es)"
proof -
  obtain n a q where q: "find (wants_host now a) (ordered_queued_runs (sd_queue s)) = Some q"
    "cl = \<lparr>hc_agent = fst h, hc_object = n, hc_host = as_host_id (ha_status a),
           hc_session = as_session_id (ha_status a), hc_run = qr_run (qd_record q), hc_serial = qd_serial q\<rparr>"
    "s' = set_agent_state (fst h) ''reserving''
            (change_queued (qr_run (qd_record q)) (\<lambda>q. q\<lparr>qd_dispatching := True\<rparr>) s)"
    by (rule claim_run_finds [OF assms(1)]) blast
  note f = entry_found [OF assms(2) q(1)]
  have "queue_ok (s, Claimed cl hs es)"
    by (rule queue_ok_phase [OF assms(2)]) (use queue_okD(3) [OF assms(2)] in auto)
  then have "queue_ok (change_queued (qr_run (qd_record q)) (\<lambda>q. q\<lparr>qd_dispatching := True\<rparr>) s, Claimed cl hs es)"
    by (rule queue_ok_change) (use f q(2) in \<open>auto simp: sound_entry_def wants_host_def\<close>)
  then show ?thesis unfolding q(3) by (rule queue_ok_same) simp
qed

lemma give_back_queue:
  "same_queue (if candidate_claim_current cl s
     then change_queued (hc_run cl) (\<lambda>q. q\<lparr>qd_dispatching := False, qd_contended := qd_contended q \<or> b\<rparr>) s else s)
   (give_back now cl b s)"
proof -
  have *: "same_queue (change_queued run f s) (change_queued run f t)" if "same_queue s t" for run f s t
    using that same_queue_find [OF that] by (auto simp: same_queue_def change_queued_def split: option.split)
  show ?thesis by (auto simp: give_back_def Let_def intro!: *)
qed

text \<open>After a claim was given back or selected, its run is not in flight any more.\<close>

lemma give_back_ok:
  assumes "queue_ok (s, Claimed cl hs es)"
  shows "queue_ok (give_back now cl b s, Pass hs es')"
proof -
  let ?f = "\<lambda>q :: queued_run. q\<lparr>qd_dispatching := False, qd_contended := qd_contended q \<or> b\<rparr>"
  let ?t = "if candidate_claim_current cl s then change_queued (hc_run cl) ?f s else s"
  have "queue_ok (?t, Pass hs es')"
  proof (cases "candidate_claim_current cl s")
    case True
    then have none: "qd_selected q = None" if "find_queued s (hc_run cl) = Some q" for q
      using that by (auto simp: candidate_claim_current_def)
    have "queue_ok (change_queued (hc_run cl) ?f s, Claimed cl hs es)"
      by (rule queue_ok_change [OF assms]) (use none in \<open>auto simp: sound_entry_def in_flight_def\<close>)
    moreover have "claims (Pass hs es') run q"
      if "find_queued (change_queued (hc_run cl) ?f s) run = Some q" "in_flight q" for run q
      using that queue_okD(3) [OF assms] by (auto simp: queue_simps in_flight_def split: if_split_asm)
    ultimately show ?thesis using True by (auto intro: queue_ok_phase)
  next
    case False
    have "claims (Pass hs es') run q" if "find_queued s run = Some q" "in_flight q" for run q
      using that queue_okD(3) [OF assms that] False by (auto simp: candidate_claim_current_def in_flight_def)
    then show ?thesis using False assms by (auto intro: queue_ok_phase)
  qed
  then show ?thesis using give_back_queue by (rule queue_ok_same)
qed

lemma settle_ok:
  assumes "settle_claim now cl outcome s = (res, s')" "queue_ok (s, Claimed cl hs es)"
  shows "queue_ok (s', Pass hs es')"
proof (cases "outcome = LockHeld \<and> claim_eligible now cl s")
  case True
  then obtain q a where q: "find_queued s (hc_run cl) = Some q" "qd_serial q = hc_serial cl" "qd_dispatching q"
    "\<not> qd_canceled q" "the_agents (sd_control s) (hc_agent cl) = Some a"
    by (auto simp: claim_eligible_def candidate_claim_current_def split: option.split_asm)
  define f where "f = (\<lambda>q :: queued_run. q\<lparr>qd_error := None, qd_contended := False,
      qd_selected := Some (hc_agent cl, hc_object cl), qd_capabilities := Some (as_capabilities (ha_status a)),
      qd_build := cd_selected_build (decide_maya_host_compatibility
        (qr_requirements (qd_record q)) (as_capabilities (ha_status a)) now),
      qd_holds_lock := True, qd_signalled := True\<rparr>)"
  have s': "s' = change_queued (hc_run cl) f s"
    using assms(1) True q(5) by (simp add: settle_claim_def f_def)
  have "queue_ok (change_queued (hc_run cl) f s, Claimed cl hs es)"
    by (rule queue_ok_change [OF assms(2)]) (use q in \<open>auto simp: sound_entry_def in_flight_def f_def\<close>)
  moreover have "claims (Pass hs es') run x"
    if "find_queued (change_queued (hc_run cl) f s) run = Some x" "in_flight x" for run x
    using that queue_okD(3) [OF assms(2)] by (auto simp: queue_simps in_flight_def f_def split: if_split_asm)
  ultimately show ?thesis unfolding s' by (auto intro: queue_ok_phase)
next
  case False
  then have "\<exists>b. s' = give_back now cl b s"
    using assms(1) by (auto simp: settle_claim_def split: lock_attempt.split_asm)
  then show ?thesis using give_back_ok [OF assms(2)] by blast
qed

lemma queue_ok_waiting:
  "queue_ok (s, p) \<Longrightarrow> (\<And>cl hs es. p \<noteq> Claimed cl hs es) \<Longrightarrow> queue_ok (s, p')"
  by (cases p; cases p') (auto simp: queue_ok_def)

lemma publish_error_ok: "queue_ok (s, p) \<Longrightarrow> queue_ok (publish_error now e s, p)"
  by (auto simp: publish_error_def sound_entry_def in_flight_def intro!: queue_ok_change
      split: prod.split option.split)

lemma publish_errors_ok: "queue_ok (s, p) \<Longrightarrow> queue_ok (publish_errors now es s, p)"
  unfolding publish_errors_def by (induction es arbitrary: s) (auto intro: publish_error_ok)

subsection \<open>The waiters and the clients keep the invariant\<close>

lemma claims_serial: "qd_serial q' = qd_serial q \<Longrightarrow> claims p run q' = claims p run q"
  by (cases p) auto

lemma reserve_ok: "reserve_place now submission requirements s = (res, s') \<Longrightarrow> queue_ok (s, p) \<Longrightarrow> queue_ok (s', p)"
  using find_queued_other(3)
  by (auto simp: reserve_place_def queue_ok_def bounded_queue_def waiting_queue_count_def split: if_split_asm sum.split_asm)

lemma abandon_ok: "queue_ok (s, p) \<Longrightarrow> queue_ok (abandon_place s, p)"
  using find_queued_other(3)
  by (auto simp: abandon_place_def queue_ok_def bounded_queue_def waiting_queue_count_def)

lemma find_queued_insert:
  "find_queued (insert_queued_run r accepted s) x =
     (if x = qr_run r then Some (new_queued_run (r\<lparr>qr_state := ''queued'', qr_accepted := accepted\<rparr>) (sd_next s))
      else find_queued s x)"
  by (simp add: insert_queued_run_def Let_def find_queued_def update_conv')

lemma insert_ok:
  assumes "0 < sd_admissions s" "queue_ok (s, p)"
  shows "queue_ok (insert_queued_run r accepted s, p)"
proof -
  let ?q = "new_queued_run (r\<lparr>qr_state := ''queued'', qr_accepted := accepted\<rparr>) (sd_next s)"
  let ?P = "\<lambda>(run :: string, q). \<not> qd_canceled q"
  have "length (filter ?P (AList.update (qr_run r) ?q (sd_queue s))) \<le> Suc (length (filter ?P (sd_queue s)))"
    using count_update [of ?P "qr_run r" ?q "sd_queue s"] by (auto split: if_split_asm)
  then have "bounded_queue (insert_queued_run r accepted s)"
    using queue_okD(1) [OF assms(2)] assms(1)
    by (cases "sd_admissions s") (auto simp: bounded_queue_def insert_queued_run_def Let_def waiting_queue_count_def distinct_update)
  moreover have "sound_entry (qr_run r) ?q \<and> \<not> in_flight ?q"
    by (simp add: sound_entry_def in_flight_def new_queued_run_def)
  ultimately show ?thesis using queue_okD(2,3) [OF assms(2)] by (simp add: queue_ok_def find_queued_insert)
qed

lemma load_failed_ok: "queue_ok (s, p) \<Longrightarrow> queue_ok (load_failed run n message s, p)"
  by (auto simp: load_failed_def sound_entry_def in_flight_def intro!: queue_ok_change split: option.split)

lemma reset_dispatch_ok: "queue_ok (s, p) \<Longrightarrow> queue_ok (reset_queued_dispatch run s, p)"
  unfolding reset_queued_dispatch_def by (rule queue_ok_change) (auto simp: sound_entry_def in_flight_def)

lemma requeue_ok: "requeue_lost_reservation now run host s = (b, s') \<Longrightarrow> queue_ok (s, p) \<Longrightarrow> queue_ok (s', p)"
  by (auto simp: requeue_lost_reservation_def split: if_split_asm option.split_asm
      intro!: reset_dispatch_ok intro: queue_ok_same)

lemma roll_back_ok: "roll_back_reservation now run host persisted s = (b, s') \<Longrightarrow> queue_ok (s, p) \<Longrightarrow> queue_ok (s', p)"
  by (auto simp: roll_back_reservation_def Let_def split: if_split_asm option.split_asm
      intro!: reset_dispatch_ok intro: queue_ok_same)

lemma remove_ok:
  assumes "remove_queued_run run gone s = (b, s')" "queue_ok (s, p)"
  shows "queue_ok (s', p)"
proof (cases gone)
  case True
  then show ?thesis using assms by (auto simp: remove_queued_run_def intro: queue_ok_drop queue_ok_same)
next
  case False
  have "queue_ok (change_queued run (\<lambda>q. q\<lparr>qd_canceled := True\<rparr>) s, p)"
    by (rule queue_ok_change [OF assms(2)]) (auto simp: sound_entry_def in_flight_def)
  then show ?thesis using assms(1) False by (auto simp: remove_queued_run_def)
qed

lemma assign_run_ok:
  "assign_queued_run now gone r host s = (res, s') \<Longrightarrow> queue_ok (s, p) \<Longrightarrow> queue_ok (s', p)"
  by (auto simp: assign_queued_run_def remove_queued_run_def split: option.split_asm prod.split_asm sum.split_asm
      intro!: queue_ok_drop intro: queue_ok_same)

text \<open>A cancellation begins in one of three ways; what it returns is what it leaves in the queue.\<close>

definition canceled_entry :: "queued_run \<Rightarrow> queued_run" where
  "canceled_entry q =
     (if qd_canceled q then q
      else q\<lparr>qd_canceled := True, qd_record := (qd_record q)\<lparr>qr_state := ''canceling''\<rparr>\<rparr>)"

lemma begin_cancel_cases:
  assumes "begin_cancel written run s = (res, s')"
  obtains "s' = s" "\<exists>e. res = Inl e"
  | q where "find_queued s run = Some q" "\<not> qd_dispatching q" "\<not> qd_canceled q" "\<exists>e. res = Inl e"
      "s' = change_queued run (\<lambda>q. q\<lparr>qd_canceled := False, qd_record := (qd_record q)\<lparr>qr_state := ''queued''\<rparr>\<rparr>) s"
  | q i where "find_queued s run = Some q" "\<not> qd_dispatching q" "res = Inr (canceled_entry q)"
      "s' = change_queued run (\<lambda>_. (canceled_entry q)\<lparr>qd_cancellation_active := True\<rparr>) (s\<lparr>sd_intents := i\<rparr>)"
proof (cases "find_queued s run")
  case None
  then show ?thesis using that(1) assms by (auto simp: begin_cancel_def)
next
  case (Some q)
  consider "qd_dispatching q \<or> qd_cancellation_active q"
    | "\<not> (qd_dispatching q \<or> qd_cancellation_active q)" "\<not> qd_canceled q" "\<not> written"
    | "\<not> (qd_dispatching q \<or> qd_cancellation_active q)" "qd_canceled q"
    | "\<not> (qd_dispatching q \<or> qd_cancellation_active q)" "\<not> qd_canceled q" "written" by blast
  then show ?thesis
  proof cases
    case 1
    then show ?thesis using that(1) assms Some by (auto simp: begin_cancel_def split: if_split_asm)
  next
    case 2
    then show ?thesis using that(2) [OF Some] assms Some by (auto simp: begin_cancel_def Let_def)
  next
    case 3
    then show ?thesis
      using that(3) [OF Some, of "sd_intents s"] assms Some by (simp add: begin_cancel_def Let_def canceled_entry_def)
  next
    case 4
    then show ?thesis
      using that(3) [OF Some] assms Some by (auto simp: begin_cancel_def Let_def canceled_entry_def)
  qed
qed

lemma canceled_entry_sound:
  assumes "sound_entry run q" "\<not> qd_dispatching q"
  shows "sound_entry run (canceled_entry q)" "qd_canceled (canceled_entry q)" "qd_selected (canceled_entry q) = None"
    "\<not> qd_dispatching (canceled_entry q)" "qd_serial (canceled_entry q) = qd_serial q"
proof -
  have "qd_selected q = None" using assms unfolding sound_entry_def by blast
  then show "sound_entry run (canceled_entry q)" "qd_canceled (canceled_entry q)" "qd_selected (canceled_entry q) = None"
    "\<not> qd_dispatching (canceled_entry q)" "qd_serial (canceled_entry q) = qd_serial q"
    using assms by (simp_all add: sound_entry_def canceled_entry_def)
qed

lemma begin_cancel_ok:
  assumes "begin_cancel written run s = (res, s')" "queue_ok (s, p)"
  shows "queue_ok (s', p)"
  using assms(1)
proof (cases rule: begin_cancel_cases)
  case 1
  then show ?thesis using assms(2) by simp
next
  case (2 q)
  show ?thesis unfolding 2(5)
    by (rule queue_ok_change [OF assms(2)]) (use 2 in \<open>auto simp: sound_entry_def in_flight_def\<close>)
next
  case (3 q i)
  have "queue_ok (s\<lparr>sd_intents := i\<rparr>, p)" using assms(2) by (rule queue_ok_same) simp
  then show ?thesis unfolding 3(4)
  proof (rule queue_ok_change)
    fix q0 assume "find_queued (s\<lparr>sd_intents := i\<rparr>) run = Some q0" "sound_entry run q0"
    then have "sound_entry run q" using 3(1) by (simp add: queue_simps)
    note e = canceled_entry_sound [OF this 3(2)]
    have "sound_entry run ((canceled_entry q)\<lparr>qd_cancellation_active := True\<rparr>)"
      using e(1) by (simp add: sound_entry_def)
    then show "sound_entry run ((canceled_entry q)\<lparr>qd_cancellation_active := True\<rparr>)
      \<and> (qd_canceled q0 \<longrightarrow> qd_canceled ((canceled_entry q)\<lparr>qd_cancellation_active := True\<rparr>))
      \<and> (in_flight ((canceled_entry q)\<lparr>qd_cancellation_active := True\<rparr>) \<longrightarrow>
          claims p run ((canceled_entry q)\<lparr>qd_cancellation_active := True\<rparr>))"
      using e by (simp add: in_flight_def)
  qed
qed

lemma release_waiter_fields [simp]:
  "qd_record (release_queued_waiter q) = qd_record q" "qd_selected (release_queued_waiter q) = qd_selected q"
  "qd_dispatching (release_queued_waiter q) = qd_dispatching q" "qd_canceled (release_queued_waiter q) = qd_canceled q"
  "qd_error (release_queued_waiter q) = qd_error q" "qd_serial (release_queued_waiter q) = qd_serial q"
  by (simp_all add: release_queued_waiter_def)

lemma end_cancel_cases:
  assumes "end_cancel completed terminal gone run n s = (b, s')"
  obtains "s' = s"
  | "s' = drop_queued run (s\<lparr>sd_intents := (sd_intents s)(run := None)\<rparr>)"
  | w where "s' = change_queued run (\<lambda>q. (if w then release_queued_waiter q else q)\<lparr>qd_cancellation_active := False\<rparr>) s"
  using assms that(1,2) that(3) [of True] that(3) [of False]
  by (cases terminal) (auto simp: end_cancel_def split: option.split_asm if_split_asm)

lemma end_cancel_ok:
  assumes "end_cancel completed terminal gone run n s = (b, s')" "queue_ok (s, p)"
  shows "queue_ok (s', p)"
  using assms(1)
proof (cases rule: end_cancel_cases)
  case (3 w)
  let ?f = "\<lambda>q. (if w then release_queued_waiter q else q)\<lparr>qd_cancellation_active := False\<rparr>"
  have same: "sound_entry run (?f q) = sound_entry run q" "in_flight (?f q) = in_flight q"
    "qd_canceled (?f q) = qd_canceled q" "claims p run (?f q) = claims p run q" for q
    by (simp_all add: sound_entry_def in_flight_def claims_serial [where q' = "?f q" and q = q])
  show ?thesis unfolding 3 by (rule queue_ok_change [OF assms(2)]) (simp only: same, blast)
qed (use assms(2) queue_ok_drop in simp_all)

text \<open>Every step keeps the invariant.\<close>

lemma step_ok:
  assumes "queue_step sha256 x y" "queue_ok x"
  shows "queue_ok y"
  using assms
proof (induction rule: queue_step.induct)
  case (Begin now s hosts s')
  then show ?case by (rule begin_dispatch_ok)
next
  case (Skip now h s s' hs es)
  then show ?case using claim_none [OF Skip(1)] queue_ok_waiting by blast
next
  case (Claim now h s cl s' hs es)
  then show ?case by (rule claim_ok)
next
  case (Settle now cl outcome s res s' hs es message)
  then show ?case using settle_ok by blast
next
  case (Return now cl outcome s s' hs es)
  then have "queue_ok (s', Pass hs es)" using settle_ok by blast
  then show ?case by (rule queue_ok_waiting) simp
next
  case (Release s cl hs es failure)
  then show ?case by (rule queue_ok_waiting) simp
next
  case (Publish s es now)
  then have "queue_ok (s, Idle)" by (rule queue_ok_waiting) simp
  then show ?case by (rule publish_errors_ok)
next
  case (Insert s r p accepted)
  then show ?case using insert_ok by blast
next
  case (Start s b s' p)
  then show ?case by (auto simp: start_queue_scheduler_def split: if_split_asm)
next
  case (Round s b s' p)
  then show ?case by (auto simp: queue_scheduler_round_def split: if_split_asm)
next
  case (Admit now submission requirements s res1 s' p)
  then show ?case using reserve_ok by blast
next
  case (Requeue now run host s b s' p)
  then show ?case using requeue_ok by blast
next
  case (Roll_back now run host persisted s b s' p)
  then show ?case using roll_back_ok by blast
next
  case (Remove run gone s b s' p)
  then show ?case using remove_ok by blast
next
  case (Assign_run now gone r host s res2 s' p)
  then show ?case using assign_run_ok by blast
next
  case (Begin_cancel written run s res3 s' p)
  then show ?case using begin_cancel_ok by blast
next
  case (End_cancel completed terminal gone run n s b s' p)
  then show ?case using end_cancel_ok by blast
qed (simp_all add: abandon_ok load_failed_ok)

subsection \<open>What becomes of an entry\<close>

text \<open>
  An entry keeps its serial number; once it is canceled it stays canceled, and once it is canceled
  without a host it never gets one.
\<close>

definition stays_canceled :: "queued_run \<Rightarrow> queued_run \<Rightarrow> bool" where
  "stays_canceled q q' \<longleftrightarrow>
     qd_serial q' = qd_serial q
   \<and> (qd_canceled q \<longrightarrow> qd_canceled q' \<and> (qd_selected q = None \<longrightarrow> qd_selected q' = None))"

definition evolved :: "scheduler \<Rightarrow> scheduler \<Rightarrow> bool" where
  "evolved s s' \<longleftrightarrow>
     sd_next s \<le> sd_next s'
   \<and> (\<forall>run q'. find_queued s' run = Some q' \<longrightarrow>
        sd_next s \<le> qd_serial q' \<and> qd_serial q' < sd_next s'
      \<or> (\<exists>q. find_queued s run = Some q \<and> stays_canceled q q'))"

lemma stays_canceled_refl [simp]: "stays_canceled q q"
  by (simp add: stays_canceled_def)

lemma stays_canceled_trans: "stays_canceled p q \<Longrightarrow> stays_canceled q r \<Longrightarrow> stays_canceled p r"
  by (simp add: stays_canceled_def)

lemma evolved_trans:
  assumes "evolved r s" "evolved s t"
  shows "evolved r t"
proof -
  have order: "sd_next r \<le> sd_next s" "sd_next s \<le> sd_next t" using assms by (simp_all add: evolved_def)
  have "sd_next r \<le> qd_serial q' \<and> qd_serial q' < sd_next t \<or> (\<exists>q. find_queued r run = Some q \<and> stays_canceled q q')"
    if t: "find_queued t run = Some q'" for run q'
  proof -
    consider "sd_next s \<le> qd_serial q'" "qd_serial q' < sd_next t"
      | q where "find_queued s run = Some q" "stays_canceled q q'"
      using assms(2) t unfolding evolved_def by blast
    then show ?thesis
    proof cases
      case 1
      then show ?thesis using order by linarith
    next
      case 2
      then consider "sd_next r \<le> qd_serial q" "qd_serial q < sd_next s"
        | q0 where "find_queued r run = Some q0" "stays_canceled q0 q"
        using assms(1) unfolding evolved_def by blast
      then show ?thesis
      proof cases
        case 1
        then show ?thesis using 2(2) order by (simp add: stays_canceled_def)
      next
        case (2 q0)
        then show ?thesis using stays_canceled_trans [OF 2(2) \<open>stays_canceled q q'\<close>] by blast
      qed
    qed
  qed
  then show ?thesis using order by (simp add: evolved_def)
qed

lemma evolved_same: "find_queued s' = find_queued s \<Longrightarrow> sd_next s' = sd_next s \<Longrightarrow> evolved s s'"
  by (auto simp: evolved_def)

lemma evolved_control [simp]:
  "evolved s s" "evolved s (s\<lparr>sd_control := c\<rparr>)" "evolved s (s\<lparr>sd_intents := i\<rparr>)" "evolved s (s\<lparr>sd_admissions := n\<rparr>)"
  "evolved s (s\<lparr>sd_running := b\<rparr>)" "evolved s (change_control g s)" "evolved s (set_agent_state agent state s)"
  by (rule evolved_same, simp_all add: queue_simps change_control_def set_agent_state_def)+

lemma evolved_reset [simp]: "evolved s (reset_queue_host_claim now cl s)"
  by (simp add: reset_queue_host_claim_def split: option.split)

lemma evolved_change:
  assumes "\<And>q. find_queued s run = Some q \<Longrightarrow> stays_canceled q (f q)"
  shows "evolved s (change_queued run f s)"
proof -
  have "sd_next (change_queued run f s) = sd_next s" by (simp add: change_queued_def split: option.split)
  then show ?thesis using assms by (auto simp: evolved_def queue_simps)
qed

lemma evolved_drop [simp]: "evolved s (drop_queued run s)"
  by (auto simp: evolved_def queue_simps drop_queued_def [of run s, THEN arg_cong [where f = sd_next]])

lemma evolved_then_change:
  "evolved s t \<Longrightarrow> (\<And>q. find_queued t run = Some q \<Longrightarrow> stays_canceled q (f q)) \<Longrightarrow> evolved s (change_queued run f t)"
  using evolved_trans evolved_change by blast

lemma evolved_then_control:
  "evolved s t \<Longrightarrow> evolved s (t\<lparr>sd_control := c\<rparr>)" "evolved s t \<Longrightarrow> evolved s (set_agent_state agent state t)"
  "evolved s t \<Longrightarrow> evolved s (drop_queued run t)" "evolved s t \<Longrightarrow> evolved s (t\<lparr>sd_intents := i\<rparr>)"
  using evolved_trans evolved_control evolved_drop by blast+

lemma evolved_begin:
  assumes "begin_dispatch now s = (hosts, s')"
  shows "evolved s s'"
proof -
  have "sd_next s' = sd_next s" using assms by (auto simp: begin_dispatch_def Let_def)
  then show ?thesis
    by (auto simp: evolved_def find_queued_begin [OF assms] stays_canceled_def)
qed

lemma evolved_claim:
  assumes "claim_run now h s = (res, s')"
  shows "evolved s s'"
proof (cases res)
  case None
  then show ?thesis using assms claim_none [of now h s s'] by simp
next
  case (Some cl)
  show ?thesis
    by (rule claim_run_finds [OF assms [unfolded Some]])
      (auto intro!: evolved_then_control(2) evolved_change simp: stays_canceled_def)
qed

lemma evolved_give_back: "evolved s (give_back now cl b s)"
  by (auto simp: give_back_def Let_def stays_canceled_def intro!: evolved_then_change)

lemma evolved_settle:
  assumes "settle_claim now cl outcome s = (res, s')"
  shows "evolved s s'"
proof (cases "outcome = LockHeld \<and> claim_eligible now cl s")
  case True
  then have "\<not> qd_canceled q" if "find_queued s (hc_run cl) = Some q" for q
    using that by (simp add: claim_eligible_def candidate_claim_current_def)
  then show ?thesis
    using True assms
    by (auto simp: settle_claim_def stays_canceled_def split: option.split_asm intro!: evolved_change)
next
  case False
  then have "\<exists>b. s' = give_back now cl b s"
    using assms by (auto simp: settle_claim_def split: lock_attempt.split_asm)
  then show ?thesis using evolved_give_back by blast
qed

lemma evolved_publish: "evolved s (publish_errors now es s)"
proof -
  have step: "evolved t (publish_error now e t)" for e t
    by (auto simp: publish_error_def stays_canceled_def intro!: evolved_change split: prod.split option.split)
  have "evolved s t \<Longrightarrow> evolved s (fold (publish_error now) es t)" for t
    by (induction es arbitrary: t) (auto intro: evolved_trans [OF _ step])
  then show ?thesis by (simp add: publish_errors_def)
qed

lemma evolved_reset_dispatch: "evolved s t \<Longrightarrow> evolved s (reset_queued_dispatch run t)"
  unfolding reset_queued_dispatch_def by (rule evolved_then_change) (simp_all add: stays_canceled_def)

lemma evolved_requeue: "requeue_lost_reservation now run host s = (b, s') \<Longrightarrow> evolved s s'"
  by (auto simp: requeue_lost_reservation_def split: if_split_asm option.split_asm intro!: evolved_reset_dispatch)

lemma evolved_roll_back: "roll_back_reservation now run host persisted s = (b, s') \<Longrightarrow> evolved s s'"
  by (auto simp: roll_back_reservation_def Let_def split: if_split_asm option.split_asm intro!: evolved_reset_dispatch)

lemma evolved_remove: "remove_queued_run run gone s = (b, s') \<Longrightarrow> evolved s s'"
  by (auto simp: remove_queued_run_def stays_canceled_def split: if_split_asm
      intro!: evolved_change evolved_then_control)

lemma evolved_assign: "assign_queued_run now gone r host s = (res, s') \<Longrightarrow> evolved s s'"
  by (auto simp: assign_queued_run_def remove_queued_run_def split: option.split_asm prod.split_asm sum.split_asm
      intro!: evolved_then_control)

lemma evolved_begin_cancel:
  assumes "begin_cancel written run s = (res, s')"
  shows "evolved s s'"
  using assms
proof (cases rule: begin_cancel_cases)
  case (2 q)
  show ?thesis unfolding 2(5) by (rule evolved_change) (use 2 in \<open>simp add: stays_canceled_def\<close>)
next
  case (3 q i)
  show ?thesis unfolding 3(4)
    by (rule evolved_then_change)
      (use 3 in \<open>auto simp: stays_canceled_def canceled_entry_def find_queued_other\<close>)
qed simp

lemma evolved_end_cancel:
  assumes "end_cancel completed terminal gone run n s = (b, s')"
  shows "evolved s s'"
  using assms
proof (cases rule: end_cancel_cases)
  case 2
  then show ?thesis by (simp add: evolved_then_control)
next
  case (3 w)
  show ?thesis unfolding 3 by (rule evolved_change) (simp add: stays_canceled_def)
qed simp

lemma evolved_insert: "evolved s (insert_queued_run r accepted s)"
proof -
  have "sd_next (insert_queued_run r accepted s) = Suc (sd_next s)" by (simp add: insert_queued_run_def Let_def)
  then show ?thesis by (auto simp: evolved_def find_queued_insert new_queued_run_def)
qed

lemma step_evolved: "queue_step sha256 x y \<Longrightarrow> evolved (fst x) (fst y)"
proof (induction rule: queue_step.induct)
  case (Admit now submission requirements s res1 s' p)
  then show ?case by (auto simp: reserve_place_def split: if_split_asm sum.split_asm)
next
  case (Load_failed s p run n message)
  show ?case by (auto simp: load_failed_def stays_canceled_def intro!: evolved_change split: option.split)
next
  case (Start s b s' p)
  then show ?case by (auto simp: start_queue_scheduler_def split: if_split_asm)
next
  case (Round s b s' p)
  then show ?case by (auto simp: queue_scheduler_round_def split: if_split_asm)
qed (simp_all add: evolved_begin evolved_claim evolved_settle evolved_publish evolved_requeue evolved_roll_back
      evolved_remove evolved_assign evolved_begin_cancel evolved_end_cancel evolved_insert abandon_place_def)

text \<open>
  A recovered run that fails to load is made inert, also when the dispatcher has already selected a
  host for it: the host stays reserved for a run without a waiter, and the run cannot be canceled.
\<close>

lemma load_failed_keeps_host:
  assumes "find_queued s run = Some q" "qd_serial q = n" "qd_selected q = Some host"
  shows "sd_control (load_failed run n message s) = sd_control s"
    "queued_selection run (load_failed run n message s) = SelectedHost host (qd_capabilities q) (qd_build q)"
    "begin_cancel True run (load_failed run n message s) = (Inl Dispatching, load_failed run n message s)"
proof -
  have found: "find_queued (load_failed run n message s) run =
      Some (q\<lparr>qd_dispatching := True, qd_error := Some (LoadFailed message)\<rparr>)"
    using assms by (simp add: load_failed_def queue_simps)
  then show "queued_selection run (load_failed run n message s) = SelectedHost host (qd_capabilities q) (qd_build q)"
    "begin_cancel True run (load_failed run n message s) = (Inl Dispatching, load_failed run n message s)"
    using assms(3) by (simp_all add: queued_selection_def begin_cancel_def)
  show "sd_control (load_failed run n message s) = sd_control s"
    by (simp add: load_failed_def change_queued_def split: option.split)
qed

subsection \<open>Runs of the queue\<close>

text \<open>What a restart leaves: every entry is loaded afresh, canceled when it has a cancel intent.\<close>

definition starting_entry :: "nat \<Rightarrow> string \<times> queued_run \<Rightarrow> bool" where
  "starting_entry n e \<longleftrightarrow>
     (case e of (run, q) \<Rightarrow>
        qr_run (qd_record q) = run \<and> qd_serial q < n \<and> \<not> qd_dispatching q \<and> qd_selected q = None \<and> qd_error q = None
      \<and> (qr_state (qd_record q) = ''canceling'' \<longrightarrow> qd_canceled q))"

definition starting_scheduler :: "scheduler \<Rightarrow> bool" where
  "starting_scheduler s \<longleftrightarrow>
     distinct (map fst (sd_queue s)) \<and> waiting_queue_count s \<le> maximum_queued_runs \<and> sd_admissions s = 0
   \<and> list_all (starting_entry (sd_next s)) (sd_queue s)"

lemma starting_found:
  "starting_scheduler s \<Longrightarrow> find_queued s run = Some q \<Longrightarrow> starting_entry (sd_next s) (run, q)"
  by (auto simp: starting_scheduler_def find_queued_def list_all_iff dest: map_of_SomeD)

lemma starting_ok: "starting_scheduler s \<Longrightarrow> queue_ok (s, p)"
  using starting_found [of s]
  by (fastforce simp: queue_ok_def starting_scheduler_def bounded_queue_def starting_entry_def sound_entry_def in_flight_def)

lemma run_ok: "(queue_step sha256)\<^sup>*\<^sup>* x y \<Longrightarrow> queue_ok x \<Longrightarrow> queue_ok y"
  by (induction rule: rtranclp_induct) (auto intro: step_ok)

lemma run_evolved: "(queue_step sha256)\<^sup>*\<^sup>* x y \<Longrightarrow> evolved (fst x) (fst y)"
  by (induction rule: rtranclp_induct) (auto intro: evolved_trans step_evolved)

lemma evolved_fresh:
  assumes "evolved s t" "\<And>run q. find_queued s run = Some q \<Longrightarrow> qd_serial q < sd_next s" "find_queued t run = Some q'"
  shows "qd_serial q' < sd_next t"
  using assms unfolding evolved_def stays_canceled_def by fastforce

text \<open>C36. A cancel wins over the dispatcher.  From the moment a cancellation of a queued run is granted,
  whatever the dispatcher, the agents and the other clients do and in whatever order, the run
  (the same entry of the queue) is never claimed by a host, the settlement of a claim never
  selects it, and its waiter never sees a host.\<close>

theorem canceled_never_dispatched:
  assumes "starting_scheduler s0" "(queue_step sha256)\<^sup>*\<^sup>* (s0, Idle) (s, p)"
    "begin_cancel written run s = (Inr q, s')" "(queue_step sha256)\<^sup>*\<^sup>* (s', p) (t, p')"
    "find_queued t run = Some q'" "qd_serial q' = qd_serial q"
  shows "qd_canceled q' \<and> (\<forall>now a. \<not> wants_host now a q')
    \<and> (\<forall>now cl outcome. hc_run cl = run \<longrightarrow> fst (settle_claim now cl outcome t) \<noteq> Selected)
    \<and> (\<forall>host caps build. queued_selection run t \<noteq> SelectedHost host caps build)"
proof -
  note ok = run_ok [OF assms(2) starting_ok [OF assms(1)]]
  obtain q0 where q0: "find_queued s run = Some q0" "\<not> qd_dispatching q0" "q = canceled_entry q0"
    "find_queued s' run = Some ((canceled_entry q0)\<lparr>qd_cancellation_active := True\<rparr>)"
    "sd_next s' = sd_next s"
    using assms(3) by (cases rule: begin_cancel_cases) (auto simp: queue_simps)
  note e = canceled_entry_sound [OF queue_okD(2) [OF ok q0(1)] q0(2)]
  have "qd_serial q0 < sd_next s"
    using evolved_fresh [OF _ _ q0(1)] run_evolved [OF assms(2)] starting_found [OF assms(1)]
    by (simp add: starting_entry_def)
  then have "\<not> sd_next s' \<le> qd_serial q'" using q0(3,5) e(5) assms(6) by simp
  then have "stays_canceled ((canceled_entry q0)\<lparr>qd_cancellation_active := True\<rparr>) q'"
    using run_evolved [OF assms(4)] assms(5) q0(4) unfolding evolved_def by fastforce
  then have "qd_canceled q'" "qd_selected q' = None" using e by (simp_all add: stays_canceled_def)
  moreover have "fst (settle_claim now cl outcome t) \<noteq> Selected" if "hc_run cl = run" for now cl outcome
    using that assms(5) \<open>qd_canceled q'\<close>
    by (simp add: settle_claim_def claim_eligible_def candidate_claim_current_def split: lock_attempt.split)
  ultimately show ?thesis
    by (simp add: wants_host_def queued_selection_def assms(5) split: option.split)
qed

theorem canceled_never_dispatched_witness:
  "\<exists>q s'. begin_cancel True ''r2'' sample_scheduler = (Inr q, s')
     \<and> (\<forall>host caps build. queued_selection ''r2'' (snd (begin_dispatch 0 s')) \<noteq> SelectedHost host caps build)"
proof -
  have start: "starting_scheduler sample_scheduler" by code_simp
  have "case begin_cancel True ''r2'' sample_scheduler of (Inl e, s') \<Rightarrow> False | (Inr q, s') \<Rightarrow> True" by code_simp
  then obtain q s' where c: "begin_cancel True ''r2'' sample_scheduler = (Inr q, s')"
    by (auto split: prod.split_asm sum.split_asm)
  have found: "map_option qd_serial (find_queued (snd (begin_dispatch 0 (snd (begin_cancel True ''r2'' sample_scheduler)))) ''r2'')
      = Some (case fst (begin_cancel True ''r2'' sample_scheduler) of Inr q \<Rightarrow> qd_serial q | Inl e \<Rightarrow> 0)" by code_simp
  obtain q' where q': "find_queued (snd (begin_dispatch 0 s')) ''r2'' = Some q'" "qd_serial q' = qd_serial q"
    using found by (auto simp: c)
  have "queue_step id (s', Idle) (snd (begin_dispatch 0 s'), Pass (fst (begin_dispatch 0 s')) [])"
    by (rule Begin) simp
  then have "(queue_step id)\<^sup>*\<^sup>* (s', Idle) (snd (begin_dispatch 0 s'), Pass (fst (begin_dispatch 0 s')) [])" by blast
  from canceled_never_dispatched [OF start rtranclp.rtrancl_refl c this q'] show ?thesis using c by blast
qed



end
