(* ===== verification/Queue_Recovery.thy ===== *)
theory Queue_Recovery
  imports Queue_System
begin

text \<open>
  The queue after a restart (\<open>loadControlPlaneQueue\<close> and \<open>resumeControlPlaneQueue\<close> of
  \<open>run_queue.go\<close>): every durable intent is checked against the assignments that were recovered
  before it and against the run's ledger, and is dropped, queued again, or finished.

  What the disk says of a run and how its writes go is an argument (\<open>run_evidence\<close>).
\<close>

subsection \<open>The directory\<close>

text \<open>\<open>strings.Index\<close>\<close>

fun index_of :: "string \<Rightarrow> string \<Rightarrow> nat option" where
  "index_of pat [] = (if pat = [] then Some 0 else None)"
| "index_of pat (c # s) = (if has_prefix (c # s) pat then Some 0 else map_option Suc (index_of pat s))"

datatype queue_entry =
    QueueEntry
      (entry_name: string)
      (entry_regular: bool)
      (entry_is_dir: bool)
      (entry_removed: bool)
      (entry_record: "queue_record option")

definition is_queued_run_atomic_temporary :: "queue_entry \<Rightarrow> bool" where
  "is_queued_run_atomic_temporary e =
     (case index_of ''.json.tmp-'' (entry_name e) of
        None \<Rightarrow> False
      | Some marker \<Rightarrow>
          if \<not> entry_regular e \<or> marker < 2 \<or> entry_name e ! 0 \<noteq> CHR ''.''
             \<or> marker + length ''.json.tmp-'' = length (entry_name e) then False
          else validate_run_id (drop 1 (take marker (entry_name e))) = Inr ())"

text \<open>\<open>filepath.Ext\<close>: what follows the last dot of the name, the dot included.\<close>

definition file_ext :: "string \<Rightarrow> string" where
  "file_ext name =
     (if CHR ''.'' \<in> set name
      then CHR ''.'' # rev (takeWhile (\<lambda>c. c \<noteq> CHR ''.'') (rev name)) else [])"

definition valid_queue_record :: "string \<Rightarrow> queue_record \<Rightarrow> bool" where
  "valid_queue_record name r \<longleftrightarrow>
     \<not> (qr_version r \<noteq> 1 \<or> validate_run_id (qr_run r) \<noteq> Inr () \<or> name \<noteq> qr_run r @ ''.json''
        \<or> qr_state r \<noteq> ''admitting'' \<and> qr_state r \<noteq> ''queued'' \<and> qr_state r \<noteq> ''canceling''
        \<or> sb_version (qr_submission r) \<noteq> 1 \<or> sb_scenario (qr_submission r) = [] \<or> qr_pool r = [])"

subsection \<open>One durable intent\<close>

record run_evidence =
  re_ledger :: "run_ledger_record option"
  re_occupied :: "bool option"
  re_abandoned :: bool
  re_removed :: bool
  re_ensured :: bool
  re_event :: bool
  re_marked :: bool
  re_written :: bool
  re_prepared :: bool
  re_cleaned :: bool

datatype recovery_error =
    InvalidQueuePath string
  | InvalidQueuedRun string
  | QueueStorage
  | NoRecoverableLedger string
  | NoMatchingLedger string
  | InvalidDurableState string
  | QueueOverflow

datatype recovered =
    Dropped
  | Finished "run_ledger_record option"
  | Waiting queue_record "run_ledger_record option"
  | CancelPending queue_record "run_ledger_record option"

definition terminal_run_ledger_record :: "run_ledger_record \<Rightarrow> bool" where
  "terminal_run_ledger_record r \<longleftrightarrow>
     lr_state r \<in> set [''completed'', ''failed'', ''canceled'', ''kept'', ''cleanup-failed'']"

definition remove_queue_intent :: "run_evidence \<Rightarrow> recovered \<Rightarrow> (recovery_error, recovered) result" where
  "remove_queue_intent ev outcome = (if re_removed ev then Inr outcome else Inl QueueStorage)"

text \<open>\<open>ensureQueuedEvent\<close> and \<open>markControlPlaneRunQueued\<close> of a run that was accepted only.\<close>

definition mark_submitted ::
  "int \<Rightarrow> run_evidence \<Rightarrow> run_ledger_record \<Rightarrow> (recovery_error, run_ledger_record) result" where
  "mark_submitted now ev ledger =
     (if lr_state ledger \<noteq> ''submitted'' then Inr ledger
      else if \<not> re_event ev \<or> \<not> re_marked ev then Inl QueueStorage
      else Inr (queued_ledger now ledger))"

text \<open>
  An intent whose admission was not finished: it is undone when no ledger was published, dropped
  when the run is over, and finished when the run was accepted.
\<close>

definition recover_admitting ::
  "int \<Rightarrow> run_evidence \<Rightarrow> queue_record \<Rightarrow> (recovery_error, recovered) result" where
  "recover_admitting now ev r =
     (if re_ledger ev = None \<and> re_occupied ev = Some False
      then (if re_abandoned ev then remove_queue_intent ev Dropped else Inl QueueStorage)
      else if re_occupied ev = None then Inl QueueStorage
      else (case re_ledger ev of
              None \<Rightarrow> Inl (NoRecoverableLedger (qr_run r))
            | Some ledger \<Rightarrow>
                if terminal_run_ledger_record ledger then remove_queue_intent ev Dropped
                else if lr_accepted ledger = [] \<or> lr_state ledger \<noteq> ''submitted'' \<and> lr_state ledger \<noteq> ''queued''
                then Inl (NoRecoverableLedger (qr_run r))
                else if \<not> re_ensured ev \<or> \<not> re_event ev then Inl QueueStorage
                else (case mark_submitted now ev ledger of
                        Inl e \<Rightarrow> Inl e
                      | Inr ledger' \<Rightarrow>
                          if \<not> re_written ev then Inl QueueStorage
                          else Inr (Waiting (r\<lparr>qr_state := ''queued'', qr_accepted := lr_accepted ledger\<rparr>)
                                      (Some ledger')))))"

definition recover_canceling ::
  "int \<Rightarrow> run_evidence \<Rightarrow> queue_record \<Rightarrow> (recovery_error, recovered) result" where
  "recover_canceling now ev r =
     (case re_ledger ev of
        None \<Rightarrow> Inl (NoMatchingLedger (qr_run r))
      | Some ledger \<Rightarrow>
          if lr_accepted ledger \<noteq> qr_accepted r then Inl (NoMatchingLedger (qr_run r))
          else (case mark_submitted now ev ledger of
                  Inl e \<Rightarrow> Inl e
                | Inr marked \<Rightarrow>
                    if lr_state marked \<notin> set [''queued'', ''canceling'', ''canceled'', ''cleanup-failed'']
                    then Inl (InvalidDurableState (qr_run r))
                    else (case complete_queued_cancellation now (re_prepared ev) (re_cleaned ev) marked of
                            (False, left) \<Rightarrow> Inr (CancelPending r (Some left))
                          | (True, left) \<Rightarrow> remove_queue_intent ev (Finished (Some left)))))"

text \<open>An intent of a queued run; \<open>waiting\<close> is the number of runs that are queued already.\<close>

definition recover_waiting ::
  "int \<Rightarrow> nat \<Rightarrow> run_evidence \<Rightarrow> queue_record \<Rightarrow> run_ledger_record option \<Rightarrow> (recovery_error, recovered) result" where
  "recover_waiting now waiting ev r ledger =
     (case ledger of
        None \<Rightarrow> Inl (NoMatchingLedger (qr_run r))
      | Some l \<Rightarrow>
          if terminal_run_ledger_record l \<or> lr_state l = ''canceled'' then remove_queue_intent ev Dropped
          else if lr_accepted l \<noteq> qr_accepted r \<or> lr_state l \<noteq> ''queued'' \<and> lr_state l \<noteq> ''submitted''
          then Inl (NoMatchingLedger (qr_run r))
          else (case mark_submitted now ev l of
                  Inl e \<Rightarrow> Inl e
                | Inr l' \<Rightarrow> if waiting \<ge> maximum_queued_runs then Inl QueueOverflow else Inr (Waiting r (Some l'))))"

definition recover_queue_record ::
  "int \<Rightarrow> nat \<Rightarrow> bool \<Rightarrow> run_evidence \<Rightarrow> queue_record \<Rightarrow> (recovery_error, recovered) result" where
  "recover_queue_record now waiting assigned ev r =
     (if assigned then remove_queue_intent ev Dropped
      else if qr_state r = ''admitting''
      then (case recover_admitting now ev r of
              Inr (Waiting r' l) \<Rightarrow> recover_waiting now waiting ev r' l
            | outcome \<Rightarrow> outcome)
      else if qr_state r = ''canceling'' then recover_canceling now ev r
      else recover_waiting now waiting ev r (re_ledger ev))"

subsection \<open>The whole directory\<close>

definition requeued_run :: "queue_record \<Rightarrow> bool \<Rightarrow> scheduler \<Rightarrow> scheduler" where
  "requeued_run r canceled s =
     s\<lparr>sd_queue := AList.update (qr_run r) ((new_queued_run r (sd_next s))\<lparr>qd_canceled := canceled\<rparr>) (sd_queue s),
       sd_intents := (sd_intents s)(qr_run r := Some r), sd_next := Suc (sd_next s)\<rparr>"

definition recover_queue_entry ::
  "int \<Rightarrow> (string \<Rightarrow> run_evidence) \<Rightarrow> queue_entry \<Rightarrow> scheduler \<Rightarrow> (recovery_error, scheduler) result" where
  "recover_queue_entry now disk e s =
     (if is_queued_run_atomic_temporary e then (if entry_removed e then Inr s else Inl QueueStorage)
      else if entry_is_dir e \<or> file_ext (entry_name e) \<noteq> ''.json'' then Inl (InvalidQueuePath (entry_name e))
      else (case entry_record e of
              None \<Rightarrow> Inl QueueStorage
            | Some r \<Rightarrow>
                if \<not> valid_queue_record (entry_name e) r then Inl (InvalidQueuedRun (entry_name e))
                else (case recover_queue_record now (waiting_queue_count s)
                             (find_assignment (sd_control s) (qr_run r) \<noteq> None) (disk (qr_run r)) r of
                        Inl err \<Rightarrow> Inl err
                      | Inr Dropped \<Rightarrow> Inr (s\<lparr>sd_intents := (sd_intents s)(qr_run r := None)\<rparr>)
                      | Inr (Finished l) \<Rightarrow> Inr (s\<lparr>sd_intents := (sd_intents s)(qr_run r := None)\<rparr>)
                      | Inr (Waiting r' l) \<Rightarrow> Inr (requeued_run r' False s)
                      | Inr (CancelPending r' l) \<Rightarrow> Inr (requeued_run r' True s))))"

fun load_control_plane_queue ::
  "int \<Rightarrow> (string \<Rightarrow> run_evidence) \<Rightarrow> bool \<Rightarrow> queue_entry list \<Rightarrow> scheduler \<Rightarrow> (recovery_error, scheduler) result" where
  "load_control_plane_queue now disk synced [] s = (if synced then Inr s else Inl QueueStorage)"
| "load_control_plane_queue now disk synced (e # es) s =
     rbind (recover_queue_entry now disk e s) (load_control_plane_queue now disk synced es)"

text \<open>The runs a waiter is started for.\<close>

definition resume_control_plane_queue :: "scheduler \<Rightarrow> queue_record list" where
  "resume_control_plane_queue s = map (qd_record \<circ> snd) (filter (\<lambda>(run, q). \<not> qd_canceled q) (sd_queue s))"

subsection \<open>What a restart leaves\<close>

lemma remove_queue_intent_ok [simp]: "remove_queue_intent ev x = Inr y \<longleftrightarrow> re_removed ev \<and> y = x"
  by (auto simp: remove_queue_intent_def)

text \<open>A run waits again only for a ledger that says it was accepted and is queued.\<close>

definition waits_for :: "run_evidence \<Rightarrow> queue_record \<Rightarrow> bool" where
  "waits_for ev r \<longleftrightarrow>
     (\<exists>l. re_ledger ev = Some l \<and> lr_accepted l = qr_accepted r
        \<and> (lr_state l = ''queued'' \<or> lr_state l = ''submitted'') \<and> \<not> terminal_run_ledger_record l)"

lemma mark_submitted_ok:
  "mark_submitted now ev l = Inr l' \<Longrightarrow> lr_accepted l' = lr_accepted l
     \<and> (lr_state l = ''queued'' \<or> lr_state l = ''submitted'' \<longrightarrow> lr_state l' = ''queued'')"
  by (auto simp: mark_submitted_def queued_ledger_def Let_def split: if_split_asm)

lemma recover_waiting_ok:
  assumes "recover_waiting now waiting ev r ledger = Inr outcome"
  obtains "outcome = Dropped" "\<exists>l. ledger = Some l \<and> terminal_run_ledger_record l"
  | l l' where "ledger = Some l" "outcome = Waiting r (Some l')" "lr_accepted l = qr_accepted r"
      "lr_state l = ''queued'' \<or> lr_state l = ''submitted''" "\<not> terminal_run_ledger_record l"
      "waiting < maximum_queued_runs"
  using assms
  by (auto simp: recover_waiting_def terminal_run_ledger_record_def split: option.split_asm if_split_asm sum.split_asm)

lemma recover_admitting_ok:
  assumes "recover_admitting now ev r = Inr outcome"
  obtains "outcome = Dropped"
  | l l' where "re_ledger ev = Some l" "outcome = Waiting (r\<lparr>qr_state := ''queued'', qr_accepted := lr_accepted l\<rparr>) (Some l')"
      "lr_state l = ''queued'' \<or> lr_state l = ''submitted''" "\<not> terminal_run_ledger_record l"
  using assms
  by (auto simp: recover_admitting_def split: option.split_asm if_split_asm sum.split_asm)

text \<open>The outcomes of one intent.\<close>

lemma recover_record_waiting:
  assumes "recover_queue_record now waiting assigned ev r = Inr (Waiting r' l)"
  shows "\<not> assigned \<and> waits_for ev r' \<and> waiting < maximum_queued_runs \<and> qr_run r' = qr_run r
    \<and> qr_state r \<noteq> ''canceling'' \<and> (qr_state r \<noteq> ''admitting'' \<longrightarrow> r' = r)
    \<and> (qr_state r = ''admitting'' \<longrightarrow> qr_state r' = ''queued'')"
proof -
  have na: "\<not> assigned" using assms by (auto simp: recover_queue_record_def)
  show ?thesis
  proof (cases "qr_state r = ''admitting''")
    case True
    then obtain x where x: "recover_admitting now ev r = Inr x"
      using assms na by (auto simp: recover_queue_record_def split: sum.split_asm)
    then show ?thesis
    proof (cases rule: recover_admitting_ok)
      case 1
      then show ?thesis using assms na True x by (simp add: recover_queue_record_def)
    next
      case (2 a b)
      let ?r = "r\<lparr>qr_state := ''queued'', qr_accepted := lr_accepted a\<rparr>"
      have "recover_waiting now waiting ev ?r (Some b) = Inr (Waiting r' l)"
        using assms na True x 2 by (simp add: recover_queue_record_def)
      then have "r' = ?r" "waiting < maximum_queued_runs" by (auto elim: recover_waiting_ok)
      then show ?thesis using na True 2 by (simp add: waits_for_def)
    qed
  next
    case False
    have "qr_state r \<noteq> ''canceling''"
      using assms na False
      by (auto simp: recover_queue_record_def recover_canceling_def
          split: option.split_asm if_split_asm sum.split_asm prod.split_asm bool.split_asm)
    then have "recover_waiting now waiting ev r (re_ledger ev) = Inr (Waiting r' l)"
      using assms na False by (simp add: recover_queue_record_def)
    then show ?thesis using na False \<open>qr_state r \<noteq> ''canceling''\<close>
      by (auto simp: waits_for_def elim: recover_waiting_ok)
  qed
qed

lemma recover_record_pending:
  "recover_queue_record now waiting assigned ev r = Inr (CancelPending r' l) \<Longrightarrow> r' = r \<and> qr_state r = ''canceling''"
  by (auto simp: recover_queue_record_def recover_canceling_def elim: recover_waiting_ok recover_admitting_ok
      split: option.split_asm if_split_asm sum.split_asm prod.split_asm bool.split_asm recovered.split_asm)

lemma recover_record_kept:
  assumes "recover_queue_record now waiting False ev r = Inr outcome" "qr_state r = ''queued''"
    "re_ledger ev = Some l" "\<not> terminal_run_ledger_record l"
  shows "\<exists>l'. outcome = Waiting r l'"
  using assms by (auto simp: recover_queue_record_def elim: recover_waiting_ok)

lemma find_requeued:
  "find_queued (requeued_run r canceled s) x =
     (if x = qr_run r then Some ((new_queued_run r (sd_next s))\<lparr>qd_canceled := canceled\<rparr>) else find_queued s x)"
  by (simp add: requeued_run_def find_queued_def update_conv')

text \<open>What is known of a run of the recovered queue.\<close>

definition recovered_entry :: "control \<Rightarrow> (string \<Rightarrow> run_evidence) \<Rightarrow> queue_record \<Rightarrow> queued_run \<Rightarrow> bool" where
  "recovered_entry c disk r q \<longleftrightarrow>
     (if qd_canceled q then qr_state r = ''canceling''
      else qr_state r \<noteq> ''canceling'' \<and> find_assignment c (qr_run r) = None \<and> waits_for (disk (qr_run r)) (qd_record q))"

lemma recover_entry_cases:
  assumes "recover_queue_entry now disk e s = Inr t" "\<not> is_queued_run_atomic_temporary e"
  obtains r where "entry_record e = Some r" "valid_queue_record (entry_name e) r"
    "\<exists>i. t = s\<lparr>sd_intents := i\<rparr>"
    "qr_state r = ''queued'' \<longrightarrow> find_assignment (sd_control s) (qr_run r) = None \<longrightarrow>
       (\<forall>l. re_ledger (disk (qr_run r)) = Some l \<longrightarrow> terminal_run_ledger_record l)"
  | r r' b where "entry_record e = Some r" "valid_queue_record (entry_name e) r" "t = requeued_run r' b s"
    "qr_run r' = qr_run r" "qr_state r = ''queued'' \<Longrightarrow> r' = r \<and> \<not> b"
    "recovered_entry (sd_control s) disk r ((new_queued_run r' (sd_next s))\<lparr>qd_canceled := b\<rparr>)"
    "qr_state r' = ''canceling'' \<Longrightarrow> b" "\<not> b \<Longrightarrow> waiting_queue_count s < maximum_queued_runs"
proof -
  obtain r where r: "entry_record e = Some r" "valid_queue_record (entry_name e) r"
    using assms by (auto simp: recover_queue_entry_def split: if_split_asm option.split_asm)
  let ?assigned = "find_assignment (sd_control s) (qr_run r) \<noteq> None"
  obtain out where out: "recover_queue_record now (waiting_queue_count s) ?assigned (disk (qr_run r)) r = Inr out"
    using assms r by (auto simp: recover_queue_entry_def split: if_split_asm option.split_asm sum.split_asm)
  have kept: "terminal_run_ledger_record l"
    if "qr_state r = ''queued''" "find_assignment (sd_control s) (qr_run r) = None"
      "re_ledger (disk (qr_run r)) = Some l" "\<forall>r' l'. out \<noteq> Waiting r' l'" for l
    using recover_record_kept [OF _ that(1,3), of now "waiting_queue_count s" out] out that(2,4) by auto
  have kept': "qr_state r = ''queued'' \<longrightarrow> find_assignment (sd_control s) (qr_run r) = None \<longrightarrow>
       (\<forall>l. re_ledger (disk (qr_run r)) = Some l \<longrightarrow> terminal_run_ledger_record l)"
    if "\<forall>r' l'. out \<noteq> Waiting r' l'" using kept that by blast
  show ?thesis
  proof (cases out)
    case Dropped
    then have "\<exists>i. t = s\<lparr>sd_intents := i\<rparr>"
      using assms r out by (auto simp: recover_queue_entry_def split: if_split_asm)
    then show ?thesis using that(1) [OF r] kept' Dropped by simp
  next
    case (Finished x)
    then have "\<exists>i. t = s\<lparr>sd_intents := i\<rparr>"
      using assms r out by (auto simp: recover_queue_entry_def split: if_split_asm)
    then show ?thesis using that(1) [OF r] kept' Finished by simp
  next
    case (Waiting r' x)
    note w = recover_record_waiting [OF out [unfolded Waiting]]
    have "t = requeued_run r' False s"
      using assms r out Waiting by (auto simp: recover_queue_entry_def split: if_split_asm)
    moreover have "qr_state r' \<noteq> ''canceling''" using w by (cases "qr_state r = ''admitting''") auto
    ultimately show ?thesis
      by (intro that(2) [OF r, of r' False]) (use w in \<open>simp_all add: recovered_entry_def new_queued_run_def\<close>)
  next
    case (CancelPending r' x)
    note w = recover_record_pending [OF out [unfolded CancelPending]]
    have "t = requeued_run r' True s"
      using assms r out CancelPending by (auto simp: recover_queue_entry_def split: if_split_asm)
    then show ?thesis
      by (intro that(2) [OF r, of r' True]) (use w in \<open>simp_all add: recovered_entry_def\<close>)
  qed
qed

lemma starting_requeued:
  assumes "starting_scheduler s" "qr_state r = ''canceling'' \<Longrightarrow> b" "\<not> b \<Longrightarrow> waiting_queue_count s < maximum_queued_runs"
  shows "starting_scheduler (requeued_run r b s)"
proof -
  let ?q = "(new_queued_run r (sd_next s))\<lparr>qd_canceled := b\<rparr>"
  let ?P = "\<lambda>(run :: string, q). \<not> qd_canceled q"
  have "length (filter ?P (AList.update (qr_run r) ?q (sd_queue s))) \<le> length (filter ?P (sd_queue s)) + (if b then 0 else 1)"
    using count_update [of ?P "qr_run r" ?q "sd_queue s"] by (auto split: if_split_asm)
  then have "waiting_queue_count (requeued_run r b s) \<le> maximum_queued_runs"
    using assms by (auto simp: requeued_run_def waiting_queue_count_def starting_scheduler_def split: if_split_asm)
  moreover have up: "list_all (starting_entry (Suc (sd_next s))) xs" if "list_all (starting_entry (sd_next s)) xs" for xs
    using that by (auto simp: starting_entry_def list_all_iff)
  moreover have "list_all (starting_entry (Suc (sd_next s))) (AList.update (qr_run r) ?q xs)"
    if "list_all (starting_entry (sd_next s)) xs" for xs
    using that assms(2) up by (induction xs) (auto simp: starting_entry_def new_queued_run_def)
  ultimately show ?thesis
    using assms(1) by (simp add: starting_scheduler_def requeued_run_def distinct_update)
qed

lemma starting_intents [simp]: "starting_scheduler (s\<lparr>sd_intents := i\<rparr>) = starting_scheduler s"
  by (simp add: starting_scheduler_def waiting_queue_count_def)

lemma recover_entry_starting:
  assumes "recover_queue_entry now disk e s = Inr t" "starting_scheduler s"
  shows "starting_scheduler t \<and> sd_control t = sd_control s"
proof (cases "is_queued_run_atomic_temporary e")
  case True
  then show ?thesis using assms by (auto simp: recover_queue_entry_def split: if_split_asm)
next
  case False
  from assms(1) False show ?thesis
  proof (cases rule: recover_entry_cases)
    case (1 r)
    then show ?thesis using assms(2) by auto
  next
    case (2 r r' b)
    then show ?thesis using starting_requeued [OF assms(2), of r' b] by (simp add: requeued_run_def)
  qed
qed

lemma load_queue_starting:
  "load_control_plane_queue now disk synced es s = Inr t \<Longrightarrow> starting_scheduler s \<Longrightarrow>
     starting_scheduler t \<and> sd_control t = sd_control s"
proof (induction es arbitrary: s)
  case (Cons e es)
  then obtain u where u: "recover_queue_entry now disk e s = Inr u" "load_control_plane_queue now disk synced es u = Inr t"
    by auto
  show ?case using Cons.IH [OF u(2)] recover_entry_starting [OF u(1) Cons.prems(2)] by simp
qed (simp split: if_split_asm)

text \<open>A file of another run leaves the entry alone.\<close>

lemma load_queue_other:
  assumes "load_control_plane_queue now disk synced es s = Inr t" "run @ ''.json'' \<notin> set (map entry_name es)"
  shows "find_queued t run = find_queued s run"
  using assms
proof (induction es arbitrary: s)
  case (Cons e es)
  then obtain u where u: "recover_queue_entry now disk e s = Inr u" "load_control_plane_queue now disk synced es u = Inr t"
    by auto
  have "find_queued u run = find_queued s run"
  proof (cases "is_queued_run_atomic_temporary e")
    case True
    then show ?thesis using u(1) by (auto simp: recover_queue_entry_def split: if_split_asm)
  next
    case False
    from u(1) False show ?thesis
    proof (cases rule: recover_entry_cases)
      case (1 r)
      then show ?thesis by (auto simp: queue_simps)
    next
      case (2 r r' b)
      then have "entry_name e = qr_run r @ ''.json''" by (simp add: valid_queue_record_def)
      then have "run \<noteq> qr_run r'" using Cons.prems(2) 2(4) by auto
      then show ?thesis using 2(3) by (simp add: find_requeued)
    qed
  qed
  then show ?case using Cons.IH [OF u(2)] Cons.prems(2) by simp
qed (simp split: if_split_asm)

lemma load_queue_entry:
  assumes "load_control_plane_queue now disk synced es s = Inr t" "starting_scheduler s" "distinct (map entry_name es)"
    "e \<in> set es" "\<not> is_queued_run_atomic_temporary e" "entry_record e = Some r"
    "\<forall>d\<in>set es. entry_name d = qr_run r @ ''.json'' \<longrightarrow> find_queued s (qr_run r) = None"
  shows "valid_queue_record (entry_name e) r
    \<and> (case find_queued t (qr_run r) of
         None \<Rightarrow> qr_state r = ''queued'' \<longrightarrow> find_assignment (sd_control s) (qr_run r) = None \<longrightarrow>
           (\<forall>l. re_ledger (disk (qr_run r)) = Some l \<longrightarrow> terminal_run_ledger_record l)
       | Some q \<Rightarrow> recovered_entry (sd_control s) disk r q
           \<and> (qr_state r = ''queued'' \<longrightarrow> qd_record q = r \<and> \<not> qd_canceled q))"
  using assms
proof (induction es arbitrary: s)
  case (Cons d es)
  then obtain u where u: "recover_queue_entry now disk d s = Inr u" "load_control_plane_queue now disk synced es u = Inr t"
    by auto
  note su = recover_entry_starting [OF u(1) Cons.prems(2)]
  show ?case
  proof (cases "d = e")
    case True
    have later: "find_queued t (qr_run r) = find_queued u (qr_run r)" if "entry_name e = qr_run r @ ''.json''"
      by (rule load_queue_other [OF u(2)]) (use Cons.prems(3) True that in auto)
    from u(1) [unfolded True] Cons.prems(5) show ?thesis
    proof (cases rule: recover_entry_cases)
      case (1 r1)
      then have r1: "r1 = r" using Cons.prems(6) by simp
      then have name: "entry_name e = qr_run r @ ''.json''" using 1(2) by (simp add: valid_queue_record_def)
      then have "find_queued s (qr_run r) = None" using Cons.prems(7) True by auto
      then have "find_queued t (qr_run r) = None" using later [OF name] 1(3) by (auto simp: queue_simps)
      then show ?thesis using 1(2,4) r1 by auto
    next
      case (2 r1 r' b)
      then have r1: "r1 = r" using Cons.prems(6) by simp
      then have name: "entry_name e = qr_run r @ ''.json''" using 2(2) by (simp add: valid_queue_record_def)
      have "find_queued t (qr_run r) = Some ((new_queued_run r' (sd_next s))\<lparr>qd_canceled := b\<rparr>)"
        using later [OF name] 2(3,4) r1 by (simp add: find_requeued)
      then show ?thesis using 2(2,5,6) r1 by (auto simp: new_queued_run_def)
    qed
  next
    case False
    then have e: "e \<in> set es" using Cons.prems(4) by simp
    have none: "\<forall>d'\<in>set es. entry_name d' = qr_run r @ ''.json'' \<longrightarrow> find_queued u (qr_run r) = None"
    proof (intro ballI impI)
      fix d' assume d': "d' \<in> set es" "entry_name d' = qr_run r @ ''.json''"
      then have "entry_name d \<noteq> qr_run r @ ''.json''" using Cons.prems(3) by (auto simp: image_iff)
      then have "find_queued u (qr_run r) = find_queued s (qr_run r)"
        using load_queue_other [of now disk True "[d]" s u "qr_run r"] u(1) by simp
      then show "find_queued u (qr_run r) = None" using Cons.prems(7) d' by auto
    qed
    show ?thesis
      by (rule Cons.IH [OF u(2) conjunct1 [OF su] _ e Cons.prems(5,6) none, unfolded conjunct2 [OF su]])
        (use Cons.prems(3) in simp)
  qed
qed simp

text \<open>C38. What a restart makes of the queue.  The recovered queue is one the scheduler may start
  from.  Every intent that is left is valid; a run waits again only if it has no assignment and
  its ledger says it was accepted at the time the intent has and is queued; a run with a cancel
  intent never waits again; and a queued run without an assignment is in the queue again,
  with its record, unless its ledger is terminal or cannot be read.\<close>

theorem recovered_queue:
  assumes "load_control_plane_queue now disk synced es s = Inr t"
    "sd_queue s = []" "sd_admissions s = 0" "distinct (map entry_name es)"
    "e \<in> set es" "\<not> is_queued_run_atomic_temporary e" "entry_record e = Some r"
  shows "starting_scheduler t \<and> valid_queue_record (entry_name e) r
    \<and> (case find_queued t (qr_run r) of
         None \<Rightarrow> qr_state r = ''queued'' \<longrightarrow> find_assignment (sd_control s) (qr_run r) = None \<longrightarrow>
           (\<forall>l. re_ledger (disk (qr_run r)) = Some l \<longrightarrow> terminal_run_ledger_record l)
       | Some q \<Rightarrow>
           if qd_canceled q then qr_state r = ''canceling''
           else qr_state r \<noteq> ''canceling'' \<and> find_assignment (sd_control s) (qr_run r) = None
              \<and> waits_for (disk (qr_run r)) (qd_record q)
              \<and> (qr_state r = ''queued'' \<longrightarrow> qd_record q = r))"
proof -
  have start: "starting_scheduler s"
    using assms(2,3) by (simp add: starting_scheduler_def waiting_queue_count_def)
  have "find_queued s (qr_run r) = None" using assms(2) by (simp add: find_queued_def)
  then have "\<forall>d\<in>set es. entry_name d = qr_run r @ ''.json'' \<longrightarrow> find_queued s (qr_run r) = None" by blast
  from load_queue_entry [OF assms(1) start assms(4-7) this] load_queue_starting [OF assms(1) start]
  show ?thesis by (auto simp: recovered_entry_def split: option.split)
qed

text \<open>A directory with one run that waits and one whose cancellation was not finished.\<close>

definition sample_ledger :: run_ledger_record where
  "sample_ledger =
     \<lparr>lr_version = 1, lr_run = ''r'', lr_scenario = ''smoke'', lr_profile = ''default'', lr_host = [],
      lr_state = ''queued'', lr_status = [], lr_accepted = ''2025-07-25T09:54:56Z'', lr_updated = [], lr_completed = [],
      lr_evidence = [], lr_events = [], lr_log = [], lr_event_count = 0, lr_event_bytes = 0, lr_events_omitted = 0,
      lr_events_truncated = False, lr_log_bytes = 0, lr_log_truncated = False, lr_stop_phase = []\<rparr>"

definition sample_evidence :: run_evidence where
  "sample_evidence =
     \<lparr>re_ledger = Some sample_ledger, re_occupied = Some True, re_abandoned = True, re_removed = True, re_ensured = True,
      re_event = True, re_marked = True, re_written = True, re_prepared = False, re_cleaned = True\<rparr>"

definition sample_directory :: "queue_entry list" where
  "sample_directory =
     [QueueEntry ''run-2.json'' True False True
        (Some ((sample_queue_record ''run-2'' ''2025-07-25T09:54:56Z'')\<lparr>qr_state := ''canceling''\<rparr>)),
      QueueEntry ''.run-1.json.tmp-1'' True False True None,
      QueueEntry ''run-1.json'' True False True
        (Some (sample_queue_record ''run-1'' ''2025-07-25T09:54:56Z''))]"

definition empty_scheduler :: scheduler where
  "empty_scheduler =
     \<lparr>sd_control = \<lparr>ct_agents = [], ct_assignments = [], ct_next = 0, ct_disk = blank_disk []\<rparr>,
      sd_queue = [], sd_intents = Map.empty, sd_admissions = 0, sd_running = False, sd_cycles = 0, sd_next = 0\<rparr>"

definition sample_recovery :: "(recovery_error, scheduler) result" where
  "sample_recovery = load_control_plane_queue 0 (\<lambda>run. sample_evidence) True sample_directory empty_scheduler"

definition recovered_runs :: "(string \<times> bool) list" where
  "recovered_runs = (case sample_recovery of Inl e \<Rightarrow> [] | Inr t \<Rightarrow> map (\<lambda>(run, q). (run, qd_canceled q)) (sd_queue t))"

theorem recovered_queue_witness:
  "\<exists>t. sample_recovery = Inr t \<and> starting_scheduler t
     \<and> map_option qd_canceled (find_queued t ''run-1'') = Some False
     \<and> map_option qd_canceled (find_queued t ''run-2'') = Some True"
proof -
  have runs: "recovered_runs = [(''run-2'', True), (''run-1'', False)]" by code_simp
  then obtain t where t: "sample_recovery = Inr t" by (auto simp: recovered_runs_def split: sum.split_asm)
  have found: "map_option qd_canceled (find_queued t ''run-1'') = Some False"
    "map_option qd_canceled (find_queued t ''run-2'') = Some True"
    using runs [unfolded recovered_runs_def t] by (auto simp: find_queued_def)
  have "distinct (map entry_name sample_directory)" by code_simp
  moreover have "sd_queue empty_scheduler = []" "sd_admissions empty_scheduler = 0" by (simp_all add: empty_scheduler_def)
  moreover have "QueueEntry ''run-1.json'' True False True (Some (sample_queue_record ''run-1'' ''2025-07-25T09:54:56Z''))
      \<in> set sample_directory" by (simp add: sample_directory_def)
  moreover have "\<not> is_queued_run_atomic_temporary
      (QueueEntry ''run-1.json'' True False True (Some (sample_queue_record ''run-1'' ''2025-07-25T09:54:56Z'')))" by code_simp
  ultimately have "starting_scheduler t"
    using recovered_queue [OF t [unfolded sample_recovery_def]] by fastforce
  then show ?thesis using t found by blast
qed

end
