(* ===== verification/Agent_Progress.thy ===== *)
theory Agent_Progress
  imports Agent_System "HOL-Library.Log_Nat"
begin

text \<open>
  The checkpoints of a running assignment (\<open>host_agent.go\<close>): the agent sends a snapshot of its
  event stream and log, the control plane merges the events with those it has acknowledged, and
  a checkpoint that failed half way is sent again.

  A line's identity (\<open>json.Unmarshal\<close> into a sequence and a type) is the argument \<open>ident\<close>: nothing
  when the line is no object of that shape, no number when the sequence is no \<open>int64\<close>.  \<open>enc\<close> and
  \<open>dec\<close> are the coder of JSON values, as in \<open>Ledger_Events\<close>.
\<close>

subsection \<open>Numbers\<close>

text \<open>\<open>int\<close> arithmetic wraps; \<open>float64 (n)\<close> keeps 53 bits, rounding half to even.\<close>

definition wrap64 :: "int \<Rightarrow> int" where
  "wrap64 n = (n + 2 ^ 63) mod 2 ^ 64 - 2 ^ 63"

definition float64_of :: "int \<Rightarrow> int" where
  "float64_of n =
     (let k = nat (bitlen \<bar>n\<bar> - 53) in
      if k = 0 then n
      else (let q = \<bar>n\<bar> div 2 ^ k; r = \<bar>n\<bar> mod 2 ^ k;
                up = r > 2 ^ (k - 1) \<or> r = 2 ^ (k - 1) \<and> odd q
            in sgn n * (q + of_bool up) * 2 ^ k))"

subsection \<open>Events and gaps\<close>

datatype merge_error =
    InvalidEventOrder string
  | InvalidEventGap string
  | InvalidFirstEvent string
  | InvalidEventIdentity string
  | SeveralGaps string
  | StaleSnapshot
  | RestoredSequence
  | DroppedSequence
  | ChangedSequence int

record parsed_event =
  pe_sequence :: int
  pe_type :: string
  pe_encoded :: string

definition gap_type :: string where
  "gap_type = ''run-ledger.events.truncated''"

definition is_gap :: "parsed_event \<Rightarrow> bool" where
  "is_gap e \<longleftrightarrow> pe_type e = gap_type"

type_synonym identity = "string \<Rightarrow> (int option \<times> string) option"

definition parse_event ::
  "identity \<Rightarrow> (json \<Rightarrow> string) \<Rightarrow> (string \<Rightarrow> json option) \<Rightarrow> string \<Rightarrow> parsed_event option" where
  "parse_event ident enc dec line =
     (case ident line of
        Some (Some n, t) \<Rightarrow>
          if n < 1 \<or> t = [] then None
          else map_option (\<lambda>e. \<lparr>pe_sequence = n, pe_type = t, pe_encoded = enc (JObj e)\<rparr>) (dec_event dec line)
      | _ \<Rightarrow> None)"

text \<open>\<open>validHostAgentEventGap\<close>: the last sequence number a marker stands for.\<close>

definition number_value :: "json option \<Rightarrow> rat option" where
  "number_value v = (case v of Some (JNum r) \<Rightarrow> Some r | _ \<Rightarrow> None)"

definition valid_event_gap :: "(string \<Rightarrow> json option) \<Rightarrow> string \<Rightarrow> int \<Rightarrow> int option" where
  "valid_event_gap dec encoded sequence =
     (case omitted_event_count dec encoded of
        None \<Rightarrow> None
      | Some omitted \<Rightarrow>
          if omitted < 1 then None
          else (case dec_event dec encoded of
                  None \<Rightarrow> None
                | Some e \<Rightarrow>
                    (case jobj e ''details'' of
                       None \<Rightarrow> None
                     | Some d \<Rightarrow>
                         (let want = wrap64 (sequence + omitted - 1) in
                          if number_value (map_of d ''firstOmittedSequence'') \<noteq> Some (of_int (float64_of sequence))
                             \<or> number_value (map_of d ''lastOmittedSequence'') \<noteq> Some (of_int (float64_of want))
                          then None else Some want))))"

text \<open>The lines of a content without the white space around it.\<close>

definition event_lines :: "string \<Rightarrow> string list" where
  "event_lines content = split_on newline (trim_space content)"

definition lines_text :: "string list \<Rightarrow> string" where
  "lines_text ls = join_with [newline] ls @ [newline]"

text \<open>\<open>parseOrdered\<close>: consecutive numbers from \<open>expected\<close>, with at most one marker that skips some.\<close>

fun ordered_from ::
  "(string \<Rightarrow> parsed_event option) \<Rightarrow> (string \<Rightarrow> json option) \<Rightarrow> string \<Rightarrow> int \<Rightarrow> bool \<Rightarrow> string list
     \<Rightarrow> (merge_error, parsed_event list) result" where
  "ordered_from parse dec label expected seen [] = Inr []"
| "ordered_from parse dec label expected seen (line # ls) =
     (case parse line of
        None \<Rightarrow> Inl (InvalidEventOrder label)
      | Some e \<Rightarrow>
          if pe_sequence e \<noteq> expected then Inl (InvalidEventOrder label)
          else if is_gap e
          then (case valid_event_gap dec (pe_encoded e) (pe_sequence e) of
                  None \<Rightarrow> Inl (InvalidEventGap label)
                | Some final \<Rightarrow>
                    if seen then Inl (InvalidEventGap label)
                    else rbind (ordered_from parse dec label (wrap64 (final + 1)) True ls) (\<lambda>es. Inr (e # es)))
          else rbind (ordered_from parse dec label (wrap64 (expected + 1)) seen ls) (\<lambda>es. Inr (e # es)))"

definition parse_ordered ::
  "(string \<Rightarrow> parsed_event option) \<Rightarrow> (string \<Rightarrow> json option) \<Rightarrow> string \<Rightarrow> string list
     \<Rightarrow> (merge_error, parsed_event list) result" where
  "parse_ordered parse dec label ls =
     rbind (ordered_from parse dec label 1 False ls)
       (\<lambda>es. if es = [] \<or> pe_sequence (hd es) \<noteq> 1 then Inl (InvalidFirstEvent label) else Inr es)"

subsection \<open>The merge\<close>

definition last_actual_sequence :: "parsed_event list \<Rightarrow> int" where
  "last_actual_sequence es = fold (\<lambda>e n. if is_gap e then n else pe_sequence e) es 0"

definition gap_range :: "(string \<Rightarrow> json option) \<Rightarrow> parsed_event list \<Rightarrow> int \<times> int" where
  "gap_range dec es =
     (case find (\<lambda>e. is_gap e \<and> (case omitted_event_count dec (pe_encoded e) of Some n \<Rightarrow> 0 < n | None \<Rightarrow> False)) es of
        None \<Rightarrow> (0, 0)
      | Some e \<Rightarrow>
          (pe_sequence e, wrap64 (pe_sequence e + the (omitted_event_count dec (pe_encoded e)) - 1)))"

definition in_range :: "int \<times> int \<Rightarrow> int \<Rightarrow> bool" where
  "in_range g n \<longleftrightarrow> 0 < fst g \<and> fst g \<le> n \<and> n \<le> snd g"

definition actual_sequences :: "parsed_event list \<Rightarrow> int list" where
  "actual_sequences es = map pe_sequence (filter (\<lambda>e. \<not> is_gap e) es)"

definition existing :: "parsed_event list \<Rightarrow> int \<Rightarrow> string option" where
  "existing es n = map_of (rev (map (\<lambda>e. (pe_sequence e, pe_encoded e)) (filter (\<lambda>e. \<not> is_gap e) es))) n"

definition merge_events ::
  "(string \<Rightarrow> json option) \<Rightarrow> parsed_event list \<Rightarrow> parsed_event list \<Rightarrow> (merge_error, parsed_event list) result" where
  "merge_events dec current incoming =
     (let cg = gap_range dec current; ig = gap_range dec incoming;
          changed = (\<lambda>e. \<not> is_gap e \<and> pe_sequence e \<noteq> 1
                       \<and> (case existing current (pe_sequence e) of Some prior \<Rightarrow> prior \<noteq> pe_encoded e | None \<Rightarrow> False)) in
      if last_actual_sequence incoming < last_actual_sequence current then Inl StaleSnapshot
      else if list_ex (\<lambda>e. \<not> is_gap e \<and> in_range cg (pe_sequence e)) incoming then Inl RestoredSequence
      else if list_ex (\<lambda>e. pe_sequence e \<noteq> 1 \<and> \<not> is_gap e
                 \<and> pe_sequence e \<notin> set (actual_sequences incoming) \<and> \<not> in_range ig (pe_sequence e)) current
      then Inl DroppedSequence
      else (case find changed incoming of
              Some e \<Rightarrow> Inl (ChangedSequence (pe_sequence e))
            | None \<Rightarrow> Inr (filter (\<lambda>e. pe_sequence e \<noteq> 1) incoming)))"

definition merge_host_agent_progress_events ::
  "identity \<Rightarrow> (json \<Rightarrow> string) \<Rightarrow> (string \<Rightarrow> json option) \<Rightarrow> string \<Rightarrow> string \<Rightarrow> (merge_error, string) result" where
  "merge_host_agent_progress_events ident enc dec current incoming =
     rbind (parse_ordered (parse_event ident enc dec) dec ''current'' (event_lines current)) (\<lambda>cur.
     rbind (parse_ordered (parse_event ident enc dec) dec ''incoming'' (event_lines incoming)) (\<lambda>inc.
     rbind (merge_events dec cur inc) (\<lambda>kept.
     Inr (lines_text (hd (event_lines current) # map pe_encoded kept)))))"

text \<open>
  \<open>mergeHostAgentTerminalEvents\<close>: once a marker was acknowledged the final history keeps the
  widest gap.
\<close>

fun terminal_gap ::
  "identity \<Rightarrow> (string \<Rightarrow> json option) \<Rightarrow> string \<Rightarrow> (int \<times> string) option \<Rightarrow> string list
     \<Rightarrow> (merge_error, (int \<times> string) option) result" where
  "terminal_gap ident dec label marker [] = Inr marker"
| "terminal_gap ident dec label marker (line # ls) =
     (case ident line of
        None \<Rightarrow> Inl (InvalidEventIdentity label)
      | Some (n, t) \<Rightarrow>
          if t \<noteq> gap_type then terminal_gap ident dec label marker ls
          else if marker \<noteq> None then Inl (SeveralGaps label)
          else (case n of
                  None \<Rightarrow> Inl (InvalidEventGap label)
                | Some sequence \<Rightarrow>
                    (case valid_event_gap dec line sequence of
                       None \<Rightarrow> Inl (InvalidEventGap label)
                     | Some final \<Rightarrow>
                         if sequence \<noteq> 2 then Inl (InvalidEventGap label)
                         else terminal_gap ident dec label (Some (final, line)) ls)))"

fun outside_gap :: "identity \<Rightarrow> int \<Rightarrow> string list \<Rightarrow> (merge_error, string list) result" where
  "outside_gap ident final [] = Inr []"
| "outside_gap ident final (line # ls) =
     (case ident line of
        Some (Some n, t) \<Rightarrow>
          rbind (outside_gap ident final ls)
            (\<lambda>kept. Inr (if t = gap_type \<or> 2 \<le> n \<and> n \<le> final then kept else line # kept))
      | _ \<Rightarrow> Inl (InvalidEventIdentity ''incoming''))"

definition widest_gap :: "(int \<times> string) option \<Rightarrow> (int \<times> string) option \<Rightarrow> (int \<times> string) option" where
  "widest_gap current incoming =
     (case incoming of
        None \<Rightarrow> current
      | Some (n, m) \<Rightarrow> if n > (case current of None \<Rightarrow> 0 | Some (c, m') \<Rightarrow> c) then incoming else current)"

definition merge_host_agent_terminal_events ::
  "identity \<Rightarrow> (json \<Rightarrow> string) \<Rightarrow> (string \<Rightarrow> json option) \<Rightarrow> string \<Rightarrow> string \<Rightarrow> (merge_error, string) result" where
  "merge_host_agent_terminal_events ident enc dec current incoming =
     rbind (terminal_gap ident dec ''current'' None (event_lines current)) (\<lambda>cg.
     rbind (terminal_gap ident dec ''incoming'' None (event_lines incoming)) (\<lambda>ig.
     case widest_gap cg ig of
       None \<Rightarrow> merge_host_agent_progress_events ident enc dec current incoming
     | Some (final, marker) \<Rightarrow>
         if final = 0 then merge_host_agent_progress_events ident enc dec current incoming
         else rbind (outside_gap ident final (tl (event_lines incoming)))
           (\<lambda>kept. merge_host_agent_progress_events ident enc dec current
                     (lines_text (hd (event_lines incoming) # marker # kept)))))"

subsection \<open>Order\<close>

lemma wrap64_small: "- (2 ^ 63) \<le> n \<Longrightarrow> n < 2 ^ 63 \<Longrightarrow> wrap64 n = n"
  by (simp add: wrap64_def)

lemma wrap64_big: "2 ^ 63 \<le> n \<Longrightarrow> n < 2 ^ 63 + 2 ^ 64 \<Longrightarrow> wrap64 n = n - 2 ^ 64"
proof -
  assume "2 ^ 63 \<le> n" "n < 2 ^ 63 + 2 ^ 64"
  then have "(n + 2 ^ 63 - 2 ^ 64) mod 2 ^ 64 = n + 2 ^ 63 - 2 ^ 64" by (intro mod_pos_pos_trivial) simp_all
  then have "(n + 2 ^ 63) mod 2 ^ 64 = n + 2 ^ 63 - 2 ^ 64" by (metis minus_mod_self2)
  then show ?thesis by (simp add: wrap64_def)
qed

lemma wrap64_next: "1 \<le> n \<Longrightarrow> n < 2 ^ 63 \<Longrightarrow> 1 \<le> wrap64 (n + 1) \<Longrightarrow> wrap64 (n + 1) = n + 1"
  using wrap64_small [of "n + 1"] wrap64_big [of "n + 1"] by (cases "n + 1 < 2 ^ 63") auto

lemma wrap64_less: "wrap64 n < 2 ^ 63"
  by (simp add: wrap64_def)

lemma omitted_below: "omitted_event_count dec line = Some n \<Longrightarrow> n < 2 ^ 63"
  by (auto simp: omitted_event_count_def floor_less_iff
      split: option.split_asm if_split_asm json.split_asm)

text \<open>A marker ends at or after its own number unless the number overflows, and then nothing follows it.\<close>

lemma valid_gap_end:
  assumes "valid_event_gap dec encoded n = Some final" "1 \<le> n" "n < 2 ^ 63" "1 \<le> wrap64 (final + 1)"
  shows "wrap64 (final + 1) = final + 1 \<and> n \<le> final"
proof -
  obtain k where "omitted_event_count dec encoded = Some k" "1 \<le> k" "final = wrap64 (n + k - 1)"
    using assms(1) by (auto simp: valid_event_gap_def Let_def split: option.split_asm if_split_asm)
  then have k: "1 \<le> k" "k < 2 ^ 63" "final = wrap64 (n + k - 1)" using omitted_below by auto
  show ?thesis
  proof (cases "n + k - 1 < 2 ^ 63")
    case True
    then have f: "final = n + k - 1" using k assms(2) by (simp add: wrap64_small)
    then show ?thesis using wrap64_next [of final] True k assms by simp
  next
    case False
    then have "final = n + k - 1 - 2 ^ 64" using wrap64_big [of "n + k - 1"] k assms(3) by simp
    then have "wrap64 (final + 1) = final + 1" "final + 1 < 1"
      using k assms(2,3) False by (simp_all add: wrap64_small)
    then show ?thesis using assms(4) by simp
  qed
qed

lemma parse_event_positive: "parse_event ident enc dec line = Some e \<Longrightarrow> 1 \<le> pe_sequence e"
  by (auto simp: parse_event_def split: option.split_asm prod.split_asm if_split_asm)

text \<open>The step of \<open>parseOrdered\<close>.\<close>

definition next_expected :: "(string \<Rightarrow> json option) \<Rightarrow> parsed_event \<Rightarrow> int" where
  "next_expected dec e =
     wrap64 ((if is_gap e then the (valid_event_gap dec (pe_encoded e) (pe_sequence e)) else pe_sequence e) + 1)"

lemma next_expected_less: "next_expected dec e < 2 ^ 63"
  unfolding next_expected_def by (rule wrap64_less)

lemma ordered_from_Cons:
  assumes "ordered_from parse dec label expected seen (line # ls) = Inr es"
  obtains e es' where "parse line = Some e" "pe_sequence e = expected" "es = e # es'"
    "is_gap e \<Longrightarrow> valid_event_gap dec (pe_encoded e) (pe_sequence e) \<noteq> None \<and> \<not> seen"
    "ordered_from parse dec label (next_expected dec e) (seen \<or> is_gap e) ls = Inr es'"
proof -
  obtain e where e: "parse line = Some e" "pe_sequence e = expected"
    using assms by (auto split: option.split_asm if_split_asm)
  show ?thesis
  proof (cases "is_gap e")
    case True
    then show ?thesis
      using assms e by (auto simp: next_expected_def split: option.split_asm if_split_asm intro!: that [OF e])
  next
    case False
    then show ?thesis using assms e by (auto simp: next_expected_def intro!: that [OF e])
  qed
qed

lemma next_expected_greater:
  assumes "1 \<le> pe_sequence e" "pe_sequence e < 2 ^ 63" "1 \<le> next_expected dec e"
    "is_gap e \<Longrightarrow> valid_event_gap dec (pe_encoded e) (pe_sequence e) \<noteq> None"
  shows "pe_sequence e < next_expected dec e"
    "is_gap e \<Longrightarrow> valid_event_gap dec (pe_encoded e) (pe_sequence e) = Some (next_expected dec e - 1)"
proof -
  have "pe_sequence e < next_expected dec e
    \<and> (is_gap e \<longrightarrow> valid_event_gap dec (pe_encoded e) (pe_sequence e) = Some (next_expected dec e - 1))"
  proof (cases "is_gap e")
    case True
    then obtain f where f: "valid_event_gap dec (pe_encoded e) (pe_sequence e) = Some f" using assms(4) by auto
    then have "wrap64 (f + 1) = f + 1 \<and> pe_sequence e \<le> f"
      using valid_gap_end [OF f assms(1,2)] assms(3) True by (simp add: next_expected_def)
    then show ?thesis using f True by (simp add: next_expected_def)
  next
    case False
    then show ?thesis using wrap64_next [OF assms(1,2)] assms(3) by (simp add: next_expected_def)
  qed
  then show "pe_sequence e < next_expected dec e"
    "is_gap e \<Longrightarrow> valid_event_gap dec (pe_encoded e) (pe_sequence e) = Some (next_expected dec e - 1)" by simp_all
qed

lemma ordered_from_sorted:
  assumes "ordered_from parse dec label expected seen ls = Inr es" "expected < 2 ^ 63"
    "\<And>line e. parse line = Some e \<Longrightarrow> 1 \<le> pe_sequence e"
  shows "sorted_wrt (<) (map pe_sequence es) \<and> (\<forall>e\<in>set es. expected \<le> pe_sequence e \<and> 1 \<le> expected)"
  using assms(1,2)
proof (induction ls arbitrary: expected seen es)
  case (Cons line ls)
  from Cons.prems(1) obtain e es' where e: "parse line = Some e" "pe_sequence e = expected" "es = e # es'"
    "is_gap e \<Longrightarrow> valid_event_gap dec (pe_encoded e) (pe_sequence e) \<noteq> None \<and> \<not> seen"
    "ordered_from parse dec label (next_expected dec e) (seen \<or> is_gap e) ls = Inr es'"
    by (rule ordered_from_Cons) blast
  have pos: "1 \<le> expected" using assms(3) [OF e(1)] e(2) by simp
  have IH: "sorted_wrt (<) (map pe_sequence es')"
    "\<forall>x\<in>set es'. next_expected dec e \<le> pe_sequence x \<and> 1 \<le> next_expected dec e"
    using Cons.IH [OF e(5) next_expected_less] by blast+
  have "expected < pe_sequence x" if "x \<in> set es'" for x
    using IH(2) that next_expected_greater(1) [of e dec] e(2,4) pos Cons.prems(2) by fastforce
  then show ?case using IH(1) e(2,3) pos by (auto simp: less_imp_le)
qed simp

lemma ordered_from_parses:
  "ordered_from parse dec label expected seen ls = Inr es \<Longrightarrow> list_all2 (\<lambda>line e. parse line = Some e) ls es"
proof (induction ls arbitrary: expected seen es)
  case (Cons line ls)
  from Cons.prems show ?case by (rule ordered_from_Cons) (use Cons.IH in auto)
qed simp

text \<open>Other lines with the same events are in the same order.\<close>

lemma ordered_from_again:
  "ordered_from parse dec label expected seen ls = Inr es \<Longrightarrow> list_all2 (\<lambda>line e. parse line = Some e) ls' es \<Longrightarrow>
     ordered_from parse dec label' expected seen ls' = Inr es"
proof (induction ls arbitrary: expected seen es ls')
  case (Cons line ls)
  from Cons.prems(1) obtain e es' where e: "parse line = Some e" "pe_sequence e = expected" "es = e # es'"
    "is_gap e \<Longrightarrow> valid_event_gap dec (pe_encoded e) (pe_sequence e) \<noteq> None \<and> \<not> seen"
    "ordered_from parse dec label (next_expected dec e) (seen \<or> is_gap e) ls = Inr es'"
    by (rule ordered_from_Cons) blast
  obtain l ls2 where l: "ls' = l # ls2" "parse l = Some e" "list_all2 (\<lambda>line e. parse line = Some e) ls2 es'"
    using Cons.prems(2) e(3) by (auto simp: list_all2_Cons2)
  show ?case
    using Cons.IH [OF e(5) l(3)] e(2,3,4) l(1,2) by (cases "is_gap e") (auto simp: next_expected_def)
qed simp

text \<open>The actual events of an ordered stream lie outside its marker's range.\<close>

lemma gap_range_Cons_actual: "\<not> is_gap e \<Longrightarrow> gap_range dec (e # es) = gap_range dec es"
  by (simp add: gap_range_def)

lemma gap_range_Cons_gap:
  assumes "is_gap e" "valid_event_gap dec (pe_encoded e) (pe_sequence e) = Some final"
  shows "gap_range dec (e # es) = (pe_sequence e, final)"
proof -
  obtain k where "omitted_event_count dec (pe_encoded e) = Some k" "1 \<le> k" "final = wrap64 (pe_sequence e + k - 1)"
    using assms(2) by (fastforce simp: valid_event_gap_def Let_def split: option.split_asm if_split_asm)
  then show ?thesis using assms(1) by (simp add: gap_range_def)
qed

lemma gap_range_first: "fst (gap_range dec es) = 0 \<or> fst (gap_range dec es) \<in> pe_sequence ` set es"
proof (cases "find (\<lambda>e. is_gap e \<and> (case omitted_event_count dec (pe_encoded e) of Some n \<Rightarrow> 0 < n | None \<Rightarrow> False)) es")
  case (Some e)
  then have "e \<in> set es" by (auto simp: find_Some_iff)
  then show ?thesis using Some by (simp add: gap_range_def)
qed (simp add: gap_range_def)

lemma ordered_from_outside:
  assumes "ordered_from parse dec label expected seen ls = Inr es" "expected < 2 ^ 63"
    "\<And>line e. parse line = Some e \<Longrightarrow> 1 \<le> pe_sequence e" "e \<in> set es" "\<not> is_gap e"
  shows "\<not> in_range (gap_range dec es) (pe_sequence e)"
  using assms(1,2,4,5)
proof (induction ls arbitrary: expected seen es)
  case (Cons line ls)
  from Cons.prems(1) obtain x es' where x: "parse line = Some x" "pe_sequence x = expected" "es = x # es'"
    "is_gap x \<Longrightarrow> valid_event_gap dec (pe_encoded x) (pe_sequence x) \<noteq> None \<and> \<not> seen"
    "ordered_from parse dec label (next_expected dec x) (seen \<or> is_gap x) ls = Inr es'"
    by (rule ordered_from_Cons) blast
  note later = ordered_from_sorted [OF x(5) next_expected_less assms(3)]
  have bounds: "1 \<le> pe_sequence x" "pe_sequence x < 2 ^ 63" using assms(3) [OF x(1)] x(2) Cons.prems(2) by simp_all
  show ?case
  proof (cases "is_gap x")
    case True
    then have e: "e \<in> set es'" using Cons.prems(3,4) x(3) by auto
    then have "next_expected dec x \<le> pe_sequence e" "1 \<le> next_expected dec x" using later by auto
    then show ?thesis
      using gap_range_Cons_gap [OF True next_expected_greater(2) [OF bounds _ _ True]] x(3,4)
      by (simp add: in_range_def)
  next
    case False
    show ?thesis
    proof (cases "e = x")
      case True
      have "expected < fst (gap_range dec es')" if "0 < fst (gap_range dec es')"
        using gap_range_first [of dec es'] that later next_expected_greater(1) [OF bounds] x(2,4) by fastforce
      then show ?thesis using True False x(2,3) by (auto simp: in_range_def gap_range_Cons_actual)
    next
      case False
      then show ?thesis
        using Cons.IH [OF x(5) next_expected_less] Cons.prems(3,4) x(3) \<open>\<not> is_gap x\<close>
        by (simp add: gap_range_Cons_actual)
    qed
  qed
qed simp

lemma parse_ordered_facts:
  assumes "parse_ordered (parse_event ident enc dec) dec label ls = Inr es"
  shows "es \<noteq> []" "pe_sequence (hd es) = 1" "sorted_wrt (<) (map pe_sequence es)"
    "list_all2 (\<lambda>line e. parse_event ident enc dec line = Some e) ls es"
    "e \<in> set es \<Longrightarrow> \<not> is_gap e \<Longrightarrow> \<not> in_range (gap_range dec es) (pe_sequence e)"
    "ordered_from (parse_event ident enc dec) dec label 1 False ls = Inr es"
proof -
  show o: "ordered_from (parse_event ident enc dec) dec label 1 False ls = Inr es"
    and "es \<noteq> []" "pe_sequence (hd es) = 1"
    using assms by (auto simp: parse_ordered_def split: if_split_asm)
  show "sorted_wrt (<) (map pe_sequence es)" using ordered_from_sorted [OF o _ parse_event_positive] by simp
  show "list_all2 (\<lambda>line e. parse_event ident enc dec line = Some e) ls es" by (rule ordered_from_parses [OF o])
  show "e \<in> set es \<Longrightarrow> \<not> is_gap e \<Longrightarrow> \<not> in_range (gap_range dec es) (pe_sequence e)"
    using ordered_from_outside [OF o _ parse_event_positive] by simp
qed

subsection \<open>What the merge keeps\<close>

lemma existing_found:
  assumes "sorted_wrt (<) (map pe_sequence es)" "e \<in> set es" "\<not> is_gap e"
  shows "existing es (pe_sequence e) = Some (pe_encoded e)"
proof -
  let ?xs = "map (\<lambda>e. (pe_sequence e, pe_encoded e)) (filter (\<lambda>e. \<not> is_gap e) es)"
  have "distinct (map pe_sequence es)" using assms(1) strict_sorted_iff by blast
  then have "distinct (map fst (rev ?xs))"
    by (simp add: rev_map [symmetric] comp_def distinct_map inj_on_def)
  moreover have "(pe_sequence e, pe_encoded e) \<in> set (rev ?xs)" using assms(2,3) by auto
  ultimately show ?thesis unfolding existing_def by (rule map_of_is_SomeI)
qed

lemma merge_events_ok:
  "merge_events dec cur inc = Inr kept \<longleftrightarrow>
     last_actual_sequence cur \<le> last_actual_sequence inc
   \<and> (\<forall>e\<in>set inc. \<not> is_gap e \<longrightarrow> \<not> in_range (gap_range dec cur) (pe_sequence e))
   \<and> (\<forall>e\<in>set cur. pe_sequence e \<noteq> 1 \<longrightarrow> \<not> is_gap e \<longrightarrow>
        pe_sequence e \<in> set (actual_sequences inc) \<or> in_range (gap_range dec inc) (pe_sequence e))
   \<and> (\<forall>e\<in>set inc. \<not> is_gap e \<longrightarrow> pe_sequence e \<noteq> 1 \<longrightarrow>
        (\<forall>prior. existing cur (pe_sequence e) = Some prior \<longrightarrow> prior = pe_encoded e))
   \<and> kept = filter (\<lambda>e. pe_sequence e \<noteq> 1) inc"
  unfolding merge_events_def Let_def
  by (auto simp: list_ex_iff find_None_iff split: if_split_asm option.split option.split_asm dest!: find_first)

text \<open>C39. Acknowledged history is never lost or rewritten.  A merge that is accepted keeps the first line
  byte for byte; every other event acknowledged before is in the result with the same content,
  or lies in the gap the snapshot declares; a snapshot never brings back an event from a gap
  that was acknowledged, and is never older than what is kept.  The result is the snapshot's
  events after the first line, in strictly increasing order.\<close>

theorem progress_merge_keeps:
  assumes "merge_host_agent_progress_events ident enc dec current incoming = Inr out"
  shows "\<exists>cur inc. parse_ordered (parse_event ident enc dec) dec ''current'' (event_lines current) = Inr cur
    \<and> parse_ordered (parse_event ident enc dec) dec ''incoming'' (event_lines incoming) = Inr inc
    \<and> out = lines_text (hd (event_lines current) # map pe_encoded (filter (\<lambda>e. pe_sequence e \<noteq> 1) inc))
    \<and> sorted_wrt (<) (map pe_sequence inc)
    \<and> last_actual_sequence cur \<le> last_actual_sequence inc
    \<and> (\<forall>e\<in>set cur. \<not> is_gap e \<longrightarrow> pe_sequence e \<noteq> 1 \<longrightarrow>
         in_range (gap_range dec inc) (pe_sequence e)
       \<or> (\<exists>e'\<in>set inc. \<not> is_gap e' \<and> pe_sequence e' = pe_sequence e \<and> pe_encoded e' = pe_encoded e))
    \<and> (\<forall>e\<in>set inc. \<not> is_gap e \<longrightarrow> \<not> in_range (gap_range dec cur) (pe_sequence e))"
proof -
  obtain cur inc kept where p:
    "parse_ordered (parse_event ident enc dec) dec ''current'' (event_lines current) = Inr cur"
    "parse_ordered (parse_event ident enc dec) dec ''incoming'' (event_lines incoming) = Inr inc"
    "merge_events dec cur inc = Inr kept" "out = lines_text (hd (event_lines current) # map pe_encoded kept)"
    using assms by (auto simp: merge_host_agent_progress_events_def)
  note m = p(3) [unfolded merge_events_ok]
  have kept: "in_range (gap_range dec inc) (pe_sequence e)
      \<or> (\<exists>e'\<in>set inc. \<not> is_gap e' \<and> pe_sequence e' = pe_sequence e \<and> pe_encoded e' = pe_encoded e)"
    if e: "e \<in> set cur" "\<not> is_gap e" "pe_sequence e \<noteq> 1" for e
  proof (cases "in_range (gap_range dec inc) (pe_sequence e)")
    case False
    then obtain e' where e': "e' \<in> set inc" "\<not> is_gap e'" "pe_sequence e' = pe_sequence e"
      using m e by (auto simp: actual_sequences_def)
    then have "pe_encoded e = pe_encoded e'"
      using m e(3) existing_found [OF parse_ordered_facts(3) [OF p(1)] e(1,2)] by (metis (no_types, lifting))
    then show ?thesis using e' by auto
  qed simp
  show ?thesis
    using p(1,2,4) m parse_ordered_facts(3) [OF p(2)] kept
    by (intro exI [of _ cur] exI [of _ inc]) simp
qed

subsection \<open>A checkpoint that is sent again\<close>

text \<open>A line that starts and ends with a visible character, as an encoded object does.\<close>

definition plain_line :: "string \<Rightarrow> bool" where
  "plain_line s \<longleftrightarrow> s \<noteq> [] \<and> newline \<notin> set s \<and> plain_char (hd s) \<and> plain_char (last s)"

lemma trim_space_line:
  assumes "s \<noteq> []" "plain_char (hd s)" "plain_char (last s)"
  shows "trim_space (s @ [newline]) = s"
proof -
  have left: "trim_left (s @ [newline]) = s @ [newline]"
    unfolding trim_left_def trim_with_fixed_iff
    using assms(1,2) by (cases s) (auto simp: plain_char_not_space split: list.split)
  obtain t y where t: "s = t @ [y]" using assms(1) by (meson rev_exhaust)
  have "trim_with p q (newline # y # u) = y # u"
    if "\<And>b. \<not> p y b" "\<And>b c. \<not> q y b c" for p q u
  proof -
    have "trim_with p q (newline # y # u) = trim_with p q (y # u)"
      by (cases u) (simp_all add: space1_def newline_def Let_def)
    also have "\<dots> = y # u"
      unfolding trim_with_fixed_iff using that assms(3) t by (auto simp: plain_char_not_space split: list.split)
    finally show ?thesis .
  qed
  then have "trim_right (s @ [newline]) = s"
    unfolding trim_right_def using assms(3) t by (simp add: plain_char_not_space)
  then show ?thesis by (simp add: trim_space_def left)
qed

lemma join_with_ends:
  "ls \<noteq> [] \<Longrightarrow> \<forall>l\<in>set ls. plain_line l \<Longrightarrow>
     join_with [newline] ls \<noteq> [] \<and> hd (join_with [newline] ls) = hd (hd ls)
   \<and> last (join_with [newline] ls) = last (last ls)"
  by (induction "[newline]" ls rule: join_with.induct) (auto simp: plain_line_def)

lemma event_lines_text:
  assumes "ls \<noteq> []" "\<forall>l\<in>set ls. plain_line l"
  shows "event_lines (lines_text ls) = ls"
proof -
  have "trim_space (lines_text ls) = join_with [newline] ls"
    unfolding lines_text_def
    by (rule trim_space_line) (use join_with_ends [OF assms] assms in \<open>auto simp: plain_line_def\<close>)
  then show ?thesis
    unfolding event_lines_def using split_on_join [OF assms(1), of newline] assms(2) by (simp add: plain_line_def)
qed

text \<open>The coder and a line agree: encoding what was read from the line can be read again, alike.\<close>

definition stable_line :: "identity \<Rightarrow> (json \<Rightarrow> string) \<Rightarrow> (string \<Rightarrow> json option) \<Rightarrow> string \<Rightarrow> bool" where
  "stable_line ident enc dec line \<longleftrightarrow>
     (case parse_event ident enc dec line of
        None \<Rightarrow> True
      | Some e \<Rightarrow> plain_line (pe_encoded e) \<and> parse_event ident enc dec (pe_encoded e) = Some e)"

definition starts_with_event :: "identity \<Rightarrow> (json \<Rightarrow> string) \<Rightarrow> (string \<Rightarrow> json option) \<Rightarrow> string \<Rightarrow> bool" where
  "starts_with_event ident enc dec content \<longleftrightarrow>
     (case parse_event ident enc dec (hd (event_lines content)) of None \<Rightarrow> False | Some e \<Rightarrow> \<not> is_gap e)"

lemma last_actual_Cons: "\<not> is_gap e \<Longrightarrow> pe_sequence e = 1 \<Longrightarrow> last_actual_sequence (e # es) = fold (\<lambda>e n. if is_gap e then n else pe_sequence e) es 1"
  by (simp add: last_actual_sequence_def)

lemma merge_events_again:
  assumes "sorted_wrt (<) (map pe_sequence (i # kept))" "\<not> is_gap c" "\<not> is_gap i" "pe_sequence c = 1" "pe_sequence i = 1"
    "\<And>e. e \<in> set (i # kept) \<Longrightarrow> \<not> is_gap e \<Longrightarrow> \<not> in_range (gap_range dec (i # kept)) (pe_sequence e)"
  shows "merge_events dec (c # kept) (i # kept) = Inr kept"
proof -
  have sorted: "sorted_wrt (<) (map pe_sequence (c # kept))" using assms(1,4,5) by simp
  have later: "pe_sequence e \<noteq> 1" if "e \<in> set kept" for e using assms(1,5) that by auto
  have gaps: "gap_range dec (c # kept) = gap_range dec (i # kept)"
    using assms(2,3) by (simp add: gap_range_Cons_actual)
  have "prior = pe_encoded e" if "e \<in> set kept" "\<not> is_gap e" "existing (c # kept) (pe_sequence e) = Some prior" for e prior
    using existing_found [OF sorted, of e] that by simp
  moreover have "filter (\<lambda>e. pe_sequence e \<noteq> 1) (i # kept) = kept"
    using assms(5) later by (simp add: filter_id_conv)
  moreover have "last_actual_sequence (c # kept) = last_actual_sequence (i # kept)"
    using assms(2-5) by (simp add: last_actual_Cons)
  ultimately show ?thesis
    unfolding merge_events_ok using assms(4,5,6) gaps by (auto simp: actual_sequences_def)
qed

text \<open>A checkpoint that is sent again merges to what it merged to before.\<close>

lemma progress_merge_again:
  assumes "merge_host_agent_progress_events ident enc dec current incoming = Inr out"
    "plain_line (hd (event_lines current))" "\<forall>line\<in>set (event_lines incoming). stable_line ident enc dec line"
    "starts_with_event ident enc dec current" "starts_with_event ident enc dec incoming"
  shows "merge_host_agent_progress_events ident enc dec out incoming = Inr out"
proof -
  let ?parse = "parse_event ident enc dec"
  obtain cur inc kept where p:
    "parse_ordered ?parse dec ''current'' (event_lines current) = Inr cur"
    "parse_ordered ?parse dec ''incoming'' (event_lines incoming) = Inr inc"
    "merge_events dec cur inc = Inr kept" "out = lines_text (hd (event_lines current) # map pe_encoded kept)"
    using assms(1) by (auto simp: merge_host_agent_progress_events_def)
  note fc = parse_ordered_facts [OF p(1)] and fi = parse_ordered_facts [OF p(2)]
  obtain i rest l ls where i: "inc = i # rest" "event_lines incoming = l # ls" "?parse l = Some i"
    using fi(1,4) by (cases inc; cases "event_lines incoming") auto
  obtain c where c: "?parse (hd (event_lines current)) = Some c" "pe_sequence c = 1" "\<not> is_gap c"
    using fc(1,2,4) assms(4) by (cases cur; cases "event_lines current") (auto simp: starts_with_event_def)
  have i1: "pe_sequence i = 1" "\<not> is_gap i" using fi(2) i assms(5) by (auto simp: starts_with_event_def)
  have "pe_sequence e \<noteq> 1" if "e \<in> set rest" for e using fi(3) i(1) i1 that by auto
  then have kept: "kept = rest" using p(3) i(1) i1 by (simp add: merge_events_ok filter_id_conv)
  have stable: "list_all2 (\<lambda>line e. ?parse line = Some e) (map pe_encoded rest) rest" "\<forall>e\<in>set rest. plain_line (pe_encoded e)"
  proof -
    have "\<exists>line\<in>set (event_lines incoming). ?parse line = Some e" if "e \<in> set rest" for e
      using fi(4) i(1) that by (auto simp: list_all2_conv_all_nth in_set_conv_nth Bex_def) (metis Suc_mono length_Cons nth_Cons_Suc nth_mem)
    then have "?parse (pe_encoded e) = Some e \<and> plain_line (pe_encoded e)" if "e \<in> set rest" for e
      using assms(3) that by (fastforce simp: stable_line_def)
    then show "list_all2 (\<lambda>line e. ?parse line = Some e) (map pe_encoded rest) rest" "\<forall>e\<in>set rest. plain_line (pe_encoded e)"
      by (auto simp: list_all2_conv_all_nth)
  qed
  have lines: "event_lines out = hd (event_lines current) # map pe_encoded rest"
    unfolding p(4) kept using stable(2) assms(2) by (intro event_lines_text) auto
  have "ordered_from ?parse dec ''incoming'' (next_expected dec i) False ls = Inr rest"
    using fi(6) i i1 by (simp add: next_expected_def)
  then have "ordered_from ?parse dec ''current'' (next_expected dec i) False (map pe_encoded rest) = Inr rest"
    using stable(1) by (rule ordered_from_again)
  then have "ordered_from ?parse dec ''current'' 1 False (event_lines out) = Inr (c # rest)"
    using c i1 lines by (simp add: next_expected_def)
  then have "parse_ordered ?parse dec ''current'' (event_lines out) = Inr (c # rest)"
    using c(2) by (simp add: parse_ordered_def)
  moreover have "merge_events dec (c # rest) inc = Inr rest"
    unfolding i(1) using merge_events_again [of i rest c dec] fi(3,5) i(1) c i1 by blast
  ultimately show ?thesis
    using p(2) lines by (simp add: merge_host_agent_progress_events_def p(4) kept)
qed

text \<open>Events that are a number, and a stream of three of them.\<close>

definition number_ident :: identity where
  "number_ident s = map_option (\<lambda>n. (Some n, ''x'')) (atoi s)"

definition number_dec :: "string \<Rightarrow> json option" where
  "number_dec s = map_option (\<lambda>n. JObj [(''sequence'', jint n)]) (atoi s)"

definition number_enc :: "json \<Rightarrow> string" where
  "number_enc j = (case j of JObj e \<Rightarrow> show_int (ledger_event_sequence e) | _ \<Rightarrow> [])"

lemma number_merge:
  "merge_host_agent_progress_events number_ident number_enc number_dec
     (lines_text [''1'', ''2'']) (lines_text [''1'', ''2'', ''3'']) = Inr (lines_text [''1'', ''2'', ''3''])"
  by code_simp

theorem progress_merge_keeps_witness:
  "\<exists>inc. parse_ordered (parse_event number_ident number_enc number_dec) number_dec ''incoming''
      (event_lines (lines_text [''1'', ''2'', ''3''])) = Inr inc \<and> sorted_wrt (<) (map pe_sequence inc)"
  using progress_merge_keeps [OF number_merge] by blast

subsection \<open>The handler\<close>

record progress_request =
  pq_owner :: lock_request
  pq_checkpoint :: int
  pq_ledger :: run_ledger_record
  pq_events :: string
  pq_log :: string

record run_snapshot =
  sn_record :: run_ledger_record
  sn_events :: string
  sn_log :: string

definition maximum_progress_bytes :: nat where
  "maximum_progress_bytes = 4 * 1024 * 1024"

definition maximum_progress_events :: nat where
  "maximum_progress_events = 10000"

definition event_line_count :: "string \<Rightarrow> nat" where
  "event_line_count content =
     (if trim_space content = [] then 0 else length (filter (\<lambda>c. c = newline) (trim_space content)) + 1)"

definition accepts_progress :: "live_assignment \<Rightarrow> bool" where
  "accepts_progress l \<longleftrightarrow> ar_state (la_record l) = ''confirmed'' \<and> \<not> la_finishing l"

definition progress_digest :: "(string \<Rightarrow> string) \<Rightarrow> progress_request \<Rightarrow> string" where
  "progress_digest sha256 q = hex_encode (sha256 (pq_events q @ CHR 0x00 # pq_log q))"

text \<open>The first region: the request is well formed and its agent serves the run.\<close>

definition admit_progress ::
  "(string \<Rightarrow> string) \<Rightarrow> string \<Rightarrow> progress_request \<Rightarrow> string \<Rightarrow> string \<Rightarrow> control \<Rightarrow> (unit reply, nat) result" where
  "admit_progress sha256 header q agent run c =
     (if validate_run_id run \<noteq> Inr () then Inl (Reject 400 ''invalid Host Agent Run ID'')
      else if length (pq_events q) > maximum_progress_bytes \<or> length (pq_log q) > maximum_progress_bytes
              \<or> event_line_count (pq_events q) > maximum_progress_events
      then Inl (Reject 400 ''invalid Windows Host Agent progress'')
      else if \<not> authorized_host_agent sha256 header agent c
      then Inl (Reject 401 ''Windows Host Agent authentication changed'')
      else (case find_assignment c run of
              None \<Rightarrow> Inl (Reject 409 ''Host Lock ownership changed'')
            | Some l \<Rightarrow> Inr (la_serial l)))"

datatype progress_step =
    Answer "agent_status reply"
  | Proceed assignment_record

text \<open>
  The second region, with the assignment's checkpoints serialised: the next checkpoint goes on, the
  last one is acknowledged again, and every other one is refused.
\<close>

definition begin_progress ::
  "(string \<Rightarrow> string) \<Rightarrow> string \<Rightarrow> int \<Rightarrow> progress_request \<Rightarrow> string \<Rightarrow> string \<Rightarrow> control
     \<Rightarrow> progress_step \<times> control" where
  "begin_progress sha256 header now q agent run c =
     (if \<not> authorized_host_agent sha256 header agent c
      then (Answer (Reject 401 ''Windows Host Agent authentication changed''), c)
      else (case owns_assignment now (\<lambda>l. 1 \<le> pq_checkpoint q \<and> accepts_progress l) (pq_owner q) agent run c of
              (None, c1) \<Rightarrow> (Answer (Reject 409 ''Host Lock ownership changed''), c1)
            | (Some l, c1) \<Rightarrow>
                (let r = la_record l; ledger = pq_ledger q; digest = progress_digest sha256 q in
                 if lr_run ledger \<noteq> run \<or> lr_scenario ledger \<noteq> sb_scenario (ar_submission r)
                    \<or> lr_profile ledger \<noteq> target_profile_for_submission (ar_submission r)
                    \<or> lr_host ledger \<noteq> ar_host r \<or> lr_state ledger \<noteq> ''submitted''
                 then (Answer (Reject 409 ''Windows Host Agent progress changed run identity''), c1)
                 else if pq_checkpoint q = ar_progress r
                 then (if digest \<noteq> ar_digest r
                       then (Answer (Reject 409 ''Windows Host Agent checkpoint identity changed''), c1)
                       else (case the_agents c1 agent of
                               None \<Rightarrow> (Answer (Reject 401 ''Windows Host Agent authentication changed''), c1)
                             | Some a \<Rightarrow> (Answer (Reply 200 (ha_status a)), c1)))
                 else if pq_checkpoint q \<noteq> wrap64 (ar_progress r + 1)
                 then (Answer (Reject 409 ''Windows Host Agent checkpoint is stale or skipped''), c1)
                 else (Proceed r, c1))))"

datatype progress_error = EventIdentity merge_error | BadMergedEvents | SnapshotNotWritten

text \<open>The snapshot an accepted checkpoint leaves in the ledger.\<close>

definition progressed_record ::
  "int \<Rightarrow> progress_request \<Rightarrow> assignment_record \<Rightarrow> string \<Rightarrow> int \<times> int \<times> bool \<Rightarrow> run_ledger_record
     \<Rightarrow> run_ledger_record" where
  "progressed_record now q previous merged meta r =
     (case meta of (events, omitted, truncated) \<Rightarrow>
        r\<lparr>lr_event_count := events, lr_events_omitted := omitted, lr_events_truncated := truncated,
          lr_event_bytes := int (length merged), lr_log_bytes := int (length (pq_log q)),
          lr_log_truncated := lr_log_truncated (pq_ledger q), lr_host := ar_host previous,
          lr_updated := format_rfc3339nano now\<rparr>)"

definition progressed_snapshot ::
  "identity \<Rightarrow> (json \<Rightarrow> string) \<Rightarrow> (string \<Rightarrow> json option) \<Rightarrow> int \<Rightarrow> progress_request \<Rightarrow> assignment_record \<Rightarrow> run_snapshot
     \<Rightarrow> (progress_error, run_snapshot) result" where
  "progressed_snapshot ident enc dec now q previous s =
     (case merge_host_agent_progress_events ident enc dec (sn_events s) (pq_events q) of
        Inl e \<Rightarrow> Inl (EventIdentity e)
      | Inr merged \<Rightarrow>
          (case retained_metadata dec (raw_lines merged) of
             Inl e \<Rightarrow> Inl BadMergedEvents
           | Inr meta \<Rightarrow>
               Inr \<lparr>sn_record = progressed_record now q previous merged meta (sn_record s),
                    sn_events = merged, sn_log = pq_log q\<rparr>))"

text \<open>
  \<open>UpdateSnapshot\<close>: the artifacts that changed are written before the record; the three flags say
  which of the writes go through.
\<close>

definition update_snapshot ::
  "bool \<Rightarrow> bool \<Rightarrow> bool \<Rightarrow> (run_snapshot \<Rightarrow> (progress_error, run_snapshot) result) \<Rightarrow> run_snapshot
     \<Rightarrow> (progress_error, unit) result \<times> run_snapshot" where
  "update_snapshot events_ok log_ok record_ok f s =
     (case f s of
        Inl e \<Rightarrow> (Inl e, s)
      | Inr t \<Rightarrow>
          if sn_events t \<noteq> sn_events s \<and> \<not> events_ok then (Inl SnapshotNotWritten, s)
          else (let s1 = s\<lparr>sn_events := sn_events t\<rparr> in
                if sn_log t \<noteq> sn_log s \<and> \<not> log_ok then (Inl SnapshotNotWritten, s1)
                else (let s2 = s1\<lparr>sn_log := sn_log t\<rparr> in
                      if \<not> record_ok then (Inl SnapshotNotWritten, s2) else (Inr (), t))))"

definition progressed_assignment ::
  "(string \<Rightarrow> string) \<Rightarrow> progress_request \<Rightarrow> run_ledger_record \<Rightarrow> assignment_record \<Rightarrow> assignment_record" where
  "progressed_assignment sha256 q ledger previous =
     previous\<lparr>ar_assigned_ledger := Some ledger, ar_progress := pq_checkpoint q,
              ar_digest := progress_digest sha256 q\<rparr>"

definition save_progress :: "assignment_record \<Rightarrow> control \<Rightarrow> bool \<times> control" where
  "save_progress r c =
     (case save_assignment r (ct_disk c) of (res, d) \<Rightarrow> (res = Inr (), c\<lparr>ct_disk := d\<rparr>))"

text \<open>The last region: the checkpoint is published if the assignment is still the agent's.\<close>

definition publish_progress ::
  "(string \<Rightarrow> string) \<Rightarrow> string \<Rightarrow> nat \<Rightarrow> progress_request \<Rightarrow> assignment_record \<Rightarrow> assignment_record \<Rightarrow> string \<Rightarrow> string \<Rightarrow> control
     \<Rightarrow> agent_status reply \<times> control" where
  "publish_progress sha256 header n q previous updated agent run c =
     (case (find_assignment c run, the_agents c agent) of
        (Some l, Some a) \<Rightarrow>
          if la_serial l \<noteq> n \<or> \<not> accepts_progress l \<or> ar_progress (la_record l) \<noteq> ar_progress previous
             \<or> \<not> same_broker_session (ar_broker (la_record l)) (ar_broker previous)
             \<or> \<not> request_matches_credential sha256 header (Some a)
             \<or> \<not> same_lock_token (lq_token (pq_owner q)) (ar_token (la_record l))
             \<or> \<not> same_lock_token (lq_session (pq_owner q)) (as_session_id (ha_status a))
          then (Reject 409 ''Host Lock ownership changed'', c)
          else (Reply 200 (ha_status a), change_assignment run (\<lambda>l. l\<lparr>la_record := updated\<rparr>) c)
      | _ \<Rightarrow> (Reject 409 ''Host Lock ownership changed'', c))"

text \<open>C40. A checkpoint can be sent again until it is stored.  The events, the log and the record of a
  run are written one after the other, and any of the writes may fail; whatever was written, the
  same checkpoint applied later to what is left gives exactly the snapshot it would have given
  then without the failed attempt, and is stored when the writes go through.\<close>

theorem checkpoint_retry:
  assumes "progressed_snapshot ident enc dec now q previous s = Inr t"
    "plain_line (hd (event_lines (sn_events s)))" "\<forall>line\<in>set (event_lines (pq_events q)). stable_line ident enc dec line"
    "starts_with_event ident enc dec (sn_events s)" "starts_with_event ident enc dec (pq_events q)"
  shows "\<exists>t'. progressed_snapshot ident enc dec later q previous s = Inr t'
    \<and> update_snapshot True True True (progressed_snapshot ident enc dec later q previous)
        (snd (update_snapshot events_ok log_ok record_ok (progressed_snapshot ident enc dec now q previous) s))
      = (Inr (), t')"
proof -
  obtain merged meta where m:
    "merge_host_agent_progress_events ident enc dec (sn_events s) (pq_events q) = Inr merged"
    "retained_metadata dec (raw_lines merged) = Inr meta"
    "t = \<lparr>sn_record = progressed_record now q previous merged meta (sn_record s), sn_events = merged, sn_log = pq_log q\<rparr>"
    using assms(1) by (auto simp: progressed_snapshot_def split: sum.split_asm)
  define t' where "t' = \<lparr>sn_record = progressed_record later q previous merged meta (sn_record s),
    sn_events = merged, sn_log = pq_log q\<rparr>"
  note again = progress_merge_again [OF m(1) assms(2-5)]
  have overwritten: "progressed_record later q previous merged meta (progressed_record now q previous merged meta r)
      = progressed_record later q previous merged meta r" for r
    by (simp add: progressed_record_def split: prod.split)
  have retry: "progressed_snapshot ident enc dec later q previous s' = Inr t'"
    if "sn_events s' = sn_events s \<or> sn_events s' = merged"
      "sn_record s' = sn_record s \<or> sn_record s' = progressed_record now q previous merged meta (sn_record s)" for s'
    using that m again overwritten by (auto simp: progressed_snapshot_def t'_def)
  let ?s' = "snd (update_snapshot events_ok log_ok record_ok (progressed_snapshot ident enc dec now q previous) s)"
  have "sn_events ?s' = sn_events s \<or> sn_events ?s' = merged"
    "sn_record ?s' = sn_record s \<or> sn_record ?s' = progressed_record now q previous merged meta (sn_record s)"
    using assms(1) m(3) by (auto simp: update_snapshot_def Let_def)
  then have "progressed_snapshot ident enc dec later q previous ?s' = Inr t'" by (rule retry)
  moreover have "progressed_snapshot ident enc dec later q previous s = Inr t'" by (rule retry) simp_all
  ultimately show ?thesis by (simp add: update_snapshot_def Let_def)
qed

definition sample_progress :: progress_request where
  "sample_progress =
     \<lparr>pq_owner = \<lparr>lq_version = 1, lq_run = ''r1'', lq_token = ''t'', lq_session = ''s''\<rparr>, pq_checkpoint = 1,
      pq_ledger = sample_record ''r1'' ''submitted'' [], pq_events = lines_text [''1'', ''2'', ''3''], pq_log = ''log''\<rparr>"

definition sample_snapshot :: run_snapshot where
  "sample_snapshot =
     \<lparr>sn_record = sample_record ''r1'' ''submitted'' [], sn_events = lines_text [''1'', ''2''], sn_log = []\<rparr>"

text \<open>The log's write fails after the events were written.\<close>

theorem checkpoint_retry_witness:
  "\<exists>t. sn_log t = ''log''
     \<and> update_snapshot True True True
         (progressed_snapshot number_ident number_enc number_dec 5 sample_progress sample_assignment)
         (snd (update_snapshot True False True
           (progressed_snapshot number_ident number_enc number_dec 0 sample_progress sample_assignment) sample_snapshot))
       = (Inr (), t)"
proof -
  have events: "sn_events sample_snapshot = lines_text [''1'', ''2'']"
    "pq_events sample_progress = lines_text [''1'', ''2'', ''3'']" "pq_log sample_progress = ''log''"
    by (simp_all add: sample_snapshot_def sample_progress_def)
  have "retained_metadata number_dec (raw_lines (lines_text [''1'', ''2'', ''3''])) = Inr (3, 0, False)" by code_simp
  then obtain t where t: "progressed_snapshot number_ident number_enc number_dec 0 sample_progress sample_assignment sample_snapshot
      = Inr t" by (auto simp: progressed_snapshot_def events number_merge)
  have log: "sn_log u = ''log''"
    if "progressed_snapshot number_ident number_enc number_dec 5 sample_progress sample_assignment sample_snapshot = Inr u" for u
    using that by (auto simp: progressed_snapshot_def events split: sum.split_asm)
  have "plain_line (hd (event_lines (sn_events sample_snapshot)))" unfolding events by code_simp
  moreover have "\<forall>line\<in>set (event_lines (pq_events sample_progress)). stable_line number_ident number_enc number_dec line"
    unfolding events by code_simp
  moreover have "starts_with_event number_ident number_enc number_dec (sn_events sample_snapshot)"
    unfolding events by code_simp
  moreover have "starts_with_event number_ident number_enc number_dec (pq_events sample_progress)"
    unfolding events by code_simp
  ultimately show ?thesis using checkpoint_retry [OF t, of 5 True False True] log by blast
qed

subsection \<open>Checkpoints go in order\<close>

lemma owns_assignment_record:
  "owns_assignment now allowed q agent run c = (Some l, c') \<Longrightarrow>
     find_assignment c run = Some l \<and> allowed l \<and> ar_agent (la_record l) = agent \<and> ct_assignments c' = ct_assignments c"
  by (auto simp: owns_assignment_def accept_host_agent_session_def change_agent_def
      split: option.split_asm if_split_asm prod.split_asm bool.split_asm)

text \<open>Only the checkpoint after the acknowledged one goes on, and only for a confirmed assignment.\<close>

lemma begin_progress_next:
  assumes "begin_progress sha256 header now q agent run c = (Proceed r, c')"
  shows "\<exists>l. find_assignment c run = Some l \<and> la_record l = r \<and> accepts_progress l \<and> ar_agent r = agent
    \<and> pq_checkpoint q = wrap64 (ar_progress r + 1) \<and> ct_assignments c' = ct_assignments c"
  using assms owns_assignment_record [of now _ "pq_owner q" agent run c]
  by (fastforce simp: begin_progress_def Let_def split: if_split_asm prod.split_asm option.split_asm)

text \<open>What was published is acknowledged when it is sent again, and never goes on a second time.\<close>

lemma published_acknowledged:
  assumes "find_assignment c run = Some l" "la_record l = progressed_assignment sha256 q ledger previous"
    "begin_progress sha256 header now q agent run c = (step, c')"
  shows "\<exists>reply. step = Answer reply"
proof (cases step)
  case (Proceed r)
  then have "pq_checkpoint q = wrap64 (pq_checkpoint q + 1)"
    using begin_progress_next [OF assms(3) [unfolded Proceed]] assms(1,2) by (auto simp: progressed_assignment_def)
  moreover have "wrap64 (n + 1) \<noteq> n" for n
  proof
    assume "wrap64 (n + 1) = n"
    then have m: "(n + 2 ^ 63 + 1) mod 2 ^ 64 = n + 2 ^ 63" by (simp add: wrap64_def add.commute add.left_commute)
    then have "0 \<le> n + 2 ^ 63" "n + 2 ^ 63 < 2 ^ 64" by (metis pos_mod_sign pos_mod_bound zero_less_numeral zero_less_power)+
    then show False using m by (cases "n + 2 ^ 63 + 1 = 2 ^ 64") auto
  qed
  ultimately show ?thesis by metis
qed simp

end
