(* ===== verification/Step_Logic.thy ===== *)
theory Step_Logic
  imports Main
begin

text \<open>
  Steps that change a state and report what failed, an empty list for nothing, the ways the code puts
  them together, and triples about them: what a step makes of a state when it succeeds and
  when it fails.
\<close>

type_synonym ('w, 'e) step = "'w \<Rightarrow> 'e list \<times> 'w"

subsection \<open>Steps\<close>

definition pure_step :: "('w \<Rightarrow> 'w) \<Rightarrow> ('w, 'e) step" where
  "pure_step h f = ([], h f)"

definition seq_step :: "('w, 'e) step \<Rightarrow> ('w, 'e) step \<Rightarrow> ('w, 'e) step" where
  "seq_step a b f = (case a f of (e, g) \<Rightarrow> if e = [] then b g else (e, g))"

definition steps :: "('w, 'e) step list \<Rightarrow> ('w, 'e) step" where
  "steps cs = foldr seq_step cs (\<lambda>f. ([], f))"

definition when_step :: "('w \<Rightarrow> bool) \<Rightarrow> ('w, 'e) step \<Rightarrow> ('w, 'e) step" where
  "when_step b c f = (if b f then c f else ([], f))"

text \<open>\<open>errors.Join\<close>: both run, and both errors are kept.\<close>

definition join_step :: "('w, 'e) step \<Rightarrow> ('w, 'e) step \<Rightarrow> ('w, 'e) step" where
  "join_step a b f = (case a f of (e, g) \<Rightarrow> case b g of (e', h) \<Rightarrow> (e @ e', h))"

text \<open>On an error the second one runs, and its error is added.\<close>

definition on_error :: "('w, 'e) step \<Rightarrow> ('e list \<Rightarrow> ('w, 'e) step) \<Rightarrow> ('w, 'e) step" where
  "on_error a h f = (case a f of (e, g) \<Rightarrow> if e = [] then ([], g) else (case h e g of (e', k) \<Rightarrow> (e @ e', k)))"

text \<open>A test, which changes nothing.\<close>

definition check_step :: "('w \<Rightarrow> 'e list) \<Rightarrow> ('w, 'e) step" where
  "check_step c f = (c f, f)"

subsection \<open>Triples\<close>

text \<open>What a step makes of a state when it succeeds, and what when it fails.\<close>

definition triple ::
    "('w \<Rightarrow> bool) \<Rightarrow> ('w, 'e) step \<Rightarrow> ('w \<Rightarrow> bool) \<Rightarrow> ('w \<Rightarrow> bool) \<Rightarrow> bool" where
  "triple P c Q R \<longleftrightarrow> (\<forall>f e g. P f \<longrightarrow> c f = (e, g) \<longrightarrow> (if e = [] then Q g else R g))"

lemma tripleI: "(\<And>f e g. P f \<Longrightarrow> c f = (e, g) \<Longrightarrow> (if e = [] then Q g else R g)) \<Longrightarrow> triple P c Q R"
  unfolding triple_def by blast

lemma tripleD: "triple P c Q R \<Longrightarrow> P f \<Longrightarrow> c f = (e, g) \<Longrightarrow> (if e = [] then Q g else R g)"
  unfolding triple_def by blast

lemma triple_end: "triple P c Q Q \<Longrightarrow> P f \<Longrightarrow> Q (snd (c f))"
  using tripleD [of P c Q Q f "fst (c f)" "snd (c f)"] by (auto split: if_splits)

lemma triple_seq:
  assumes "triple P a Q R" "triple Q b S R"
  shows "triple P (seq_step a b) S R"
proof (rule tripleI)
  fix f e g assume p: "P f" and r: "seq_step a b f = (e, g)"
  obtain e1 h where a: "a f = (e1, h)" by (cases "a f")
  note q = tripleD [OF assms(1) p a]
  show "if e = [] then S g else R g"
  proof (cases "e1 = []")
    case True
    then show ?thesis using q r a tripleD [OF assms(2), of h e g] by (simp add: seq_step_def)
  next
    case False
    then show ?thesis using q r a by (simp add: seq_step_def)
  qed
qed

lemma triple_Nil: "triple P (steps []) P R"
  by (simp add: triple_def steps_def)

lemma triple_Cons: "triple P c Q R \<Longrightarrow> triple Q (steps cs) S R \<Longrightarrow> triple P (steps (c # cs)) S R"
  using triple_seq [of P c Q R "steps cs" S] by (simp add: steps_def)

lemma triple_append: "triple P (steps cs) Q R \<Longrightarrow> triple Q (steps ds) S R \<Longrightarrow> triple P (steps (cs @ ds)) S R"
proof (induction cs arbitrary: P)
  case Nil
  show ?case
  proof (rule tripleI)
    fix f e g assume "P f" "steps ([] @ ds) f = (e, g)"
    then show "if e = [] then S g else R g"
      using tripleD [OF Nil(1), of f "[]" f] tripleD [OF Nil(2), of f e g] by (simp add: steps_def)
  qed
next
  case (Cons c cs)
  show ?case
  proof (rule tripleI)
    fix f e g assume p: "P f" and r: "steps ((c # cs) @ ds) f = (e, g)"
    obtain e1 h where c: "c f = (e1, h)" by (cases "c f")
    have t: "triple (\<lambda>k. k = h \<and> e1 = []) (steps cs) Q R"
    proof (rule tripleI)
      fix k e' g' assume "k = h \<and> e1 = []" "steps cs k = (e', g')"
      then show "if e' = [] then Q g' else R g'"
        using tripleD [OF Cons.prems(1) p, of e' g'] c by (simp add: steps_def seq_step_def)
    qed
    show "if e = [] then S g else R g"
    proof (cases "e1 = []")
      case True
      then have "steps (cs @ ds) h = (e, g)" using r c by (simp add: steps_def seq_step_def)
      with True show ?thesis using tripleD [OF Cons.IH [OF t Cons.prems(2)], of h e g] by simp
    next
      case False
      then have "steps (c # cs) f = (e, g)" "e \<noteq> []" using r c by (auto simp: steps_def seq_step_def)
      then show ?thesis using tripleD [OF Cons.prems(1) p, of e g] by simp
    qed
  qed
qed

lemma triple_all: "list_all (\<lambda>c. triple P c P R) cs \<Longrightarrow> triple P (steps cs) P R"
proof (induction cs)
  case (Cons c cs)
  then show ?case using triple_Cons [of P c P R cs P] by simp
qed (rule triple_Nil)

lemma triple_when: "triple P c P R \<Longrightarrow> triple P (when_step b c) P R"
  by (rule tripleI) (auto simp: when_step_def dest: tripleD split: if_split_asm)

lemma triple_self: "(\<And>v. triple P (c v) Q R) \<Longrightarrow> triple P (\<lambda>w. c w w) Q R"
  unfolding triple_def by blast

lemma triple_weaken:
  "triple P c Q R \<Longrightarrow> (\<And>f. P' f \<Longrightarrow> P f) \<Longrightarrow> (\<And>f. Q f \<Longrightarrow> Q' f) \<Longrightarrow> (\<And>f. R f \<Longrightarrow> R' f) \<Longrightarrow> triple P' c Q' R'"
  unfolding triple_def by (metis (full_types))

lemma triple_on_error:
  assumes "triple P a Q S" "\<And>e. triple S (h e) R R"
  shows "triple P (on_error a h) Q R"
proof (rule tripleI)
  fix f e g assume p: "P f" and r: "on_error a h f = (e, g)"
  obtain e1 k where a: "a f = (e1, k)" by (cases "a f")
  obtain e2 m where h: "h e1 k = (e2, m)" by (cases "h e1 k")
  note q = tripleD [OF assms(1) p a]
  show "if e = [] then Q g else R g"
  proof (cases "e1 = []")
    case True
    then show ?thesis using q r a by (simp add: on_error_def)
  next
    case False
    then show ?thesis using q r a h tripleD [OF assms(2), of k e1 e2 m] by (auto simp: on_error_def split: if_splits)
  qed
qed

lemma triple_pure: "(\<And>f. P f \<Longrightarrow> Q (h f)) \<Longrightarrow> triple P (pure_step h) Q R"
  by (rule tripleI) (auto simp: pure_step_def)

end
