(* ===== verification/Fresh_Run.thy ===== *)
theory Fresh_Run
  imports Scenario Step_Logic
begin

text \<open>
  The lifecycle of a fresh run (\<open>fresh_run.go\<close>): acceptance, setup, the Maya session, the scenario,
  settlement, and the deferred cleanup that decides what becomes of the session and the host lock.

  Everything the lifecycle calls is an operation with an answer: it succeeds or fails, and an
  operation of the session's host may be interrupted by a cancellation, after which it still ends
  or is left running.  The answers are part of the state and are used up in order, so a theorem
  for every list of answers covers every behaviour of the environment.  What happens to the
  session and to the lock is recorded in a trace.  An error is the list of what failed, empty
  for none; an operation that is absent counts as one that succeeds.
\<close>

subsection \<open>State\<close>

datatype timing = InTime | AfterCancel | TimedOut

datatype answer = Answer timing bool

datatype id_answer = Taken | IdFailed

datatype selection_answer = HostSelected | SelectionFailed string string

record start_answer =
  sa_timing :: timing
  sa_adapter :: bool
  sa_identity :: bool
  sa_error :: bool

datatype lock_event =
    LockTaken
  | SessionStarted
  | LeftRunning
  | SessionStopped
  | StopRecorded
  | LockKept
  | SessionRetained
  | ScenarioRecovered
  | ReleaseCalled bool

record failure_evidence =
  fe_layer :: string
  fe_capture :: string
  fe_cleanup :: string

record fresh_run =
  fr_cancelable :: bool
  fr_assigned :: bool
  fr_stop_after :: string
  fr_can_retain :: bool
  fr_cleans_workspace :: bool
  fr_answers :: "answer list"
  fr_ids :: "id_answer list"
  fr_selection :: selection_answer
  fr_start :: start_answer
  fr_trace :: "lock_event list"
  fr_accepted :: bool
  fr_state_owned :: bool
  fr_layer :: string
  fr_start_attempted :: bool
  fr_started :: bool
  fr_settled :: bool
  fr_stop_attempted :: bool
  fr_canceled :: bool
  fr_unsettled :: bool
  fr_retained :: bool
  fr_release :: bool
  fr_heartbeat :: bool
  fr_policy :: string
  fr_status :: string
  fr_failure :: "failure_evidence option"
  fr_selection_cleanup :: string
  fr_capture :: string
  fr_skip_artifacts :: bool
  fr_skip_visual :: bool

type_synonym run_step = "(fresh_run, string) step"

text \<open>The answer to the next operation; without one it succeeds.\<close>

definition next_answer :: "fresh_run \<Rightarrow> timing \<times> bool \<times> fresh_run" where
  "next_answer f =
     (case fr_answers f of
        [] \<Rightarrow> (InTime, True, f)
      | Answer t ok # rest \<Rightarrow> (t, ok, f\<lparr>fr_answers := rest\<rparr>))"

definition fallible :: "string \<Rightarrow> run_step" where
  "fallible name f = (case next_answer f of (t, ok, g) \<Rightarrow> (if ok then [] else [name], g))"

definition log_event :: "lock_event \<Rightarrow> fresh_run \<Rightarrow> fresh_run" where
  "log_event x f = f\<lparr>fr_trace := x # fr_trace f\<rparr>"

definition ops :: "string list \<Rightarrow> run_step" where
  "ops names = steps (map fallible names)"

definition set_layer :: "string \<Rightarrow> run_step" where
  "set_layer layer = pure_step (\<lambda>f. f\<lparr>fr_layer := layer\<rparr>)"

definition set_status :: "string \<Rightarrow> run_step" where
  "set_status status = pure_step (\<lambda>f. f\<lparr>fr_status := status\<rparr>)"

subsection \<open>Cancellation\<close>

definition cancellation_error :: run_step where
  "cancellation_error f =
     (if \<not> fr_cancelable f then ([], f)
      else (case next_answer f of
              (t, ok, g) \<Rightarrow> if ok then ([], g) else ([''canceled''], g\<lparr>fr_canceled := True\<rparr>)))"

text \<open>
  \<open>runPostSessionOperation\<close> and \<open>stagePayloadWithCancellation\<close>: an operation of the host that a
  cancellation interrupts is given time to end; after that it is left running.
\<close>

definition host_operation :: "string \<Rightarrow> run_step" where
  "host_operation name f =
     (case next_answer f of
        (t, ok, g) \<Rightarrow>
          if \<not> fr_cancelable f \<or> t = InTime then (if ok then [] else [name], g)
          else if t = AfterCancel
          then (''canceled'' # (if ok then [] else [name]), g\<lparr>fr_canceled := True\<rparr>)
          else ([''canceled'', name], log_event LeftRunning (g\<lparr>fr_canceled := True, fr_unsettled := True\<rparr>)))"

definition stopped :: "bool \<Rightarrow> fresh_run \<Rightarrow> fresh_run" where
  "stopped ok f = (if ok then log_event SessionStopped (f\<lparr>fr_settled := True\<rparr>) else f)"

definition stop_session_after_failure :: run_step where
  "stop_session_after_failure f =
     (case next_answer (f\<lparr>fr_stop_attempted := True\<rparr>) of
        (t, ok, g) \<Rightarrow>
          if fr_canceled f \<and> t = TimedOut
          then ([''stop''], log_event LeftRunning (g\<lparr>fr_unsettled := True\<rparr>))
          else (if ok then [] else [''stop''], stopped ok g))"

definition stop_session_during_settlement :: run_step where
  "stop_session_during_settlement f =
     (if fr_canceled f \<or> \<not> fr_cancelable f then stop_session_after_failure (f\<lparr>fr_stop_attempted := True\<rparr>)
      else (case next_answer (f\<lparr>fr_stop_attempted := True\<rparr>) of
              (t, ok, g) \<Rightarrow>
                if t = InTime then (if ok then [] else [''stop''], stopped ok g)
                else if t = AfterCancel
                then (''canceled'' # (if ok then [] else [''stop'']), stopped ok (g\<lparr>fr_canceled := True\<rparr>))
                else ([''canceled'', ''stop''],
                      log_event LeftRunning (g\<lparr>fr_canceled := True, fr_unsettled := True\<rparr>))))"

subsection \<open>The host lock\<close>

definition host_lock_heartbeat_error :: run_step where
  "host_lock_heartbeat_error = when_step fr_heartbeat (fallible ''heartbeat'')"

definition renew_host_lock_now :: run_step where
  "renew_host_lock_now = steps [host_lock_heartbeat_error, fallible ''renew'']"

text \<open>The heartbeat is stopped; the error of a failed renewal comes out here.\<close>

definition stop_heartbeat :: run_step where
  "stop_heartbeat =
     when_step fr_heartbeat
       (\<lambda>f. case fallible ''heartbeat'' f of (e, g) \<Rightarrow> (e, g\<lparr>fr_heartbeat := e \<noteq> []\<rparr>))"

definition release_lock :: run_step where
  "release_lock f =
     (case fallible ''release'' f of (e, g) \<Rightarrow> (e, log_event (ReleaseCalled (e = [])) g))"

definition mark_kept :: run_step where
  "mark_kept f =
     (case fallible ''mark kept'' f of (e, g) \<Rightarrow> (e, if e = [] then log_event LockKept g else g))"

definition keep_lock_held :: "fresh_run \<Rightarrow> fresh_run" where
  "keep_lock_held f = f\<lparr>fr_release := False\<rparr>"

subsection \<open>Cleanup of a stopped run\<close>

text \<open>The durable record, or the ledger's checkpoint, that the session was stopped.\<close>

definition record_stop :: "string \<Rightarrow> run_step" where
  "record_stop name f = (case fallible name f of (e, g) \<Rightarrow> (e, if e = [] then log_event StopRecorded g else g))"

definition clean_workspace :: run_step where
  "clean_workspace = when_step fr_cleans_workspace (fallible ''clean remote workspace'')"

definition complete_cleanup_after_recovery_failure :: run_step where
  "complete_cleanup_after_recovery_failure f =
     (case steps [record_stop ''checkpoint session-stopped'', clean_workspace, fallible ''checkpoint broker-cleaned'',
                  release_lock] f of
        (e, g) \<Rightarrow>
          if e = [] then ops [''checkpoint host-lock-released'', ''clean run state''] (keep_lock_held g)
          else (e, keep_lock_held g))"

definition record_or_complete :: run_step where
  "record_or_complete =
     on_error (seq_step (record_stop ''record'') mark_kept) (\<lambda>e. complete_cleanup_after_recovery_failure)"

definition preserve_stopped_run_for_cleanup :: run_step where
  "preserve_stopped_run_for_cleanup f =
     (case join_step (\<lambda>f. case stop_heartbeat f of (e, g) \<Rightarrow> (e, g\<lparr>fr_heartbeat := False\<rparr>)) record_or_complete f of
        (e, g) \<Rightarrow> (e, keep_lock_held g))"

definition finish_stopped_run_cleanup :: run_step where
  "finish_stopped_run_cleanup =
     steps [preserve_stopped_run_for_cleanup, clean_workspace,
            ops [''read record'', ''write record'', ''checkpoint broker-cleaned''],
            release_lock, pure_step keep_lock_held,
            ops [''write record'', ''checkpoint host-lock-released'', ''clean run state'']]"

definition sync_evidence_events :: run_step where
  "sync_evidence_events = fallible ''sync events''"

subsection \<open>Failure evidence\<close>

definition ask :: "fresh_run \<Rightarrow> bool \<times> fresh_run" where
  "ask f = (case next_answer f of (t, ok, g) \<Rightarrow> (ok, g))"

text \<open>The screenshot of a failure: whether there is one, and whether it is all that was planned.\<close>

definition capture_failure_screenshot :: run_step where
  "capture_failure_screenshot f =
     (case ask f of
        (captured, g) \<Rightarrow>
          if \<not> captured then fallible ''screenshot event'' g
          else (case ask g of
                  (planned, h) \<Rightarrow>
                    fallible ''screenshot event''
                      (h\<lparr>fr_capture := (if planned then ''completed'' else ''partial'')\<rparr>)))"

definition write_broker_failure_evidence :: run_step where
  "write_broker_failure_evidence =
     steps [fallible ''preserve result'', capture_failure_screenshot, fallible ''write bundle'']"

definition ensure_accepted_failure_evidence :: run_step where
  "ensure_accepted_failure_evidence f =
     (let g = f\<lparr>fr_layer := ''execution'', fr_status := ''failed'',
               fr_failure := Some \<lparr>fe_layer = ''execution'', fe_capture = fr_capture f, fe_cleanup = ''pending''\<rparr>\<rparr> in
      steps [ops [''stat bundle'', ''terminal event''],
             (\<lambda>f. case ask f of
                (exists, g) \<Rightarrow>
                  if exists then fallible ''update evidence'' g
                  else ops [''failure log'', ''write manifest'', ''write bundle'', ''update evidence''] g)] g)"

text \<open>
  \<open>finishEarlyFailure\<close>: a run that fails before its session starts ends here, with the layer that
  failed, and releases the lock it may have.
\<close>

definition early_release :: "fresh_run \<Rightarrow> string list \<times> string \<times> fresh_run" where
  "early_release f =
     (let state = (if fr_selection_cleanup f = [] then ''not-needed'' else fr_selection_cleanup f) in
      if fr_release f \<and> \<not> fr_started f
      then (case release_lock f of
              (e, g) \<Rightarrow> (e, if e = [] then ''completed'' else ''failed'', keep_lock_held g))
      else ([], state, f))"

definition finish_early_failure :: "string list \<Rightarrow> run_step" where
  "finish_early_failure err f =
     (case stop_heartbeat f of
        (he, f1) \<Rightarrow>
          (case early_release (f1\<lparr>fr_heartbeat := False\<rparr>) of
             (re, state, f2) \<Rightarrow>
               (let f3 = f2\<lparr>fr_status := ''failed'',
                           fr_failure := Some \<lparr>fe_layer = fr_layer f2, fe_capture = ''not-started'', fe_cleanup = state\<rparr>,
                           fr_policy := (if state = ''failed'' then ''unresolved'' else fr_policy f2)\<rparr> in
                case ops [''failure log'', ''failure event'', ''write manifest'', ''write bundle''] f3 of
                  (e, f4) \<Rightarrow> (err @ he @ re @ e, f4))))"

subsection \<open>Acceptance and setup\<close>

text \<open>The first run identifier that is free; an assigned one is tried once.\<close>

fun claim_run_id :: "bool \<Rightarrow> id_answer list \<Rightarrow> string list" where
  "claim_run_id assigned [] = []"
| "claim_run_id assigned (Taken # as) = (if assigned then [''assigned Run ID exists''] else claim_run_id assigned as)"
| "claim_run_id assigned (IdFailed # as) = [''claim run directories'']"

definition accept_run :: run_step where
  "accept_run =
     steps [when_step fr_assigned (fallible ''validate Run ID''),
            (\<lambda>f. (claim_run_id (fr_assigned f) (fr_ids f), f)),
            pure_step (\<lambda>f. f\<lparr>fr_state_owned := True\<rparr>),
            ops [''write manifest'', ''accepted event'', ''event prefix'', ''initialize ledger''],
            pure_step (\<lambda>f. f\<lparr>fr_accepted := True\<rparr>),
            fallible ''accepted check'']"

definition select_host :: run_step where
  "select_host f =
     (case fr_selection f of
        SelectionFailed layer cleanup \<Rightarrow>
          ([''select host''], f\<lparr>fr_layer := layer, fr_selection_cleanup := cleanup\<rparr>)
      | HostSelected \<Rightarrow>
          ([], log_event LockTaken (f\<lparr>fr_layer := ''remote-check'', fr_release := True, fr_heartbeat := True\<rparr>)))"

text \<open>\<open>startSessionWithCancellation\<close>: the adapter and the identity the broker reports, and the error.\<close>

definition start_session_with_cancellation :: "fresh_run \<Rightarrow> bool \<times> bool \<times> string list \<times> fresh_run" where
  "start_session_with_cancellation f =
     (let a = fr_start f;
          started = (if sa_adapter a \<or> \<not> sa_error a then log_event SessionStarted else (\<lambda>f. f));
          err = (if sa_error a then [''start session''] else []) in
      if \<not> fr_cancelable f \<or> sa_timing a = InTime then (sa_adapter a, sa_identity a, err, started f)
      else if sa_timing a = AfterCancel
      then (sa_adapter a, sa_identity a, ''canceled'' # err, started (f\<lparr>fr_canceled := True\<rparr>))
      else (False, False, [''canceled'', ''start session''],
            log_event LeftRunning (f\<lparr>fr_canceled := True, fr_unsettled := True, fr_release := False\<rparr>)))"

definition start_failed :: "string list \<Rightarrow> run_step" where
  "start_failed err =
     steps [ops [''failure log'', ''failure event''], write_broker_failure_evidence, set_status ''failed'']"

definition start_fresh_session :: run_step where
  "start_fresh_session f =
     (case renew_host_lock_now f of
        (e, f1) \<Rightarrow>
          if e \<noteq> [] then (e, f1)
          else (case start_session_with_cancellation (f1\<lparr>fr_start_attempted := True\<rparr>) of
                  (adapter, identity, err, f2) \<Rightarrow>
                    (let nameless = err = [] \<and> (\<not> adapter \<or> \<not> identity);
                         err1 = (if nameless then [''session identity''] else err);
                         f3 = (if nameless then keep_lock_held f2 else f2) in
                     case (if adapter
                           then steps [ops [''write manifest'', ''record session'', ''bind lock'', ''bind session''],
                                       (\<lambda>f. if err1 = [] then fallible ''verify build'' f else ([], f))]
                                  (f3\<lparr>fr_started := True\<rparr>)
                           else ([], f3)) of
                       (e, f4) \<Rightarrow>
                         if e \<noteq> [] \<and> hd e \<noteq> ''verify build'' then (err1 @ e, f4)
                         else if err1 @ e = [] then ([], f4)
                         else (case start_failed (err1 @ e) f4 of (e', f5) \<Rightarrow> (err1 @ e @ e', f5)))))"

definition setup_run :: run_step where
  "setup_run =
     steps [accept_run, cancellation_error,
            set_layer ''repo-config'', ops [''load config'', ''ledger policy'', ''prune ledger''],
            set_layer ''scenario'',
            ops [''resolve scenario'', ''validate inputs'', ''validate remote paths'', ''configure workspace'',
                 ''snapshot runtime inputs'', ''write manifest''],
            set_layer ''host-selection'', select_host,
            set_layer ''run-state'', ops [''run workspace'', ''input environment'', ''write manifest''],
            set_layer ''remote-check'', ops [''session broker'', ''evidence config''], cancellation_error,
            fallible ''probe host'',
            set_layer ''scenario'', ops [''snapshot payload'', ''validate snapshot''],
            set_layer ''remote-check'', fallible ''trusted plugins'', cancellation_error,
            set_layer ''run-state'', ops [''retention record'', ''mark active'', ''started event''],
            set_layer [], start_fresh_session, cancellation_error, renew_host_lock_now,
            host_operation ''stage payload'', cancellation_error]"

subsection \<open>Execution and settlement\<close>

text \<open>\<open>runBrokerScenario\<close>: a cancellation stops the session while the scenario is still running.\<close>

definition run_broker_scenario :: run_step where
  "run_broker_scenario f =
     (case next_answer f of
        (t, ok, g) \<Rightarrow>
          (let err = (if ok then [] else [''run scenario'']) in
           if \<not> fr_cancelable f \<or> t = InTime then (err, g)
           else (let g1 = g\<lparr>fr_canceled := True, fr_stop_attempted := True\<rparr> in
                 if t = TimedOut
                 then ([''canceled'', ''run scenario''], log_event LeftRunning (g1\<lparr>fr_unsettled := True\<rparr>))
                 else (case ask g1 of
                         (stop_ok, h) \<Rightarrow>
                           (''canceled'' # (if stop_ok then [] else [''stop'']) @ err, stopped stop_ok h)))))"

text \<open>A failed collection is only an event.\<close>

definition collect_broker_failure_artifacts :: run_step where
  "collect_broker_failure_artifacts =
     steps [ops [''failure log'', ''failure event''],
            (\<lambda>f. case host_operation ''collect failure artifacts'' f of (e, g) \<Rightarrow> fallible ''collection event'' g)]"

text \<open>A scenario that left a passing result before its broker failed counts as completed.\<close>

definition recover_completed_scenario :: "fresh_run \<Rightarrow> bool \<times> string list \<times> fresh_run" where
  "recover_completed_scenario f =
     (case fallible ''result path'' f of
        (e, f1) \<Rightarrow>
          if e \<noteq> [] then (False, e, f1)
          else (case ask f1 of
                  (passed, f2) \<Rightarrow>
                    if \<not> passed then (case fallible ''recovery event'' f2 of (e, g) \<Rightarrow> (False, e, g))
                    else (case ask f2 of
                            (capture, f3) \<Rightarrow>
                              (case fallible ''recovery event''
                                      (log_event ScenarioRecovered
                                         (f3\<lparr>fr_status := ''passed'', fr_skip_artifacts := True,
                                             fr_skip_visual := \<not> capture\<rparr>)) of
                                 (e, g) \<Rightarrow> (True, e, g)))))"

definition execute_run :: run_step where
  "execute_run f =
     (case renew_host_lock_now f of
        (e0, f0) \<Rightarrow>
          if e0 \<noteq> [] then (e0, f0)
          else (case run_broker_scenario f0 of
                  (err, f1) \<Rightarrow>
                    (case renew_host_lock_now f1 of
                       (le, f2) \<Rightarrow>
                         if le \<noteq> [] then (err @ le, f2)
                         else if err = [] then ([], f2)
                         else (case collect_broker_failure_artifacts f2 of
                                 (ce, f3) \<Rightarrow>
                                   if ce \<noteq> [] then (err @ ce, f3)
                                   else (case recover_completed_scenario f3 of
                                           (recovered, re, f4) \<Rightarrow>
                                             if re \<noteq> [] then (err @ re, f4)
                                             else if recovered then ([], f4)
                                             else (case write_broker_failure_evidence (f4\<lparr>fr_status := ''failed''\<rparr>) of
                                                     (we, f5) \<Rightarrow> (err @ we, f5)))))))"

definition configure_kept_stop_policy :: run_step where
  "configure_kept_stop_policy = pure_step (\<lambda>f. f\<lparr>fr_policy := ''kept''\<rparr>)"

definition session_kept :: "fresh_run \<Rightarrow> fresh_run" where
  "session_kept f = log_event SessionRetained (f\<lparr>fr_settled := True, fr_retained := True, fr_release := False\<rparr>)"

definition retain_session :: run_step where
  "retain_session =
     steps [(\<lambda>f. (if fr_can_retain f then [] else [''retain unsupported''], f)), stop_heartbeat, mark_kept,
            ops [''retain run'', ''same session'', ''write record''], pure_step session_kept, sync_evidence_events]"

definition finish_failed_run :: "string list \<Rightarrow> run_step" where
  "finish_failed_run err f =
     (case host_lock_heartbeat_error f of
        (le, f1) \<Rightarrow>
          if le \<noteq> [] then (err @ le, f1)
          else if \<not> fr_started f1 \<or> should_stop_after (fr_stop_after f1) ''failed'' then (err, f1)
          else (case steps [pure_step (\<lambda>f. if fr_status f = [] then f\<lparr>fr_status := ''failed''\<rparr> else f),
                            fallible ''stat bundle'',
                            (\<lambda>f. case ask f of
                               (exists, g) \<Rightarrow>
                                 if exists then ([], g)
                                 else steps [ops [''failure log'', ''failure event''], write_broker_failure_evidence] g),
                            configure_kept_stop_policy, retain_session] f1 of
                  (e, f2) \<Rightarrow> (err @ e, f2)))"

text \<open>The result of the scenario, and whether the validators accept the outputs.\<close>

definition judge_result :: run_step where
  "judge_result f =
     (case ask f of
        (passed, g) \<Rightarrow> ([], g\<lparr>fr_status := (if passed then ''passed'' else ''failed'')\<rparr>))"

definition settle_artifacts :: run_step where
  "settle_artifacts =
     when_step (\<lambda>f. \<not> fr_skip_artifacts f)
       (steps [renew_host_lock_now, host_operation ''collect artifacts'', host_lock_heartbeat_error, cancellation_error])"

definition settle_visual_evidence :: run_step where
  "settle_visual_evidence =
     when_step (\<lambda>f. \<not> fr_skip_visual f)
       (steps [renew_host_lock_now, host_operation ''collect visual evidence'',
               pure_step (\<lambda>f. f\<lparr>fr_capture := ''completed''\<rparr>), cancellation_error])"

definition settle_stopped :: run_step where
  "settle_stopped =
     steps [cancellation_error, renew_host_lock_now,
            when_step (\<lambda>f. \<not> fr_settled f) stop_session_during_settlement, cancellation_error,
            on_error sync_evidence_events (\<lambda>e. preserve_stopped_run_for_cleanup), finish_stopped_run_cleanup]"

definition settle_kept :: run_step where
  "settle_kept = steps [host_lock_heartbeat_error, retain_session]"

definition settle_run :: run_step where
  "settle_run =
     steps [cancellation_error, renew_host_lock_now, settle_artifacts, ops [''result path'', ''read result''],
            settle_visual_evidence, ops [''run scoped evidence'', ''write result''],
            fallible ''validate outputs'', judge_result, fallible ''write result'',
            when_step (\<lambda>f. fr_status f \<noteq> ''passed'' \<and> fr_skip_visual f) capture_failure_screenshot,
            when_step (\<lambda>f. \<not> should_stop_after (fr_stop_after f) (fr_status f)) configure_kept_stop_policy,
            ops [''completed event'', ''write bundle''],
            when_step (\<lambda>f. fr_policy f = ''stopped'') settle_stopped,
            when_step (\<lambda>f. fr_policy f = ''kept'') settle_kept]"

subsection \<open>The whole run\<close>

definition run_body :: run_step where
  "run_body f =
     (case setup_run f of
        (e, g) \<Rightarrow>
          if e \<noteq> []
          then (if fr_accepted g \<and> fr_layer g \<noteq> [] then finish_early_failure e g else finish_failed_run e g)
          else (case steps [cancellation_error, host_lock_heartbeat_error, execute_run, host_lock_heartbeat_error,
                            cancellation_error] g of
                  (e, h) \<Rightarrow> if e \<noteq> [] then finish_failed_run e h else settle_run h))"

text \<open>
  The deferred function, one part after the other: the error so far, whether the cleanup is
  incomplete, and the run.
\<close>

type_synonym cleanup = "string list \<times> bool \<times> fresh_run"

definition cleanup_pending :: "fresh_run \<Rightarrow> bool" where
  "cleanup_pending f \<longleftrightarrow> (case fr_failure f of None \<Rightarrow> False | Some fe \<Rightarrow> fe_cleanup fe = ''pending'')"

definition sync_and_clean :: "cleanup \<Rightarrow> cleanup" where
  "sync_and_clean c =
     (case c of (err, incomplete, f) \<Rightarrow>
        (case sync_evidence_events f of
           (se, g) \<Rightarrow>
             if se \<noteq> [] then (case preserve_stopped_run_for_cleanup g of (pe, h) \<Rightarrow> (err @ se @ pe, True, h))
             else (case finish_stopped_run_cleanup g of (ce, h) \<Rightarrow> (err @ ce, incomplete \<or> ce \<noteq> [], h))))"

definition explain_failure :: "cleanup \<Rightarrow> cleanup" where
  "explain_failure c =
     (case c of (err, incomplete, f) \<Rightarrow>
        (case (if fr_accepted f \<and> err \<noteq> [] \<and> fr_layer f = [] then ensure_accepted_failure_evidence f else ([], f)) of
           (e, g) \<Rightarrow>
             (err @ e,
              fr_start_attempted g \<and> cleanup_pending g \<and> \<not> fr_release g \<or> fr_unsettled g,
              if fr_unsettled g then keep_lock_held g else g)))"

definition stop_unsettled :: "cleanup \<Rightarrow> cleanup" where
  "stop_unsettled c =
     (case c of (err, incomplete, f) \<Rightarrow>
        if fr_unsettled f \<and> fr_started f \<and> \<not> fr_stop_attempted f
        then (case stop_session_during_settlement f of (e, g) \<Rightarrow> (err @ e, incomplete, g))
        else c)"

definition clean_settled :: "cleanup \<Rightarrow> cleanup" where
  "clean_settled c =
     (case c of (err, incomplete, f) \<Rightarrow>
        if fr_started f \<and> fr_settled f \<and> fr_stop_attempted f \<and> fr_release f \<and> \<not> fr_unsettled f
        then sync_and_clean c else c)"

definition hold_unsettled :: "cleanup \<Rightarrow> cleanup" where
  "hold_unsettled c =
     (case c of (err, incomplete, f) \<Rightarrow>
        if fr_started f \<and> \<not> fr_settled f \<and> fr_stop_attempted f \<and> fr_unsettled f
        then (err, True, keep_lock_held f) else c)"

definition stop_started :: "cleanup \<Rightarrow> cleanup" where
  "stop_started c =
     (case c of (err, incomplete, f) \<Rightarrow>
        if fr_started f \<and> \<not> fr_settled f \<and> \<not> fr_unsettled f
        then (case stop_session_during_settlement f of
                (e, g) \<Rightarrow>
                  if e \<noteq> [] then (err @ e, True, keep_lock_held g) else sync_and_clean (err, incomplete, g))
        else c)"

definition cleanup_unaccepted :: "cleanup \<Rightarrow> cleanup" where
  "cleanup_unaccepted c =
     (case c of (err, incomplete, f) \<Rightarrow>
        if \<not> fr_start_attempted f \<and> \<not> fr_accepted f \<and> fr_state_owned f
        then (case join_step (fallible ''clean run state'') (fallible ''remove evidence'') f of
                (e, g) \<Rightarrow> (err @ e, incomplete, g))
        else c)"

definition release_at_end :: "cleanup \<Rightarrow> cleanup" where
  "release_at_end c =
     (case c of (err, incomplete, f) \<Rightarrow>
        (case stop_heartbeat f of
           (he, g) \<Rightarrow>
             (let g1 = g\<lparr>fr_heartbeat := False\<rparr> in
              if fr_release g1
              then (case release_lock g1 of (e, h) \<Rightarrow> (err @ he @ e, incomplete \<or> e \<noteq> [], h))
              else (err @ he, incomplete, g1))))"

definition settle_failure :: "bool \<Rightarrow> fresh_run \<Rightarrow> fresh_run" where
  "settle_failure incomplete f =
     (case fr_failure f of
        None \<Rightarrow> f
      | Some fe \<Rightarrow>
          if fe_cleanup fe \<noteq> ''pending'' then f
          else if fr_policy f = ''kept'' \<and> fr_retained f then f\<lparr>fr_failure := Some (fe\<lparr>fe_cleanup := ''retained''\<rparr>)\<rparr>
          else if incomplete
          then f\<lparr>fr_policy := ''unresolved'', fr_failure := Some (fe\<lparr>fe_cleanup := ''failed''\<rparr>)\<rparr>
          else f\<lparr>fr_policy := ''stopped'', fr_failure := Some (fe\<lparr>fe_cleanup := ''completed''\<rparr>)\<rparr>)"

definition report_failure :: "cleanup \<Rightarrow> cleanup" where
  "report_failure c =
     (case c of (err, incomplete, f) \<Rightarrow>
        if fr_accepted f \<and> err \<noteq> []
        then (case (if fr_failure f = None then ensure_accepted_failure_evidence f else ([], f)) of
                (e, g) \<Rightarrow>
                  (case fallible ''update evidence'' ((settle_failure incomplete g)\<lparr>fr_status := ''failed''\<rparr>) of
                     (e', h) \<Rightarrow> (err @ e @ e', incomplete, h)))
        else c)"

definition finalize_ledger :: "cleanup \<Rightarrow> cleanup" where
  "finalize_ledger c =
     (case c of (err, incomplete, f) \<Rightarrow>
        if fr_accepted f then (case fallible ''finalize ledger'' f of (e, g) \<Rightarrow> (err @ e, incomplete, g)) else c)"

definition run_deferred :: "string list \<Rightarrow> run_step" where
  "run_deferred err f =
     (case finalize_ledger (report_failure (release_at_end (cleanup_unaccepted (stop_started (hold_unsettled
             (clean_settled (stop_unsettled (explain_failure (err, False, f))))))))) of
        (e, incomplete, g) \<Rightarrow> (e, g))"

definition run_fresh :: run_step where
  "run_fresh f = (case run_body f of (e, g) \<Rightarrow> run_deferred e g)"

text \<open>\<open>newFreshRun\<close>: nothing has happened yet.\<close>

definition new_fresh_run :: "fresh_run \<Rightarrow> bool" where
  "new_fresh_run f \<longleftrightarrow>
     fr_trace f = [] \<and> \<not> fr_accepted f \<and> \<not> fr_state_owned f \<and> fr_layer f = [] \<and> \<not> fr_start_attempted f
   \<and> \<not> fr_started f \<and> \<not> fr_settled f \<and> \<not> fr_stop_attempted f \<and> \<not> fr_canceled f \<and> \<not> fr_unsettled f
   \<and> \<not> fr_retained f \<and> \<not> fr_release f \<and> \<not> fr_heartbeat f \<and> fr_policy f = ''stopped'' \<and> fr_status f = []
   \<and> fr_failure f = None \<and> fr_selection_cleanup f = [] \<and> fr_capture f = ''not-captured''
   \<and> \<not> fr_skip_artifacts f \<and> \<not> fr_skip_visual f"

subsection \<open>The facts that decide about the lock\<close>

text \<open>Read from the newest event on: is the session alive, and has everything on the host ended?\<close>

fun live :: "lock_event list \<Rightarrow> bool" where
  "live [] = False"
| "live (x # t) = (x = SessionStarted \<or> x \<noteq> SessionStopped \<and> live t)"

fun quiet :: "lock_event list \<Rightarrow> bool" where
  "quiet [] = True"
| "quiet (x # t) = (x = ScenarioRecovered \<or> x \<noteq> LeftRunning \<and> quiet t)"

definition release_allowed :: "lock_event list \<Rightarrow> bool" where
  "release_allowed t \<longleftrightarrow> \<not> live t \<and> quiet t \<and> (SessionStarted \<in> set t \<longrightarrow> StopRecorded \<in> set t)"

fun safe :: "lock_event list \<Rightarrow> bool" where
  "safe [] = True"
| "safe (x # t) = ((case x of ReleaseCalled ok \<Rightarrow> release_allowed t | _ \<Rightarrow> True) \<and> safe t)"

definition core_of :: "fresh_run \<Rightarrow> start_answer \<times> lock_event list \<times> string \<times> bool list" where
  "core_of f =
     (fr_start f, fr_trace f, fr_layer f,
      [fr_start_attempted f, fr_started f, fr_settled f, fr_stop_attempted f, fr_unsettled f, fr_retained f,
       fr_release f, fr_accepted f])"

text \<open>Steps that leave these facts alone.\<close>

definition neutral :: "run_step \<Rightarrow> bool" where
  "neutral c \<longleftrightarrow> (\<forall>f. core_of (snd (c f)) = core_of f)"

named_theorems neutral_intro

lemma neutralI: "(\<And>f. core_of (snd (c f)) = core_of f) \<Longrightarrow> neutral c"
  by (simp add: neutral_def)

lemma neutralD: "neutral c \<Longrightarrow> c f = (e, g) \<Longrightarrow> core_of g = core_of f"
  by (metis neutral_def snd_conv)

lemma next_answer_core: "next_answer f = (t, ok, g) \<Longrightarrow> core_of g = core_of f"
  by (auto simp: next_answer_def core_of_def split: list.split_asm answer.split_asm)

lemma neutral_fallible [neutral_intro]: "neutral (fallible name)"
  by (auto simp: neutral_def fallible_def dest: next_answer_core split: prod.split)

lemma neutral_seq [neutral_intro]: "neutral a \<Longrightarrow> neutral b \<Longrightarrow> neutral (seq_step a b)"
  by (auto simp: neutral_def seq_step_def split: prod.split) (metis snd_conv)+

lemma neutral_steps [neutral_intro]: "list_all neutral cs \<Longrightarrow> neutral (steps cs)"
proof (induction cs)
  case (Cons c cs)
  then show ?case using neutral_seq [of c "steps cs"] by (simp add: steps_def)
qed (simp add: steps_def neutral_def)

lemma neutral_ops [neutral_intro]: "neutral (ops names)"
  unfolding ops_def by (rule neutral_steps) (simp add: list_all_iff neutral_fallible)

lemma neutral_when [neutral_intro]: "neutral c \<Longrightarrow> neutral (when_step b c)"
  by (simp add: neutral_def when_step_def)

lemma neutral_pure [neutral_intro]: "(\<And>f. core_of (h f) = core_of f) \<Longrightarrow> neutral (pure_step h)"
  by (simp add: neutral_def pure_step_def)

lemma core_of_updates [simp]:
  "core_of (f\<lparr>fr_answers := as\<rparr>) = core_of f"
  "core_of (f\<lparr>fr_canceled := b\<rparr>) = core_of f" "core_of (f\<lparr>fr_heartbeat := b\<rparr>) = core_of f"
  "core_of (f\<lparr>fr_policy := l\<rparr>) = core_of f" "core_of (f\<lparr>fr_status := l\<rparr>) = core_of f"
  "core_of (f\<lparr>fr_failure := fe\<rparr>) = core_of f" "core_of (f\<lparr>fr_selection_cleanup := l\<rparr>) = core_of f"
  "core_of (f\<lparr>fr_capture := l\<rparr>) = core_of f" "core_of (f\<lparr>fr_skip_artifacts := b\<rparr>) = core_of f"
  "core_of (f\<lparr>fr_skip_visual := b\<rparr>) = core_of f" "core_of (f\<lparr>fr_state_owned := b\<rparr>) = core_of f"
  by (simp_all add: core_of_def)

lemma neutral_cancellation [neutral_intro]: "neutral cancellation_error"
  by (auto simp: neutral_def cancellation_error_def dest!: next_answer_core split: prod.split)

lemma neutral_heartbeat [neutral_intro]: "neutral host_lock_heartbeat_error" "neutral renew_host_lock_now"
  by (auto simp: host_lock_heartbeat_error_def renew_host_lock_now_def intro!: neutral_intro)

lemma neutral_stop_heartbeat [neutral_intro]: "neutral stop_heartbeat"
  unfolding stop_heartbeat_def
  by (intro neutral_when neutralI) (auto split: prod.split dest: neutralD [OF neutral_fallible])

lemma neutral_clean_workspace [neutral_intro]: "neutral clean_workspace"
  unfolding clean_workspace_def by (intro neutral_intro)

lemma neutral_sync [neutral_intro]: "neutral sync_evidence_events"
  unfolding sync_evidence_events_def by (intro neutral_intro)

lemma neutral_status [neutral_intro]: "neutral (set_status st)"
  unfolding set_status_def by (intro neutral_pure) simp

lemma ask_core: "ask f = (b, g) \<Longrightarrow> core_of g = core_of f"
  by (auto simp: ask_def dest: next_answer_core split: prod.split_asm)

lemma fallible_core [simp]: "core_of (snd (fallible name f)) = core_of f"
  using neutral_fallible by (simp add: neutral_def)

lemma neutral_screenshot [neutral_intro]: "neutral capture_failure_screenshot"
  by (auto simp: neutral_def capture_failure_screenshot_def split: prod.split dest!: ask_core)

lemma neutral_broker_evidence [neutral_intro]: "neutral write_broker_failure_evidence"
  unfolding write_broker_failure_evidence_def
  by (rule neutral_steps) (simp add: neutral_fallible neutral_screenshot)

lemma neutral_start_failed [neutral_intro]: "neutral (start_failed err)"
  unfolding start_failed_def
  by (rule neutral_steps) (simp add: neutral_ops neutral_broker_evidence neutral_status)

lemma ensure_core: "core_of (snd (ensure_accepted_failure_evidence f)) = core_of (f\<lparr>fr_layer := ''execution''\<rparr>)"
proof -
  have b: "neutral (\<lambda>f. case ask f of (exists, g) \<Rightarrow> if exists then fallible ''update evidence'' g
            else ops [''failure log'', ''write manifest'', ''write bundle'', ''update evidence''] g)"
  proof (rule neutralI)
    fix f
    obtain b g where k: "ask f = (b, g)" by (cases "ask f")
    then show "core_of (snd (case ask f of (exists, g) \<Rightarrow> if exists then fallible ''update evidence'' g
        else ops [''failure log'', ''write manifest'', ''write bundle'', ''update evidence''] g)) = core_of f"
      using ask_core [OF k] neutral_ops [unfolded neutral_def] by simp
  qed
  have n: "neutral (steps [ops [''stat bundle'', ''terminal event''],
      (\<lambda>f. case ask f of (exists, g) \<Rightarrow> if exists then fallible ''update evidence'' g
            else ops [''failure log'', ''write manifest'', ''write bundle'', ''update evidence''] g)])"
    by (rule neutral_steps) (simp add: neutral_ops b)
  have u: "core_of (f\<lparr>fr_layer := l, fr_status := st, fr_failure := fe\<rparr>) = core_of (f\<lparr>fr_layer := l\<rparr>)" for l st fe
    by (simp add: core_of_def)
  show ?thesis
    by (simp only: ensure_accepted_failure_evidence_def Let_def n [unfolded neutral_def, rule_format] u)
qed

subsection \<open>The invariant\<close>

text \<open>
  As long as the lock would be released at the end, a live session is one the run knows it has to
  stop; a session that settled was stopped, unless it is retained and then the lock stays; an
  operation that was left running is known, unless a completed scenario was recovered after it.
\<close>

definition lock_inv :: "fresh_run \<Rightarrow> bool" where
  "lock_inv f \<longleftrightarrow>
     safe (fr_trace f)
   \<and> (live (fr_trace f) \<and> fr_release f \<longrightarrow> fr_started f \<and> \<not> fr_settled f)
   \<and> (fr_settled f \<and> \<not> fr_retained f \<longrightarrow> \<not> live (fr_trace f) \<and> fr_stop_attempted f)
   \<and> (fr_retained f \<longrightarrow> fr_settled f \<and> \<not> fr_release f)
   \<and> (SessionStarted \<in> set (fr_trace f) \<and> fr_release f \<longrightarrow> fr_started f)
   \<and> (\<not> quiet (fr_trace f) \<longrightarrow> fr_unsettled f)"

definition open_run :: "fresh_run \<Rightarrow> bool" where
  "open_run f \<longleftrightarrow> lock_inv f \<and> \<not> fr_retained f"

definition calm :: "fresh_run \<Rightarrow> bool" where
  "calm f \<longleftrightarrow> open_run f \<and> quiet (fr_trace f)"

text \<open>A broker that names no session when its start was interrupted reports an error.\<close>

definition names_session :: "start_answer \<Rightarrow> bool" where
  "names_session a \<longleftrightarrow> (sa_timing a = AfterCancel \<longrightarrow> sa_error a \<or> sa_adapter a)"

definition unstarted :: "fresh_run \<Rightarrow> bool" where
  "unstarted f \<longleftrightarrow>
     calm f \<and> \<not> fr_started f \<and> \<not> fr_settled f \<and> SessionStarted \<notin> set (fr_trace f) \<and> names_session (fr_start f)"

definition idle :: "fresh_run \<Rightarrow> bool" where
  "idle f \<longleftrightarrow> calm f \<and> \<not> live (fr_trace f)"

definition ready :: "fresh_run \<Rightarrow> bool" where
  "ready f \<longleftrightarrow> idle f \<and> StopRecorded \<in> set (fr_trace f)"

subsection \<open>The steps of the body\<close>

lemma core_fields:
  assumes "core_of g = core_of f"
  shows "fr_start g = fr_start f" "fr_trace g = fr_trace f" "fr_start_attempted g = fr_start_attempted f"
    "fr_started g = fr_started f" "fr_settled g = fr_settled f" "fr_stop_attempted g = fr_stop_attempted f"
    "fr_unsettled g = fr_unsettled f" "fr_retained g = fr_retained f" "fr_release g = fr_release f"
    "fr_accepted g = fr_accepted f" "fr_layer g = fr_layer f"
  using assms by (simp_all add: core_of_def)

lemmas run_predicates = lock_inv_def open_run_def calm_def unstarted_def idle_def ready_def

lemma core_predicates:
  assumes "core_of g = core_of f"
  shows "lock_inv g = lock_inv f" "open_run g = open_run f" "calm g = calm f" "unstarted g = unstarted f"
    "idle g = idle f" "ready g = ready f"
  by (simp_all add: run_predicates core_fields [OF assms])

definition steady :: "(fresh_run \<Rightarrow> bool) \<Rightarrow> bool" where
  "steady P \<longleftrightarrow> (\<forall>f g. core_of g = core_of f \<longrightarrow> P g = P f)"

lemma steady_predicates [simp]:
  "steady lock_inv" "steady open_run" "steady calm" "steady unstarted" "steady idle" "steady ready"
  unfolding steady_def
  by (intro allI impI, erule core_predicates)+

lemma steadyD: "steady P \<Longrightarrow> core_of g = core_of f \<Longrightarrow> P f \<Longrightarrow> P g"
  unfolding steady_def by blast

lemma predicates_imp:
  "calm f \<Longrightarrow> open_run f" "open_run f \<Longrightarrow> lock_inv f" "unstarted f \<Longrightarrow> calm f" "idle f \<Longrightarrow> calm f" "ready f \<Longrightarrow> idle f"
  unfolding ready_def idle_def unstarted_def calm_def open_run_def by blast+

lemma triple_neutral:
  assumes "neutral c" "steady P" "\<And>f. P f \<Longrightarrow> R f"
  shows "triple P c P R"
proof (rule tripleI)
  fix f e g assume p: "P f" and r: "c f = (e, g)"
  have "P g" by (rule steadyD [OF assms(2) neutralD [OF assms(1) r] p])
  then show "if e = [] then P g else R g" using assms(3) by simp
qed

lemma log_fields [simp]:
  "fr_trace (log_event x f) = x # fr_trace f" "fr_start (log_event x f) = fr_start f"
  "fr_started (log_event x f) = fr_started f" "fr_settled (log_event x f) = fr_settled f"
  "fr_stop_attempted (log_event x f) = fr_stop_attempted f" "fr_unsettled (log_event x f) = fr_unsettled f"
  "fr_retained (log_event x f) = fr_retained f" "fr_release (log_event x f) = fr_release f"
  "fr_start_attempted (log_event x f) = fr_start_attempted f" "fr_accepted (log_event x f) = fr_accepted f"
  "fr_layer (log_event x f) = fr_layer f"
  by (simp_all add: log_event_def)

lemma not_live: "SessionStarted \<notin> set t \<Longrightarrow> \<not> live t"
  by (induction t) auto

lemma keep_open: "open_run f \<Longrightarrow> open_run (keep_lock_held f)"
  by (simp add: run_predicates keep_lock_held_def)

lemma keep_inv: "lock_inv f \<Longrightarrow> lock_inv (keep_lock_held f)"
  by (simp add: run_predicates keep_lock_held_def)

lemma keep_idle: "idle f \<Longrightarrow> idle (keep_lock_held f)" "ready f \<Longrightarrow> ready (keep_lock_held f)"
    "calm f \<Longrightarrow> calm (keep_lock_held f)"
  by (simp_all add: run_predicates keep_lock_held_def)

text \<open>An operation that was left running is known.\<close>

lemma left_running_open:
  "open_run f \<Longrightarrow> open_run (log_event LeftRunning (f\<lparr>fr_unsettled := True\<rparr>))"
  "open_run f \<Longrightarrow> open_run (log_event LeftRunning (f\<lparr>fr_canceled := b, fr_unsettled := True\<rparr>))"
  by (simp_all add: run_predicates)

lemma next_answer_step:
  assumes "steady P" "next_answer f = (t, ok, g)" "P f"
  shows "P g"
  by (rule steadyD [OF assms(1) next_answer_core [OF assms(2)] assms(3)])

lemma triple_host_operation: "triple calm (host_operation name) calm open_run"
proof (rule tripleI)
  fix f e g assume a: "calm f" "host_operation name f = (e, g)"
  obtain t ok h where n: "next_answer f = (t, ok, h)" by (rule prod_cases3)
  have c: "calm h" by (rule next_answer_step [OF steady_predicates(3) n a(1)])
  have s: "open_run (h\<lparr>fr_canceled := True\<rparr>)"
    by (rule steadyD [OF steady_predicates(2) _ predicates_imp(1) [OF c]]) simp
  consider "\<not> fr_cancelable f \<or> t = InTime" | "fr_cancelable f" "t = AfterCancel" | "fr_cancelable f" "t = TimedOut"
    by (cases t) auto
  then show "if e = [] then calm g else open_run g"
  proof cases
    case 1
    then have "g = h" using a(2) by (simp add: host_operation_def n)
    then show ?thesis using c predicates_imp(1) by simp
  next
    case 2
    then show ?thesis using a(2) s by (auto simp: host_operation_def n)
  next
    case 3
    then show ?thesis using a(2) left_running_open(2) [OF predicates_imp(1) [OF c]] by (auto simp: host_operation_def n)
  qed
qed

text \<open>A stop ends the session, fails, or is left running and then is an error.\<close>

lemma stop_after_result:
  assumes "stop_session_after_failure f = (e, g)"
  obtains (ended) h ok where "core_of h = core_of (f\<lparr>fr_stop_attempted := True\<rparr>)" "g = stopped ok h" "e = [] \<longrightarrow> ok"
  | (left_running) h where "core_of h = core_of (f\<lparr>fr_stop_attempted := True\<rparr>)"
      "g = log_event LeftRunning (h\<lparr>fr_unsettled := True\<rparr>)" "e \<noteq> []"
proof -
  obtain t ok h where n: "next_answer (f\<lparr>fr_stop_attempted := True\<rparr>) = (t, ok, h)" by (rule prod_cases3)
  note c = next_answer_core [OF n]
  show ?thesis
  proof (cases "fr_canceled f \<and> t = TimedOut")
    case True
    then have "g = log_event LeftRunning (h\<lparr>fr_unsettled := True\<rparr>)" "e \<noteq> []"
      using assms by (auto simp: stop_session_after_failure_def n)
    then show ?thesis using left_running [OF c] by blast
  next
    case False
    then have "g = stopped ok h" "e = [] \<longrightarrow> ok"
      using assms by (auto simp: stop_session_after_failure_def n split: if_splits)
    then show ?thesis using ended [OF c] by blast
  qed
qed

lemma stop_result:
  assumes "stop_session_during_settlement f = (e, g)"
  obtains (ended) h ok where "core_of h = core_of (f\<lparr>fr_stop_attempted := True\<rparr>)" "g = stopped ok h" "e = [] \<longrightarrow> ok"
  | (left_running) h where "core_of h = core_of (f\<lparr>fr_stop_attempted := True\<rparr>)"
      "g = log_event LeftRunning (h\<lparr>fr_unsettled := True\<rparr>)" "e \<noteq> []"
proof (cases "fr_canceled f \<or> \<not> fr_cancelable f")
  case True
  then have "stop_session_after_failure (f\<lparr>fr_stop_attempted := True\<rparr>) = (e, g)"
    using assms by (simp add: stop_session_during_settlement_def)
  then show ?thesis
  proof (rule stop_after_result)
    fix h ok assume "core_of h = core_of (f\<lparr>fr_stop_attempted := True, fr_stop_attempted := True\<rparr>)"
      "g = stopped ok h" "e = [] \<longrightarrow> ok"
    then show ?thesis by (intro ended) simp_all
  next
    fix h assume "core_of h = core_of (f\<lparr>fr_stop_attempted := True, fr_stop_attempted := True\<rparr>)"
      "g = log_event LeftRunning (h\<lparr>fr_unsettled := True\<rparr>)" "e \<noteq> []"
    then show ?thesis by (intro left_running) simp_all
  qed
next
  case False
  obtain t ok h where n: "next_answer (f\<lparr>fr_stop_attempted := True\<rparr>) = (t, ok, h)" by (rule prod_cases3)
  note c = next_answer_core [OF n]
  have c': "core_of (h\<lparr>fr_canceled := True\<rparr>) = core_of (f\<lparr>fr_stop_attempted := True\<rparr>)" using c by simp
  note r = assms [unfolded stop_session_during_settlement_def n] False
  show ?thesis
  proof (cases t)
    case InTime
    then have "g = stopped ok h" "e = [] \<longrightarrow> ok" using r by (auto split: if_splits)
    then show ?thesis using ended [OF c] by blast
  next
    case AfterCancel
    then have "g = stopped ok (h\<lparr>fr_canceled := True\<rparr>)" "e \<noteq> []" using r by (auto split: if_splits)
    then show ?thesis using ended [OF c'] by blast
  next
    case TimedOut
    then have "g = log_event LeftRunning ((h\<lparr>fr_canceled := True\<rparr>)\<lparr>fr_unsettled := True\<rparr>)" "e \<noteq> []" using r by (auto split: if_splits)
    then show ?thesis using left_running [OF c'] by blast
  qed
qed

lemma stopped_fields [simp]:
  "fr_trace (stopped ok f) = (if ok then SessionStopped # fr_trace f else fr_trace f)"
  "fr_settled (stopped ok f) = (ok \<or> fr_settled f)" "fr_started (stopped ok f) = fr_started f"
  "fr_stop_attempted (stopped ok f) = fr_stop_attempted f" "fr_unsettled (stopped ok f) = fr_unsettled f"
  "fr_retained (stopped ok f) = fr_retained f" "fr_release (stopped ok f) = fr_release f"
  by (simp_all add: stopped_def)

lemma attempted_inv: "lock_inv f \<Longrightarrow> lock_inv (f\<lparr>fr_stop_attempted := True\<rparr>)"
  by (simp add: lock_inv_def)

lemma stopped_inv: "lock_inv f \<Longrightarrow> fr_stop_attempted f \<Longrightarrow> lock_inv (stopped ok f)"
  by (cases ok) (simp_all add: lock_inv_def)

lemma left_running_inv: "lock_inv f \<Longrightarrow> lock_inv (log_event LeftRunning (f\<lparr>fr_unsettled := True\<rparr>))"
  by (simp add: lock_inv_def)

text \<open>What a stop keeps, and what it reaches when it succeeds.\<close>

lemma stop_facts:
  assumes s: "stop_session_during_settlement f = (e, g)" and i: "lock_inv f"
  shows "lock_inv g" "fr_retained g = fr_retained f" "fr_release g = fr_release f" "fr_started g = fr_started f"
    "fr_stop_attempted g"
    "e = [] \<Longrightarrow> fr_settled g \<and> fr_unsettled g = fr_unsettled f \<and> \<not> live (fr_trace g)
       \<and> quiet (fr_trace g) = quiet (fr_trace f)"
proof -
  have "lock_inv g \<and> fr_retained g = fr_retained f \<and> fr_release g = fr_release f \<and> fr_started g = fr_started f
      \<and> fr_stop_attempted g \<and> (e = [] \<longrightarrow> fr_settled g \<and> fr_unsettled g = fr_unsettled f \<and> \<not> live (fr_trace g)
      \<and> quiet (fr_trace g) = quiet (fr_trace f))"
    using s
  proof (cases rule: stop_result)
    case (ended h ok)
    have "lock_inv h" by (rule steadyD [OF steady_predicates(1) ended(1) attempted_inv [OF i]])
    then show ?thesis using stopped_inv [of h ok] core_fields [OF ended(1)] ended(2,3) by simp
  next
    case (left_running h)
    have "lock_inv h" by (rule steadyD [OF steady_predicates(1) left_running(1) attempted_inv [OF i]])
    then show ?thesis using left_running_inv [of h] core_fields [OF left_running(1)] left_running(2,3) by simp
  qed
  then show "lock_inv g" "fr_retained g = fr_retained f" "fr_release g = fr_release f" "fr_started g = fr_started f"
    "fr_stop_attempted g"
    "e = [] \<Longrightarrow> fr_settled g \<and> fr_unsettled g = fr_unsettled f \<and> \<not> live (fr_trace g)
       \<and> quiet (fr_trace g) = quiet (fr_trace f)"
    by blast+
qed

lemma triple_stop: "triple calm stop_session_during_settlement idle open_run"
proof (rule tripleI)
  fix f e g assume c: "calm f" and s: "stop_session_during_settlement f = (e, g)"
  then have i: "lock_inv f" and r: "\<not> fr_retained f" and q: "quiet (fr_trace f)" by (simp_all add: calm_def open_run_def)
  note k = stop_facts [OF s i]
  show "if e = [] then idle g else open_run g"
    using k(1,2) r q k(6) by (auto simp: idle_def calm_def open_run_def)
qed

lemma recorded_ready: "idle f \<Longrightarrow> ready (log_event StopRecorded f)"
  by (simp add: run_predicates)

lemma triple_record: "triple idle (record_stop name) ready idle"
proof (rule tripleI)
  fix f e g assume i: "idle f" and r: "record_stop name f = (e, g)"
  obtain e1 h where k: "fallible name f = (e1, h)" by (cases "fallible name f")
  have "idle h" by (rule steadyD [OF steady_predicates(5) neutralD [OF neutral_fallible k] i])
  then show "if e = [] then ready g else idle g"
    using r k recorded_ready [of h] by (auto simp: record_stop_def)
qed

lemma log_keeps:
  assumes "x \<in> {LockKept, SessionRetained}"
  shows "lock_inv f \<Longrightarrow> lock_inv (log_event x f)" "open_run f \<Longrightarrow> open_run (log_event x f)"
    "calm f \<Longrightarrow> calm (log_event x f)" "idle f \<Longrightarrow> idle (log_event x f)" "ready f \<Longrightarrow> ready (log_event x f)"
  using assms by (elim insertE emptyE; simp add: run_predicates)+

lemma triple_mark_kept:
  assumes "steady P" "\<And>f. P f \<Longrightarrow> R f" "\<And>f. P f \<Longrightarrow> P (log_event LockKept f)"
  shows "triple P mark_kept P R"
proof (rule tripleI)
  fix f e g assume i: "P f" and r: "mark_kept f = (e, g)"
  obtain e1 h where k: "fallible ''mark kept'' f = (e1, h)" by (cases "fallible ''mark kept'' f")
  have "P h" by (rule steadyD [OF assms(1) neutralD [OF neutral_fallible k] i])
  then show "if e = [] then P g else R g"
    using r k assms(2,3) by (auto simp: mark_kept_def)
qed

text \<open>The lock is released when the run is ready for it, and only then.\<close>

lemma released_inv: "lock_inv f \<Longrightarrow> release_allowed (fr_trace f) \<Longrightarrow> lock_inv (log_event (ReleaseCalled ok) f)"
  by (simp add: lock_inv_def)

lemma released_ready: "ready f \<Longrightarrow> ready (log_event (ReleaseCalled ok) f)"
  by (simp add: run_predicates release_allowed_def)

lemma release_keeps:
  assumes "lock_inv f" "release_allowed (fr_trace f)"
  shows "lock_inv (snd (release_lock f))"
proof -
  obtain e1 h where k: "fallible ''release'' f = (e1, h)" by (cases "fallible ''release'' f")
  note c = neutralD [OF neutral_fallible k]
  have "lock_inv h" "release_allowed (fr_trace h)"
    using steadyD [OF steady_predicates(1) c assms(1)] core_fields [OF c] assms(2) by simp_all
  then show ?thesis using released_inv by (simp add: release_lock_def k)
qed

lemma triple_release: "triple ready release_lock ready ready"
proof (rule tripleI)
  fix f e g assume i: "ready f" and r: "release_lock f = (e, g)"
  obtain e1 h where k: "fallible ''release'' f = (e1, h)" by (cases "fallible ''release'' f")
  have "ready h" by (rule steadyD [OF steady_predicates(6) neutralD [OF neutral_fallible k] i])
  then show "if e = [] then ready g else ready g"
    using r k released_ready by (auto simp: release_lock_def)
qed

text \<open>A run that no longer releases its lock at the end.\<close>

definition held :: "(fresh_run \<Rightarrow> bool) \<Rightarrow> fresh_run \<Rightarrow> bool" where
  "held P f \<longleftrightarrow> P f \<and> \<not> fr_release f"

lemma steady_held [simp]: "steady P \<Longrightarrow> steady (held P)"
  unfolding steady_def held_def using core_fields(9) by blast

lemma held_keep: "(\<And>f. P f \<Longrightarrow> P (keep_lock_held f)) \<Longrightarrow> P f \<Longrightarrow> held P (keep_lock_held f)"
  by (simp add: held_def keep_lock_held_def)

lemma triple_held:
  assumes "triple P c Q R" "\<And>f. fr_release (snd (c f)) = fr_release f"
  shows "triple (held P) c (held Q) (held R)"
proof (rule tripleI)
  fix f e g assume p: "held P f" and r: "c f = (e, g)"
  then have "fr_release g = fr_release f" using assms(2) [of f] by simp
  moreover have "if e = [] then Q g else R g" using tripleD [OF assms(1) _ r] p by (simp add: held_def)
  ultimately show "if e = [] then held Q g else held R g" using p by (auto simp: held_def split: if_splits)
qed

lemma release_lock_flag: "fr_release (snd (release_lock f)) = fr_release f"
  using core_fields(9) [OF fallible_core [of "''release''" f]]
  by (simp add: release_lock_def case_prod_unfold)

lemma held_release: "triple (held ready) release_lock (held ready) (held idle)"
  by (rule triple_weaken [OF triple_held [OF triple_release release_lock_flag]])
    (simp_all add: held_def predicates_imp(5))

lemma triple_keep: "(\<And>f. P f \<Longrightarrow> P (keep_lock_held f)) \<Longrightarrow> triple P (pure_step keep_lock_held) (held P) R"
  by (rule tripleI) (auto simp: pure_step_def held_def keep_lock_held_def)

lemma triple_complete_cleanup:
  "triple idle complete_cleanup_after_recovery_failure (held idle) (held idle)"
proof (rule tripleI)
  fix f e g assume i: "idle f" and r: "complete_cleanup_after_recovery_failure f = (e, g)"
  let ?s = "steps [record_stop ''checkpoint session-stopped'', clean_workspace, fallible ''checkpoint broker-cleaned'',
                  release_lock]"
  have t: "triple idle ?s ready idle"
    by (rule triple_Cons [OF triple_record], rule triple_Cons [OF triple_neutral [OF neutral_clean_workspace]])
      (simp_all add: predicates_imp triple_Cons [OF triple_neutral [OF neutral_fallible]]
        triple_Cons [OF triple_weaken [OF triple_release] triple_Nil])
  obtain e1 h where s: "?s f = (e1, h)" by (cases "?s f")
  have "idle h" using tripleD [OF t i s] predicates_imp(5) by (auto split: if_splits)
  then have k: "held idle (keep_lock_held h)" by (intro held_keep keep_idle)
  have "held idle g"
  proof (cases "e1 = []")
    case True
    then have "ops [''checkpoint host-lock-released'', ''clean run state''] (keep_lock_held h) = (e, g)"
      using r s by (simp add: complete_cleanup_after_recovery_failure_def)
    then show ?thesis using steadyD [OF steady_held [OF steady_predicates(5)] neutralD [OF neutral_ops] k] by simp
  next
    case False
    then show ?thesis using r s k by (simp add: complete_cleanup_after_recovery_failure_def)
  qed
  then show "if e = [] then held idle g else held idle g" by simp
qed

lemma triple_record_or_complete: "triple idle record_or_complete ready idle"
  unfolding record_or_complete_def
proof (rule triple_on_error)
  show "triple idle (seq_step (record_stop ''record'') mark_kept) ready idle"
    by (rule triple_seq [OF triple_record triple_mark_kept])
      (simp_all add: predicates_imp log_keeps)
  show "triple idle complete_cleanup_after_recovery_failure idle idle" for e :: "string list"
    by (rule triple_weaken [OF triple_complete_cleanup]) (simp_all add: held_def)
qed

lemma triple_preserve: "triple idle preserve_stopped_run_for_cleanup (held ready) (held idle)"
proof (rule tripleI)
  fix f e g assume i: "idle f" and r: "preserve_stopped_run_for_cleanup f = (e, g)"
  obtain e1 h where s: "stop_heartbeat f = (e1, h)" by (cases "stop_heartbeat f")
  obtain e2 k where c: "record_or_complete (h\<lparr>fr_heartbeat := False\<rparr>) = (e2, k)"
    by (cases "record_or_complete (h\<lparr>fr_heartbeat := False\<rparr>)")
  have "core_of (h\<lparr>fr_heartbeat := False\<rparr>) = core_of f" using neutralD [OF neutral_stop_heartbeat s] by simp
  then have "idle (h\<lparr>fr_heartbeat := False\<rparr>)" using steadyD [OF steady_predicates(5) _ i] by blast
  from tripleD [OF triple_record_or_complete this c] have "if e2 = [] then ready k else idle k" .
  moreover have "e = e1 @ e2" "g = keep_lock_held k"
    using r by (simp_all add: preserve_stopped_run_for_cleanup_def join_step_def s c)
  ultimately show "if e = [] then held ready g else held idle g"
    using held_keep [of ready, OF keep_idle(2)] held_keep [of idle, OF keep_idle(1)] predicates_imp(5)
    by (auto split: if_splits)
qed

lemma triple_held_neutral: "neutral c \<Longrightarrow> triple (held ready) c (held ready) (held idle)"
  by (rule triple_neutral) (simp_all add: held_def predicates_imp(5))

lemma triple_finish_stopped: "triple idle finish_stopped_run_cleanup (held ready) (held idle)"
  unfolding finish_stopped_run_cleanup_def
proof (rule triple_Cons [OF triple_preserve], rule triple_all)
  have "triple (held ready) (pure_step keep_lock_held) (held ready) (held idle)"
    by (rule triple_pure) (simp add: held_def keep_idle keep_lock_held_def [of f for f], simp add: run_predicates)
  then show "list_all (\<lambda>c. triple (held ready) c (held ready) (held idle))
     [clean_workspace, ops [''read record'', ''write record'', ''checkpoint broker-cleaned''], release_lock,
      pure_step keep_lock_held, ops [''write record'', ''checkpoint host-lock-released'', ''clean run state'']]"
    by (simp add: triple_held_neutral neutral_intro held_release)
qed

lemma triple_open_host: "triple open_run (host_operation name) open_run open_run"
proof (rule tripleI)
  fix f e g assume a: "open_run f" "host_operation name f = (e, g)"
  obtain t ok h where n: "next_answer f = (t, ok, h)" by (rule prod_cases3)
  have c: "open_run h" by (rule next_answer_step [OF steady_predicates(2) n a(1)])
  have s: "open_run (h\<lparr>fr_canceled := True\<rparr>)" by (rule steadyD [OF steady_predicates(2) _ c]) simp
  have g: "g = (if \<not> fr_cancelable f \<or> t = InTime then h else if t = AfterCancel then h\<lparr>fr_canceled := True\<rparr>
      else log_event LeftRunning (h\<lparr>fr_canceled := True, fr_unsettled := True\<rparr>))"
    using arg_cong [OF a(2), of snd] by (simp only: host_operation_def n prod.case if_distrib [of snd] snd_conv)
  have "open_run g"
    using c s left_running_open(2) [OF c, of True] unfolding g by (simp only: simp_thms split: if_split)
  then show "if e = [] then open_run g else open_run g" by simp
qed

lemma triple_broker_scenario: "triple calm run_broker_scenario calm open_run"
proof (rule tripleI)
  fix f e g assume a: "calm f" "run_broker_scenario f = (e, g)"
  obtain t ok h where n: "next_answer f = (t, ok, h)" by (rule prod_cases3)
  have c: "calm h" by (rule next_answer_step [OF steady_predicates(3) n a(1)])
  let ?h = "h\<lparr>fr_canceled := True, fr_stop_attempted := True\<rparr>"
  have o: "open_run ?h" using c by (simp add: run_predicates)
  show "if e = [] then calm g else open_run g"
  proof (cases "\<not> fr_cancelable f \<or> t = InTime")
    case True
    then have "g = h" using a(2) by (simp add: run_broker_scenario_def n Let_def)
    then show ?thesis using c predicates_imp(1) by simp
  next
    case False
    note r = a(2) [unfolded run_broker_scenario_def n Let_def] False
    show ?thesis
    proof (cases "t = TimedOut")
      case True
      then show ?thesis using r left_running_open(1) [OF o] by auto
    next
      case False
      obtain b k where q: "ask ?h = (b, k)" by (cases "ask ?h")
      have "open_run k" by (rule steadyD [OF steady_predicates(2) ask_core [OF q] o])
      moreover have "fr_stop_attempted k" using core_fields(6) [OF ask_core [OF q]] by simp
      ultimately have "open_run (stopped b k)" using stopped_inv [of k b] by (simp add: open_run_def)
      then show ?thesis using r False q by auto
    qed
  qed
qed

lemma collect_open: "open_run f \<Longrightarrow> open_run (snd (collect_broker_failure_artifacts f))"
proof -
  assume o: "open_run f"
  have h: "triple open_run (\<lambda>f. case host_operation ''collect failure artifacts'' f of (e, g) \<Rightarrow> fallible ''collection event'' g)
      open_run open_run"
  proof (rule tripleI)
    fix f e g assume p: "open_run f"
      and r: "(case host_operation ''collect failure artifacts'' f of (e, g) \<Rightarrow> fallible ''collection event'' g) = (e, g)"
    obtain e1 k where s: "host_operation ''collect failure artifacts'' f = (e1, k)"
      by (cases "host_operation ''collect failure artifacts'' f")
    have "open_run k" using tripleD [OF triple_open_host p s] by (simp split: if_splits)
    moreover have "fallible ''collection event'' k = (e, g)" using r s by simp
    ultimately have "open_run g" using steadyD [OF steady_predicates(2) neutralD [OF neutral_fallible]] by blast
    then show "if e = [] then open_run g else open_run g" by simp
  qed
  show ?thesis
    unfolding collect_broker_failure_artifacts_def
    by (rule triple_end [OF triple_Cons [OF triple_neutral [OF neutral_ops] triple_Cons [OF h triple_Nil]] o]) simp_all
qed

lemma recovered_calm: "open_run f \<Longrightarrow> calm (log_event ScenarioRecovered f)"
  by (simp add: run_predicates)

lemma recover_result:
  assumes "recover_completed_scenario f = (recovered, e, g)" "open_run f"
  shows "open_run g" "recovered \<Longrightarrow> calm g"
proof -
  obtain e1 f1 where s1: "fallible ''result path'' f = (e1, f1)" by (cases "fallible ''result path'' f")
  have o1: "open_run f1" by (rule steadyD [OF steady_predicates(2) neutralD [OF neutral_fallible s1] assms(2)])
  have "open_run g \<and> (recovered \<longrightarrow> calm g)"
  proof (cases "e1 = []")
    case False
    then show ?thesis using assms(1) o1 by (simp add: recover_completed_scenario_def s1)
  next
    case True
    obtain passed f2 where s2: "ask f1 = (passed, f2)" by (cases "ask f1")
    have o2: "open_run f2" by (rule steadyD [OF steady_predicates(2) ask_core [OF s2] o1])
    show ?thesis
    proof (cases passed)
      case False
      then have "g = snd (fallible ''recovery event'' f2)" "\<not> recovered"
        using assms(1) True by (simp_all add: recover_completed_scenario_def s1 s2 case_prod_unfold)
      then show ?thesis using steadyD [OF steady_predicates(2) fallible_core o2] by simp
    next
      case passed: True
      obtain c f3 where s3: "ask f2 = (c, f3)" by (cases "ask f2")
      let ?u = "f3\<lparr>fr_status := ''passed'', fr_skip_artifacts := True, fr_skip_visual := \<not> c\<rparr>"
      have u: "core_of ?u = core_of f3" by (simp add: core_of_def)
      have "open_run ?u" by (rule steadyD [OF steady_predicates(2) u steadyD [OF steady_predicates(2) ask_core [OF s3] o2]])
      then have "calm (log_event ScenarioRecovered ?u)" by (rule recovered_calm)
      moreover have "g = snd (fallible ''recovery event'' (log_event ScenarioRecovered ?u))"
        using assms(1) True passed by (simp add: recover_completed_scenario_def s1 s2 s3 case_prod_unfold)
      ultimately have "calm g" using steadyD [OF steady_predicates(3) fallible_core] by simp
      then show ?thesis using predicates_imp(1) by simp
    qed
  qed
  then show "open_run g" "recovered \<Longrightarrow> calm g" by simp_all
qed

lemma triple_execute: "triple calm execute_run calm open_run"
proof (rule tripleI)
  fix f e g assume c: "calm f" and r: "execute_run f = (e, g)"
  obtain e0 f0 where s0: "renew_host_lock_now f = (e0, f0)" by (cases "renew_host_lock_now f")
  have c0: "calm f0" by (rule steadyD [OF steady_predicates(3) neutralD [OF neutral_heartbeat(2) s0] c])
  show "if e = [] then calm g else open_run g"
  proof (cases "e0 = []")
    case False
    then show ?thesis using r c0 predicates_imp(1) by (auto simp: execute_run_def s0)
  next
    case True
    obtain e1 f1 where s1: "run_broker_scenario f0 = (e1, f1)" by (cases "run_broker_scenario f0")
    note t1 = tripleD [OF triple_broker_scenario c0 s1]
    have o1: "open_run f1" using t1 predicates_imp(1) by (auto split: if_splits)
    obtain e2 f2 where s2: "renew_host_lock_now f1 = (e2, f2)" by (cases "renew_host_lock_now f1")
    note n2 = neutralD [OF neutral_heartbeat(2) s2]
    have o2: "open_run f2" by (rule steadyD [OF steady_predicates(2) n2 o1])
    note r' = r [unfolded execute_run_def s0 prod.case s1 s2] True
    consider (lock) "e2 \<noteq> []" | (passed) "e2 = []" "e1 = []" | (failed) "e2 = []" "e1 \<noteq> []" by blast
    then show ?thesis
    proof cases
      case lock
      then show ?thesis using r' o2 by auto
    next
      case passed
      then have "g = f2" using r' by simp
      then show ?thesis using steadyD [OF steady_predicates(3) n2] t1 passed predicates_imp(1) by simp
    next
      case failed
      obtain e3 f3 where s3: "collect_broker_failure_artifacts f2 = (e3, f3)" by (cases "collect_broker_failure_artifacts f2")
      have o3: "open_run f3" using collect_open [OF o2] s3 by simp
      obtain b e4 f4 where s4: "recover_completed_scenario f3 = (b, e4, f4)" by (rule prod_cases3)
      note q4 = recover_result [OF s4 o3]
      obtain e5 f5 where s5: "write_broker_failure_evidence (f4\<lparr>fr_status := ''failed''\<rparr>) = (e5, f5)"
        by (cases "write_broker_failure_evidence (f4\<lparr>fr_status := ''failed''\<rparr>)")
      have "core_of f5 = core_of f4" using neutralD [OF neutral_broker_evidence s5] by simp
      then have o5: "open_run f5" by (rule steadyD [OF steady_predicates(2) _ q4(1)])
      show ?thesis
        using r' failed o3 q4 o5 predicates_imp(1) by (auto simp: s3 s4 s5 split: if_splits)
    qed
  qed
qed

subsection \<open>Setup\<close>

lemma unstarted_named: "unstarted f \<Longrightarrow> names_session (fr_start f)"
  by (simp add: unstarted_def)

lemma triple_unstarted_neutral: "neutral c \<Longrightarrow> triple unstarted c unstarted unstarted"
  by (rule triple_neutral) simp_all

text \<open>A step that leaves everything but the layer and the acceptance alone.\<close>

lemma triple_unstarted_pure:
  "(\<And>f. (fr_start (h f), fr_trace (h f), fr_started (h f), fr_settled (h f), fr_retained (h f), fr_unsettled (h f))
      = (fr_start f, fr_trace f, fr_started f, fr_settled f, fr_retained f, fr_unsettled f))
   \<Longrightarrow> triple unstarted (pure_step h) unstarted unstarted"
proof (rule triple_pure)
  fix f assume h: "\<And>f. (fr_start (h f), fr_trace (h f), fr_started (h f), fr_settled (h f), fr_retained (h f), fr_unsettled (h f))
      = (fr_start f, fr_trace f, fr_started f, fr_settled f, fr_retained f, fr_unsettled f)" and u: "unstarted f"
  have l: "\<not> live (fr_trace f)" using u by (simp add: unstarted_def not_live)
  show "unstarted (h f)" using u h [of f] l unfolding run_predicates by simp
qed

lemma unstarted_layer: "triple unstarted (set_layer l) unstarted unstarted"
  unfolding set_layer_def by (rule triple_unstarted_pure) simp

lemma unstarted_accept: "triple unstarted accept_run unstarted unstarted"
proof -
  have n: "neutral (\<lambda>f. (claim_run_id (fr_assigned f) (fr_ids f), f))" by (simp add: neutral_def)
  have p: "triple unstarted (pure_step (\<lambda>f. f\<lparr>fr_state_owned := True\<rparr>)) unstarted unstarted"
    "triple unstarted (pure_step (\<lambda>f. f\<lparr>fr_accepted := True\<rparr>)) unstarted unstarted"
    by (rule triple_unstarted_pure, simp)+
  show ?thesis
    unfolding accept_run_def
    by (rule triple_all) (simp add: triple_unstarted_neutral neutral_fallible neutral_ops neutral_when n p)
qed

lemma unstarted_select: "triple unstarted select_host unstarted unstarted"
proof (rule tripleI)
  fix f e g assume u: "unstarted f" and r: "select_host f = (e, g)"
  have l: "\<not> live (fr_trace f)" using u by (simp add: unstarted_def not_live)
  have "unstarted g"
  proof (cases "fr_selection f")
    case HostSelected
    then have "g = log_event LockTaken (f\<lparr>fr_layer := ''remote-check'', fr_release := True, fr_heartbeat := True\<rparr>)"
      using arg_cong [OF r, of snd] by (simp add: select_host_def)
    then show ?thesis using u l unfolding run_predicates by simp
  next
    case (SelectionFailed layer c)
    then have "g = f\<lparr>fr_layer := layer, fr_selection_cleanup := c\<rparr>"
      using arg_cong [OF r, of snd] by (simp add: select_host_def)
    then show ?thesis using u l unfolding run_predicates by simp
  qed
  then show "if e = [] then unstarted g else unstarted g" by simp
qed

definition setup_before :: "run_step list" where
  "setup_before =
     [accept_run, cancellation_error,
      set_layer ''repo-config'', ops [''load config'', ''ledger policy'', ''prune ledger''],
      set_layer ''scenario'',
      ops [''resolve scenario'', ''validate inputs'', ''validate remote paths'', ''configure workspace'',
           ''snapshot runtime inputs'', ''write manifest''],
      set_layer ''host-selection'', select_host,
      set_layer ''run-state'', ops [''run workspace'', ''input environment'', ''write manifest''],
      set_layer ''remote-check'', ops [''session broker'', ''evidence config''], cancellation_error,
      fallible ''probe host'',
      set_layer ''scenario'', ops [''snapshot payload'', ''validate snapshot''],
      set_layer ''remote-check'', fallible ''trusted plugins'', cancellation_error,
      set_layer ''run-state'', ops [''retention record'', ''mark active'', ''started event'']]"

definition setup_after :: "run_step list" where
  "setup_after =
     [start_fresh_session, cancellation_error, renew_host_lock_now, host_operation ''stage payload'', cancellation_error]"

lemma setup_split: "setup_run = steps ((setup_before @ [set_layer []]) @ setup_after)"
  by (simp add: setup_run_def setup_before_def setup_after_def)

lemma unstarted_before: "triple unstarted (steps setup_before) unstarted unstarted"
  unfolding setup_before_def
  by (rule triple_all)
    (simp add: triple_unstarted_neutral neutral_fallible neutral_ops neutral_cancellation unstarted_accept
      unstarted_select unstarted_layer)

text \<open>The session's start.\<close>

lemma started_calm:
  assumes "unstarted f"
  shows "calm ((log_event SessionStarted f)\<lparr>fr_started := True\<rparr>)"
    "calm (keep_lock_held (log_event SessionStarted f))"
  using assms unfolding run_predicates by (simp_all add: keep_lock_held_def)

lemma unfinished_start_open:
  "unstarted f \<Longrightarrow> open_run (log_event LeftRunning (f\<lparr>fr_canceled := True, fr_unsettled := True, fr_release := False\<rparr>))"
  unfolding run_predicates by simp

lemma start_session_result:
  assumes s: "start_session_with_cancellation f = (adapter, identity, err, g)" and u: "unstarted f"
  shows "fr_layer g = fr_layer f"
    "adapter \<Longrightarrow> calm (g\<lparr>fr_started := True\<rparr>)"
    "\<not> adapter \<Longrightarrow> err = [] \<Longrightarrow> calm (keep_lock_held g)"
    "\<not> adapter \<Longrightarrow> err \<noteq> [] \<Longrightarrow> open_run g"
proof -
  let ?a = "fr_start f" and ?c = "f\<lparr>fr_canceled := True\<rparr>"
  have n: "names_session ?a" using u by (rule unstarted_named)
  have c: "unstarted ?c" by (rule steadyD [OF steady_predicates(4) _ u]) simp
  note o = predicates_imp(1) [OF predicates_imp(3)]
  consider (late) "fr_cancelable f" "sa_timing ?a = TimedOut"
    | (canceled) "fr_cancelable f" "sa_timing ?a = AfterCancel"
    | (ended) "\<not> fr_cancelable f \<or> sa_timing ?a = InTime"
    by (cases "sa_timing ?a") auto
  then have "fr_layer g = fr_layer f \<and> (adapter \<longrightarrow> calm (g\<lparr>fr_started := True\<rparr>))
    \<and> (\<not> adapter \<and> err = [] \<longrightarrow> calm (keep_lock_held g)) \<and> (\<not> adapter \<and> err \<noteq> [] \<longrightarrow> open_run g)"
  proof cases
    case late
    then have "\<not> adapter" "err \<noteq> []"
      "g = log_event LeftRunning (f\<lparr>fr_canceled := True, fr_unsettled := True, fr_release := False\<rparr>)"
      using s by (auto simp: start_session_with_cancellation_def Let_def)
    then show ?thesis using unfinished_start_open [OF u] by simp
  next
    case canceled
    then have k: "adapter = sa_adapter ?a"
      "g = (if sa_adapter ?a \<or> \<not> sa_error ?a then log_event SessionStarted ?c else ?c)"
      using s by (simp_all add: start_session_with_cancellation_def Let_def split: if_splits)
    have "err \<noteq> []" using s canceled by (auto simp: start_session_with_cancellation_def Let_def)
    note k = k this
    have "\<not> sa_adapter ?a \<longrightarrow> sa_error ?a" using n canceled(2) by (auto simp: names_session_def)
    then show ?thesis using k started_calm [OF c] o [OF c] by (cases "sa_adapter ?a") simp_all
  next
    case ended
    then have k: "adapter = sa_adapter ?a" "err = (if sa_error ?a then [''start session''] else [])"
      "g = (if sa_adapter ?a \<or> \<not> sa_error ?a then log_event SessionStarted f else f)"
      using s by (auto simp: start_session_with_cancellation_def Let_def)
    then show ?thesis using started_calm [OF u] o [OF u] by (cases "sa_adapter ?a"; cases "sa_error ?a") simp_all
  qed
  then show "fr_layer g = fr_layer f"
    "adapter \<Longrightarrow> calm (g\<lparr>fr_started := True\<rparr>)"
    "\<not> adapter \<Longrightarrow> err = [] \<Longrightarrow> calm (keep_lock_held g)"
    "\<not> adapter \<Longrightarrow> err \<noteq> [] \<Longrightarrow> open_run g"
    by simp_all
qed

definition unnamed :: "(fresh_run \<Rightarrow> bool) \<Rightarrow> fresh_run \<Rightarrow> bool" where
  "unnamed P f \<longleftrightarrow> P f \<and> fr_layer f = []"

lemma steady_unnamed [simp]: "steady P \<Longrightarrow> steady (unnamed P)"
  unfolding steady_def unnamed_def using core_fields(11) by metis

lemma triple_start: "triple (unnamed unstarted) start_fresh_session (unnamed calm) (unnamed open_run)"
proof (rule tripleI)
  fix f e g assume u0: "unnamed unstarted f" and r: "start_fresh_session f = (e, g)"
  have u: "unstarted f" and l: "fr_layer f = []" using u0 by (simp_all add: unnamed_def)
  obtain e1 f1 where s1: "renew_host_lock_now f = (e1, f1)" by (cases "renew_host_lock_now f")
  note c1 = neutralD [OF neutral_heartbeat(2) s1]
  have u1: "unstarted f1" by (rule steadyD [OF steady_predicates(4) c1 u])
  have l1: "fr_layer f1 = []" using core_fields(11) [OF c1] l by simp
  have "\<not> live (fr_trace f1)" using u1 by (simp add: unstarted_def not_live)
  then have u2: "unstarted (f1\<lparr>fr_start_attempted := True\<rparr>)" using u1 unfolding run_predicates by simp
  show "if e = [] then unnamed calm g else unnamed open_run g"
  proof (cases "e1 = []")
    case False
    then have "g = f1" "e \<noteq> []" using r by (simp_all add: start_fresh_session_def s1)
    then show ?thesis using predicates_imp(1) [OF predicates_imp(3) [OF u1]] l1 by (simp add: unnamed_def)
  next
    case True
    obtain adapter identity err f2
      where s2: "start_session_with_cancellation (f1\<lparr>fr_start_attempted := True\<rparr>) = (adapter, identity, err, f2)"
      by (metis prod_cases4)
    note q = start_session_result [OF s2 u2]
    define nameless where "nameless \<longleftrightarrow> err = [] \<and> (\<not> adapter \<or> \<not> identity)"
    define err1 where "err1 = (if nameless then [''session identity''] else err)"
    define f3 where "f3 = (if nameless then keep_lock_held f2 else f2)"
    define h where "h = (if adapter then f3\<lparr>fr_started := True\<rparr> else f3)"
    have h: "open_run h" "err1 = [] \<Longrightarrow> calm h"
    proof -
      have "adapter \<longrightarrow> calm h"
      proof
        assume a: "adapter"
        have "(keep_lock_held f2)\<lparr>fr_started := True\<rparr> = keep_lock_held (f2\<lparr>fr_started := True\<rparr>)"
          by (simp add: keep_lock_held_def)
        then show "calm h" using a q(2) keep_idle(3) by (simp add: h_def f3_def)
      qed
      moreover have "\<not> adapter \<longrightarrow> err1 \<noteq> [] \<and> open_run h"
        using q(3,4) predicates_imp(1) by (auto simp: h_def f3_def err1_def nameless_def)
      ultimately show "open_run h" "err1 = [] \<Longrightarrow> calm h" using predicates_imp(1) by blast+
    qed
    let ?s = "steps [ops [''write manifest'', ''record session'', ''bind lock'', ''bind session''],
                     (\<lambda>f. if err1 = [] then fallible ''verify build'' f else ([], f))]"
    have n: "neutral ?s"
    proof (rule neutral_steps)
      have "neutral (\<lambda>f. if err1 = [] then fallible ''verify build'' f else ([], f))"
        using neutral_fallible [of "''verify build''"] by (simp add: neutral_def)
      then show "list_all neutral [ops [''write manifest'', ''record session'', ''bind lock'', ''bind session''],
          (\<lambda>f. if err1 = [] then fallible ''verify build'' f else ([], f))]"
        by (simp add: neutral_ops)
    qed
    obtain e4 f4 where s4: "(if adapter then ?s (f3\<lparr>fr_started := True\<rparr>) else ([], f3)) = (e4, f4)"
      by (cases "if adapter then ?s (f3\<lparr>fr_started := True\<rparr>) else ([], f3)")
    have c4: "core_of f4 = core_of h"
      using s4 neutralD [OF n] by (cases adapter) (auto simp: h_def)
    have o4: "open_run f4" "err1 = [] \<Longrightarrow> calm f4"
      using steadyD [OF steady_predicates(2) c4 h(1)] steadyD [OF steady_predicates(3) c4 h(2)] by blast+
    have l4: "fr_layer f4 = []" using core_fields(11) [OF c4] q(1) l1 by (simp add: h_def f3_def keep_lock_held_def)
    obtain e5 f5 where s5: "start_failed (err1 @ e4) f4 = (e5, f5)" by (cases "start_failed (err1 @ e4) f4")
    note c5 = neutralD [OF neutral_start_failed s5]
    have o5: "open_run f5" by (rule steadyD [OF steady_predicates(2) c5 o4(1)])
    have l5: "fr_layer f5 = []" using core_fields(11) [OF c5] l4 by simp
    have "(e, g) =
       (if e4 \<noteq> [] \<and> hd e4 \<noteq> ''verify build'' then (err1 @ e4, f4)
        else if err1 @ e4 = [] then ([], f4) else (err1 @ e4 @ e5, f5))"
      using r True unfolding start_fresh_session_def s1 prod.case s2 Let_def
        nameless_def [symmetric] err1_def [symmetric] f3_def [symmetric] s4 s5 by simp
    then show ?thesis using o4 o5 l4 l5 unfolding unnamed_def by (cases "e4 \<noteq> [] \<and> hd e4 \<noteq> ''verify build''"; cases "err1 @ e4 = []") auto
  qed
qed

lemma triple_unnamed_host: "triple (unnamed calm) (host_operation name) (unnamed calm) (unnamed open_run)"
proof (rule tripleI)
  fix f e g assume c: "unnamed calm f" and r: "host_operation name f = (e, g)"
  obtain t ok h where n: "next_answer f = (t, ok, h)" by (rule prod_cases3)
  have "fr_layer g = fr_layer h"
    using arg_cong [OF r, of "\<lambda>x. fr_layer (snd x)"] by (simp add: host_operation_def n split: if_splits)
  then have "fr_layer g = []" using c core_fields(11) [OF next_answer_core [OF n]] by (simp add: unnamed_def)
  then show "if e = [] then unnamed calm g else unnamed open_run g"
    using tripleD [OF triple_host_operation _ r] c by (simp add: unnamed_def split: if_splits)
qed

text \<open>After setup the session runs; a setup that failed has named the layer, or it got to the session.\<close>

lemma triple_setup:
  "triple unstarted setup_run (unnamed calm) (\<lambda>f. unstarted f \<or> unnamed open_run f)"
proof -
  let ?R = "\<lambda>f. unstarted f \<or> unnamed open_run f"
  have n: "triple (unnamed calm) c (unnamed calm) (unnamed open_run)" if "neutral c" for c
    using that by (rule triple_neutral) (simp_all add: unnamed_def predicates_imp(1))
  have l: "triple unstarted (set_layer []) (unnamed unstarted) unstarted"
  proof (rule tripleI)
    fix f e g assume u: "unstarted f" and r: "set_layer [] f = (e, g)"
    have "fr_layer g = []" "e = []" using r by (auto simp: set_layer_def pure_step_def)
    then show "if e = [] then unnamed unstarted g else unstarted g"
      using tripleD [OF unstarted_layer u r] by (simp add: unnamed_def)
  qed
  have "triple unstarted (steps (setup_before @ [set_layer []])) (unnamed unstarted) unstarted"
    by (rule triple_append [OF unstarted_before triple_Cons [OF l triple_Nil]])
  then have a: "triple unstarted (steps (setup_before @ [set_layer []])) (unnamed unstarted) ?R"
    by (rule triple_weaken) simp_all
  have "triple (unnamed unstarted) (steps setup_after) (unnamed calm) (unnamed open_run)"
    unfolding setup_after_def
    by (rule triple_Cons [OF triple_start triple_all])
      (simp add: n neutral_cancellation neutral_heartbeat triple_unnamed_host)
  then have b: "triple (unnamed unstarted) (steps setup_after) (unnamed calm) ?R"
    by (rule triple_weaken) simp_all
  show ?thesis unfolding setup_split by (rule triple_append [OF a b])
qed

subsection \<open>Settlement\<close>

lemma early_failure_inv:
  assumes u: "unstarted f"
  shows "lock_inv (snd (finish_early_failure err f))"
proof -
  obtain he f1 where s1: "stop_heartbeat f = (he, f1)" by (cases "stop_heartbeat f")
  let ?f1 = "f1\<lparr>fr_heartbeat := False\<rparr>"
  have "core_of ?f1 = core_of f" using neutralD [OF neutral_stop_heartbeat s1] by simp
  then have u1: "unstarted ?f1" using steadyD [OF steady_predicates(4) _ u] by blast
  then have i1: "lock_inv ?f1" and a1: "release_allowed (fr_trace ?f1)"
    using not_live [of "fr_trace ?f1"] by (simp_all add: run_predicates release_allowed_def)
  obtain re state f2 where s2: "early_release ?f1 = (re, state, f2)" by (rule prod_cases3)
  have i2: "lock_inv f2"
  proof (cases "fr_release ?f1 \<and> \<not> fr_started ?f1")
    case True
    then have "f2 = keep_lock_held (snd (release_lock ?f1))"
      using s2 by (auto simp: early_release_def Let_def split: prod.splits)
    then show ?thesis using keep_inv [OF release_keeps [OF i1 a1]] by simp
  next
    case False
    then have "early_release ?f1 = ([], if fr_selection_cleanup ?f1 = [] then ''not-needed'' else fr_selection_cleanup ?f1, ?f1)"
      by (simp only: early_release_def Let_def if_False)
    then have "f2 = ?f1" using s2 by simp
    then show ?thesis using i1 by simp
  qed
  define f3 where "f3 = f2\<lparr>fr_status := ''failed'',
                           fr_failure := Some \<lparr>fe_layer = fr_layer f2, fe_capture = ''not-started'', fe_cleanup = state\<rparr>,
                           fr_policy := (if state = ''failed'' then ''unresolved'' else fr_policy f2)\<rparr>"
  have "core_of f3 = core_of f2" by (simp add: f3_def core_of_def)
  then have "lock_inv f3" using steadyD [OF steady_predicates(1) _ i2] by blast
  then have "lock_inv (snd (ops [''failure log'', ''failure event'', ''write manifest'', ''write bundle''] f3))"
    using steadyD [OF steady_predicates(1) neutral_ops [unfolded neutral_def, rule_format]] by blast
  moreover have "snd (finish_early_failure err f) = snd (ops [''failure log'', ''failure event'', ''write manifest'', ''write bundle''] f3)"
    unfolding finish_early_failure_def s1 prod.case s2 Let_def f3_def [symmetric] by (simp add: case_prod_unfold)
  ultimately show ?thesis by simp
qed

lemma kept_inv: "open_run f \<Longrightarrow> lock_inv (session_kept f)"
  by (simp add: run_predicates session_kept_def)

lemma triple_retain: "triple open_run retain_session lock_inv lock_inv"
proof -
  have n: "triple open_run c open_run lock_inv" if "neutral c" for c
    using that by (rule triple_neutral) (simp_all add: predicates_imp(2))
  have "neutral (\<lambda>f. (if fr_can_retain f then [] else [''retain unsupported''], f))" by (simp add: neutral_def)
  note start = n [OF this]
  have kept: "triple open_run (pure_step session_kept) lock_inv lock_inv" by (rule triple_pure) (rule kept_inv)
  have mark: "triple open_run mark_kept open_run lock_inv"
    by (rule triple_mark_kept) (simp_all add: predicates_imp(2) log_keeps)
  have sync: "triple lock_inv sync_evidence_events lock_inv lock_inv"
    by (rule triple_neutral [OF neutral_sync]) simp_all
  show ?thesis
    unfolding retain_session_def
    by (rule triple_Cons [OF start triple_Cons [OF n [OF neutral_stop_heartbeat] triple_Cons [OF mark
          triple_Cons [OF n [OF neutral_ops] triple_Cons [OF kept triple_Cons [OF sync triple_Nil]]]]]])
qed

lemma failed_run_inv:
  assumes o: "open_run f"
  shows "lock_inv (snd (finish_failed_run err f))"
proof -
  obtain le f1 where s1: "host_lock_heartbeat_error f = (le, f1)" by (cases "host_lock_heartbeat_error f")
  have o1: "open_run f1" by (rule steadyD [OF steady_predicates(2) neutralD [OF neutral_heartbeat(1) s1] o])
  let ?status = "\<lambda>f. if fr_status f = [] then f\<lparr>fr_status := ''failed''\<rparr> else f"
  let ?evidence = "\<lambda>f. case ask f of
      (exists, g) \<Rightarrow> if exists then ([], g) else steps [ops [''failure log'', ''failure event''], write_broker_failure_evidence] g"
  let ?s = "steps [pure_step ?status, fallible ''stat bundle'', ?evidence, configure_kept_stop_policy, retain_session]"
  have n: "triple open_run c open_run lock_inv" if "neutral c" for c
    using that by (rule triple_neutral) (simp_all add: predicates_imp(2))
  have e: "neutral (steps [ops [''failure log'', ''failure event''], write_broker_failure_evidence])"
    by (rule neutral_steps) (simp add: neutral_ops neutral_broker_evidence)
  have "neutral (pure_step ?status)" by (rule neutral_pure) simp
  note a = n [OF this]
  have "neutral ?evidence"
  proof (rule neutralI)
    fix k
    obtain x g where q: "ask k = (x, g)" by (cases "ask k")
    show "core_of (snd (?evidence k)) = core_of k"
      using ask_core [OF q] e [unfolded neutral_def] by (simp add: q)
  qed
  note b = n [OF this]
  have "neutral configure_kept_stop_policy" unfolding configure_kept_stop_policy_def by (rule neutral_pure) simp
  note c = n [OF this]
  have t: "triple open_run ?s lock_inv lock_inv"
    by (rule triple_Cons [OF a triple_Cons [OF n [OF neutral_fallible] triple_Cons [OF b triple_Cons [OF c
          triple_Cons [OF triple_retain triple_Nil]]]]])
  have i1: "lock_inv f1" using o1 by (rule predicates_imp(2))
  have "snd (finish_failed_run err f) = f1 \<or> snd (finish_failed_run err f) = snd (?s f1)"
    unfolding finish_failed_run_def s1 prod.case by (simp add: case_prod_unfold)
  then show ?thesis using i1 triple_end [OF t o1] by auto
qed

lemma idle_settled: "calm f \<Longrightarrow> fr_settled f \<Longrightarrow> idle f"
  by (simp add: run_predicates)

lemma triple_settle_stopped: "triple calm settle_stopped open_run lock_inv"
proof -
  have n: "triple calm c calm lock_inv" if "neutral c" for c
    using that by (rule triple_neutral) (simp_all add: predicates_imp)
  have stop: "triple calm (when_step (\<lambda>f. \<not> fr_settled f) stop_session_during_settlement) idle lock_inv"
  proof (rule tripleI)
    fix f e g assume c: "calm f" and r: "when_step (\<lambda>f. \<not> fr_settled f) stop_session_during_settlement f = (e, g)"
    show "if e = [] then idle g else lock_inv g"
    proof (cases "fr_settled f")
      case True
      then show ?thesis using r idle_settled [OF c] by (auto simp: when_step_def)
    next
      case False
      then show ?thesis
        using r tripleD [OF triple_stop c] predicates_imp(2) by (auto simp: when_step_def split: if_splits)
    qed
  qed
  have i: "triple idle c idle lock_inv" if "neutral c" for c
    using that by (rule triple_neutral) (simp_all add: run_predicates)
  have sync: "triple idle sync_evidence_events idle idle"
    by (rule triple_neutral [OF neutral_sync]) simp_all
  have imp: "held ready f \<Longrightarrow> lock_inv f" "held idle f \<Longrightarrow> lock_inv f" "held ready f \<Longrightarrow> open_run f" for f
    by (simp_all add: held_def run_predicates)
  have preserve: "triple idle preserve_stopped_run_for_cleanup lock_inv lock_inv"
    by (rule triple_weaken [OF triple_preserve]) (simp_all add: imp)
  have finish: "triple idle finish_stopped_run_cleanup open_run lock_inv"
    by (rule triple_weaken [OF triple_finish_stopped]) (simp_all add: imp)
  show ?thesis
    unfolding settle_stopped_def
    by (rule triple_Cons [OF n [OF neutral_cancellation] triple_Cons [OF n [OF neutral_heartbeat(2)] triple_Cons [OF stop
          triple_Cons [OF i [OF neutral_cancellation] triple_Cons [OF triple_on_error [OF sync preserve]
          triple_Cons [OF finish triple_Nil]]]]]])
qed

lemma triple_calm_neutral: "neutral c \<Longrightarrow> triple calm c calm lock_inv"
  by (rule triple_neutral) (simp_all add: predicates_imp)

lemma triple_calm_host: "triple calm (host_operation name) calm lock_inv"
  by (rule triple_weaken [OF triple_host_operation]) (simp_all add: predicates_imp(2))

lemma settle_evidence_calm:
  "triple calm settle_artifacts calm lock_inv" "triple calm settle_visual_evidence calm lock_inv"
proof -
  have "neutral (pure_step (\<lambda>f. f\<lparr>fr_capture := ''completed''\<rparr>))" by (rule neutral_pure) simp
  note p = triple_calm_neutral [OF this]
  show "triple calm settle_artifacts calm lock_inv"
    unfolding settle_artifacts_def
    by (rule triple_when [OF triple_all])
      (simp add: triple_calm_neutral neutral_heartbeat neutral_cancellation triple_calm_host)
  show "triple calm settle_visual_evidence calm lock_inv"
    unfolding settle_visual_evidence_def
    by (rule triple_when [OF triple_all])
      (simp add: triple_calm_neutral neutral_heartbeat neutral_cancellation triple_calm_host p)
qed

lemma neutral_judge [neutral_intro]: "neutral judge_result"
proof (rule neutralI)
  fix f
  obtain b g where "ask f = (b, g)" by (cases "ask f")
  then show "core_of (snd (judge_result f)) = core_of f"
    using ask_core [of f b g] by (simp add: judge_result_def)
qed

lemma settle_inv: "calm f \<Longrightarrow> lock_inv (snd (settle_run f))"
proof -
  assume c: "calm f"
  have k: "neutral configure_kept_stop_policy" unfolding configure_kept_stop_policy_def by (rule neutral_pure) simp
  have kept: "triple open_run settle_kept lock_inv lock_inv"
    unfolding settle_kept_def
    by (rule triple_Cons [OF triple_neutral [OF neutral_heartbeat(1)] triple_Cons [OF triple_retain triple_Nil]])
      (simp_all add: predicates_imp(2))
  have stop: "triple calm (when_step (\<lambda>f. fr_policy f = ''stopped'') settle_stopped) open_run lock_inv"
    by (rule tripleI)
      (auto simp: when_step_def predicates_imp(1) dest: tripleD [OF triple_settle_stopped] split: if_split_asm)
  have keep: "triple open_run (when_step (\<lambda>f. fr_policy f = ''kept'') settle_kept) lock_inv lock_inv"
    by (rule tripleI)
      (auto simp: when_step_def predicates_imp(2) dest: tripleD [OF kept] split: if_split_asm)
  have last: "triple calm (steps [when_step (\<lambda>f. fr_policy f = ''stopped'') settle_stopped,
      when_step (\<lambda>f. fr_policy f = ''kept'') settle_kept]) lock_inv lock_inv"
    by (rule triple_Cons [OF stop triple_Cons [OF keep triple_Nil]])
  let ?first = "[cancellation_error, renew_host_lock_now, settle_artifacts, ops [''result path'', ''read result''],
            settle_visual_evidence, ops [''run scoped evidence'', ''write result''],
            fallible ''validate outputs'', judge_result, fallible ''write result'',
            when_step (\<lambda>f. fr_status f \<noteq> ''passed'' \<and> fr_skip_visual f) capture_failure_screenshot,
            when_step (\<lambda>f. \<not> should_stop_after (fr_stop_after f) (fr_status f)) configure_kept_stop_policy,
            ops [''completed event'', ''write bundle'']]"
  have first: "triple calm (steps ?first) calm lock_inv"
    by (rule triple_all)
      (simp add: triple_calm_neutral neutral_heartbeat neutral_cancellation neutral_ops neutral_fallible neutral_judge
        neutral_screenshot neutral_when k settle_evidence_calm)
  have "settle_run = steps (?first @ [when_step (\<lambda>f. fr_policy f = ''stopped'') settle_stopped,
      when_step (\<lambda>f. fr_policy f = ''kept'') settle_kept])"
    by (simp add: settle_run_def)
  then show ?thesis using triple_end [OF triple_append [OF first last] c] by simp
qed

lemma body_inv:
  assumes u: "unstarted f"
  shows "lock_inv (snd (run_body f))"
proof -
  obtain e g where s: "setup_run f = (e, g)" by (cases "setup_run f")
  note t = tripleD [OF triple_setup u s]
  show ?thesis
  proof (cases "e = []")
    case False
    then have g: "unstarted g \<or> unnamed open_run g" using t by simp
    then have o: "open_run g" using predicates_imp(1,3) by (auto simp: unnamed_def)
    show ?thesis
    proof (cases "fr_accepted g \<and> fr_layer g \<noteq> []")
      case True
      then have "unstarted g" using g by (auto simp: unnamed_def)
      then show ?thesis using early_failure_inv False True by (simp add: run_body_def s)
    next
      case nolayer: False
      then have "run_body f = finish_failed_run e g"
        unfolding run_body_def s prod.case using False by (simp only: if_False if_True simp_thms)
      then show ?thesis using failed_run_inv [OF o] by simp
    qed
  next
    case True
    then have c: "calm g" using t by (simp add: unnamed_def)
    have n: "triple calm c calm open_run" if "neutral c" for c
      using that by (rule triple_neutral) (simp_all add: predicates_imp)
    have x: "triple calm (steps [cancellation_error, host_lock_heartbeat_error, execute_run, host_lock_heartbeat_error,
        cancellation_error]) calm open_run"
      by (rule triple_all) (simp add: n neutral_cancellation neutral_heartbeat triple_execute)
    obtain e2 h where s2: "steps [cancellation_error, host_lock_heartbeat_error, execute_run, host_lock_heartbeat_error,
        cancellation_error] g = (e2, h)"
      by (cases "steps [cancellation_error, host_lock_heartbeat_error, execute_run, host_lock_heartbeat_error,
        cancellation_error] g")
    show ?thesis
      using tripleD [OF x c s2] failed_run_inv settle_inv True by (simp add: run_body_def s s2 split: if_splits)
  qed
qed

subsection \<open>The deferred cleanup\<close>

definition run_of :: "cleanup \<Rightarrow> fresh_run" where
  "run_of c = snd (snd c)"

lemma run_of_simp [simp]: "run_of (err, incomplete, f) = f"
  by (simp add: run_of_def)

text \<open>What holds between the parts: after the explanation, after the settled run, after the stop.\<close>

definition explained :: "fresh_run \<Rightarrow> bool" where
  "explained f \<longleftrightarrow> lock_inv f \<and> (fr_unsettled f \<longrightarrow> \<not> fr_release f)"

definition cleaned :: "fresh_run \<Rightarrow> bool" where
  "cleaned f \<longleftrightarrow> explained f \<and> (fr_release f \<and> fr_started f \<longrightarrow> \<not> fr_settled f)"

definition releasable :: "fresh_run \<Rightarrow> bool" where
  "releasable f \<longleftrightarrow> explained f \<and> (fr_release f \<longrightarrow> \<not> fr_started f)"

lemma held_cleaned: "lock_inv f \<Longrightarrow> \<not> fr_release f \<Longrightarrow> releasable f"
  by (simp add: releasable_def explained_def)

lemma releasable_cleaned: "releasable f \<Longrightarrow> cleaned f"
  by (auto simp: releasable_def cleaned_def)

lemma sync_and_clean_held: "idle f \<Longrightarrow> releasable (run_of (sync_and_clean (err, incomplete, f)))"
proof -
  assume i: "idle f"
  obtain se g where s: "sync_evidence_events f = (se, g)" by (cases "sync_evidence_events f")
  have g: "idle g" by (rule steadyD [OF steady_predicates(5) neutralD [OF neutral_sync s] i])
  have imp: "held ready h \<or> held idle h \<Longrightarrow> releasable h" for h
    by (rule held_cleaned) (auto simp: held_def run_predicates)
  obtain pe p where p: "preserve_stopped_run_for_cleanup g = (pe, p)" by (cases "preserve_stopped_run_for_cleanup g")
  obtain ce h where h: "finish_stopped_run_cleanup g = (ce, h)" by (cases "finish_stopped_run_cleanup g")
  have "releasable p" "releasable h"
    using tripleD [OF triple_preserve g p] tripleD [OF triple_finish_stopped g h] imp by (simp_all split: if_splits)
  then show ?thesis by (simp add: sync_and_clean_def s p h)
qed

lemma core_releasable:
  assumes c: "core_of g = core_of f" and r: "releasable f"
  shows "releasable g"
  using r unfolding releasable_def explained_def core_predicates(1) [OF c] core_fields [OF c] .

lemma ensure_keeps:
  assumes "ensure_accepted_failure_evidence f = (e, g)"
  shows "lock_inv g = lock_inv f" "fr_unsettled g = fr_unsettled f" "fr_trace g = fr_trace f"
proof -
  have c: "core_of g = core_of (f\<lparr>fr_layer := ''execution''\<rparr>)" using ensure_core [of f] assms by simp
  show "lock_inv g = lock_inv f" "fr_unsettled g = fr_unsettled f" "fr_trace g = fr_trace f"
    using core_predicates(1) [OF c] core_fields [OF c] by (simp_all add: lock_inv_def)
qed

lemma explain_explained: "lock_inv f \<Longrightarrow> explained (run_of (explain_failure (err, incomplete, f)))"
proof -
  assume i: "lock_inv f"
  obtain e g where s: "(if fr_accepted f \<and> err \<noteq> [] \<and> fr_layer f = [] then ensure_accepted_failure_evidence f else ([], f)) = (e, g)"
    by (cases "if fr_accepted f \<and> err \<noteq> [] \<and> fr_layer f = [] then ensure_accepted_failure_evidence f else ([], f)")
  have g: "lock_inv g"
  proof (cases "fr_accepted f \<and> err \<noteq> [] \<and> fr_layer f = []")
    case True
    then show ?thesis using s ensure_keeps(1) [of f e g] i by simp
  next
    case False
    then have "([], f) = (e, g)" using s by (simp only: if_False)
    then show ?thesis using i by simp
  qed
  have k: "fr_unsettled (keep_lock_held g) = fr_unsettled g" "\<not> fr_release (keep_lock_held g)"
    by (simp_all add: keep_lock_held_def)
  have "run_of (explain_failure (err, incomplete, f)) = (if fr_unsettled g then keep_lock_held g else g)"
    by (simp only: explain_failure_def prod.case s run_of_simp)
  then show ?thesis using g keep_inv [OF g] k by (simp add: explained_def)
qed

lemma stop_unsettled_explained:
  assumes "explained (run_of c)"
  shows "explained (run_of (stop_unsettled c))"
proof -
  obtain err incomplete f where c: "c = (err, incomplete, f)" by (rule prod_cases3)
  obtain e g where s: "stop_session_during_settlement f = (e, g)" by (cases "stop_session_during_settlement f")
  have "lock_inv f" using assms by (simp add: c explained_def)
  note k = stop_facts [OF s this]
  show ?thesis using assms k(1,3) by (simp add: c stop_unsettled_def s explained_def)
qed

lemma clean_settled_cleaned:
  assumes x: "explained (run_of c)"
  shows "cleaned (run_of (clean_settled c))"
proof -
  obtain err incomplete f where c: "c = (err, incomplete, f)" by (rule prod_cases3)
  have i: "lock_inv f" and u: "fr_unsettled f \<longrightarrow> \<not> fr_release f" using x by (simp_all add: c explained_def)
  show ?thesis
  proof (cases "fr_started f \<and> fr_settled f \<and> fr_stop_attempted f \<and> fr_release f \<and> \<not> fr_unsettled f")
    case True
    then have "idle f" using i by (auto simp: idle_def calm_def open_run_def lock_inv_def)
    from releasable_cleaned [OF sync_and_clean_held [OF this]] show ?thesis
      using True by (simp add: c clean_settled_def)
  next
    case False
    then have "clean_settled c = c" unfolding c clean_settled_def prod.case by (simp only: if_False)
    moreover have "fr_release f \<and> fr_started f \<longrightarrow> \<not> fr_settled f"
    proof
      assume a: "fr_release f \<and> fr_started f"
      then have "\<not> fr_retained f" "fr_settled f \<and> \<not> fr_retained f \<longrightarrow> fr_stop_attempted f"
        using i unfolding lock_inv_def by blast+
      then show "\<not> fr_settled f" using False a u by blast
    qed
    ultimately show ?thesis using x by (simp add: c cleaned_def)
  qed
qed

lemma hold_unsettled_cleaned:
  assumes "cleaned (run_of c)"
  shows "cleaned (run_of (hold_unsettled c))"
proof -
  obtain err incomplete f where c: "c = (err, incomplete, f)" by (rule prod_cases3)
  have "lock_inv (keep_lock_held f)" using assms by (intro keep_inv) (simp add: c cleaned_def explained_def)
  then have "cleaned (keep_lock_held f)"
    by (intro releasable_cleaned held_cleaned) (simp_all add: keep_lock_held_def)
  then show ?thesis using assms by (simp add: c hold_unsettled_def)
qed

lemma stop_started_releasable:
  assumes x: "cleaned (run_of c)"
  shows "releasable (run_of (stop_started c))"
proof -
  obtain err incomplete f where c: "c = (err, incomplete, f)" by (rule prod_cases3)
  have i: "lock_inv f" and e: "explained f" using x by (simp_all add: c cleaned_def explained_def)
  show ?thesis
  proof (cases "fr_started f \<and> \<not> fr_settled f \<and> \<not> fr_unsettled f")
    case True
    then have "calm f" using i by (auto simp: calm_def open_run_def lock_inv_def)
    obtain e g where s: "stop_session_during_settlement f = (e, g)" by (cases "stop_session_during_settlement f")
    note t = tripleD [OF triple_stop \<open>calm f\<close> s]
    have r: "run_of (stop_started c) =
        (if e \<noteq> [] then keep_lock_held g else run_of (sync_and_clean (err, incomplete, g)))"
      using True by (simp add: c stop_started_def s)
    show ?thesis
    proof (cases "e = []")
      case True
      then show ?thesis using r t sync_and_clean_held by simp
    next
      case False
      then have "lock_inv (keep_lock_held g)" using t predicates_imp(2) keep_inv by simp
      then show ?thesis using r False held_cleaned by (simp add: keep_lock_held_def)
    qed
  next
    case False
    then have "stop_started c = c" unfolding c stop_started_def prod.case by (simp only: if_False)
    moreover have "fr_release f \<longrightarrow> \<not> fr_started f"
      using x e False unfolding c run_of_simp cleaned_def explained_def by blast
    ultimately show ?thesis using e by (simp add: c releasable_def)
  qed
qed

lemma unaccepted_releasable:
  assumes "releasable (run_of c)"
  shows "releasable (run_of (cleanup_unaccepted c))"
proof -
  obtain err incomplete f where c: "c = (err, incomplete, f)" by (rule prod_cases3)
  obtain e g where s: "join_step (fallible ''clean run state'') (fallible ''remove evidence'') f = (e, g)"
    by (cases "join_step (fallible ''clean run state'') (fallible ''remove evidence'') f")
  have "core_of g = core_of f"
    using arg_cong [OF s, of "\<lambda>x. core_of (snd x)"] by (simp add: join_step_def case_prod_unfold)
  then have "releasable g" by (rule core_releasable) (use assms in \<open>simp add: c\<close>)
  then show ?thesis using assms unfolding c cleanup_unaccepted_def prod.case s
    by (simp only: run_of_simp if_distrib [of run_of]) (simp split: if_split)
qed

lemma releasable_allowed: "releasable f \<Longrightarrow> fr_release f \<Longrightarrow> release_allowed (fr_trace f)"
  by (auto simp: releasable_def explained_def lock_inv_def release_allowed_def)

lemma release_at_end_inv:
  assumes "releasable (run_of c)"
  shows "lock_inv (run_of (release_at_end c))"
proof -
  obtain err incomplete f where c: "c = (err, incomplete, f)" by (rule prod_cases3)
  obtain he g where s: "stop_heartbeat f = (he, g)" by (cases "stop_heartbeat f")
  let ?g = "g\<lparr>fr_heartbeat := False\<rparr>"
  have k: "core_of ?g = core_of f" using neutralD [OF neutral_stop_heartbeat s] by simp
  have r: "releasable ?g" using core_releasable [OF k] assms by (simp add: c)
  then have i: "lock_inv ?g" by (simp add: releasable_def explained_def)
  have "run_of (release_at_end c) = (if fr_release ?g then snd (release_lock ?g) else ?g)"
    unfolding c release_at_end_def prod.case s Let_def by (simp only: case_prod_unfold if_distrib [of run_of] run_of_simp)
  then show ?thesis using release_keeps [OF i releasable_allowed [OF r]] i by simp
qed

lemma settle_failure_trace: "fr_trace (settle_failure b f) = fr_trace f"
  by (simp add: settle_failure_def split: option.split)

lemma fallible_trace: "fr_trace (snd (fallible name f)) = fr_trace f"
  by (rule core_fields(2) [OF fallible_core])

lemma report_trace: "fr_trace (run_of (finalize_ledger (report_failure c))) = fr_trace (run_of c)"
proof -
  obtain err incomplete f where c: "c = (err, incomplete, f)" by (rule prod_cases3)
  have f: "fr_trace (run_of (finalize_ledger d)) = fr_trace (run_of d)" for d
    by (cases d) (simp add: finalize_ledger_def case_prod_unfold fallible_trace)
  obtain e g where s: "(if fr_failure f = None then ensure_accepted_failure_evidence f else ([], f)) = (e, g)"
    by (cases "if fr_failure f = None then ensure_accepted_failure_evidence f else ([], f)")
  have "fr_trace g = fr_trace f"
    using s ensure_keeps(3) [of f e g] by (cases "fr_failure f = None") auto
  moreover have "fr_trace ((settle_failure incomplete g)\<lparr>fr_status := ''failed''\<rparr>) = fr_trace g"
    by (simp add: settle_failure_trace)
  ultimately have "fr_trace (run_of (report_failure c)) = fr_trace f"
    unfolding c report_failure_def prod.case s
    by (simp add: case_prod_unfold fallible_trace)
  then show ?thesis by (simp add: f c)
qed

lemma deferred_safe:
  assumes "lock_inv f"
  shows "safe (fr_trace (snd (run_deferred err f)))"
proof -
  note r = release_at_end_inv [OF unaccepted_releasable [OF stop_started_releasable [OF hold_unsettled_cleaned
        [OF clean_settled_cleaned [OF stop_unsettled_explained [OF explain_explained [OF assms]]]]]]]
  show ?thesis
    using r [of err False, unfolded lock_inv_def] report_trace
    by (simp add: run_deferred_def case_prod_unfold run_of_def)
qed

lemma new_unstarted: "new_fresh_run f \<Longrightarrow> names_session (fr_start f) \<Longrightarrow> unstarted f"
  by (simp add: new_fresh_run_def run_predicates)

lemma safe_release: "safe (later @ ReleaseCalled ok # earlier) \<Longrightarrow> release_allowed earlier"
  by (induction later) auto


subsection \<open>Concrete runs\<close>

definition example_run :: "answer list \<Rightarrow> start_answer \<Rightarrow> fresh_run" where
  "example_run answers start =
     \<lparr>fr_cancelable = True, fr_assigned = False, fr_stop_after = ''always'', fr_can_retain = True, fr_cleans_workspace = True,
      fr_answers = answers, fr_ids = [], fr_selection = HostSelected, fr_start = start, fr_trace = [], fr_accepted = False,
      fr_state_owned = False, fr_layer = [], fr_start_attempted = False, fr_started = False, fr_settled = False,
      fr_stop_attempted = False, fr_canceled = False, fr_unsettled = False, fr_retained = False, fr_release = False,
      fr_heartbeat = False, fr_policy = ''stopped'', fr_status = [], fr_failure = None, fr_selection_cleanup = [],
      fr_capture = ''not-captured'', fr_skip_artifacts = False, fr_skip_visual = False\<rparr>"

definition good_start :: start_answer where
  "good_start = \<lparr>sa_timing = InTime, sa_adapter = True, sa_identity = True, sa_error = False\<rparr>"

definition answers_ok :: "nat \<Rightarrow> answer list" where
  "answers_ok n = replicate n (Answer InTime True)"

definition outcome_of :: "fresh_run \<Rightarrow> string list \<times> lock_event list \<times> string" where
  "outcome_of f = (case run_fresh f of (e, g) \<Rightarrow> (e, fr_trace g, fr_policy g))"

lemma good_run:
  "new_fresh_run (example_run [] good_start)" "names_session (fr_start (example_run [] good_start))"
  "outcome_of (example_run [] good_start) =
     ([], [] @ ReleaseCalled True # [LockKept, StopRecorded, SessionStopped, SessionStarted, LockTaken], ''stopped'')"
  by code_simp+


text \<open>
  A start that was interrupted by a cancellation and reports neither an error nor a session skips the
  check for an owned identity, and the lock is released although a session may be alive.
\<close>

lemma nameless_start_releases:
  "outcome_of (example_run [] \<lparr>sa_timing = AfterCancel, sa_adapter = False, sa_identity = False, sa_error = False\<rparr>) =
     ([''canceled''], [ReleaseCalled True, SessionStarted, LockTaken], ''stopped'')"
  by code_simp

text \<open>
  The cancellation that interrupts the collection of the failure artifacts is only logged: when
  a passing result is found afterwards, the run ends without an error and releases the lock while the collection is
  still running on the host.
\<close>

lemma swallowed_cancellation_releases:
  "outcome_of (example_run (answers_ok 45 @ [Answer InTime False] @ answers_ok 4 @ [Answer TimedOut False]) good_start) =
     ([], [ReleaseCalled True, LockKept, StopRecorded, SessionStopped, ScenarioRecovered, LeftRunning, SessionStarted,
       LockTaken], ''stopped'')"
  by code_simp

text \<open>
  A run that keeps its session and whose staging outlasts a cancellation retains the session and then
  stops it, and is still reported as kept.
\<close>

lemma retained_session_stopped:
  "outcome_of ((example_run (answers_ok 39 @ [Answer TimedOut False]) good_start)\<lparr>fr_stop_after := ''never''\<rparr>) =
     ([''canceled'', ''stage payload''],
      [SessionStopped, SessionRetained, LockKept, LeftRunning, SessionStarted, LockTaken], ''kept'')"
  by code_simp

end
