(* ===== verification/Kept_Stop.thy ===== *)
theory Kept_Stop
  imports Run_Ledger Lock_System Step_Logic
begin

text \<open>
  Stopping a kept run (\<open>run_state.go\<close>, \<open>run_retention.go\<close>, \<open>run_ledger.go\<close>): the run's record, its
  phases (the session is stopped, the broker is clean, the host lock is released), the locks a stop
  checks and gives back, and the recovery of a stop that failed half way.

  A stop works on the run's own files (manifest, record, events and log), the embedded ledger, the mirror
  of the host lock in the repository and the host side of the lock, which is a store of its own (\<open>'s\<close>).  Every
  access that can fail takes the next fault from the state: it works, fails without an effect, or
  has its effect and still reports an error.  An error is the list of what failed.
\<close>

subsection \<open>Records\<close>

record retention_record =
  kr_run :: string
  kr_host :: string
  kr_adapter :: string
  kr_status :: string
  kr_phase :: string
  kr_reason :: string
  kr_authoritative :: bool
  kr_can_stop :: bool
  kr_session :: string
  kr_work_root :: string
  kr_remote_root :: string
  kr_ttl :: string
  kr_deadline :: string
  kr_legacy :: bool

record stop_manifest =
  mf_run :: string
  mf_scenario :: string
  mf_profile :: string
  mf_host :: string
  mf_adapter :: string
  mf_session :: "string option"

datatype manifest_file = NoManifest | BrokenManifest | ManifestFile stop_manifest

datatype record_file = NoRunRecord | BrokenRunRecord | RunRecord retention_record

datatype stop_error =
    StopName name_error
  | StopLedger ledger_error
  | StopLock lock_error
  | StopKept kept_release_error
  | ManifestBroken
  | RunRecordBroken
  | RunRecordMissing
  | BundleMissing
  | AcceptedTime
  | LiveController
  | NoLockOwner
  | UnsupportedBroker string
  | RemoteRoot
  | StaleSession
  | StopIO string

datatype fault = Works | Fails | Partly bool bool

datatype stop_event = SessionSettled | SessionStale | HostSideRelease | MirrorRelease

record 's stop_world =
  kw_manifest :: manifest_file
  kw_record :: record_file
  kw_files :: run_files
  kw_ledger :: ledger
  kw_locks :: lock_fs
  kw_host :: 's
  kw_faults :: "fault list"
  kw_trace :: "stop_event list"

text \<open>
  What a stop is given: the process, the repository, the clock, the lock files of the directory listing,
  the retention policy, the run's evidence bundle, what a link in the place of its events leads to, the operations
  on the host side of the lock, and what the session daemon reports (state, session, whether it has state).
\<close>

record session_report =
  sn_derived :: string
  sn_session :: string
  sn_has_state :: bool

record 's stop_env =
  se_exists :: "int \<Rightarrow> bool"
  se_pid :: int
  se_repo :: string
  se_now :: int
  se_hosts :: "string list"
  se_enc :: "json \<Rightarrow> string"
  se_dec :: "string \<Rightarrow> json option"
  se_available :: "run_ledger_policy option"
  se_bundle :: "evidence_bundle option"
  se_linked :: "string option"
  se_verify_active :: "'s \<Rightarrow> unit lock_outcome \<times> 's"
  se_verify_kept :: "'s \<Rightarrow> unit lock_outcome \<times> 's"
  se_verify_cleanup :: "'s \<Rightarrow> unit lock_outcome \<times> 's"
  se_release :: "'s \<Rightarrow> unit lock_outcome \<times> 's"
  se_fence :: "('s \<Rightarrow> unit lock_outcome \<times> 's) option"
  se_report :: session_report

type_synonym 's stop_step = "('s stop_world, stop_error) step"

subsection \<open>Steps\<close>

definition next_fault :: "'s stop_world \<Rightarrow> fault \<times> 's stop_world" where
  "next_fault w = (case kw_faults w of [] \<Rightarrow> (Works, w) | x # xs \<Rightarrow> (x, w\<lparr>kw_faults := xs\<rparr>))"

definition faulty :: "string \<Rightarrow> 's stop_step \<Rightarrow> 's stop_step" where
  "faulty name c w =
     (case next_fault w of
        (Works, v) \<Rightarrow> c v
      | (Fails, v) \<Rightarrow> ([StopIO name], v)
      | (Partly _ _, v) \<Rightarrow> (case c v of (e, u) \<Rightarrow> (e @ [StopIO name], u)))"

definition stop_log :: "stop_event \<Rightarrow> 's stop_world \<Rightarrow> 's stop_world" where
  "stop_log x w = w\<lparr>kw_trace := x # kw_trace w\<rparr>"

definition errors_of :: "('e \<Rightarrow> stop_error) \<Rightarrow> ('e, unit) result \<Rightarrow> stop_error list" where
  "errors_of f r = (case r of Inl e \<Rightarrow> [f e] | Inr _ \<Rightarrow> [])"

definition on_host :: "('s \<Rightarrow> unit lock_outcome \<times> 's) \<Rightarrow> 's stop_step" where
  "on_host f = faulty ''host lock''
     (\<lambda>w. case f (kw_host w) of (r, s) \<Rightarrow> (errors_of StopLock r, w\<lparr>kw_host := s\<rparr>))"

definition on_ledger :: "(ledger \<Rightarrow> (ledger_error, unit) result \<times> ledger) \<Rightarrow> 's stop_step" where
  "on_ledger f = faulty ''ledger''
     (\<lambda>w. case f (kw_ledger w) of (r, l) \<Rightarrow> (errors_of StopLedger r, w\<lparr>kw_ledger := l\<rparr>))"

subsection \<open>The run's record\<close>

definition default_keep_ttl :: int where
  "default_keep_ttl = seconds (90 * 60)"

definition is_kept_retention_status :: "string \<Rightarrow> bool" where
  "is_kept_retention_status status \<longleftrightarrow> status = ''kept'' \<or> status = ''retained''"

text \<open>\<open>time.Duration.String\<close>\<close>

definition decimal_text :: "nat \<Rightarrow> int \<Rightarrow> string" where
  "decimal_text digits n =
     (let whole = n div 10 ^ digits; part = n mod 10 ^ digits in
      show_int whole @ (if part = 0 then [] else CHR ''.'' # strip_zeros (pad_digits digits part)))"

definition show_duration :: "int \<Rightarrow> string" where
  "show_duration d =
     (let u = \<bar>d\<bar>; secs = u div second_ns; mins = secs div 60; hrs = mins div 60 in
      (if d < 0 then ''-'' else [])
      @ (if u = 0 then ''0s''
         else if u < 1000 then show_int u @ ''ns''
         else if u < 1000000 then decimal_text 3 u @ [CHR 0xC2, CHR 0xB5, CHR ''s'']
         else if u < second_ns then decimal_text 6 u @ ''ms''
         else (if hrs > 0 then show_int hrs @ ''h'' else [])
              @ (if mins > 0 then show_int (mins mod 60) @ ''m'' else [])
              @ decimal_text 9 (u - mins * 60 * second_ns) @ ''s''))"

definition keep_ttl_from_record :: "retention_record \<Rightarrow> int \<Rightarrow> int" where
  "keep_ttl_from_record r fallback =
     (case parse_duration (kr_ttl r) of
        Some ttl \<Rightarrow> if ttl > 0 then ttl else if fallback > 0 then fallback else default_keep_ttl
      | None \<Rightarrow> if fallback > 0 then fallback else default_keep_ttl)"

definition stamp_kept_session_deadline ::
  "int \<Rightarrow> int \<Rightarrow> retention_record \<Rightarrow> retention_record" where
  "stamp_kept_session_deadline now keep_ttl r =
     (let ttl = (if keep_ttl \<le> 0 then default_keep_ttl else keep_ttl) in
      r\<lparr>kr_ttl := show_duration ttl, kr_deadline := format_rfc3339nano (now + ttl)\<rparr>)"

text \<open>\<open>writeRunRetentionRecord\<close>: a kept record never goes to disk without a deadline.\<close>

definition stamped_record :: "int \<Rightarrow> retention_record \<Rightarrow> retention_record" where
  "stamped_record now r =
     (if is_kept_retention_status (kr_status r) \<and> kr_deadline r = []
      then stamp_kept_session_deadline now (keep_ttl_from_record r default_keep_ttl) r else r)"

definition fallback_run_retention_record :: "stop_manifest \<Rightarrow> retention_record" where
  "fallback_run_retention_record m =
     \<lparr>kr_run = mf_run m, kr_host = mf_host m, kr_adapter = mf_adapter m, kr_status = ''kept'', kr_phase = [],
      kr_reason = [], kr_authoritative = False, kr_can_stop = (mf_adapter m = ''fake''), kr_session = [],
      kr_work_root = [], kr_remote_root = [], kr_ttl = [], kr_deadline = [], kr_legacy = True\<rparr>"

definition read_run_retention_record ::
  "stop_manifest \<Rightarrow> record_file \<Rightarrow> (stop_error, retention_record) result" where
  "read_run_retention_record m file =
     (case file of
        NoRunRecord \<Rightarrow> Inr (fallback_run_retention_record m)
      | BrokenRunRecord \<Rightarrow> Inl RunRecordBroken
      | RunRecord r \<Rightarrow>
          Inr (case mf_session m of
                 Some s \<Rightarrow> if kr_session r = [] then r\<lparr>kr_session := s, kr_legacy := False\<rparr> else r\<lparr>kr_legacy := False\<rparr>
               | None \<Rightarrow> r\<lparr>kr_legacy := False\<rparr>))"

definition write_run_retention_record :: "'s stop_env \<Rightarrow> retention_record \<Rightarrow> 's stop_step" where
  "write_run_retention_record env r =
     faulty ''write record'' (\<lambda>w. ([], w\<lparr>kw_record := RunRecord (stamped_record (se_now env) r)\<rparr>))"

text \<open>
  \<open>os.RemoveAll\<close> of the run's state; a half-done one leaves the record or the manifest behind, and the
  events and the log or not.
\<close>

definition without_state_files :: "run_files \<Rightarrow> run_files" where
  "without_state_files files = files\<lparr>rf_state_events := Absent, rf_state_log := Absent\<rparr>"

definition cleanup_run_state :: "'s stop_step" where
  "cleanup_run_state w =
     (case next_fault w of
        (Works, v) \<Rightarrow>
          ([], v\<lparr>kw_manifest := NoManifest, kw_record := NoRunRecord, kw_files := without_state_files (kw_files v)\<rparr>)
      | (Fails, v) \<Rightarrow> ([StopIO ''run state''], v)
      | (Partly record_first files_too, v) \<Rightarrow>
          (let u = (if files_too then v\<lparr>kw_files := without_state_files (kw_files v)\<rparr> else v) in
           ([StopIO ''run state''],
            if record_first then u\<lparr>kw_record := NoRunRecord\<rparr> else u\<lparr>kw_manifest := NoManifest\<rparr>)))"

subsection \<open>The locks of a run\<close>

definition remove_mirror :: "'s stop_env \<Rightarrow> string \<Rightarrow> string \<Rightarrow> 's stop_step" where
  "remove_mirror env host run = faulty ''host lock mirror''
     (\<lambda>w. case remove_repo_host_lock_for_run (se_exists env) (se_pid env) (se_repo env) host run (kw_locks w) of
        (r, fs) \<Rightarrow> (errors_of StopLock r, stop_log MirrorRelease (w\<lparr>kw_locks := fs\<rparr>)))"

definition release_matching :: "'s stop_env \<Rightarrow> string \<Rightarrow> 's stop_step" where
  "release_matching env run = faulty ''host lock mirror''
     (\<lambda>w. case release_matching_kept_host_lock (se_exists env) (se_pid env) (se_repo env) run (se_hosts env) (kw_locks w) of
        (r, fs) \<Rightarrow> (errors_of StopKept r, stop_log MirrorRelease (w\<lparr>kw_locks := fs\<rparr>)))"

definition release_host_side :: "'s stop_env \<Rightarrow> 's stop_step" where
  "release_host_side env w = (case on_host (se_release env) w of (e, v) \<Rightarrow> (e, stop_log HostSideRelease v))"

text \<open>The lock file names the run as active, or as kept; a missing file is an error.\<close>

definition repo_host_lock_uses_active_run ::
  "string \<Rightarrow> string \<Rightarrow> string \<Rightarrow> lock_fs \<Rightarrow> (stop_error, bool) result" where
  "repo_host_lock_uses_active_run repo host run fs =
     (case fs (repo_lock_path repo host) of
        None \<Rightarrow> Inl (StopLock LockMissing)
      | Some (Symlink _) \<Rightarrow> Inl (StopLock (LockSymlink host))
      | Some (File content) \<Rightarrow>
          (let own = parse_host_lock_owner content in
           if own_active own = run then Inr True
           else if own_kept own = run then Inr False
           else Inl NoLockOwner))"

definition require_stale_submitted_run_controller ::
  "(int \<Rightarrow> bool) \<Rightarrow> string \<Rightarrow> string \<Rightarrow> string \<Rightarrow> lock_fs \<Rightarrow> stop_error list" where
  "require_stale_submitted_run_controller process_exists repo host run fs =
     (case fs (repo_lock_path repo host) of
        None \<Rightarrow> [StopLock LockMissing]
      | Some (Symlink _) \<Rightarrow> [StopLock (LockSymlink host)]
      | Some (File content) \<Rightarrow>
          if own_active (parse_host_lock_owner content) \<noteq> run then [NoLockOwner]
          else (case is_stale_host_lock process_exists (repo_lock_path repo host) fs of
                  Inl e \<Rightarrow> [StopLock e]
                | Inr stale \<Rightarrow> if stale then [] else [LiveController]))"

subsection \<open>The broker\<close>

text \<open>\<open>retainedRemoteRunRoot\<close>: the recorded path must be the one the host's work root gives.\<close>

definition retained_remote_run_root :: "retention_record \<Rightarrow> (stop_error, string) result" where
  "retained_remote_run_root r =
     (case validate_run_id (kr_run r) of
        Inl e \<Rightarrow> Inl (StopName e)
      | Inr _ \<Rightarrow>
          (let work_root = trim_space (kr_work_root r);
               expected = remote_join work_root [''runs'', kr_run r];
               recorded = trim_space (kr_remote_root r) in
           if work_root = [] \<or> recorded \<noteq> [] \<and> recorded \<noteq> expected then Inl RemoteRoot else Inr expected))"

text \<open>\<open>StatusRetainedRun\<close>: is the session of the record the one the daemon still runs?\<close>

definition status_retained_run :: "session_report \<Rightarrow> retention_record \<Rightarrow> string" where
  "status_retained_run report r =
     (if kr_session r = [] \<or> sn_session report = [] then ''stale''
      else if \<not> sn_has_state report \<or> sn_derived report = [] \<or> equal_fold (sn_derived report) ''stopped'' then ''stale''
      else if kr_session r \<noteq> sn_session report then ''stale''
      else ''kept'')"

text \<open>
  \<open>StopRetainedRun\<close> of the session daemon's broker.  The stop command is fenced on the host
  side of the lock naming the run as kept.
\<close>

definition stop_sessiond_run :: "'s stop_env \<Rightarrow> retention_record \<Rightarrow> 's stop_step" where
  "stop_sessiond_run env r =
     (case retained_remote_run_root r of
        Inl e \<Rightarrow> (\<lambda>w. ([e], w))
      | Inr run_root \<Rightarrow>
          seq_step (faulty ''session status'' (\<lambda>w. ([], w)))
         (seq_step
            (if status_retained_run (se_report env) r \<noteq> ''kept''
             then (\<lambda>w. if trim_space run_root = [] then ([StaleSession], w) else ([], stop_log SessionStale w))
             else seq_step (case se_fence env of None \<Rightarrow> (\<lambda>w. ([], w)) | Some f \<Rightarrow> on_host f) (faulty ''session stop'' (\<lambda>w. ([], stop_log SessionSettled w))))
            (if trim_space run_root = [] then (\<lambda>w. ([], w)) else faulty ''remote workspace'' (\<lambda>w. ([], w)))))"

definition stop_retained_run :: "'s stop_env \<Rightarrow> retention_record \<Rightarrow> 's stop_step" where
  "stop_retained_run env r =
     (if kr_adapter r = [] \<or> kr_adapter r = ''fake'' then (\<lambda>w. ([], stop_log SessionSettled w))
      else stop_sessiond_run env r)"

text \<open>\<open>retentionBrokerForRecord\<close>; both brokers can stop a session they retained.\<close>

definition supported_adapters :: "string list" where
  "supported_adapters = [[], ''fake'', ''gg-mayasessiond'']"

subsection \<open>The stop\<close>

definition checkpoint_stop_phase :: "'s stop_env \<Rightarrow> string \<Rightarrow> string \<Rightarrow> 's stop_step" where
  "checkpoint_stop_phase env run phase =
     on_ledger (checkpoint_run_ledger_stop_phase
       (case se_bundle env of None \<Rightarrow> Inl run | Some b \<Rightarrow> Inr b) run phase (se_now env))"

text \<open>\<open>finishReleasedStopRun\<close>: the mirror goes, the phase is recorded, the run's state is removed.\<close>

definition finish_released_stop_run :: "'s stop_env \<Rightarrow> string \<Rightarrow> string \<Rightarrow> retention_record \<Rightarrow> 's stop_step" where
  "finish_released_stop_run env host run r =
     seq_step (remove_mirror env host run)
    (seq_step (checkpoint_stop_phase env run ''host-lock-released'')
      (\<lambda>w. case write_run_retention_record env (r\<lparr>kr_phase := ''host-lock-released''\<rparr>) w of
         (te, v) \<Rightarrow> (case cleanup_run_state v of (ce, u) \<Rightarrow> (if ce = [] then [] else te @ ce, u))))"

definition ledger_phase :: "ledger \<Rightarrow> string \<Rightarrow> string" where
  "ledger_phase ledger run = (case read_run_ledger_record ledger run of Inl _ \<Rightarrow> [] | Inr l \<Rightarrow> lr_stop_phase l)"

text \<open>The record's phase, or the one the ledger has reached for it.\<close>

definition adopted_phase :: "ledger \<Rightarrow> string \<Rightarrow> retention_record \<Rightarrow> retention_record" where
  "adopted_phase ledger run r =
     (if kr_phase r = [] \<and> ledger_phase ledger run \<in> set stop_phases
      then r\<lparr>kr_phase := ledger_phase ledger run\<rparr> else r)"

definition cleanup_failed_running :: "ledger \<Rightarrow> string \<Rightarrow> retention_record \<Rightarrow> bool" where
  "cleanup_failed_running ledger run r \<longleftrightarrow>
     (case read_run_ledger_record ledger run of
        Inl _ \<Rightarrow> False
      | Inr l \<Rightarrow> lr_state l = ''cleanup-failed'' \<and> kr_status r = ''running'' \<and> kr_phase r = [])"

text \<open>A run whose controller died still names itself as active: whether it is one, or an error.\<close>

definition active_cleanup_recovery ::
  "'s stop_env \<Rightarrow> string \<Rightarrow> string \<Rightarrow> bool \<Rightarrow> lock_fs \<Rightarrow> (stop_error list, bool) result" where
  "active_cleanup_recovery env host run failed_running fs =
     (if \<not> failed_running then Inr False
      else (case repo_host_lock_uses_active_run (se_repo env) host run fs of
              Inl e \<Rightarrow> Inl [e]
            | Inr False \<Rightarrow> Inr False
            | Inr True \<Rightarrow>
                (let e = require_stale_submitted_run_controller (se_exists env) (se_repo env) host run fs in
                 if e = [] then Inr True else Inl e)))"

definition check_mirror :: "'s stop_env \<Rightarrow> string \<Rightarrow> string \<Rightarrow> bool \<Rightarrow> retention_record \<Rightarrow> lock_fs \<Rightarrow> stop_error list" where
  "check_mirror env host run failed_running r fs =
     errors_of StopLock
       (if failed_running \<or> kr_phase r \<in> {''session-stopped'', ''broker-cleaned''}
        then ensure_run_has_cleanup_pending_lock (se_repo env) host run
               (kr_authoritative r \<or> kr_phase r = ''broker-cleaned'') fs
        else ensure_run_has_kept_lock (se_repo env) host run (kr_authoritative r) fs)"

definition check_host_side :: "'s stop_env \<Rightarrow> bool \<Rightarrow> retention_record \<Rightarrow> 's stop_step" where
  "check_host_side env recovering r =
     (if kr_authoritative r \<and> kr_phase r = []
      then on_host (if recovering then se_verify_cleanup env else se_verify_kept env)
      else (\<lambda>w. ([], w)))"

definition is_ownership_changed :: "stop_error \<Rightarrow> bool" where
  "is_ownership_changed e = (case e of StopLock (OwnershipChanged _) \<Rightarrow> True | _ \<Rightarrow> False)"

text \<open>The stop from the broker on.  A lock somebody else took over in the meantime is left alone.\<close>

definition broker_phase :: "'s stop_env \<Rightarrow> string \<Rightarrow> string \<Rightarrow> retention_record \<Rightarrow> ('s stop_world \<Rightarrow> 's stop_world) \<Rightarrow> 's stop_step" where
  "broker_phase env host run r after =
     seq_step (check_step (\<lambda>w. if kr_adapter r \<in> set supported_adapters then [] else [UnsupportedBroker (kr_adapter r)]))
    (seq_step (if kr_phase r = [] \<or> kr_phase r = ''session-stopped'' then stop_retained_run env r else (\<lambda>w. ([], w)))
    (seq_step (checkpoint_stop_phase env run ''broker-cleaned'')
      (\<lambda>w. case write_run_retention_record env (r\<lparr>kr_phase := ''broker-cleaned''\<rparr>) w of
         (te, v) \<Rightarrow>
           (case (if kr_authoritative r then release_host_side env (after v) else ([], after v)) of
              (he, u) \<Rightarrow>
                if he \<noteq> [] \<and> \<not> list_ex is_ownership_changed he then (te @ he, u)
                else (case finish_released_stop_run env host run (r\<lparr>kr_phase := ''broker-cleaned''\<rparr>) u of
                        (fe, x) \<Rightarrow> (if fe = [] then [] else te @ fe, x))))))"

text \<open>A run without a record of its own: only its mirror and its files can go, and only when the ledger forgot it.\<close>

definition stop_unrecorded_run :: "'s stop_env \<Rightarrow> string \<Rightarrow> string \<Rightarrow> 's stop_step" where
  "stop_unrecorded_run env host run w =
     (case read_run_ledger_record (kw_ledger w) run of
        Inr _ \<Rightarrow> ([RunRecordMissing], w)
      | Inl (RunNotFound _) \<Rightarrow> seq_step (remove_mirror env host run) cleanup_run_state w
      | Inl e \<Rightarrow> ([StopLedger e], w))"

definition stop_recorded_run ::
  "'s stop_env \<Rightarrow> stop_manifest \<Rightarrow> string \<Rightarrow> ('s stop_world \<Rightarrow> 's stop_world) \<Rightarrow> retention_record \<Rightarrow> 's stop_step" where
  "stop_recorded_run env m run after r w =
     (let host = mf_host m; r1 = adopted_phase (kw_ledger w) run r;
          failed_running = cleanup_failed_running (kw_ledger w) run r1 in
      if kr_phase r1 = ''host-lock-released'' then finish_released_stop_run env host run r1 w
      else (case active_cleanup_recovery env host run failed_running (kw_locks w) of
              Inl e \<Rightarrow> (e, w)
            | Inr recovering \<Rightarrow>
                seq_step (check_step (\<lambda>w. check_mirror env host run failed_running r1 (kw_locks w)))
               (seq_step (check_host_side env recovering r1)
                 (if kr_legacy r1 \<and> mf_adapter m \<noteq> ''fake'' then stop_unrecorded_run env host run
                  else broker_phase env host run r1 after)) w))"

definition stop_kept_run_after_broker_stop ::
  "'s stop_env \<Rightarrow> string \<Rightarrow> ('s stop_world \<Rightarrow> 's stop_world) \<Rightarrow> 's stop_step" where
  "stop_kept_run_after_broker_stop env run after w =
     (case validate_run_id run of
        Inl e \<Rightarrow> ([StopName e], w)
      | Inr _ \<Rightarrow>
          (case kw_manifest w of
             BrokenManifest \<Rightarrow> ([ManifestBroken], w)
           | NoManifest \<Rightarrow>
               if ledger_phase (kw_ledger w) run = ''host-lock-released'' then cleanup_run_state w
               else release_matching env run w
           | ManifestFile m \<Rightarrow>
               (case validate_host_id (mf_host m) of
                  Inl e \<Rightarrow> ([StopName e], w)
                | Inr _ \<Rightarrow>
                    (case read_run_retention_record m (kw_record w) of
                       Inl e \<Rightarrow> ([e], w)
                     | Inr r \<Rightarrow> stop_recorded_run env m run after r w))))"

definition stop_kept_run :: "'s stop_env \<Rightarrow> string \<Rightarrow> 's stop_step" where
  "stop_kept_run env run = stop_kept_run_after_broker_stop env run (\<lambda>w. w)"

subsection \<open>Preparing and settling the ledger\<close>

text \<open>\<open>acceptedAtFromRunID\<close>: the identifier starts with the time it was accepted at.\<close>

definition accepted_at_from_run_id :: "string \<Rightarrow> int option" where
  "accepted_at_from_run_id run =
     (let s = takeWhile (\<lambda>c. c \<noteq> CHR ''-'') run in
      if length s = 26 \<and> s ! 8 = CHR ''T'' \<and> s ! 15 = CHR ''.'' \<and> s ! 25 = CHR ''Z''
         \<and> list_all (\<lambda>i. is_digit (s ! i)) ([0..<8] @ [9..<15] @ [16..<25])
      then parse_rfc3339nano (take 4 s @ ''-'' @ take 2 (drop 4 s) @ ''-'' @ take 2 (drop 6 s) @ ''T''
             @ take 2 (drop 9 s) @ '':'' @ take 2 (drop 11 s) @ '':'' @ take 2 (drop 13 s) @ drop 15 s)
      else None)"

text \<open>\<open>copySequencedEvents\<close> (\<open>run.go\<close>): the events of the run, numbered and completed.\<close>

fun sequenced_events ::
  "(json \<Rightarrow> string) \<Rightarrow> (string \<Rightarrow> json option) \<Rightarrow> string \<Rightarrow> int \<Rightarrow> string list \<Rightarrow> (event_error, string) result" where
  "sequenced_events enc dec fallback n [] = Inr []"
| "sequenced_events enc dec fallback n (line # ls) =
     (if trim_space line = [] then sequenced_events enc dec fallback n ls
      else (case dec line of
              Some (JObj e) \<Rightarrow>
                rbind (sequenced_events enc dec fallback (n + 1) ls) (\<lambda>rest.
                  Inr (enc (JObj (normalize_run_ledger_event e (n + 1) fallback)) @ newline # rest))
            | Some JNull \<Rightarrow> Inl NilEvent
            | _ \<Rightarrow> Inl BadEvent))"

definition copy_sequenced_events ::
  "(json \<Rightarrow> string) \<Rightarrow> (string \<Rightarrow> json option) \<Rightarrow> string \<Rightarrow> string \<Rightarrow> (event_error, string) result" where
  "copy_sequenced_events enc dec fallback content = sequenced_events enc dec fallback 0 (split_on newline (trim_space content))"

text \<open>\<open>initializeRunLedger\<close>: a new directory, with the events the run has so far and an empty log.\<close>

definition initialize_run_ledger ::
  "(json \<Rightarrow> string) \<Rightarrow> (string \<Rightarrow> json option) \<Rightarrow> string option \<Rightarrow> stop_manifest \<Rightarrow> int
     \<Rightarrow> ledger \<Rightarrow> (ledger_error, unit) result \<times> ledger" where
  "initialize_run_ledger enc dec source m accepted ledger =
     (let stamp = format_rfc3339nano accepted in
      case (case source of
              None \<Rightarrow> Inl (LedgerIO (mf_run m))
            | Some events \<Rightarrow>
                rbind (under EventsError (copy_sequenced_events enc dec stamp events)) (\<lambda>content.
                rbind (under EventsError (last_run_ledger_event_sequence enc dec content)) (\<lambda>n. Inr (content, n)))) of
        Inl e \<Rightarrow> (Inl e, ledger)
      | Inr (content, n) \<Rightarrow>
          if map_of ledger (mf_run m) \<noteq> None then (Inl (LedgerIO (mf_run m)), ledger)
          else
           (let r = \<lparr>lr_version = run_ledger_schema_version, lr_run = mf_run m, lr_scenario = mf_scenario m,
                     lr_profile = mf_profile m, lr_host = mf_host m, lr_state = ''submitted'', lr_status = [],
                     lr_accepted = stamp, lr_updated = stamp, lr_completed = [], lr_evidence = evidence_dir (mf_run m),
                     lr_events = ''events.jsonl'', lr_log = ''logs/session.log'', lr_event_count = n,
                     lr_event_bytes = int (length content), lr_events_omitted = 0, lr_events_truncated = False,
                     lr_log_bytes = 0, lr_log_truncated = False, lr_stop_phase = []\<rparr>
            in (Inr (), update_dir ledger (mf_run m)
                 \<lparr>ld_record = StoredRecord r, ld_events = Regular content, ld_log = Regular []\<rparr>)))"

definition state_events_source :: "'s stop_env \<Rightarrow> 's stop_world \<Rightarrow> string option" where
  "state_events_source env w =
     (case rf_state_events (kw_files w) of Regular c \<Rightarrow> Some c | Absent \<Rightarrow> None | Irregular \<Rightarrow> se_linked env)"

definition initialize_ledger :: "'s stop_env \<Rightarrow> stop_manifest \<Rightarrow> int \<Rightarrow> 's stop_step" where
  "initialize_ledger env m accepted w =
     on_ledger (initialize_run_ledger (se_enc env) (se_dec env) (state_events_source env w) m accepted) w"

text \<open>\<open>cleanupRunLedgerRecord\<close>: the run's directory goes; anything else in its place is an error.\<close>

definition cleanup_run_ledger_record :: "string \<Rightarrow> ledger \<Rightarrow> (ledger_error, unit) result \<times> ledger" where
  "cleanup_run_ledger_record run ledger =
     (case map_of ledger run of
        None \<Rightarrow> (Inr (), ledger)
      | Some OtherEntry \<Rightarrow> (Inl (NotDirectory run), ledger)
      | Some (LedgerDir d) \<Rightarrow> (Inr (), AList.delete run ledger))"

definition refresh_ledger :: "'s stop_env \<Rightarrow> string \<Rightarrow> 's stop_step" where
  "refresh_ledger env run w =
     on_ledger (refresh_run_ledger_artifacts (se_enc env) (se_dec env) (se_available env) (kw_files w) run (se_now env)) w"

text \<open>
  \<open>reconcileSubmittedRunLedgerForStop\<close>: a run whose controller died before it settled the ledger.  Its record
  tells what became of it.
\<close>

definition reconciled_record :: "'s stop_env \<Rightarrow> stop_manifest \<Rightarrow> retention_record \<Rightarrow> run_ledger_record \<Rightarrow> run_ledger_record" where
  "reconciled_record env m r l =
     l\<lparr>lr_scenario := mf_scenario m, lr_profile := mf_profile m, lr_host := mf_host m,
       lr_state := (if kr_status r = ''running'' \<or> kr_phase r \<noteq> [] then ''cleanup-failed'' else ''kept''),
       lr_status := (case se_bundle env of Some b \<Rightarrow> eb_status b | None \<Rightarrow> ''failed''),
       lr_stop_phase := kr_phase r, lr_updated := format_rfc3339nano (se_now env)\<rparr>"

definition reconcile_errors :: "'s stop_env \<Rightarrow> string \<Rightarrow> stop_manifest \<Rightarrow> retention_record \<Rightarrow> lock_fs \<Rightarrow> stop_error list" where
  "reconcile_errors env run m r fs =
     (if se_bundle env = None \<and> kr_status r \<noteq> ''running'' then [BundleMissing]
      else if kr_status r = ''running'' \<and> kr_phase r = []
      then (case repo_host_lock_uses_active_run (se_repo env) (mf_host m) run fs of
              Inl e \<Rightarrow> [e]
            | Inr active \<Rightarrow>
                if active then require_stale_submitted_run_controller (se_exists env) (se_repo env) (mf_host m) run fs
                else [])
      else [])"

definition reconcile_submitted_run_ledger_for_stop :: "'s stop_env \<Rightarrow> string \<Rightarrow> 's stop_step" where
  "reconcile_submitted_run_ledger_for_stop env run w =
     (case read_run_ledger_record (kw_ledger w) run of
        Inl e \<Rightarrow> ([StopLedger e], w)
      | Inr l \<Rightarrow>
          if lr_state l \<noteq> ''submitted'' then refresh_ledger env run w
          else (case kw_manifest w of
                  NoManifest \<Rightarrow> ([StopLedger (RunNotFound run)], w)
                | BrokenManifest \<Rightarrow> ([ManifestBroken], w)
                | ManifestFile m \<Rightarrow>
                    (case read_run_retention_record m (kw_record w) of
                       Inl e \<Rightarrow> ([e], w)
                     | Inr r \<Rightarrow>
                         seq_step (check_step (\<lambda>w. reconcile_errors env run m r (kw_locks w)))
                        (seq_step (on_ledger (\<lambda>ledger. (Inr (), write_run_ledger_record ledger (reconciled_record env m r l))))
                          (refresh_ledger env run)) w)))"

definition is_not_exist :: "stop_error \<Rightarrow> bool" where
  "is_not_exist e \<longleftrightarrow> e = BundleMissing \<or> e = StopLock LockMissing"

text \<open>A ledger that is missing or broken is made again from the run's own files.\<close>

definition reconstruct_run_ledger :: "'s stop_env \<Rightarrow> string \<Rightarrow> ledger_error \<Rightarrow> stop_manifest \<Rightarrow> 's stop_step" where
  "reconstruct_run_ledger env run e m =
     (case accepted_at_from_run_id run of
        None \<Rightarrow> (\<lambda>w. ([AcceptedTime], w))
      | Some accepted \<Rightarrow>
          seq_step (if (case e of RunNotFound _ \<Rightarrow> True | LedgerName _ \<Rightarrow> True | _ \<Rightarrow> False) then (\<lambda>w. ([], w))
                    else on_ledger (cleanup_run_ledger_record run))
         (seq_step (initialize_ledger env m accepted)
           (\<lambda>w. case reconcile_submitted_run_ledger_for_stop env run w of
              (re, v) \<Rightarrow>
                if re = [] then ([], v)
                else if list_ex is_not_exist re then on_ledger (cleanup_run_ledger_record run) v
                else (re, v))))"

definition prepare_run_ledger_for_stop :: "'s stop_env \<Rightarrow> string \<Rightarrow> 's stop_step" where
  "prepare_run_ledger_for_stop env run w =
     (case read_run_ledger_record (kw_ledger w) run of
        Inr l \<Rightarrow>
          if lr_state l = ''submitted'' then reconcile_submitted_run_ledger_for_stop env run w
          else refresh_ledger env run w
      | Inl e \<Rightarrow>
          (let corrupt = (case e of RunNotFound _ \<Rightarrow> False | LedgerName _ \<Rightarrow> False | _ \<Rightarrow> True) in
           case validate_run_id run of
             Inl n \<Rightarrow> ([StopName n], w)
           | Inr _ \<Rightarrow>
               (case kw_manifest w of
                  BrokenManifest \<Rightarrow> ([ManifestBroken], w)
                | NoManifest \<Rightarrow> (if corrupt then [StopLedger e] else [], w)
                | ManifestFile m \<Rightarrow>
                    (case read_run_retention_record m (kw_record w) of
                       Inl re \<Rightarrow> ([re], w)
                     | Inr r \<Rightarrow>
                         if kr_legacy r \<and> mf_adapter m \<noteq> ''fake''
                         then (if corrupt then [StopLedger e] else [], w)
                         else reconstruct_run_ledger env run e m w))))"

definition settle_ledger_after_stop :: "'s stop_env \<Rightarrow> string \<Rightarrow> bool \<Rightarrow> 's stop_step" where
  "settle_ledger_after_stop env run stop_failed w =
     on_ledger (update_run_ledger_after_stop (se_enc env) (se_dec env) (se_available env) (kw_files w) run stop_failed
       (se_now env)) w"

text \<open>\<open>stopRun\<close>\<close>

definition stop_run :: "'s stop_env \<Rightarrow> string \<Rightarrow> 's stop_step" where
  "stop_run env run w =
     (case prepare_run_ledger_for_stop env run w of
        (pe, v) \<Rightarrow>
          if pe \<noteq> [] then (pe, v)
          else (case stop_kept_run env run v of
                  (se, u) \<Rightarrow> (case settle_ledger_after_stop env run (se \<noteq> []) u of (le, x) \<Rightarrow> (se @ le, x))))"

end
