(* ===== verification/Kept_Release.thy ===== *)
theory Kept_Release
  imports Kept_Stop
begin

text \<open>
  The order in which a stopped run gives things back: whatever fails, however often the run is stopped and
  whatever others do to the lock files in between, its host lock goes only after its session was stopped or
  found gone.
\<close>

subsection \<open>Nothing is released before the session is settled\<close>

definition settled_in :: "stop_event list \<Rightarrow> bool" where
  "settled_in t \<longleftrightarrow> SessionSettled \<in> set t \<or> SessionStale \<in> set t"

text \<open>Read from the newest event on: a release comes after the session was settled.\<close>

fun ordered_trace :: "stop_event list \<Rightarrow> bool" where
  "ordered_trace [] = True"
| "ordered_trace (x # t) =
     ((x = HostSideRelease \<or> x = MirrorRelease \<longrightarrow> settled_in t) \<and> ordered_trace t)"

lemma settled_append: "settled_in t \<Longrightarrow> settled_in (u @ t)"
  by (auto simp: settled_in_def)

lemma ordered_append: "ordered_trace t \<Longrightarrow> settled_in t \<Longrightarrow> ordered_trace (u @ t)"
  by (induction u) (simp_all add: settled_append)

lemma next_fault_world:
  assumes "next_fault w = (x, v)"
  obtains fs where "v = w\<lparr>kw_faults := fs\<rparr>"
proof (cases "kw_faults w")
  case Nil
  then have "v = w\<lparr>kw_faults := kw_faults w\<rparr>" using assms by (simp add: next_fault_def)
  then show ?thesis by (rule that)
next
  case (Cons y ys)
  then have "v = w\<lparr>kw_faults := ys\<rparr>" using assms by (simp add: next_fault_def)
  then show ?thesis by (rule that)
qed

text \<open>A faulty step had its effect, or none; in the second case, and in some of the first, it fails.\<close>

lemma faulty_cases:
  assumes "faulty name c w = (e, u)"
  obtains (silent) fs where "u = w\<lparr>kw_faults := fs\<rparr>" "e \<noteq> []"
  | (ran) fs e1 where "c (w\<lparr>kw_faults := fs\<rparr>) = (e1, u)" "e = e1 \<or> e = e1 @ [StopIO name]"
proof -
  obtain x v where n: "next_fault w = (x, v)" by (cases "next_fault w")
  obtain fs where v: "v = w\<lparr>kw_faults := fs\<rparr>" by (rule next_fault_world [OF n])
  show ?thesis
  proof (cases x)
    case Works
    then have "c v = (e, u)" using assms by (simp add: faulty_def n)
    then show ?thesis using ran [of fs e] v by simp
  next
    case Fails
    then have "u = w\<lparr>kw_faults := fs\<rparr>" "e \<noteq> []" using assms v by (auto simp: faulty_def n)
    then show ?thesis by (rule silent)
  next
    case (Partly b d)
    obtain e1 u1 where c: "c v = (e1, u1)" by (cases "c v")
    then have "e = e1 @ [StopIO name]" "u = u1" using assms by (simp_all add: faulty_def n Partly)
    then show ?thesis using ran [of fs e1] c v by simp
  qed
qed

text \<open>A predicate that does not look at the faults to come.\<close>

definition blind :: "('s stop_world \<Rightarrow> bool) \<Rightarrow> bool" where
  "blind P \<longleftrightarrow> (\<forall>w fs. P (w\<lparr>kw_faults := fs\<rparr>) = P w)"

lemma blindI: "(\<And>w fs. P (w\<lparr>kw_faults := fs\<rparr>) = P w) \<Longrightarrow> blind P"
  by (simp add: blind_def)

lemma blindD: "blind P \<Longrightarrow> P (w\<lparr>kw_faults := fs\<rparr>) = P w"
  by (simp add: blind_def)

lemma triple_faulty:
  assumes "triple P c Q R" "blind P" "\<And>w. P w \<Longrightarrow> R w" "\<And>w. Q w \<Longrightarrow> R w"
  shows "triple P (faulty name c) Q R"
proof (rule tripleI)
  fix w e u assume p: "P w" and r: "faulty name c w = (e, u)"
  from r show "if e = [] then Q u else R u"
  proof (cases rule: faulty_cases)
    case (silent fs)
    then show ?thesis using blindD [OF assms(2)] p assms(3) by simp
  next
    case (ran fs e1)
    have "P (w\<lparr>kw_faults := fs\<rparr>)" using p blindD [OF assms(2)] by simp
    from tripleD [OF assms(1) this ran(1)] show ?thesis using ran(2) assms(4) by (auto split: if_splits)
  qed
qed

text \<open>Once the session is settled, whatever happens afterwards keeps the order.\<close>

definition released_in_order :: "'s stop_world \<Rightarrow> bool" where
  "released_in_order w \<longleftrightarrow> settled_in (kw_trace w) \<and> ordered_trace (kw_trace w)"

lemma order_trace_only:
  "kw_trace v = u @ kw_trace w \<Longrightarrow> released_in_order w \<Longrightarrow> released_in_order v"
  by (simp add: released_in_order_def ordered_append settled_append)

lemma order_updates [simp]:
  "released_in_order (w\<lparr>kw_faults := fs\<rparr>) = released_in_order w" "released_in_order (w\<lparr>kw_manifest := mf\<rparr>) = released_in_order w"
  "released_in_order (w\<lparr>kw_record := rf\<rparr>) = released_in_order w" "released_in_order (w\<lparr>kw_files := fl\<rparr>) = released_in_order w" "released_in_order (w\<lparr>kw_ledger := l\<rparr>) = released_in_order w"
  "released_in_order (w\<lparr>kw_locks := fs'\<rparr>) = released_in_order w" "released_in_order (w\<lparr>kw_host := h\<rparr>) = released_in_order w"
  by (simp_all add: released_in_order_def)

lemma order_log [simp]: "released_in_order w \<Longrightarrow> released_in_order (stop_log x w)"
  by (rule order_trace_only [of _ "[x]" w]) (simp_all add: stop_log_def)

lemma order_blind: "blind released_in_order"
  by (rule blindI) simp

abbreviation orderly :: "'s stop_step \<Rightarrow> bool" where
  "orderly c \<equiv> triple released_in_order c released_in_order released_in_order"

lemma orderlyI: "(\<And>w. released_in_order w \<Longrightarrow> released_in_order (snd (c w))) \<Longrightarrow> orderly c"
  by (rule tripleI) (metis snd_conv)

lemma orderly_end: "orderly c \<Longrightarrow> released_in_order w \<Longrightarrow> released_in_order (snd (c w))"
  by (rule triple_end)

lemma orderly_faulty: "orderly c \<Longrightarrow> orderly (faulty name c)"
  by (rule triple_faulty [OF _ order_blind]) simp_all

lemma orderly_idle: "orderly (\<lambda>w. (e, w))"
  by (rule orderlyI) simp

lemma orderly_check: "orderly (check_step c)"
  by (rule orderlyI) (simp add: check_step_def)

lemma orderly_ledger: "orderly (on_ledger f)"
  unfolding on_ledger_def by (rule orderly_faulty, rule orderlyI) (simp add: case_prod_unfold)

lemma orderly_refresh: "orderly (refresh_ledger env run)"
  unfolding refresh_ledger_def by (rule triple_self) (rule orderly_ledger)

lemma orderly_initialize: "orderly (initialize_ledger env m accepted)"
  unfolding initialize_ledger_def by (rule triple_self) (rule orderly_ledger)

lemma orderly_host: "orderly (on_host f)"
  unfolding on_host_def by (rule orderly_faulty, rule orderlyI) (simp add: case_prod_unfold)

lemma orderly_record: "orderly (write_run_retention_record env r)"
  unfolding write_run_retention_record_def by (rule orderly_faulty, rule orderlyI) simp

lemma orderly_cleanup: "orderly cleanup_run_state"
proof (rule orderlyI)
  fix w :: "'a stop_world"
  assume o: "released_in_order w"
  obtain x v where n: "next_fault w = (x, v)" by (cases "next_fault w")
  obtain fs where "v = w\<lparr>kw_faults := fs\<rparr>" by (rule next_fault_world [OF n])
  then have "released_in_order v" using o by simp
  then show "released_in_order (snd (cleanup_run_state w))" by (cases x) (simp_all add: cleanup_run_state_def n Let_def)
qed

lemma orderly_mirror: "orderly (remove_mirror env host run)" "orderly (release_matching env run)"
  unfolding remove_mirror_def release_matching_def
  by (rule orderly_faulty, rule orderlyI, simp add: case_prod_unfold)+

lemma orderly_release: "orderly (release_host_side env)"
  by (rule orderlyI) (simp add: release_host_side_def case_prod_unfold triple_end [OF orderly_host])

lemma orderly_seq: "orderly a \<Longrightarrow> orderly b \<Longrightarrow> orderly (seq_step a b)"
  by (rule triple_seq)

lemmas orderly_intros = orderly_idle orderly_check orderly_ledger orderly_host orderly_record orderly_cleanup
  orderly_mirror orderly_release orderly_seq

lemma orderly_stop_broker: "orderly (stop_retained_run env r)"
proof -
  have l: "orderly (\<lambda>w. ([], stop_log x w))" for x by (rule orderlyI) simp
  have s: "orderly (\<lambda>w. if b then ([StaleSession], w) else ([], stop_log SessionStale w))" for b
    by (rule orderlyI) simp
  show ?thesis
    unfolding stop_retained_run_def stop_sessiond_run_def
    by (auto split: sum.split option.split intro!: orderly_intros orderly_faulty l s)
qed

lemma orderly_finish: "orderly (finish_released_stop_run env host run r)"
proof -
  have "orderly (\<lambda>w. case write_run_retention_record env (r\<lparr>kr_phase := ''host-lock-released''\<rparr>) w of
         (te, v) \<Rightarrow> (case cleanup_run_state v of (ce, u) \<Rightarrow> (if ce = [] then [] else te @ ce, u)))"
    by (rule orderlyI) (simp add: case_prod_unfold triple_end [OF orderly_cleanup] triple_end [OF orderly_record])
  then show ?thesis
    unfolding finish_released_stop_run_def checkpoint_stop_phase_def by (intro orderly_intros)
qed

text \<open>The caller's action between the broker and the lock is one that only adds to the trace.\<close>

definition harmless :: "('s stop_world \<Rightarrow> 's stop_world) \<Rightarrow> bool" where
  "harmless after \<longleftrightarrow> (\<forall>w. kw_trace (after w) = kw_trace w)"

lemma harmless_order: "harmless after \<Longrightarrow> released_in_order w \<Longrightarrow> released_in_order (after w)"
  by (simp add: harmless_def released_in_order_def)

lemma orderly_release_part:
  assumes "harmless after"
  shows "orderly (\<lambda>w. case write_run_retention_record env r w of
         (te, v) \<Rightarrow>
           (case (if b then release_host_side env (after v) else ([], after v)) of
              (he, u) \<Rightarrow>
                if he \<noteq> [] \<and> \<not> list_ex is_ownership_changed he then (te @ he, u)
                else (case finish_released_stop_run env host run r u of
                        (fe, x) \<Rightarrow> (if fe = [] then [] else te @ fe, x))))"
  using harmless_order [OF assms]
  by (intro orderlyI)
    (simp add: case_prod_unfold triple_end [OF orderly_record] triple_end [OF orderly_release] triple_end [OF orderly_finish])

text \<open>A run that is not settled yet: its files and the ledger know of no phase.\<close>

definition untouched :: "string \<Rightarrow> 's stop_world \<Rightarrow> bool" where
  "untouched run w \<longleftrightarrow>
     ordered_trace (kw_trace w)
   \<and> (\<exists>m r. kw_manifest w = ManifestFile m \<and> kw_record w = RunRecord r \<and> kr_phase r = [])
   \<and> ledger_phase (kw_ledger w) run \<notin> set stop_phases"

definition stop_inv :: "string \<Rightarrow> 's stop_world \<Rightarrow> bool" where
  "stop_inv run w \<longleftrightarrow> released_in_order w \<or> untouched run w"

lemma untouched_updates [simp]:
  "untouched run (w\<lparr>kw_faults := fs\<rparr>) = untouched run w" "untouched run (w\<lparr>kw_locks := fs'\<rparr>) = untouched run w"
  "untouched run (w\<lparr>kw_host := h\<rparr>) = untouched run w" "untouched run (w\<lparr>kw_files := fl\<rparr>) = untouched run w"
  by (simp_all add: untouched_def)

lemma untouched_blind: "blind (untouched run)"
  by (rule blindI) simp

lemma untouched_ledger:
  assumes "\<And>l. ledger_phase l run \<notin> set stop_phases \<Longrightarrow> ledger_phase (snd (f l)) run \<notin> set stop_phases"
  shows "triple (untouched run) (on_ledger f) (untouched run) (untouched run)"
  unfolding on_ledger_def
proof (rule triple_faulty [OF _ untouched_blind])
  show "triple (untouched run) (\<lambda>w. case f (kw_ledger w) of (r, l) \<Rightarrow> (errors_of StopLedger r, w\<lparr>kw_ledger := l\<rparr>))
      (untouched run) (untouched run)"
    by (rule tripleI) (auto simp: untouched_def case_prod_unfold assms)
qed simp_all

lemma untouched_host: "triple (untouched run) (on_host f) (untouched run) (untouched run)"
  unfolding on_host_def
  by (rule triple_faulty [OF _ untouched_blind]; (rule tripleI)?) (auto simp: case_prod_unfold)

lemma settle_untouched: "untouched run w \<Longrightarrow> x \<in> {SessionSettled, SessionStale} \<Longrightarrow> released_in_order (stop_log x w)"
  by (auto simp: released_in_order_def stop_log_def untouched_def settled_in_def)

text \<open>The broker settles the session, or leaves the run untouched.\<close>

lemma broker_settles:
  assumes "kr_adapter r \<in> set supported_adapters"
  shows "triple (untouched run) (stop_retained_run env r) released_in_order (stop_inv run)"
proof -
  have settle: "triple (untouched run) (\<lambda>w. ([], stop_log x w)) released_in_order (stop_inv run)"
    if "x \<in> {SessionSettled, SessionStale}" for x
    by (rule tripleI) (use settle_untouched [OF _ that] in auto)
  have stale: "triple (untouched run) (\<lambda>w. if b then ([StaleSession], w) else ([], stop_log SessionStale w))
      released_in_order (stop_inv run)" for b
    by (rule tripleI) (use settle_untouched in \<open>auto simp: stop_inv_def split: if_splits\<close>)
  have ask: "triple (untouched run) (faulty n (\<lambda>w. ([], w))) (untouched run) (stop_inv run)" for n
    by (rule triple_faulty [OF _ untouched_blind]; (rule tripleI)?) (auto simp: stop_inv_def)
  have host: "triple (untouched run) (on_host f) (untouched run) (stop_inv run)" for f :: "'a \<Rightarrow> unit lock_outcome \<times> 'a"
    by (rule triple_weaken [OF untouched_host]) (auto simp: stop_inv_def)
  have fence: "triple (untouched run) (case se_fence env of None \<Rightarrow> (\<lambda>w. ([], w)) | Some f \<Rightarrow> on_host f)
      (untouched run) (stop_inv run)"
    by (cases "se_fence env") (simp_all add: host, simp add: triple_def)
  have stop: "triple (untouched run) (faulty n (\<lambda>w. ([], stop_log SessionSettled w))) released_in_order (stop_inv run)" for n
    by (rule triple_faulty [OF settle untouched_blind]) (auto simp: stop_inv_def)
  have rest: "triple released_in_order c released_in_order (stop_inv run)" if "orderly c" for c
    by (rule triple_weaken [OF that]) (simp_all add: stop_inv_def)
  have fail: "triple (untouched run) (\<lambda>w. ([e], w)) released_in_order (stop_inv run)" for e
    by (rule tripleI) (auto simp: stop_inv_def)
  show ?thesis
    unfolding stop_retained_run_def stop_sessiond_run_def
    by (auto split: sum.split intro!: settle fail triple_seq [OF ask] triple_seq [OF _ rest] triple_seq [OF fence stop] stale
        orderly_idle orderly_faulty)
qed

lemma broker_phase_inv:
  assumes "kr_phase r = []" "harmless after"
  shows "triple (untouched run) (broker_phase env host run r after) (stop_inv run) (stop_inv run)"
proof (cases "kr_adapter r \<in> set supported_adapters")
  case False
  show ?thesis
    by (rule tripleI) (use False in \<open>auto simp: broker_phase_def seq_step_def check_step_def stop_inv_def\<close>)
next
  case True
  have check: "triple (untouched run) (check_step (\<lambda>w. if kr_adapter r \<in> set supported_adapters then [] else [UnsupportedBroker (kr_adapter r)]))
      (untouched run) (stop_inv run)"
    by (rule tripleI) (use True in \<open>auto simp: check_step_def\<close>)
  have rest: "triple released_in_order c (stop_inv run) (stop_inv run)" if "orderly c" for c
    by (rule triple_weaken [OF that]) (simp_all add: stop_inv_def)
  have b: "(if kr_phase r = [] \<or> kr_phase r = ''session-stopped'' then stop_retained_run env r else (\<lambda>w. ([], w)))
      = stop_retained_run env r"
    using assms(1) by simp
  show ?thesis
    unfolding broker_phase_def checkpoint_stop_phase_def b
    by (intro triple_seq [OF check] triple_seq [OF broker_settles [OF True]] rest orderly_seq orderly_ledger
        orderly_release_part [OF assms(2)])
qed

lemma recorded_inv:
  assumes "kr_phase r = []" "\<not> kr_legacy r" "harmless after"
  shows "triple (untouched run) (stop_recorded_run env m run after r) (stop_inv run) (stop_inv run)"
proof (rule tripleI)
  fix w e u assume t: "untouched run w" and r: "stop_recorded_run env m run after r w = (e, u)"
  have a: "adopted_phase (kw_ledger w) run r = r" using t assms(1) by (simp add: adopted_phase_def untouched_def)
  have l: "kr_phase r \<noteq> ''host-lock-released''" using assms(1) by simp
  note r1 = r [unfolded stop_recorded_run_def Let_def a if_not_P [OF l]]
  have "stop_inv run u"
  proof (cases "active_cleanup_recovery env (mf_host m) run (cleanup_failed_running (kw_ledger w) run r) (kw_locks w)")
    case (Inl x)
    then have "u = w" using r1 by simp
    then show ?thesis using t by (simp add: stop_inv_def)
  next
    case (Inr recovering)
    have check: "triple (untouched run) (check_step c) (untouched run) (stop_inv run)" for c
      by (rule tripleI) (auto simp: check_step_def stop_inv_def)
    have host: "triple (untouched run) (check_host_side env recovering r) (untouched run) (stop_inv run)"
    proof (cases "kr_authoritative r \<and> kr_phase r = []")
      case True
      have "triple (untouched run) (on_host f) (untouched run) (stop_inv run)" for f :: "'a \<Rightarrow> unit lock_outcome \<times> 'a"
        by (rule triple_weaken [OF untouched_host]) (auto simp: stop_inv_def)
      then show ?thesis using True by (simp add: check_host_side_def)
    next
      case False
      then have "check_host_side env recovering r = (\<lambda>w. ([], w))" unfolding check_host_side_def by (rule if_not_P)
      then show ?thesis by (simp add: triple_def)
    qed
    have "triple (untouched run) (seq_step (check_step (\<lambda>w'. check_mirror env (mf_host m) run
          (cleanup_failed_running (kw_ledger w) run r) r (kw_locks w')))
        (seq_step (check_host_side env recovering r) (broker_phase env (mf_host m) run r after))) (stop_inv run) (stop_inv run)"
      by (intro triple_seq [OF check] triple_seq [OF host] broker_phase_inv assms(1,3))
    from tripleD [OF this t] show ?thesis using r1 Inr assms(2) by (auto split: if_splits)
  qed
  then show "if e = [] then stop_inv run u else stop_inv run u" by simp
qed

lemma orderly_recorded:
  assumes "harmless after"
  shows "orderly (stop_recorded_run env m run after r)"
proof (rule orderlyI)
  fix w :: "'a stop_world" assume o: "released_in_order w"
  define r1 where "r1 = adopted_phase (kw_ledger w) run r"
  define fr where "fr = cleanup_failed_running (kw_ledger w) run r1"
  have h: "orderly (check_host_side env b r1)" for b
    unfolding check_host_side_def by (auto intro: orderly_host orderly_idle)
  have un: "orderly (stop_unrecorded_run env (mf_host m) run)"
  proof (rule orderlyI)
    fix v :: "'a stop_world" assume "released_in_order v"
    then have "released_in_order (snd (seq_step (remove_mirror env (mf_host m) run) cleanup_run_state v))"
      by (rule triple_end [OF orderly_seq [OF orderly_mirror(1) orderly_cleanup]])
    with \<open>released_in_order v\<close> show "released_in_order (snd (stop_unrecorded_run env (mf_host m) run v))"
      by (auto simp: stop_unrecorded_run_def split: sum.split ledger_error.split)
  qed
  have br: "orderly (broker_phase env (mf_host m) run r1 after)"
    unfolding broker_phase_def checkpoint_stop_phase_def
    by (intro orderly_seq orderly_check orderly_ledger orderly_release_part [OF assms])
      (auto intro: orderly_stop_broker orderly_idle)
  have all: "orderly (seq_step (check_step (\<lambda>w. check_mirror env (mf_host m) run fr r1 (kw_locks w)))
         (seq_step (check_host_side env b r1)
           (if kr_legacy r1 \<and> mf_adapter m \<noteq> ''fake'' then stop_unrecorded_run env (mf_host m) run
            else broker_phase env (mf_host m) run r1 after)))" for b
    by (intro orderly_seq orderly_check h) (simp add: un br)
  show "released_in_order (snd (stop_recorded_run env m run after r w))"
    unfolding stop_recorded_run_def Let_def r1_def [symmetric] fr_def [symmetric]
    using o triple_end [OF orderly_finish o] triple_end [OF all o]
    by (auto split: sum.split)
qed

lemma stop_kept_run_inv:
  assumes "harmless after"
  shows "triple (stop_inv run) (stop_kept_run_after_broker_stop env run after) (stop_inv run) (stop_inv run)"
proof (rule tripleI)
  fix w e u assume i: "stop_inv run w" and r: "stop_kept_run_after_broker_stop env run after w = (e, u)"
  have "stop_inv run u"
  proof (cases "released_in_order w")
    case True
    have "released_in_order (snd (stop_kept_run_after_broker_stop env run after w))"
      using True triple_end [OF orderly_cleanup True] triple_end [OF orderly_mirror(2) True]
        triple_end [OF orderly_recorded [OF assms] True]
      by (auto simp: stop_kept_run_after_broker_stop_def split: sum.split manifest_file.split)
    then show ?thesis using r by (simp add: stop_inv_def)
  next
    case False
    then have t: "untouched run w" using i by (simp add: stop_inv_def)
    then obtain m r0 where m: "kw_manifest w = ManifestFile m" "kw_record w = RunRecord r0" "kr_phase r0 = []"
      by (auto simp: untouched_def)
    define k where "k = (case mf_session m of
      Some s \<Rightarrow> if kr_session r0 = [] then r0\<lparr>kr_session := s, kr_legacy := False\<rparr> else r0\<lparr>kr_legacy := False\<rparr>
    | None \<Rightarrow> r0\<lparr>kr_legacy := False\<rparr>)"
    have k: "read_run_retention_record m (kw_record w) = Inr k" "kr_phase k = []" "\<not> kr_legacy k"
      using m by (simp_all add: read_run_retention_record_def k_def split: option.split)
    consider "u = w" | "stop_recorded_run env m run after k w = (e, u)"
      using r m(1) k(1) by (auto simp: stop_kept_run_after_broker_stop_def split: sum.split_asm)
    then show ?thesis
      using i tripleD [OF recorded_inv [OF k(2,3) assms] t] by cases (auto split: if_splits)
  qed
  then show "if e = [] then stop_inv run u else stop_inv run u" by simp
qed

subsection \<open>The ledger never runs ahead\<close>

text \<open>An operation on the ledger after which it records no phase it did not record before.\<close>

definition no_phase :: "string \<Rightarrow> stored_record \<Rightarrow> bool" where
  "no_phase run s \<longleftrightarrow> (\<forall>r. s = StoredRecord r \<longrightarrow> lr_stop_phase r \<notin> set stop_phases)"

lemma phase_of_dir:
  assumes "no_phase run (ld_record d)"
  shows "ledger_phase (update_dir ledger run d) run \<notin> set stop_phases"
proof (cases "read_run_ledger_record (update_dir ledger run d) run")
  case (Inl e)
  then show ?thesis by (simp add: ledger_phase_def stop_phases_def)
next
  case (Inr r)
  then have "ld_record d = StoredRecord r"
    by (auto simp: read_run_ledger_record_def check_run_ledger_record_def
        split: sum.split_asm stored_record.split_asm if_split_asm)
  then show ?thesis using assms Inr by (simp add: ledger_phase_def no_phase_def)
qed

lemma dir_of_read: "read_run_ledger_record ledger run = Inr r \<Longrightarrow> ld_record (dir_of ledger run) = StoredRecord r"
  by (auto simp: read_run_ledger_record_def dir_of_def check_run_ledger_record_def
      split: sum.split_asm option.split_asm ledger_entry.split_asm stored_record.split_asm if_split_asm)

lemma sync_and_write_phase:
  assumes "lr_run r = run" "lr_stop_phase r \<notin> set stop_phases" "no_phase run (ld_record (dir_of ledger run))"
    "\<And>r. lr_stop_phase (stamp r) = lr_stop_phase r"
  shows "ledger_phase (snd (sync_and_write enc dec policy files stamp r ledger)) run \<notin> set stop_phases"
proof -
  obtain q d where q: "sync_run_ledger_artifacts enc dec policy files r (dir_of ledger run) = (q, d)" by fastforce
  note s = sync_artifacts_record [OF q]
  show ?thesis
  proof (cases q)
    case (Inl e)
    then have "snd (sync_and_write enc dec policy files stamp r ledger) = update_dir ledger run d"
      using q assms(1) by (simp add: sync_and_write_def)
    then show ?thesis using phase_of_dir assms(3) s by simp
  next
    case (Inr r')
    then have "snd (sync_and_write enc dec policy files stamp r ledger)
        = update_dir ledger run (d\<lparr>ld_record := StoredRecord (stamp r')\<rparr>)"
      using q assms(1) by (simp add: sync_and_write_def)
    moreover have "lr_stop_phase r' = lr_stop_phase r" using s Inr counted_fields by blast
    ultimately show ?thesis using phase_of_dir assms(2,4) by (simp add: no_phase_def)
  qed
qed

lemma read_phase:
  assumes "ledger_phase ledger run \<notin> set stop_phases" "read_run_ledger_record ledger run = Inr r"
  shows "lr_run r = run" "lr_stop_phase r \<notin> set stop_phases" "no_phase run (ld_record (dir_of ledger run))"
proof -
  show p: "lr_stop_phase r \<notin> set stop_phases" using assms by (simp add: ledger_phase_def)
  show "no_phase run (ld_record (dir_of ledger run))" using dir_of_read [OF assms(2)] p by (simp add: no_phase_def)
  show "lr_run r = run" by (rule read_record_run [OF assms(2)])
qed

lemma refresh_phase:
  assumes "ledger_phase ledger run \<notin> set stop_phases"
  shows "ledger_phase (snd (refresh_run_ledger_artifacts enc dec available files run now ledger)) run \<notin> set stop_phases"
proof (cases "read_run_ledger_record ledger run")
  case (Inl e)
  then show ?thesis using assms by (simp add: refresh_run_ledger_artifacts_def)
next
  case (Inr r)
  then show ?thesis
    unfolding refresh_run_ledger_artifacts_def Inr sum.case by (intro sync_and_write_phase read_phase [OF assms Inr]) simp
qed

lemma write_phase:
  "lr_run r = run \<Longrightarrow> lr_stop_phase r \<notin> set stop_phases \<Longrightarrow> ledger_phase (write_run_ledger_record ledger r) run \<notin> set stop_phases"
  using phase_of_dir [of run] by (simp add: write_record_dir no_phase_def)

lemma after_stop_phase:
  assumes "ledger_phase ledger run \<notin> set stop_phases"
  shows "ledger_phase (snd (update_run_ledger_after_stop enc dec available files run failed now ledger)) run \<notin> set stop_phases"
proof (cases "read_run_ledger_record ledger run")
  case (Inl e)
  then show ?thesis using assms by (simp add: update_run_ledger_after_stop_def split: ledger_error.split)
next
  case (Inr r)
  note p = read_phase [OF assms Inr]
  define s where "s = (if failed
    then r\<lparr>lr_updated := format_rfc3339nano now, lr_state := ''cleanup-failed'', lr_completed := []\<rparr>
    else r\<lparr>lr_updated := format_rfc3339nano now,
           lr_state := (if lr_status r = ''passed'' then ''completed'' else ''failed''),
           lr_completed := format_rfc3339nano now, lr_stop_phase := []\<rparr>)"
  have s: "lr_run s = run" "lr_stop_phase s \<notin> set stop_phases" using p by (simp_all add: s_def stop_phases_def)
  have d: "no_phase run (ld_record (dir_of (write_run_ledger_record ledger s) run))"
    using s by (simp add: write_record_dir no_phase_def)
  have "snd (update_run_ledger_after_stop enc dec available files run failed now ledger)
      \<in> {ledger, write_run_ledger_record ledger s}
        \<union> range (\<lambda>policy. snd (sync_and_write enc dec policy files (\<lambda>r. r) s (write_run_ledger_record ledger s)))"
    unfolding update_run_ledger_after_stop_def Inr sum.case Let_def s_def [symmetric]
    by (auto split: option.split)
  then show ?thesis using assms write_phase [OF s] sync_and_write_phase [OF s d] by auto
qed

text \<open>The steps around the stop touch the ledger only, and never make it run ahead of the run's files.\<close>

lemma inv_split:
  assumes "orderly c" "triple (untouched run) c (untouched run) (untouched run)"
  shows "triple (stop_inv run) c (stop_inv run) (stop_inv run)"
proof (rule tripleI)
  fix w e u assume i: "stop_inv run w" and c: "c w = (e, u)"
  have "stop_inv run u"
  proof (cases "released_in_order w")
    case True
    then show ?thesis using tripleD [OF assms(1) True c] by (simp add: stop_inv_def)
  next
    case False
    then have "untouched run w" using i by (simp add: stop_inv_def)
    from tripleD [OF assms(2) this c] show ?thesis by (simp add: stop_inv_def split: if_splits)
  qed
  then show "if e = [] then stop_inv run u else stop_inv run u" by simp
qed

abbreviation behind :: "string \<Rightarrow> 's stop_step \<Rightarrow> bool" where
  "behind run c \<equiv> triple (untouched run) c (untouched run) (untouched run)"

lemma behindI: "(\<And>w. untouched run w \<Longrightarrow> untouched run (snd (c w))) \<Longrightarrow> behind run c"
  by (rule tripleI) (metis snd_conv)

lemma behind_refresh: "behind run (refresh_ledger env run)"
  unfolding refresh_ledger_def by (rule triple_self, rule untouched_ledger) (rule refresh_phase)

lemma behind_idle: "behind run (\<lambda>w. (e, w))"
  by (rule behindI) simp

lemma behind_check: "behind run (check_step c)"
  by (rule behindI) (simp add: check_step_def)

lemma cleanup_phase:
  assumes "ledger_phase ledger run \<notin> set stop_phases"
  shows "ledger_phase (snd (cleanup_run_ledger_record run ledger)) run \<notin> set stop_phases"
proof -
  have "ledger_phase (AList.delete run ledger) run = []"
    by (simp add: ledger_phase_def read_run_ledger_record_def delete_conv' split: sum.split)
  then show ?thesis
    using assms by (simp add: cleanup_run_ledger_record_def stop_phases_def split: option.split ledger_entry.split)
qed

lemma update_other_phase: "k \<noteq> run \<Longrightarrow> ledger_phase (update_dir ledger k d) run = ledger_phase ledger run"
  by (cases "validate_run_id run") (simp_all add: ledger_phase_def read_run_ledger_record_def update_dir_def update_conv')

lemma initialize_phase:
  assumes "ledger_phase ledger run \<notin> set stop_phases"
  shows "ledger_phase (snd (initialize_run_ledger enc dec source m accepted ledger)) run \<notin> set stop_phases"
proof -
  have "ledger_phase (update_dir ledger (mf_run m) d) run \<notin> set stop_phases" if "no_phase run (ld_record d)" for d
    using assms phase_of_dir [OF that] update_other_phase by (cases "mf_run m = run") auto
  then show ?thesis
    using assms by (auto simp: initialize_run_ledger_def Let_def no_phase_def stop_phases_def split: sum.split)
qed

lemma behind_initialize: "behind run (initialize_ledger env m accepted)"
  unfolding initialize_ledger_def by (rule triple_self, rule untouched_ledger) (rule initialize_phase)

lemma orderly_reconcile: "orderly (reconcile_submitted_run_ledger_for_stop env run)"
proof (rule orderlyI)
  fix w :: "'a stop_world" assume o: "released_in_order w"
  have r: "released_in_order (snd (refresh_ledger env run w))"
    by (rule orderly_end [OF orderly_refresh o])
  have s: "released_in_order (snd (seq_step (check_step c) (seq_step (on_ledger f) (refresh_ledger env run)) w))"
    for c :: "'a stop_world \<Rightarrow> stop_error list" and f
    by (rule orderly_end [OF orderly_seq [OF orderly_check orderly_seq [OF orderly_ledger orderly_refresh]] o])
  show "released_in_order (snd (reconcile_submitted_run_ledger_for_stop env run w))"
    using o r s by (auto simp: reconcile_submitted_run_ledger_for_stop_def split: sum.split manifest_file.split)
qed

lemma behind_reconcile: "behind run (reconcile_submitted_run_ledger_for_stop env run)"
proof (rule behindI)
  fix w :: "'a stop_world" assume t: "untouched run w"
  then obtain m r0 where m: "kw_manifest w = ManifestFile m" "kw_record w = RunRecord r0" "kr_phase r0 = []"
      and p: "ledger_phase (kw_ledger w) run \<notin> set stop_phases"
    by (auto simp: untouched_def)
  have k: "\<exists>k. read_run_retention_record m (kw_record w) = Inr k \<and> kr_phase k = []"
    using m by (auto simp: read_run_retention_record_def split: option.split)
  then obtain k where k: "read_run_retention_record m (kw_record w) = Inr k" "kr_phase k = []" by blast
  show "untouched run (snd (reconcile_submitted_run_ledger_for_stop env run w))"
  proof (cases "read_run_ledger_record (kw_ledger w) run")
    case (Inl e)
    then show ?thesis using t by (simp add: reconcile_submitted_run_ledger_for_stop_def)
  next
    case (Inr l)
    have run: "lr_run l = run" by (rule read_record_run [OF Inr])
    have f: "behind run (on_ledger (\<lambda>ledger. (Inr (), write_run_ledger_record ledger (reconciled_record env m k l))))"
      by (rule untouched_ledger) (unfold snd_conv, rule write_phase, simp_all add: reconciled_record_def run k(2) stop_phases_def)
    have "behind run (seq_step (check_step (\<lambda>w. reconcile_errors env run m k (kw_locks w)))
        (seq_step (on_ledger (\<lambda>ledger. (Inr (), write_run_ledger_record ledger (reconciled_record env m k l))))
          (refresh_ledger env run)))"
      by (intro triple_seq [OF behind_check] triple_seq [OF f] behind_refresh)
    from triple_end [OF this t] show ?thesis
      using triple_end [OF behind_refresh t] Inr m(1) k(1)
      by (simp add: reconcile_submitted_run_ledger_for_stop_def)
  qed
qed

text \<open>One rule for both: a property of steps that sequences, tests and the ledger's operations keep.\<close>

lemma reconstruct_keeps:
  assumes idle: "\<And>e. triple P (\<lambda>w :: 's stop_world. (e :: stop_error list, w)) P P"
    and ledger: "triple P (on_ledger (cleanup_run_ledger_record run)) P P"
      "\<And>a. triple P (initialize_ledger env m a) P P"
    and rec: "triple P (reconcile_submitted_run_ledger_for_stop env run) P P"
  shows "triple P (reconstruct_run_ledger env run e m) P P"
proof -
  have final: "triple P (\<lambda>w. case reconcile_submitted_run_ledger_for_stop env run w of
      (re, v) \<Rightarrow> if re = [] then ([], v)
        else if list_ex is_not_exist re then on_ledger (cleanup_run_ledger_record run) v else (re, v)) P P"
    (is "triple P ?c P P")
  proof (rule tripleI)
    fix w e u assume p: "P w" and c: "?c w = (e, u)"
    obtain re v where r: "reconcile_submitted_run_ledger_for_stop env run w = (re, v)" by fastforce
    have v: "P v" using tripleD [OF rec p r] by (simp split: if_splits)
    have "P u"
    proof (cases "re \<noteq> [] \<and> list_ex is_not_exist re")
      case True
      then have "on_ledger (cleanup_run_ledger_record run) v = (e, u)" using c r by simp
      from tripleD [OF ledger(1) v this] show ?thesis by (simp split: if_splits)
    next
      case False
      then show ?thesis using c r v by (auto split: if_splits)
    qed
    then show "if e = [] then P u else P u" by simp
  qed
  have ready: "triple P (if b then (\<lambda>w. ([], w)) else on_ledger (cleanup_run_ledger_record run)) P P" for b
    using idle [of "[]"] ledger(1) by simp
  show ?thesis
  proof (cases "accepted_at_from_run_id run")
    case None
    then show ?thesis using idle by (simp add: reconstruct_run_ledger_def)
  next
    case (Some a)
    have "triple P (seq_step (if b then (\<lambda>w. ([], w)) else on_ledger (cleanup_run_ledger_record run))
        (seq_step (initialize_ledger env m a) ?c)) P P" for b
      by (rule triple_seq [OF ready triple_seq [OF ledger(2) final]])
    then show ?thesis unfolding reconstruct_run_ledger_def Some option.case .
  qed
qed

lemma prepare_keeps:
  assumes idle: "\<And>e. triple P (\<lambda>w :: 's stop_world. (e :: stop_error list, w)) P P"
    and refresh: "triple P (refresh_ledger env run) P P"
    and ledger: "triple P (on_ledger (cleanup_run_ledger_record run)) P P"
      "\<And>m a. triple P (initialize_ledger env m a) P P"
    and rec: "triple P (reconcile_submitted_run_ledger_for_stop env run) P P"
  shows "triple P (prepare_run_ledger_for_stop env run) P P"
proof (rule tripleI)
  fix w e u assume p: "P w" and c: "prepare_run_ledger_for_stop env run w = (e, u)"
  consider "u = w" | "refresh_ledger env run w = (e, u)" | "reconcile_submitted_run_ledger_for_stop env run w = (e, u)"
    | le m where "reconstruct_run_ledger env run le m w = (e, u)"
    using c unfolding prepare_run_ledger_for_stop_def Let_def
    by (auto split: sum.split_asm manifest_file.split_asm if_split_asm)
  then have "P u"
  proof cases
    case 4
    from tripleD [OF reconstruct_keeps [OF idle ledger(1) ledger(2) rec] p 4] show ?thesis by (simp split: if_splits)
  qed (use p tripleD [OF refresh p] tripleD [OF rec p] in \<open>auto split: if_splits\<close>)
  then show "if e = [] then P u else P u" by simp
qed

lemma prepare_inv: "triple (stop_inv run) (prepare_run_ledger_for_stop env run) (stop_inv run) (stop_inv run)"
proof (rule inv_split)
  show "orderly (prepare_run_ledger_for_stop env run)"
    by (rule prepare_keeps) (simp_all add: orderly_idle orderly_ledger orderly_reconcile orderly_refresh orderly_initialize)
  show "behind run (prepare_run_ledger_for_stop env run)"
    by (rule prepare_keeps)
      (simp_all add: behind_idle behind_refresh behind_reconcile behind_initialize untouched_ledger cleanup_phase)
qed

lemma settled_ledger_inv: "triple (stop_inv run) (settle_ledger_after_stop env run failed) (stop_inv run) (stop_inv run)"
  unfolding settle_ledger_after_stop_def
  by (rule triple_self) (intro inv_split orderly_ledger untouched_ledger after_stop_phase)

lemma harmless_idle: "harmless (\<lambda>w. w)"
  by (simp add: harmless_def)

lemma stop_run_inv:
  assumes "stop_inv run w"
  shows "stop_inv run (snd (stop_run env run w))"
proof -
  obtain pe v where p: "prepare_run_ledger_for_stop env run w = (pe, v)" by fastforce
  have v: "stop_inv run v" using triple_end [OF prepare_inv assms, of env] p by simp
  obtain se u where s: "stop_kept_run env run v = (se, u)" by fastforce
  have u: "stop_inv run u"
    using triple_end [OF stop_kept_run_inv [OF harmless_idle] v, of env] s by (simp add: stop_kept_run_def)
  have "stop_inv run (snd (settle_ledger_after_stop env run b u))" for b
    by (rule triple_end [OF settled_ledger_inv u])
  then show ?thesis using v p s by (auto simp: stop_run_def case_prod_unfold)
qed

end
