(* ===== verification/Kept_Sweep.thy ===== *)
theory Kept_Sweep
  imports Kept_Release
begin

text \<open>
  The sweep that ends kept runs (\<open>run_retention_expiry.go\<close>): reading a kept run with its locks and its
  broker, its deadline, and the stop of the ones that outlived it.  A sweep, a stop and what others do in
  between are actions; the theorems are about every sequence of them.
\<close>

subsection \<open>Reading a kept run\<close>

text \<open>\<open>readKeptRunState\<close>: a run that is still active has to own the host, a kept one to be kept there.\<close>

definition run_active :: "retention_record \<Rightarrow> bool" where
  "run_active r \<longleftrightarrow> kr_status r = ''running'' \<and> kr_phase r = []"

definition kept_lock_errors :: "'s stop_env \<Rightarrow> string \<Rightarrow> string \<Rightarrow> retention_record \<Rightarrow> lock_fs \<Rightarrow> stop_error list" where
  "kept_lock_errors env host run r fs =
     errors_of StopLock
       (if run_active r then ensure_run_has_cleanup_pending_lock (se_repo env) host run (kr_authoritative r) fs
        else ensure_run_has_kept_lock (se_repo env) host run (kr_authoritative r) fs)"

definition verify_kept_run :: "'s stop_env \<Rightarrow> retention_record \<Rightarrow> 's stop_step" where
  "verify_kept_run env r =
     (if kr_authoritative r then on_host (if run_active r then se_verify_active env else se_verify_kept env)
      else (\<lambda>w. ([], w)))"

definition find_kept_run :: "string \<Rightarrow> 's stop_world \<Rightarrow> (stop_error, stop_manifest \<times> retention_record) result" where
  "find_kept_run run w =
     (case validate_run_id run of
        Inl e \<Rightarrow> Inl (StopName e)
      | Inr _ \<Rightarrow>
          (case kw_manifest w of
             NoManifest \<Rightarrow> Inl (StopKept (KeptNotFound run))
           | BrokenManifest \<Rightarrow> Inl ManifestBroken
           | ManifestFile m \<Rightarrow> rbind (read_run_retention_record m (kw_record w)) (\<lambda>r. Inr (m, r))))"

text \<open>\<open>readKeptRun\<close> reads the evidence bundle as well.\<close>

definition check_kept_run :: "'s stop_env \<Rightarrow> string \<Rightarrow> stop_manifest \<Rightarrow> retention_record \<Rightarrow> 's stop_step" where
  "check_kept_run env run m r =
     seq_step (check_step (\<lambda>w. kept_lock_errors env (mf_host m) run r (kw_locks w)))
    (seq_step (verify_kept_run env r)
      (check_step (\<lambda>w. if se_bundle env = None then [BundleMissing] else [])))"

text \<open>\<open>refreshKeptRunStatus\<close>: what the broker says of the session; nothing is asked for a run without a record.\<close>

definition refresh_kept_run_status :: "'s stop_env \<Rightarrow> stop_manifest \<Rightarrow> retention_record \<Rightarrow> 's stop_world
     \<Rightarrow> (stop_error list \<times> string) \<times> 's stop_world" where
  "refresh_kept_run_status env m r w =
     (if kr_legacy r \<and> mf_adapter m \<noteq> ''fake'' then (([], ''stale''), w)
      else if kr_adapter r \<notin> set supported_adapters then (([UnsupportedBroker (kr_adapter r)], []), w)
      else (case (if kr_adapter r = [] \<or> kr_adapter r = ''fake'' then ([], w) else faulty ''session status'' (\<lambda>w. ([], w)) w) of
              (e, v) \<Rightarrow>
                ((e, if run_active r then ''running''
                     else if kr_adapter r = [] \<or> kr_adapter r = ''fake'' then ''kept''
                     else status_retained_run (se_report env) r), v)))"

subsection \<open>Events\<close>

text \<open>\<open>newRunEventRecord\<close> and \<open>appendEventRecord\<close> (\<open>run.go\<close>)\<close>

definition new_run_event_record :: "int \<Rightarrow> (string \<times> string) list \<Rightarrow> event" where
  "new_run_event_record now entries =
     (let event_type = (case map_of entries ''event'' of Some t \<Rightarrow> t | None \<Rightarrow> []);
          others = filter (\<lambda>(k, _). k \<noteq> ''event'') entries;
          details = fold (\<lambda>(k, v). AList.update (if k = ''detail'' then ''message'' else k) (JStr v)) others []
      in fold (\<lambda>(k, v). AList.update k (JStr v)) others
           [(''event'', JStr event_type), (''timestamp'', JStr (format_rfc3339nano now)),
            (''phase'', JStr (run_event_phase event_type)), (''type'', JStr event_type),
            (''stream'', JStr ''lifecycle''), (''details'', JObj details)])"

definition has_state_dir :: "'s stop_world \<Rightarrow> bool" where
  "has_state_dir w \<longleftrightarrow> kw_manifest w \<noteq> NoManifest \<or> kw_record w \<noteq> NoRunRecord
     \<or> rf_state_events (kw_files w) \<noteq> Absent \<or> rf_state_log (kw_files w) \<noteq> Absent"

definition append_event_record :: "'s stop_env \<Rightarrow> (string \<times> string) list \<Rightarrow> 's stop_step" where
  "append_event_record env entries =
     faulty ''append event'' (\<lambda>w.
       let line = se_enc env (JObj (new_run_event_record (se_now env) entries)) @ [newline];
           put = (\<lambda>content. w\<lparr>kw_files := (kw_files w)\<lparr>rf_state_events := Regular content\<rparr>\<rparr>) in
       case rf_state_events (kw_files w) of
         Regular content \<Rightarrow> ([], put (content @ line))
       | Irregular \<Rightarrow> ([StopIO ''append event''], w)
       | Absent \<Rightarrow> if has_state_dir w then ([], put line) else ([StopIO ''append event''], w))"

definition append_kept_session_sweep_event :: "'s stop_env \<Rightarrow> string \<Rightarrow> (string \<times> string) list \<Rightarrow> 's stop_step" where
  "append_kept_session_sweep_event env run entries = seq_step (append_event_record env entries) (refresh_ledger env run)"

definition sweep_event :: "string \<Rightarrow> string \<Rightarrow> retention_record \<Rightarrow> string \<Rightarrow> string \<Rightarrow> (string \<times> string) list" where
  "sweep_event name run r outcome detail =
     [(''event'', name), (''runId'', run), (''host'', kr_host r), (''deadline'', kr_deadline r), (''outcome'', outcome)]
     @ (if detail = [] then [] else [(''detail'', detail)])"

subsection \<open>The sweep\<close>

text \<open>\<open>keptSessionTTLStatus\<close>, without the words of the time that is left.\<close>

datatype ttl_status = Unstamped | InvalidDeadline | Expired | TimeLeft int

definition kept_session_ttl_status :: "retention_record \<Rightarrow> int \<Rightarrow> ttl_status" where
  "kept_session_ttl_status r now =
     (if kr_deadline r = [] then Unstamped
      else (case parse_rfc3339nano (kr_deadline r) of
              None \<Rightarrow> InvalidDeadline
            | Some d \<Rightarrow> if d - now \<le> 0 then Expired else TimeLeft (d - now)))"

text \<open>\<open>stopRunWithKeptExpiryEvent\<close>: a stop that records the expiry once the broker is clean.\<close>

definition stop_run_with_kept_expiry_event ::
  "'s stop_env \<Rightarrow> string \<Rightarrow> (string \<times> string) list \<Rightarrow> 's stop_step" where
  "stop_run_with_kept_expiry_event env run entries w =
     (case prepare_run_ledger_for_stop env run w of
        (pe, v) \<Rightarrow>
          if pe \<noteq> [] then (pe, v)
          else (case stop_kept_run_after_broker_stop env run (\<lambda>w. snd (append_kept_session_sweep_event env run entries w)) v of
                  (se, u) \<Rightarrow> (case settle_ledger_after_stop env run (se \<noteq> []) u of (le, x) \<Rightarrow> (se @ le, x))))"

datatype sweep_outcome =
    NotThisHost
  | NoRecordOfRun
  | GraceStamped
  | StampFailed
  | DeadlineUnreadable
  | NotExpired
  | CannotStop
  | StoppedExpired
  | StopFailed "stop_error list"

text \<open>
  The body of \<open>sweepKeptSessions\<close> for a run as the listing read it.  What an event's append reports only
  becomes a warning.  The text of a failed stop is \<open>detail\<close>.
\<close>

definition sweep_kept_session ::
  "'s stop_env \<Rightarrow> string \<Rightarrow> string \<Rightarrow> string \<Rightarrow> retention_record \<Rightarrow> 's stop_world \<Rightarrow> sweep_outcome \<times> 's stop_world" where
  "sweep_kept_session env host run detail r w =
     (let note_event = (\<lambda>entries w. snd (append_kept_session_sweep_event env run entries w)) in
      if kr_host r \<noteq> host then (NotThisHost, w)
      else if kr_legacy r then (NoRecordOfRun, w)
      else if kr_deadline r = [] then
        (let stamped = stamp_kept_session_deadline (se_now env) (keep_ttl_from_record r default_keep_ttl) r in
         case write_run_retention_record env stamped w of
           (e, v) \<Rightarrow>
             if e \<noteq> [] then (StampFailed, v)
             else (GraceStamped, note_event (sweep_event ''kept-session-grace-stamped'' run stamped ''grace-stamped'' []) v))
      else (case parse_rfc3339nano (kr_deadline r) of
              None \<Rightarrow> (DeadlineUnreadable, note_event (sweep_event ''kept-session-expired'' run r ''invalid-deadline'' detail) w)
            | Some deadline \<Rightarrow>
                if deadline > se_now env then (NotExpired, w)
                else if \<not> kr_can_stop r
                then (CannotStop, note_event (sweep_event ''kept-session-expired'' run r ''unsupported'' detail) w)
                else (case stop_run_with_kept_expiry_event env run
                             (sweep_event ''kept-session-expired'' run r ''broker-cleaned'' []) w of
                        (e, v) \<Rightarrow>
                          if e = [] then (StoppedExpired, v)
                          else (case append_event_record env (sweep_event ''kept-session-expired'' run r ''failed'' detail) v of
                                  (_, u) \<Rightarrow> (StopFailed e, snd (refresh_ledger env run u))))))"

text \<open>One kept run under the sweep: the listing reads it with its locks and its broker, and then its deadline counts.\<close>

definition sweep_kept_run ::
  "'s stop_env \<Rightarrow> string \<Rightarrow> string \<Rightarrow> string \<Rightarrow> 's stop_world \<Rightarrow> (stop_error list, sweep_outcome) result \<times> 's stop_world" where
  "sweep_kept_run env host run detail w =
     (case find_kept_run run w of
        Inl e \<Rightarrow> (Inl [e], w)
      | Inr (m, r) \<Rightarrow>
          (case check_kept_run env run m r w of
             (ce, v) \<Rightarrow>
               if ce \<noteq> [] then (Inl ce, v)
               else (case refresh_kept_run_status env m r v of
                       ((se, _), u) \<Rightarrow>
                         if se \<noteq> [] then (Inl se, u)
                         else (case sweep_kept_session env host run detail r u of (out, x) \<Rightarrow> (Inr out, x)))))"

subsection \<open>What a sweep leaves alone\<close>

text \<open>A step that leaves the run's locks, its files' names and the trace as they are, whatever it records.\<close>

definition silent :: "'s stop_step \<Rightarrow> bool" where
  "silent c \<longleftrightarrow> (\<forall>w. kw_trace (snd (c w)) = kw_trace w \<and> kw_locks (snd (c w)) = kw_locks w
     \<and> kw_manifest (snd (c w)) = kw_manifest w)"

lemma silentI:
  "(\<And>w. kw_trace (snd (c w)) = kw_trace w \<and> kw_locks (snd (c w)) = kw_locks w
     \<and> kw_manifest (snd (c w)) = kw_manifest w) \<Longrightarrow> silent c"
  by (simp add: silent_def)

lemma silentD:
  "silent c \<Longrightarrow> kw_trace (snd (c w)) = kw_trace w" "silent c \<Longrightarrow> kw_locks (snd (c w)) = kw_locks w"
  "silent c \<Longrightarrow> kw_manifest (snd (c w)) = kw_manifest w"
  by (simp_all add: silent_def)

lemma silent_idle: "silent (\<lambda>w. (e, w))" "silent (check_step c)"
  by (simp_all add: silent_def check_step_def)

lemma silent_seq: "silent a \<Longrightarrow> silent b \<Longrightarrow> silent (seq_step a b)"
  by (rule silentI) (simp add: seq_step_def case_prod_unfold silentD)

lemma silent_faulty:
  assumes "silent c"
  shows "silent (faulty name c)"
proof (rule silentI)
  fix w
  obtain e u where r: "faulty name c w = (e, u)" by fastforce
  from r show "kw_trace (snd (faulty name c w)) = kw_trace w \<and> kw_locks (snd (faulty name c w)) = kw_locks w
     \<and> kw_manifest (snd (faulty name c w)) = kw_manifest w"
  proof (cases rule: faulty_cases)
    case (ran fs e1)
    then show ?thesis using r silentD [OF assms, of "w\<lparr>kw_faults := fs\<rparr>"] by simp
  qed (use r in simp)
qed

lemma silent_self: "(\<And>v. silent (c v)) \<Longrightarrow> silent (\<lambda>w. c w w)"
  by (simp add: silent_def)

lemma silent_ledger: "silent (on_ledger f)"
  unfolding on_ledger_def by (rule silent_faulty, rule silentI) (simp add: case_prod_unfold)

lemma silent_host: "silent (on_host f)"
  unfolding on_host_def by (rule silent_faulty, rule silentI) (simp add: case_prod_unfold)

lemma silent_refresh: "silent (refresh_ledger env run)"
  unfolding refresh_ledger_def by (rule silent_self) (rule silent_ledger)

lemma silent_append: "silent (append_event_record env entries)"
  unfolding append_event_record_def
  by (rule silent_faulty, rule silentI) (simp add: Let_def split: artifact.split)

lemma silent_event: "silent (append_kept_session_sweep_event env run entries)"
  unfolding append_kept_session_sweep_event_def by (intro silent_seq silent_append silent_refresh)

lemma silent_write: "silent (write_run_retention_record env r)"
  unfolding write_run_retention_record_def by (rule silent_faulty, rule silentI) simp

lemma silent_check: "silent (check_kept_run env run m r)"
proof -
  have "silent (verify_kept_run env r)"
    unfolding verify_kept_run_def by (simp add: silent_host silent_idle)
  then show ?thesis unfolding check_kept_run_def by (intro silent_seq silent_idle)
qed

lemma silent_ask: "silent (faulty n (\<lambda>w. (e, w)))"
  by (rule silent_faulty) (rule silent_idle)

lemma silent_status: "silent (\<lambda>w. case refresh_kept_run_status env m r w of ((e, _), v) \<Rightarrow> (e, v))"
  by (rule silentI) (simp add: refresh_kept_run_status_def case_prod_unfold silentD [OF silent_ask])

lemma status_world: "refresh_kept_run_status env m r w = (x, u) \<Longrightarrow>
    kw_trace u = kw_trace w \<and> kw_locks u = kw_locks w \<and> kw_manifest u = kw_manifest w"
  using silentD [OF silent_status, of env m r w] by (simp add: case_prod_unfold)

lemma sweep_session_spares:
  assumes "sweep_kept_session env host run detail r w = (out, v)" "kr_host r \<noteq> host \<or> kr_legacy r \<or> \<not> kr_can_stop r
    \<or> (\<forall>d. parse_rfc3339nano (kr_deadline r) = Some d \<longrightarrow> se_now env < d)"
  shows "kw_trace v = kw_trace w \<and> kw_locks v = kw_locks w \<and> kw_manifest v = kw_manifest w"
  using assms
  by (auto simp: sweep_kept_session_def Let_def case_prod_unfold silentD silent_event silent_write
      split: if_split_asm option.split_asm)

lemma stamped_deadline:
  "kr_deadline (stamp_kept_session_deadline now ttl r) = format_rfc3339nano (now + (if ttl \<le> 0 then default_keep_ttl else ttl))"
  "kr_phase (stamp_kept_session_deadline now ttl r) = kr_phase r"
  by (simp_all add: stamp_kept_session_deadline_def Let_def)

lemma stamped_phase [simp]: "kr_phase (stamped_record now r) = kr_phase r"
  by (simp add: stamped_record_def stamped_deadline)

text \<open>C30. A sweep spares every run of its host that has not outlived its deadline: only a run with a record that
  names the host, can be stopped and has a readable deadline in the past loses its locks or its state.\<close>

theorem sweep_spares_unexpired:
  assumes "sweep_kept_run env host run detail w = (out, v)"
    and "kw_trace v \<noteq> kw_trace w \<or> kw_locks v \<noteq> kw_locks w \<or> kw_manifest v \<noteq> kw_manifest w"
  shows "\<exists>m r deadline. find_kept_run run w = Inr (m, r) \<and> kr_host r = host \<and> \<not> kr_legacy r \<and> kr_can_stop r
     \<and> parse_rfc3339nano (kr_deadline r) = Some deadline \<and> deadline \<le> se_now env"
proof (cases "find_kept_run run w")
  case (Inl e)
  then show ?thesis using assms by (simp add: sweep_kept_run_def)
next
  case (Inr x)
  obtain m r where x: "x = (m, r)" by (cases x)
  obtain ce w1 where c: "check_kept_run env run m r w = (ce, w1)" by fastforce
  obtain se st w2 where s: "refresh_kept_run_status env m r w1 = ((se, st), w2)" by (metis surj_pair)
  have w1: "kw_trace w1 = kw_trace w \<and> kw_locks w1 = kw_locks w \<and> kw_manifest w1 = kw_manifest w"
    using silentD [OF silent_check, of env run m r w] c by simp
  have w2: "kw_trace w2 = kw_trace w \<and> kw_locks w2 = kw_locks w \<and> kw_manifest w2 = kw_manifest w"
    using status_world [OF s] w1 by simp
  obtain o2 w3 where k: "sweep_kept_session env host run detail r w2 = (o2, w3)" by fastforce
  have v: "v \<in> {w1, w2, w3}"
    using assms(1) Inr x c s k by (auto simp: sweep_kept_run_def split: if_split_asm)
  then have "kw_trace w3 \<noteq> kw_trace w2 \<or> kw_locks w3 \<noteq> kw_locks w2 \<or> kw_manifest w3 \<noteq> kw_manifest w2"
    using assms(2) w1 w2 by auto
  then have "\<not> (kr_host r \<noteq> host \<or> kr_legacy r \<or> \<not> kr_can_stop r
      \<or> (\<forall>d. parse_rfc3339nano (kr_deadline r) = Some d \<longrightarrow> se_now env < d))"
    using sweep_session_spares [OF k] by metis
  then have "kr_host r = host \<and> \<not> kr_legacy r \<and> kr_can_stop r
      \<and> (\<exists>d. parse_rfc3339nano (kr_deadline r) = Some d \<and> d \<le> se_now env)"
    by (simp add: linorder_not_less)
  then show ?thesis using Inr x by blast
qed

subsection \<open>Actions\<close>

text \<open>A stop, a sweep, or what other processes do to the locks, the host and the files the run left.\<close>

datatype 's stop_action =
    Stop "'s stop_env"
  | Sweep "'s stop_env" string string
  | Others lock_fs 's run_files "fault list"

fun perform :: "string \<Rightarrow> 's stop_action \<Rightarrow> 's stop_world \<Rightarrow> 's stop_world" where
  "perform run (Stop env) w = snd (stop_run env run w)"
| "perform run (Sweep env host detail) w = snd (sweep_kept_run env host run detail w)"
| "perform run (Others fs s files faults) w =
     w\<lparr>kw_locks := fs, kw_host := s, kw_files := files, kw_faults := faults\<rparr>"

lemma orderly_append: "orderly (append_event_record env entries)"
  unfolding append_event_record_def
  by (rule orderly_faulty, rule orderlyI) (simp add: Let_def split: artifact.split)

lemma behind_append: "behind run (append_event_record env entries)"
  unfolding append_event_record_def
proof (rule triple_faulty [OF behindI untouched_blind])
  fix w :: "'a stop_world" assume "untouched run w"
  then show "untouched run (snd (let line = se_enc env (JObj (new_run_event_record (se_now env) entries)) @ [newline];
      put = (\<lambda>content. w\<lparr>kw_files := (kw_files w)\<lparr>rf_state_events := Regular content\<rparr>\<rparr>) in
    case rf_state_events (kw_files w) of Regular content \<Rightarrow> ([], put (content @ line))
    | Irregular \<Rightarrow> ([StopIO ''append event''], w)
    | Absent \<Rightarrow> if has_state_dir w then ([], put line) else ([StopIO ''append event''], w)))"
    by (simp add: Let_def split: artifact.split)
qed simp_all

lemma inv_append: "triple (stop_inv run) (append_event_record env entries) (stop_inv run) (stop_inv run)"
  by (intro inv_split orderly_append behind_append)

lemma inv_refresh: "triple (stop_inv run) (refresh_ledger env run) (stop_inv run) (stop_inv run)"
  by (intro inv_split orderly_refresh behind_refresh)

lemma inv_event:
  "triple (stop_inv run) (append_kept_session_sweep_event env run entries) (stop_inv run) (stop_inv run)"
  unfolding append_kept_session_sweep_event_def by (rule triple_seq [OF inv_append inv_refresh])

lemma inv_host: "triple (stop_inv run) (on_host f) (stop_inv run) (stop_inv run)"
  by (intro inv_split orderly_host untouched_host)

lemma inv_check:
  "triple (stop_inv run) (check_step c :: 's stop_step) (stop_inv run) (stop_inv run)"
  by (intro inv_split orderly_check behind_check)

lemma inv_idle:
  "triple (stop_inv run) (\<lambda>w :: 's stop_world. (e :: stop_error list, w)) (stop_inv run) (stop_inv run)"
  by (intro inv_split orderly_idle behind_idle)

lemma inv_ask: "triple (stop_inv run) (faulty n (\<lambda>w. (e, w))) (stop_inv run) (stop_inv run)"
  by (rule triple_faulty [OF inv_idle]) (simp_all add: blind_def stop_inv_def)

lemma inv_write:
  assumes "kr_phase r = [] \<or> released_in_order w" "stop_inv run w"
  shows "stop_inv run (snd (write_run_retention_record env r w))"
proof (cases "released_in_order w")
  case True
  then show ?thesis by (simp add: stop_inv_def orderly_end [OF orderly_record])
next
  case False
  have "behind run (write_run_retention_record env r)"
    unfolding write_run_retention_record_def
  proof (rule triple_faulty [OF behindI untouched_blind])
    fix w :: "'a stop_world" assume "untouched run w"
    then show "untouched run (snd ([], w\<lparr>kw_record := RunRecord (stamped_record (se_now env) r)\<rparr>))"
      using False assms by (auto simp: untouched_def)
  qed simp_all
  moreover have "untouched run w" using False assms(2) by (simp add: stop_inv_def)
  ultimately have "untouched run (snd (write_run_retention_record env r w))" by (rule triple_end)
  then show ?thesis by (simp add: stop_inv_def)
qed

lemma inv_kept_stop:
  assumes "stop_inv run w"
  shows "stop_inv run (snd (stop_run_with_kept_expiry_event env run entries w))"
proof -
  define after where "after = (\<lambda>w. snd (append_kept_session_sweep_event env run entries w))"
  have h: "harmless after" by (simp add: harmless_def after_def silentD [OF silent_event])
  obtain pe v where p: "prepare_run_ledger_for_stop env run w = (pe, v)" by fastforce
  have v: "stop_inv run v" using triple_end [OF prepare_inv assms, of env] p by simp
  obtain se u where s: "stop_kept_run_after_broker_stop env run after v = (se, u)" by fastforce
  have u: "stop_inv run u" using triple_end [OF stop_kept_run_inv [OF h] v, of env] s by simp
  have "stop_inv run (snd (settle_ledger_after_stop env run b u))" for b
    by (rule triple_end [OF settled_ledger_inv u])
  then show ?thesis
    using v p s by (auto simp: stop_run_with_kept_expiry_event_def case_prod_unfold after_def)
qed

lemma inv_sweep_session:
  assumes "stop_inv run w" "kr_phase r = [] \<or> released_in_order w"
  shows "stop_inv run (snd (sweep_kept_session env host run detail r w))"
proof -
  have event: "stop_inv run (snd (append_kept_session_sweep_event env run entries v))" if "stop_inv run v" for entries v
    by (rule triple_end [OF inv_event that])
  have append: "stop_inv run (snd (append_event_record env entries v))" if "stop_inv run v" for entries v
    by (rule triple_end [OF inv_append that])
  have refresh: "stop_inv run (snd (refresh_ledger env run v))" if "stop_inv run v" for v
    by (rule triple_end [OF inv_refresh that])
  have stamp: "stop_inv run (snd (write_run_retention_record env (stamp_kept_session_deadline now ttl r) w))" for now ttl
    using assms(2) by (intro inv_write assms(1)) (simp add: stamped_deadline)
  have kept: "stop_inv run (snd (stop_run_with_kept_expiry_event env run entries w))" for entries
    by (rule inv_kept_stop [OF assms(1)])
  show ?thesis
    using assms(1) event append refresh stamp kept
    by (simp add: sweep_kept_session_def Let_def case_prod_unfold split: option.split)
qed

lemma found_phase:
  assumes "stop_inv run w" "find_kept_run run w = Inr (m, r)"
  shows "kr_phase r = [] \<or> released_in_order w"
proof (cases "released_in_order w")
  case False
  then have "untouched run w" using assms(1) by (simp add: stop_inv_def)
  then show ?thesis
    using assms(2) by (auto simp: untouched_def find_kept_run_def read_run_retention_record_def
        split: sum.split_asm option.split_asm if_split_asm)
qed simp

lemma orderly_status: "released_in_order w \<Longrightarrow> refresh_kept_run_status env m r w = (x, u) \<Longrightarrow> released_in_order u"
  by (simp add: released_in_order_def status_world)

lemma inv_sweep:
  assumes "stop_inv run w"
  shows "stop_inv run (snd (sweep_kept_run env host run detail w))"
proof (cases "find_kept_run run w")
  case (Inl e)
  then show ?thesis using assms by (simp add: sweep_kept_run_def)
next
  case (Inr x)
  obtain m r where x: "x = (m, r)" by (cases x)
  obtain ce w1 where c: "check_kept_run env run m r w = (ce, w1)" by fastforce
  obtain se st w2 where s: "refresh_kept_run_status env m r w1 = ((se, st), w2)" by (metis surj_pair)
  have p: "kr_phase r = [] \<or> released_in_order w" using found_phase [OF assms, of m r] Inr x by simp
  have check: "triple (stop_inv run) (check_kept_run env run m r) (stop_inv run) (stop_inv run)"
    unfolding check_kept_run_def verify_kept_run_def
    by (rule triple_seq [OF inv_check triple_seq [OF _ inv_check]]) (simp add: inv_host inv_idle)
  have w1: "stop_inv run w1" using triple_end [OF check assms] c by simp
  have "w2 = w1 \<or> w2 = snd (faulty ''session status'' (\<lambda>w. ([], w)) w1)"
    using s by (auto simp: refresh_kept_run_status_def case_prod_unfold split: if_split_asm)
  then have w2: "stop_inv run w2" using w1 triple_end [OF inv_ask w1] by auto
  have "released_in_order w \<Longrightarrow> released_in_order w2"
    using silentD [OF silent_check, of env run m r w] c status_world [OF s] by (simp add: released_in_order_def)
  then have k: "stop_inv run (snd (sweep_kept_session env host run detail r w2))"
    using p by (intro inv_sweep_session w2) blast
  show ?thesis
    using Inr x c s w1 w2 k by (simp add: sweep_kept_run_def case_prod_unfold)
qed

lemma perform_inv: "stop_inv run w \<Longrightarrow> stop_inv run (perform run a w)"
proof (cases a)
  case (Others fs s files faults)
  assume "stop_inv run w"
  then show ?thesis using Others by (simp add: stop_inv_def)
qed (simp_all add: stop_run_inv inv_sweep)

lemma actions_inv: "stop_inv run w \<Longrightarrow> stop_inv run (fold (perform run) actions w)"
  by (induction actions arbitrary: w) (simp_all add: perform_inv)

lemma ordered_trace_split:
  "ordered_trace (later @ x # earlier) \<Longrightarrow> x = HostSideRelease \<or> x = MirrorRelease \<Longrightarrow> settled_in earlier"
  by (induction later) auto


subsection \<open>Host locks\<close>

text \<open>The operations on the host side of the lock, as the record's host configuration dispatches them.\<close>

definition host_stop_env :: "maya_host_config \<Rightarrow> string \<Rightarrow> lock_world stop_env \<Rightarrow> lock_world stop_env" where
  "host_stop_env host run env = env\<lparr>
     se_verify_active := verify_host_side_lock_for_run (se_exists env) (se_pid env) (se_now env) host run,
     se_verify_kept := verify_kept_host_side_lock_for_run (se_exists env) (se_pid env) (se_now env) host run,
     se_verify_cleanup := verify_cleanup_host_side_lock_for_run (se_exists env) (se_pid env) (se_now env) host run,
     se_release := release_host_side_lock (se_exists env) (se_pid env) host run,
     se_fence := kept_host_lock_fence (se_exists env) (se_pid env) (se_now env) host run\<rparr>"

subsection \<open>Witnesses\<close>

definition kept_run_id :: string where "kept_run_id = ''r2''"

definition kept_host :: maya_host_config where
  "kept_host = (empty_host ''h1'' [])\<lparr>mh_work_root := ''/maya''\<rparr>"

definition kept_manifest :: stop_manifest where
  "kept_manifest = \<lparr>mf_run = kept_run_id, mf_scenario = ''smoke'', mf_profile = ''default'', mf_host = ''h1'',
     mf_adapter = ''gg-mayasessiond'', mf_session = Some ''s1''\<rparr>"

definition kept_record :: retention_record where
  "kept_record = \<lparr>kr_run = kept_run_id, kr_host = ''h1'', kr_adapter = ''gg-mayasessiond'', kr_status = ''kept'',
     kr_phase = [], kr_reason = ''debug'', kr_authoritative = True, kr_can_stop = True, kr_session = ''s1'',
     kr_work_root = ''/maya'', kr_remote_root = [], kr_ttl = ''1h30m0s'', kr_deadline = ''2025-07-25T11:24:56Z'',
     kr_legacy = False\<rparr>"

definition kept_lock :: node where
  "kept_lock = File (''keptRun: '' @ kept_run_id @ [newline])"

definition kept_bundle :: evidence_bundle where
  "kept_bundle = \<lparr>eb_run = kept_run_id, eb_scenario = ''smoke'', eb_profile = ''default'', eb_host = ''h1'', eb_status = ''passed''\<rparr>"

definition kept_env :: "(int \<Rightarrow> bool) \<Rightarrow> lock_world stop_env" where
  "kept_env alive = host_stop_env kept_host kept_run_id
     \<lparr>se_exists = alive, se_pid = 7, se_repo = ''/repo'', se_now = sample_now, se_hosts = [''h1''],
      se_enc = sample_enc, se_dec = sample_dec, se_available = None, se_bundle = Some kept_bundle, se_linked = None,
      se_verify_active = (\<lambda>s. (Inr (), s)), se_verify_kept = (\<lambda>s. (Inr (), s)), se_verify_cleanup = (\<lambda>s. (Inr (), s)),
      se_release = (\<lambda>s. (Inr (), s)), se_fence = None,
      se_report = \<lparr>sn_derived = ''running'', sn_session = ''s1'', sn_has_state = True\<rparr>\<rparr>"

definition kept_world :: "fault list \<Rightarrow> lock_world stop_world" where
  "kept_world faults = \<lparr>kw_manifest = ManifestFile kept_manifest, kw_record = RunRecord kept_record, kw_files = no_files,
     kw_ledger = [sample_entry (sample_record kept_run_id ''kept'' [])],
     kw_locks = [repo_lock_path ''/repo'' ''h1'' \<mapsto> kept_lock],
     kw_host = (lost_holder_host [], [(''/maya/state/locks/hosts'', ''h1'') \<mapsto> kept_lock]),
     kw_faults = faults, kw_trace = []\<rparr>"

lemma kept_run_trace:
  "kw_trace (fold (perform kept_run_id) [Stop (kept_env sample_alive), Stop (kept_env sample_alive)]
      (kept_world [Works, Works, Works, Works, Fails])) = [] @ MirrorRelease # [HostSideRelease, SessionSettled]"
  by code_simp


text \<open>Past its deadline, the sweep stops the run.\<close>

lemma kept_run_swept:
  "kw_trace (snd (sweep_kept_run (kept_env sample_alive) ''h1'' kept_run_id ''late'' (kept_world []))) \<noteq> []"
  by code_simp

theorem sweep_spares_unexpired_witness:
  "\<exists>m r deadline. find_kept_run kept_run_id (kept_world []) = Inr (m, r) \<and> kr_host r = ''h1'' \<and> \<not> kr_legacy r
     \<and> kr_can_stop r \<and> parse_rfc3339nano (kr_deadline r) = Some deadline \<and> deadline \<le> se_now (kept_env sample_alive)"
proof -
  have t: "kw_trace (kept_world []) = []" by (simp add: kept_world_def)
  obtain out v where s: "sweep_kept_run (kept_env sample_alive) ''h1'' kept_run_id ''late'' (kept_world []) = (out, v)"
    by fastforce
  show ?thesis by (rule sweep_spares_unexpired [OF s]) (use kept_run_swept s t in simp)
qed

text \<open>
  A controller that died with its session alive: the checks accept the lock it left, which names the
  run as active, but the broker's fence wants it kept, so the stop fails every time.
\<close>

definition crashed_lock :: node where
  "crashed_lock = File (''activeRun: '' @ kept_run_id @ newline # ''pid: 5'' @ [newline])"

definition crashed_world :: "lock_world stop_world" where
  "crashed_world = (kept_world [])\<lparr>kw_record := RunRecord (kept_record\<lparr>kr_status := ''running''\<rparr>),
     kw_ledger := [sample_entry (sample_record kept_run_id ''cleanup-failed'' [])],
     kw_locks := [repo_lock_path ''/repo'' ''h1'' \<mapsto> crashed_lock],
     kw_host := (lost_holder_host [], [(''/maya/state/locks/hosts'', ''h1'') \<mapsto> crashed_lock])\<rparr>"

lemma crashed_run_not_stopped:
  "case stop_run (kept_env (\<lambda>_. False)) kept_run_id crashed_world of
     (e, w) \<Rightarrow> e = [StopLock (OwnershipChanged ''h1'')] \<and> kw_trace w = []
       \<and> fst (stop_run (kept_env (\<lambda>_. False)) kept_run_id w) = [StopLock (OwnershipChanged ''h1'')]"
  by code_simp

end
