(* ===== verification/Kept_Resume.thy ===== *)
theory Kept_Resume
  imports Kept_Sweep
begin

text \<open>
  A stop that failed half way can be finished.  The stages of a stop: the run is kept, its session is
  stopped, its locks are released; every attempt to stop it, whatever fails in it, leaves the run in one of
  them, and from each of them an attempt in which nothing fails ends the run.
\<close>

subsection \<open>What the stages say\<close>

text \<open>The ledger's record of a run that is not settled.\<close>

definition ledger_at :: "string \<Rightarrow> string \<Rightarrow> ledger \<Rightarrow> bool" where
  "ledger_at run phase ledger \<longleftrightarrow>
     (case read_run_ledger_record ledger run of
        Inl _ \<Rightarrow> False
      | Inr l \<Rightarrow> lr_stop_phase l = phase \<and> lr_state l \<in> {''kept'', ''cleanup-failed''}
          \<and> [] \<notin> {lr_scenario l, lr_profile l, lr_host l, lr_status l})"

definition unsettled :: "string \<Rightarrow> ledger \<Rightarrow> bool" where
  "unsettled run ledger \<longleftrightarrow>
     (case read_run_ledger_record ledger run of Inl _ \<Rightarrow> False | Inr l \<Rightarrow> lr_state l \<in> {''kept'', ''cleanup-failed''})"

text \<open>A record whose broker can stop the session, on a host with an authoritative lock.\<close>

definition stoppable :: "retention_record \<Rightarrow> bool" where
  "stoppable r \<longleftrightarrow> kr_adapter r \<in> set supported_adapters \<and> kr_authoritative r \<and> kr_status r \<noteq> ''running''
     \<and> (case retained_remote_run_root r of Inl _ \<Rightarrow> False | Inr path \<Rightarrow> trim_space path \<noteq> [])"

definition mirror_gone :: "string \<Rightarrow> string \<Rightarrow> lock_fs \<Rightarrow> bool" where
  "mirror_gone repo host fs \<longleftrightarrow> validate_host_id host = Inr () \<and> fs (mutex_path (repo_lock_path repo host)) = None \<and> fs (repo_lock_path repo host) = None"

definition mirror_held :: "string \<Rightarrow> string \<Rightarrow> string \<Rightarrow> lock_fs \<Rightarrow> bool" where
  "mirror_held repo host run fs \<longleftrightarrow> validate_host_id host = Inr () \<and> fs (mutex_path (repo_lock_path repo host)) = None
     \<and> (case fs (repo_lock_path repo host) of
          Some (File c) \<Rightarrow> own_kept (parse_host_lock_owner c) = run \<and> kept_run_line (split_on newline c) = Some run
        | _ \<Rightarrow> False)"

subsection \<open>The ledger\<close>

lemma ledger_atE:
  assumes "ledger_at run phase ledger"
  obtains l where "read_run_ledger_record ledger run = Inr l" "lr_stop_phase l = phase"
    "lr_state l = ''kept'' \<or> lr_state l = ''cleanup-failed''" "[] \<notin> {lr_scenario l, lr_profile l, lr_host l, lr_status l}"
  using assms by (auto simp: ledger_at_def split: sum.split_asm)

lemma ledger_atI:
  "read_run_ledger_record ledger run = Inr l \<Longrightarrow> lr_stop_phase l = phase \<Longrightarrow>
     lr_state l = ''kept'' \<or> lr_state l = ''cleanup-failed'' \<Longrightarrow> [] \<notin> {lr_scenario l, lr_profile l, lr_host l, lr_status l} \<Longrightarrow>
     ledger_at run phase ledger"
  by (auto simp: ledger_at_def)

lemma ledger_at_phase: "ledger_at run phase ledger \<Longrightarrow> ledger_phase ledger run = phase"
  by (auto simp: ledger_phase_def elim: ledger_atE)

lemma ledger_at_unsettled: "ledger_at run phase ledger \<Longrightarrow> unsettled run ledger"
  by (auto simp: unsettled_def elim: ledger_atE)

lemma read_written:
  assumes "read_run_ledger_record ledger run = Inr l" "lr_version r = lr_version l" "lr_run r = lr_run l"
    "lr_accepted r = lr_accepted l" "lr_events r = lr_events l" "lr_log r = lr_log l" "lr_evidence r = lr_evidence l"
  shows "read_run_ledger_record (write_run_ledger_record ledger r) run = Inr r"
proof -
  note c = read_record_check [OF assms(1)]
  have run: "lr_run r = run" using read_record_run [OF assms(1)] assms(3) by simp
  have "check_run_ledger_record run r = Inr r"
    by (rule check_record_cong [of run l]) (use c assms in simp_all)
  then show ?thesis using c run by (simp add: write_record_dir read_update_dir)
qed

lemma checkpoint_at:
  assumes "ledger_at run q ledger" "phase \<in> set stop_phases"
  shows "\<exists>ledger'. checkpoint_run_ledger_stop_phase bundle run phase now ledger = (Inr (), ledger') \<and> ledger_at run phase ledger'"
proof -
  obtain l where l: "read_run_ledger_record ledger run = Inr l" "[] \<notin> {lr_scenario l, lr_profile l, lr_host l, lr_status l}"
    using assms(1) by (rule ledger_atE)
  define r where "r = l\<lparr>lr_stop_phase := phase, lr_state := ''cleanup-failed'', lr_completed := [],
    lr_updated := format_rfc3339nano now\<rparr>"
  have w: "checkpoint_run_ledger_stop_phase bundle run phase now ledger = (Inr (), write_run_ledger_record ledger r)"
    using assms(2) l by (simp add: checkpoint_run_ledger_stop_phase_def r_def Let_def)
  have "read_run_ledger_record (write_run_ledger_record ledger r) run = Inr r"
    by (rule read_written [OF l(1)]) (simp_all add: r_def)
  then have "ledger_at run phase (write_run_ledger_record ledger r)"
    by (rule ledger_atI) (use l(2) in \<open>simp_all add: r_def\<close>)
  with w show ?thesis by blast
qed

lemma counted_names:
  "counted l r \<Longrightarrow> lr_scenario r = lr_scenario l \<and> lr_profile r = lr_profile l \<and> lr_host r = lr_host l"
  by (cases l; cases r) (simp add: counted_def)

lemma settle_failed_at:
  assumes "ledger_at run q ledger"
  shows "ledger_at run q (snd (update_run_ledger_after_stop enc dec available files run True now ledger))"
proof -
  obtain l where l: "read_run_ledger_record ledger run = Inr l" "lr_stop_phase l = q"
    "lr_state l = ''kept'' \<or> lr_state l = ''cleanup-failed''" "[] \<notin> {lr_scenario l, lr_profile l, lr_host l, lr_status l}"
    using assms by (rule ledger_atE)
  obtain res ledger' where u: "update_run_ledger_after_stop enc dec available files run True now ledger = (res, ledger')"
    by fastforce
  obtain r where r: "counted (settled l True now) r" "read_run_ledger_record ledger' run = Inr r"
    using settled_read [OF l(1,3) u] by blast
  show ?thesis
    unfolding u snd_conv
    by (rule ledger_atI [OF r(2)]) (use l counted_fields [OF r(1)] counted_names [OF r(1)] in \<open>simp_all add: settled_def\<close>)
qed

lemma settle_done:
  assumes "ledger_at run q ledger" "rf_state_events files = Absent"
  shows "fst (update_run_ledger_after_stop enc dec available files run False now ledger) = Inr ()"
    and "\<not> unsettled run (snd (update_run_ledger_after_stop enc dec available files run False now ledger))"
proof -
  obtain l where l: "read_run_ledger_record ledger run = Inr l" "lr_state l = ''kept'' \<or> lr_state l = ''cleanup-failed''"
    using assms(1) by (rule ledger_atE)
  obtain res ledger' where u: "update_run_ledger_after_stop enc dec available files run False now ledger = (res, ledger')"
    by fastforce
  obtain r where r: "counted (settled l False now) r" "read_run_ledger_record ledger' run = Inr r"
    using settled_read [OF l(1,2) u] by blast
  show "\<not> unsettled run (snd (update_run_ledger_after_stop enc dec available files run False now ledger))"
    unfolding u snd_conv using r(2) counted_fields [OF r(1)] by (simp add: unsettled_def settled_def)
  show "fst (update_run_ledger_after_stop enc dec available files run False now ledger) = Inr ()"
    using l assms(2) by (auto simp: update_run_ledger_after_stop_def Let_def)
qed

lemma refresh_at:
  assumes "ledger_at run q ledger"
  shows "ledger_at run q (snd (refresh_run_ledger_artifacts enc dec available files run now ledger))"
proof -
  obtain l where l: "read_run_ledger_record ledger run = Inr l" "lr_stop_phase l = q"
    "lr_state l = ''kept'' \<or> lr_state l = ''cleanup-failed''" "[] \<notin> {lr_scenario l, lr_profile l, lr_host l, lr_status l}"
    using assms by (rule ledger_atE)
  note c = read_record_check [OF l(1)]
  have run: "lr_run l = run" by (rule read_record_run [OF l(1)])
  define policy where "policy = (case available of Some p \<Rightarrow> p | None \<Rightarrow> fallback_run_ledger_policy l)"
  obtain x d where s: "sync_run_ledger_artifacts enc dec policy files l (dir_of ledger run) = (x, d)" by fastforce
  have d: "ld_record d = StoredRecord l" using sync_artifacts_record [OF s] dir_of_read [OF l(1)] by simp
  define out where "out = (case x of Inl _ \<Rightarrow> update_dir ledger run d
    | Inr r \<Rightarrow> update_dir ledger run (d\<lparr>ld_record := StoredRecord (r\<lparr>lr_updated := format_rfc3339nano now\<rparr>)\<rparr>))"
  have o: "snd (refresh_run_ledger_artifacts enc dec available files run now ledger) = out"
    using s run by (simp add: refresh_run_ledger_artifacts_def l(1) sync_and_write_def policy_def out_def split: sum.split)
  show ?thesis
  proof (cases x)
    case (Inl e)
    then have "read_run_ledger_record out run = Inr l" using c d by (simp add: out_def read_update_dir)
    then show ?thesis unfolding o by (rule ledger_atI) (use l in simp_all)
  next
    case (Inr r)
    have r: "counted l r" using sync_artifacts_record [OF s] Inr by blast
    let ?r = "r\<lparr>lr_updated := format_rfc3339nano now\<rparr>"
    have "check_run_ledger_record run ?r = Inr ?r"
      by (rule check_record_cong [of run l]) (use c counted_fields [OF r] in simp_all)
    then have "read_run_ledger_record out run = Inr ?r" using c Inr by (simp add: out_def read_update_dir)
    then show ?thesis unfolding o by (rule ledger_atI) (use l counted_fields [OF r] counted_names [OF r] in simp_all)
  qed
qed

subsection \<open>The mirror\<close>

lemma mirror_heldE:
  assumes "mirror_held repo host run fs"
  obtains c where "validate_host_id host = Inr ()" "fs (mutex_path (repo_lock_path repo host)) = None" "fs (repo_lock_path repo host) = Some (File c)"
    "own_kept (parse_host_lock_owner c) = run" "kept_run_line (split_on newline c) = Some run"
  using assms by (auto simp: mirror_held_def split: option.split_asm node.split_asm)

lemma kept_mirror_checks:
  assumes "mirror_held repo host run fs"
  shows "ensure_run_has_kept_lock repo host run a fs = Inr ()"
  by (rule mirror_heldE [OF assms])
    (simp add: ensure_run_has_kept_lock_def read_host_lock_kept_run_def rbind_Inr)

lemma pending_mirror_checks:
  assumes "mirror_held repo host run fs \<or> mirror_gone repo host fs"
  shows "ensure_run_has_cleanup_pending_lock repo host run True fs = Inr ()"
  using assms by (auto elim: mirror_heldE simp: ensure_run_has_cleanup_pending_lock_def mirror_gone_def)

lemma mirror_removed:
  assumes "mirror_held repo host run fs \<or> mirror_gone repo host fs"
  shows "\<exists>fs'. remove_repo_host_lock_for_run pe pid repo host run fs = (Inr (), fs') \<and> mirror_gone repo host fs'"
proof -
  let ?p = "repo_lock_path repo host"
  define action where "action = (\<lambda>fs. case fs ?p of
              None \<Rightarrow> (Inr (), fs)
            | Some (Symlink _) \<Rightarrow> (Inl (LockSymlink host), fs)
            | Some (File content) \<Rightarrow>
                (let own = parse_host_lock_owner content in
                 if own_kept own = run \<or> own_active own = run
                 then (Inr (), fs(?p := None))
                 else if own_kept own \<noteq> [] \<or> own_active own \<noteq> [] then (Inr (), fs)
                 else (Inl (NoRunOwner host), fs)))"
  have free: "fs (mutex_path ?p) = None" and host: "validate_host_id host = Inr ()"
    using assms by (auto simp: mirror_gone_def elim: mirror_heldE)
  have rm: "remove_repo_host_lock_for_run pe pid repo host run fs = with_local_host_side_mutex pe pid ?p action fs"
    using host by (simp add: remove_repo_host_lock_for_run_def action_def)
  obtain fs1 where f: "\<And>q. q \<noteq> mutex_path ?p \<Longrightarrow> fs1 q = fs q" "fs1 (mutex_path ?p) \<noteq> None"
    and w: "remove_repo_host_lock_for_run pe pid repo host run fs = (case action fs1 of (r, fs2) \<Rightarrow>
           if fs2 (mutex_path ?p) = None
           then (case r of Inl e \<Rightarrow> (Inl e, fs2) | Inr _ \<Rightarrow> (Inl (MutexMissing (snd ?p)), fs2))
           else (r, fs2(mutex_path ?p := None)))"
    using mutex_free [where p = ?p and fs = fs, OF free, of pe pid action] unfolding rm by blast
  have p: "fs1 ?p = fs ?p" using f(1) mutex_path_other(2) by metis
  have "fst (action fs1) = Inr () \<and> snd (action fs1) ?p = None \<and> snd (action fs1) (mutex_path ?p) \<noteq> None"
    using assms f(2) by (auto simp: action_def p mirror_gone_def Let_def elim!: mirror_heldE)
  then show ?thesis unfolding w using host by (auto simp: mirror_gone_def split: prod.split)
qed

subsection \<open>Steps that succeed unless something fails in them\<close>

definition calm :: "'s stop_world \<Rightarrow> bool" where
  "calm w \<longleftrightarrow> kw_faults w = []"

text \<open>
  From a state in \<open>P\<close> a step ends in \<open>Q\<close>, or reports an error and leaves a stage \<open>J\<close> of the stop; when
  nothing fails it ends in \<open>Q\<close>.
\<close>

definition lands :: "('s stop_world \<Rightarrow> bool) \<Rightarrow> ('s stop_world \<Rightarrow> bool) \<Rightarrow> 's stop_step \<Rightarrow> ('s stop_world \<Rightarrow> bool) \<Rightarrow> bool" where
  "lands J P c Q \<longleftrightarrow> triple P c Q J \<and> triple (\<lambda>w. P w \<and> calm w) c (\<lambda>w. Q w \<and> calm w) (\<lambda>_. False)"

lemma lands_seq: "lands J P a Q \<Longrightarrow> lands J Q b S \<Longrightarrow> lands J P (seq_step a b) S"
  unfolding lands_def by (blast intro: triple_seq)

lemma lands_weaken:
  "lands J P c Q \<Longrightarrow> (\<And>w. P' w \<Longrightarrow> P w) \<Longrightarrow> (\<And>w. Q w \<Longrightarrow> Q' w) \<Longrightarrow> lands J P' c Q'"
  unfolding lands_def triple_def by meson

lemma lands_exact:
  assumes "\<And>w. P w \<Longrightarrow> \<exists>u. c w = ([], u) \<and> Q u \<and> kw_faults u = kw_faults w"
  shows "lands J P c Q"
  unfolding lands_def triple_def calm_def using assms by (metis Pair_inject)

lemma lands_faulty:
  assumes "\<And>w. P w \<Longrightarrow> \<exists>u. c w = ([], u) \<and> Q u \<and> kw_faults u = kw_faults w" "blind P"
    "\<And>w. P w \<Longrightarrow> J w" "\<And>w. Q w \<Longrightarrow> J w"
  shows "lands J P (faulty name c) Q"
  unfolding lands_def
proof
  have "triple P c Q J" using lands_exact [of P c Q J, OF assms(1)] by (simp add: lands_def)
  from this assms(2) show "triple P (faulty name c) Q J" by (rule triple_faulty) (rule assms(3) assms(4); assumption)+
  show "triple (\<lambda>w. P w \<and> calm w) (faulty name c) (\<lambda>w. Q w \<and> calm w) (\<lambda>_. False)"
  proof (rule tripleI)
    fix w e u assume p: "P w \<and> calm w" and r: "faulty name c w = (e, u)"
    then have "c w = (e, u)" by (simp add: faulty_def next_fault_def calm_def)
    then show "if e = [] then Q u \<and> calm u else False"
      using assms(1) [of w] p by (auto simp: calm_def)
  qed
qed

lemma landsD:
  assumes "lands J P c Q" "P w" "c w = (e, u)"
  shows "if e = [] then Q u else J u" "calm w \<Longrightarrow> e = [] \<and> calm u"
  using assms tripleD [of P c Q J w e u]
    tripleD [of "\<lambda>w. P w \<and> calm w" c "\<lambda>w. Q w \<and> calm w" "\<lambda>_. False" w e u]
  by (auto simp: lands_def split: if_splits)

lemma landsE:
  "lands J P c Q \<Longrightarrow> P w \<Longrightarrow> c w = (e, u) \<Longrightarrow> (if e = [] then Q u else J u) \<and> (calm w \<longrightarrow> e = [] \<and> calm u)"
  using landsD by blast

lemma landsI:
  assumes "\<And>w e u. P w \<Longrightarrow> c w = (e, u) \<Longrightarrow> (if e = [] then Q u else J u) \<and> (calm w \<longrightarrow> e = [] \<and> calm u)"
  shows "lands J P c Q"
  unfolding lands_def triple_def using assms by (metis (full_types))

lemma lands_idle: "(\<And>w. P w \<Longrightarrow> Q w) \<Longrightarrow> lands J P (\<lambda>w. ([], w)) Q"
  by (rule lands_exact) auto

lemma lands_check: "(\<And>w. P w \<Longrightarrow> c w = []) \<Longrightarrow> lands J P (check_step c) P"
  by (rule lands_exact) (simp add: check_step_def)

lemma lands_host:
  assumes "\<And>s. H s \<Longrightarrow> fst (f s) = Inr () \<and> H' (snd (f s))" "\<And>w. P w \<Longrightarrow> H (kw_host w)"
    "\<And>w s. P w \<Longrightarrow> H' s \<Longrightarrow> Q (w\<lparr>kw_host := s\<rparr>)" "blind P" "\<And>w. P w \<Longrightarrow> J w" "\<And>w. Q w \<Longrightarrow> J w"
  shows "lands J P (on_host f) Q"
  unfolding on_host_def
proof (rule lands_faulty [OF _ assms(4) assms(5) assms(6)])
  fix w assume p: "P w"
  note h = assms(1) [OF assms(2) [OF p]]
  then have q: "Q (w\<lparr>kw_host := snd (f (kw_host w))\<rparr>)" using assms(3) [OF p] by blast
  show "\<exists>u. (case f (kw_host w) of (r, s) \<Rightarrow> (errors_of StopLock r, w\<lparr>kw_host := s\<rparr>)) = ([], u) \<and> Q u
      \<and> kw_faults u = kw_faults w"
    by (rule exI [of _ "w\<lparr>kw_host := snd (f (kw_host w))\<rparr>"]) (use h q in \<open>simp add: case_prod_unfold errors_of_def\<close>)
qed

lemma lands_checkpoint:
  assumes "phase \<in> set stop_phases" "\<And>w. P w \<Longrightarrow> \<exists>q. ledger_at run q (kw_ledger w)"
    "\<And>w l. P w \<Longrightarrow> ledger_at run phase l \<Longrightarrow> Q (w\<lparr>kw_ledger := l\<rparr>)" "blind P" "\<And>w. P w \<Longrightarrow> J w" "\<And>w. Q w \<Longrightarrow> J w"
  shows "lands J P (checkpoint_stop_phase env run phase) Q"
  unfolding checkpoint_stop_phase_def on_ledger_def
proof (rule lands_faulty [OF _ assms(4) assms(5) assms(6)])
  fix w assume p: "P w"
  let ?stated = "case se_bundle env of None \<Rightarrow> Inl run | Some b \<Rightarrow> Inr b"
  obtain q where "ledger_at run q (kw_ledger w)" using assms(2) [OF p] by blast
  from checkpoint_at [OF this assms(1), of ?stated "se_now env"] obtain l
    where "checkpoint_run_ledger_stop_phase ?stated run phase (se_now env) (kw_ledger w) = (Inr (), l)" "ledger_at run phase l"
    by blast
  then show "\<exists>u. (case checkpoint_run_ledger_stop_phase ?stated run phase (se_now env) (kw_ledger w) of
      (r, l) \<Rightarrow> (errors_of StopLedger r, w\<lparr>kw_ledger := l\<rparr>)) = ([], u) \<and> Q u \<and> kw_faults u = kw_faults w"
    using assms(3) [OF p] by (simp add: errors_of_def)
qed

text \<open>Writing the record is tried, and not relied on.\<close>

lemma write_tried:
  assumes "\<And>w. P w \<Longrightarrow> P (w\<lparr>kw_record := RunRecord (stamped_record (se_now env) r)\<rparr>)" "blind P" "P w"
    "write_run_retention_record env r w = (te, v)"
  shows "P v" "calm w \<Longrightarrow> te = [] \<and> calm v"
proof -
  have "lands P P (write_run_retention_record env r) P"
    unfolding write_run_retention_record_def by (rule lands_faulty [OF _ assms(2)]) (simp_all add: assms(1))
  from landsD [OF this assms(3,4)] show "P v" "calm w \<Longrightarrow> te = [] \<and> calm v" by (auto split: if_splits)
qed

lemma faulty_errors:
  assumes "\<And>w. P w \<Longrightarrow> fst (c w) = []" "blind P" "P w"
  shows "fst (faulty name c w) \<in> {[], [StopIO name]}"
proof -
  obtain x v where n: "next_fault w = (x, v)" by (cases "next_fault w")
  obtain fs where "v = w\<lparr>kw_faults := fs\<rparr>" by (rule next_fault_world [OF n])
  then have "fst (c v) = []" using assms(1) [of v] blindD [OF assms(2)] assms(3) by simp
  then show ?thesis by (cases x) (auto simp: faulty_def n case_prod_unfold)
qed

subsection \<open>The stages\<close>

lemma stoppable_updates [simp]:
  "stoppable (r\<lparr>kr_phase := p\<rparr>) = stoppable r" "stoppable (r\<lparr>kr_legacy := b\<rparr>) = stoppable r"
  "stoppable (r\<lparr>kr_session := s\<rparr>) = stoppable r" "stoppable (r\<lparr>kr_ttl := t, kr_deadline := d\<rparr>) = stoppable r"
  by (simp_all add: stoppable_def retained_remote_run_root_def Let_def split: sum.split)

lemma stoppable_stamped [simp]: "stoppable (stamped_record now r) = stoppable r"
  by (simp add: stamped_record_def stamp_kept_session_deadline_def Let_def)

lemma stoppable_parts:
  assumes "stoppable r"
  shows "kr_adapter r \<in> set supported_adapters" "kr_authoritative r" "kr_status r \<noteq> ''running''"
    "\<exists>path. retained_remote_run_root r = Inr path \<and> trim_space path \<noteq> []"
  using assms by (auto simp: stoppable_def split: sum.split_asm)

definition cleaned_record :: "string \<Rightarrow> record_file \<Rightarrow> bool" where
  "cleaned_record q f \<longleftrightarrow> (\<exists>r. f = RunRecord r \<and> stoppable r
     \<and> (kr_phase r = ''broker-cleaned'' \<or> kr_phase r = [] \<and> q = ''broker-cleaned''))"

definition released_record :: "record_file \<Rightarrow> bool" where
  "released_record f \<longleftrightarrow> f = NoRunRecord \<or> (\<exists>r. f = RunRecord r \<and> kr_phase r \<in> {[], ''host-lock-released''})"

text \<open>
  The contract of the host side of the lock: while it is held for the run, a verification and
  the fence pass and keep it; a release gives it back, and may be repeated.
\<close>

locale stop_host =
  fixes held gone :: "'s \<Rightarrow> bool" and envs :: "'s stop_env set" and repo run :: string and m :: stop_manifest
  assumes repo: "env \<in> envs \<Longrightarrow> se_repo env = repo"
    and verify: "env \<in> envs \<Longrightarrow> held s \<Longrightarrow> fst (se_verify_kept env s) = Inr () \<and> held (snd (se_verify_kept env s))"
    and fence: "env \<in> envs \<Longrightarrow> se_fence env = Some f \<Longrightarrow> held s \<Longrightarrow> fst (f s) = Inr () \<and> held (snd (f s))"
    and release: "env \<in> envs \<Longrightarrow> held s \<or> gone s \<Longrightarrow> fst (se_release env s) = Inr () \<and> gone (snd (se_release env s))"
begin

definition kept_stage :: "'s stop_world \<Rightarrow> bool" where
  "kept_stage w \<longleftrightarrow> kw_manifest w = ManifestFile m
     \<and> (\<exists>r. kw_record w = RunRecord r \<and> stoppable r \<and> kr_phase r = []) \<and> ledger_at run [] (kw_ledger w)
     \<and> mirror_held repo (mf_host m) run (kw_locks w) \<and> held (kw_host w)"

definition cleaned_stage :: "string \<Rightarrow> 's stop_world \<Rightarrow> bool" where
  "cleaned_stage q w \<longleftrightarrow> kw_manifest w = ManifestFile m \<and> cleaned_record q (kw_record w)
     \<and> q \<in> {''broker-cleaned'', ''host-lock-released''} \<and> ledger_at run q (kw_ledger w)
     \<and> (mirror_held repo (mf_host m) run (kw_locks w) \<or> mirror_gone repo (mf_host m) (kw_locks w))
     \<and> (held (kw_host w) \<or> gone (kw_host w))"

definition released_stage :: "'s stop_world \<Rightarrow> bool" where
  "released_stage w \<longleftrightarrow> mirror_gone repo (mf_host m) (kw_locks w) \<and> gone (kw_host w)
     \<and> ledger_at run ''host-lock-released'' (kw_ledger w)
     \<and> (kw_manifest w = ManifestFile m \<and> released_record (kw_record w) \<or> kw_manifest w = NoManifest)"

definition stage :: "'s stop_world \<Rightarrow> bool" where
  "stage w \<longleftrightarrow> kept_stage w \<or> (\<exists>q. cleaned_stage q w) \<or> released_stage w"

definition ended :: "'s stop_world \<Rightarrow> bool" where
  "ended w \<longleftrightarrow> released_stage w \<and> kw_manifest w = NoManifest \<and> kw_record w = NoRunRecord
     \<and> rf_state_events (kw_files w) = Absent"

text \<open>Before the run's state is removed: everything is released, or only the record does not say so.\<close>

definition last_stage :: "'s stop_world \<Rightarrow> bool" where
  "last_stage w \<longleftrightarrow> mirror_gone repo (mf_host m) (kw_locks w) \<and> gone (kw_host w)
     \<and> ledger_at run ''host-lock-released'' (kw_ledger w)
     \<and> (kw_manifest w = ManifestFile m
          \<and> (released_record (kw_record w) \<or> cleaned_record ''host-lock-released'' (kw_record w))
        \<or> kw_manifest w = NoManifest)"

lemmas stage_defs = kept_stage_def cleaned_stage_def released_stage_def last_stage_def

lemma stage_faults [simp]:
  "kept_stage (w\<lparr>kw_faults := fs\<rparr>) = kept_stage w" "cleaned_stage q (w\<lparr>kw_faults := fs\<rparr>) = cleaned_stage q w"
  "released_stage (w\<lparr>kw_faults := fs\<rparr>) = released_stage w" "stage (w\<lparr>kw_faults := fs\<rparr>) = stage w"
  "last_stage (w\<lparr>kw_faults := fs\<rparr>) = last_stage w"
  by (simp_all add: stage_defs stage_def)

lemma last_is_stage: "last_stage w \<Longrightarrow> stage w"
  by (auto simp: stage_defs stage_def)

lemma cleanup_lands: "lands stage last_stage cleanup_run_state ended"
proof (rule landsI)
  fix w e u assume l: "last_stage w" and r: "cleanup_run_state w = (e, u)"
  obtain x v where n: "next_fault w = (x, v)" by (cases "next_fault w")
  obtain fs where v: "v = w\<lparr>kw_faults := fs\<rparr>" by (rule next_fault_world [OF n])
  have lv: "last_stage v" using l v by simp
  have "if e = [] then ended u else stage u"
  proof (cases x)
    case Works
    then show ?thesis
      using lv r n by (auto simp: cleanup_run_state_def ended_def stage_defs without_state_files_def)
  next
    case Fails
    then show ?thesis using lv r n last_is_stage by (auto simp: cleanup_run_state_def)
  next
    case (Partly a b)
    have "released_stage u"
      using lv r n unfolding Partly
      by (cases a; cases b) (auto simp: cleanup_run_state_def Let_def released_stage_def last_stage_def released_record_def)
    moreover have "e \<noteq> []" using r n unfolding Partly by (auto simp: cleanup_run_state_def Let_def)
    ultimately show ?thesis by (simp add: stage_def)
  qed
  moreover have "calm w \<Longrightarrow> e = [] \<and> calm u" using r by (auto simp: cleanup_run_state_def next_fault_def calm_def)
  ultimately show "(if e = [] then ended u else stage u) \<and> (calm w \<longrightarrow> e = [] \<and> calm u)" by blast
qed

end

context stop_host
begin

text \<open>\<open>finishReleasedStopRun\<close>: the host side is released, the mirror may be.\<close>

definition host_released :: "'s stop_world \<Rightarrow> bool" where
  "host_released w \<longleftrightarrow> kw_manifest w = ManifestFile m
     \<and> ((\<exists>q. cleaned_stage q w) \<and> gone (kw_host w) \<or> released_stage w)"

lemma host_released_stage: "host_released w \<Longrightarrow> stage w"
  by (auto simp: host_released_def stage_def)

lemma cleaned_cong:
  "kw_manifest v = kw_manifest w \<Longrightarrow> kw_record v = kw_record w \<Longrightarrow> kw_ledger v = kw_ledger w \<Longrightarrow> kw_host v = kw_host w \<Longrightarrow>
     mirror_held repo (mf_host m) run (kw_locks v) \<or> mirror_gone repo (mf_host m) (kw_locks v) \<Longrightarrow>
     cleaned_stage q w \<Longrightarrow> cleaned_stage q v"
  by (simp add: cleaned_stage_def)

lemma mirror_lands:
  assumes "env \<in> envs"
  shows "lands stage host_released (remove_mirror env (mf_host m) run)
    (\<lambda>w. host_released w \<and> mirror_gone repo (mf_host m) (kw_locks w))"
  unfolding remove_mirror_def
proof (rule lands_faulty)
  fix w assume h: "host_released w"
  have "mirror_held repo (mf_host m) run (kw_locks w) \<or> mirror_gone repo (mf_host m) (kw_locks w)"
    using h by (auto simp: host_released_def cleaned_stage_def released_stage_def)
  then obtain fs where fs: "remove_repo_host_lock_for_run (se_exists env) (se_pid env) repo (mf_host m) run (kw_locks w) = (Inr (), fs)"
    "mirror_gone repo (mf_host m) fs"
    using mirror_removed by blast
  define u where "u = stop_log MirrorRelease (w\<lparr>kw_locks := fs\<rparr>)"
  have u: "kw_manifest u = kw_manifest w" "kw_record u = kw_record w" "kw_ledger u = kw_ledger w" "kw_host u = kw_host w"
      "kw_locks u = fs" "kw_faults u = kw_faults w"
    by (simp_all add: u_def stop_log_def)
  have "cleaned_stage q u" if "cleaned_stage q w" for q
    by (rule cleaned_cong [of u w]) (use that u fs in simp_all)
  moreover have "released_stage u" if "released_stage w" using that u fs by (simp add: released_stage_def)
  ultimately have "host_released u" using h u by (auto simp: host_released_def)
  then show "\<exists>u. (case remove_repo_host_lock_for_run (se_exists env) (se_pid env) (se_repo env) (mf_host m) run (kw_locks w) of
      (r, fs) \<Rightarrow> (errors_of StopLock r, stop_log MirrorRelease (w\<lparr>kw_locks := fs\<rparr>))) = ([], u)
      \<and> (host_released u \<and> mirror_gone repo (mf_host m) (kw_locks u)) \<and> kw_faults u = kw_faults w"
    using fs u repo [OF assms] by (intro exI [of _ u]) (simp add: errors_of_def u_def)
qed (auto simp: blind_def host_released_def stage_def)

lemma last_record:
  "last_stage w \<Longrightarrow> kr_phase r = ''host-lock-released'' \<Longrightarrow> kw_manifest w = ManifestFile m \<Longrightarrow>
     last_stage (w\<lparr>kw_record := RunRecord (stamped_record now r)\<rparr>)"
  by (auto simp: last_stage_def released_record_def)

lemma finish_lands:
  assumes "env \<in> envs"
  shows "lands stage host_released (finish_released_stop_run env (mf_host m) run r) ended"
  unfolding finish_released_stop_run_def
proof (intro lands_seq [OF mirror_lands [OF assms]] lands_seq)
  let ?P = "\<lambda>w. host_released w \<and> mirror_gone repo (mf_host m) (kw_locks w)"
  let ?Q = "\<lambda>w. last_stage w \<and> kw_manifest w = ManifestFile m"
  show "lands stage ?P (checkpoint_stop_phase env run ''host-lock-released'') ?Q"
  proof (rule lands_checkpoint)
    show "''host-lock-released'' \<in> set stop_phases" by (simp add: stop_phases_def)
    show "\<And>w. ?P w \<Longrightarrow> \<exists>q. ledger_at run q (kw_ledger w)"
      by (auto simp: host_released_def cleaned_stage_def released_stage_def)
    show "\<And>w l. ?P w \<Longrightarrow> ledger_at run ''host-lock-released'' l \<Longrightarrow> ?Q (w\<lparr>kw_ledger := l\<rparr>)"
      by (auto simp: host_released_def stage_defs released_record_def cleaned_record_def)
    show "blind ?P" by (auto simp: blind_def host_released_def)
  qed (auto intro: host_released_stage last_is_stage)
  let ?r = "r\<lparr>kr_phase := ''host-lock-released''\<rparr>"
  show "lands stage ?Q (\<lambda>w. case write_run_retention_record env ?r w of
         (te, v) \<Rightarrow> (case cleanup_run_state v of (ce, u) \<Rightarrow> (if ce = [] then [] else te @ ce, u))) ended"
  proof (rule landsI)
    fix w e u assume q: "?Q w"
      and c: "(case write_run_retention_record env ?r w of
         (te, v) \<Rightarrow> (case cleanup_run_state v of (ce, u) \<Rightarrow> (if ce = [] then [] else te @ ce, u))) = (e, u)"
    obtain te v where t: "write_run_retention_record env ?r w = (te, v)" by fastforce
    obtain ce u' where ce: "cleanup_run_state v = (ce, u')" by fastforce
    have v: "?Q v" "calm w \<Longrightarrow> calm v"
    proof -
      have b: "blind ?Q" by (simp add: blind_def)
      have k: "?Q (x\<lparr>kw_record := RunRecord (stamped_record (se_now env) ?r)\<rparr>)" if "?Q x" for x
        using that last_record [of x ?r "se_now env"] by simp
      show "?Q v" "calm w \<Longrightarrow> calm v" using write_tried [of ?Q env ?r w te v, OF k b q t] by simp_all
    qed
    then have "last_stage v" by blast
    from landsD [OF cleanup_lands this ce] c t ce v(2)
    show "(if e = [] then ended u else stage u) \<and> (calm w \<longrightarrow> e = [] \<and> calm u)" by (auto split: if_split_asm)
  qed
qed

text \<open>The broker leaves a kept run kept.\<close>

lemma kept_is_stage: "kept_stage w \<Longrightarrow> stage w" "cleaned_stage q w \<Longrightarrow> stage w"
  by (auto simp: stage_def)

lemma kept_host: "kept_stage w \<Longrightarrow> held s \<Longrightarrow> kept_stage (w\<lparr>kw_host := s\<rparr>)"
  by (simp add: kept_stage_def)

lemma kept_ask:
  assumes "\<And>w. kw_manifest (g w) = kw_manifest w \<and> kw_record (g w) = kw_record w \<and> kw_ledger (g w) = kw_ledger w
     \<and> kw_locks (g w) = kw_locks w \<and> kw_host (g w) = kw_host w \<and> kw_faults (g w) = kw_faults w"
  shows "lands stage kept_stage (\<lambda>w. ([], g w)) kept_stage" "lands stage kept_stage (faulty n (\<lambda>w. ([], g w))) kept_stage"
proof -
  have g: "kept_stage (g w)" if "kept_stage w" for w using that assms [of w] by (simp add: kept_stage_def)
  show "lands stage kept_stage (\<lambda>w. ([], g w)) kept_stage" by (rule lands_exact) (use g assms in auto)
  show "lands stage kept_stage (faulty n (\<lambda>w. ([], g w))) kept_stage"
    by (rule lands_faulty) (use g assms in \<open>auto simp: blind_def kept_is_stage\<close>)
qed

lemma broker_lands:
  assumes "env \<in> envs" "stoppable r"
  shows "lands stage kept_stage (stop_retained_run env r) kept_stage"
proof -
  obtain path where path: "retained_remote_run_root r = Inr path" "trim_space path \<noteq> []"
    using stoppable_parts(4) [OF assms(2)] by blast
  have log: "kw_manifest (stop_log x w) = kw_manifest w \<and> kw_record (stop_log x w) = kw_record w \<and> kw_ledger (stop_log x w) = kw_ledger w
     \<and> kw_locks (stop_log x w) = kw_locks w \<and> kw_host (stop_log x w) = kw_host w \<and> kw_faults (stop_log x w) = kw_faults w"
    for x and w :: "'s stop_world" by (simp add: stop_log_def)
  note ask = kept_ask [of "\<lambda>w. w", simplified] and logged = kept_ask [of "stop_log x" for x, OF log]
  have fence: "lands stage kept_stage (case se_fence env of None \<Rightarrow> (\<lambda>w. ([], w)) | Some f \<Rightarrow> on_host f) kept_stage"
  proof (cases "se_fence env")
    case None
    then show ?thesis using ask(1) by simp
  next
    case (Some f)
    have "lands stage kept_stage (on_host f) kept_stage"
      by (rule lands_host [of held f held]) (use fence [OF assms(1) Some] kept_host in \<open>auto simp: blind_def kept_is_stage kept_stage_def\<close>)
    then show ?thesis using Some by simp
  qed
  show ?thesis
    unfolding stop_retained_run_def stop_sessiond_run_def
    by (auto simp: path intro!: lands_seq [of _ _ _ kept_stage] ask logged fence)
qed

end

context stop_host
begin

lemma cleaned_write:
  "cleaned_stage q w \<Longrightarrow> stoppable r \<Longrightarrow> kr_phase r = ''broker-cleaned'' \<Longrightarrow>
     cleaned_stage q (w\<lparr>kw_record := RunRecord (stamped_record now r)\<rparr>)"
  by (simp add: cleaned_stage_def cleaned_record_def)

lemma release_lands:
  assumes "env \<in> envs"
  shows "lands stage (cleaned_stage q) (release_host_side env) host_released"
    "cleaned_stage q w \<Longrightarrow> fst (release_host_side env w) \<in> {[], [StopIO ''host lock'']}"
proof -
  let ?H = "\<lambda>s. held s \<or> gone s"
  have "lands stage (cleaned_stage q) (on_host (se_release env)) (\<lambda>w. cleaned_stage q w \<and> gone (kw_host w))"
  proof (rule lands_host [of ?H "se_release env" gone])
    show "?H s \<Longrightarrow> fst (se_release env s) = Inr () \<and> gone (snd (se_release env s))" for s
      by (rule release [OF assms])
    show "cleaned_stage q w \<Longrightarrow> ?H (kw_host w)" for w by (simp add: cleaned_stage_def)
    show "cleaned_stage q w \<Longrightarrow> gone s \<Longrightarrow> cleaned_stage q (w\<lparr>kw_host := s\<rparr>) \<and> gone (kw_host (w\<lparr>kw_host := s\<rparr>))" for w s
      by (simp add: cleaned_stage_def)
    show "blind (cleaned_stage q)" by (simp add: blind_def)
  qed (use kept_is_stage(2) in blast)+
  note on = this
  have log: "cleaned_stage q (stop_log x w) = cleaned_stage q w" "kw_host (stop_log x w) = kw_host w"
    "stage (stop_log x w) = stage w" "calm (stop_log x w) = calm w" "kw_manifest (stop_log x w) = kw_manifest w"
    for x and w :: "'s stop_world"
    by (simp_all add: stop_log_def stage_def stage_defs calm_def)
  show "lands stage (cleaned_stage q) (release_host_side env) host_released"
  proof (rule landsI)
    fix w e u assume c: "cleaned_stage q w" and r: "release_host_side env w = (e, u)"
    obtain e1 v where o: "on_host (se_release env) w = (e1, v)" by fastforce
    have u: "e = e1" "u = stop_log HostSideRelease v" using r o by (simp_all add: release_host_side_def)
    note l = landsD [OF on c o]
    have "host_released u" if "e = []"
    proof -
      have v: "cleaned_stage q v" "gone (kw_host v)" using l(1) u(1) that by simp_all
      then have "kw_manifest v = ManifestFile m" by (simp add: cleaned_stage_def)
      moreover have "cleaned_stage q u" using v(1) unfolding u(2) log .
      ultimately show ?thesis using v(2) u(2) log(2,5) by (auto simp: host_released_def)
    qed
    moreover have "stage u" if "e \<noteq> []" using l(1) u that by (simp add: log)
    ultimately show "(if e = [] then host_released u else stage u) \<and> (calm w \<longrightarrow> e = [] \<and> calm u)"
      using l(2) u by (auto simp: log)
  qed
  show "fst (release_host_side env w) \<in> {[], [StopIO ''host lock'']}" if c: "cleaned_stage q w"
  proof -
    have "fst (on_host (se_release env) w) \<in> {[], [StopIO ''host lock'']}"
      unfolding on_host_def
    proof (rule faulty_errors [of "cleaned_stage q", OF _ _ c])
      fix v assume "cleaned_stage q v"
      then have "fst (se_release env (kw_host v)) = Inr ()" using release [OF assms] by (simp add: cleaned_stage_def)
      then show "fst (case se_release env (kw_host v) of (r, s) \<Rightarrow> (errors_of StopLock r, v\<lparr>kw_host := s\<rparr>)) = []"
        by (simp add: case_prod_unfold errors_of_def)
    qed (simp add: blind_def)
    then show ?thesis by (simp add: release_host_side_def case_prod_unfold)
  qed
qed

text \<open>From the clean broker on: the record is tried, the host side and the mirror are released, the state goes.\<close>

lemma rest_lands:
  assumes "env \<in> envs" "stoppable r"
  shows "lands stage (cleaned_stage q)
    (\<lambda>w. case write_run_retention_record env (r\<lparr>kr_phase := ''broker-cleaned''\<rparr>) w of
         (te, v) \<Rightarrow>
           (case (if kr_authoritative r then release_host_side env v else ([], v)) of
              (he, u) \<Rightarrow>
                if he \<noteq> [] \<and> \<not> list_ex is_ownership_changed he then (te @ he, u)
                else (case finish_released_stop_run env (mf_host m) run (r\<lparr>kr_phase := ''broker-cleaned''\<rparr>) u of
                        (fe, x) \<Rightarrow> (if fe = [] then [] else te @ fe, x)))) ended"
    (is "lands stage _ ?c ended")
proof (rule landsI)
  fix w e x assume c: "cleaned_stage q w" and r: "?c w = (e, x)"
  let ?r = "r\<lparr>kr_phase := ''broker-cleaned''\<rparr>"
  obtain te v where t: "write_run_retention_record env ?r w = (te, v)" by fastforce
  obtain he u where h: "release_host_side env v = (he, u)" by fastforce
  obtain fe y where f: "finish_released_stop_run env (mf_host m) run ?r u = (fe, y)" by fastforce
  have k: "cleaned_stage q (z\<lparr>kw_record := RunRecord (stamped_record (se_now env) ?r)\<rparr>)" if "cleaned_stage q z" for z
    by (rule cleaned_write [OF that]) (simp_all add: assms(2))
  have b: "blind (cleaned_stage q)" by (simp add: blind_def)
  have v: "cleaned_stage q v" "calm w \<Longrightarrow> calm v"
    using write_tried [of "cleaned_stage q" env ?r w te v, OF k b c t] by simp_all
  note u = landsD [OF release_lands(1) [OF assms(1)] v(1) h] and he = release_lands(2) [OF assms(1) v(1), unfolded h fst_conv]
  have run: "(e, x) = (if he \<noteq> [] then (te @ he, u) else (if fe = [] then [] else te @ fe, y))"
    using r t h f he stoppable_parts(2) [OF assms(2)] by (auto simp: is_ownership_changed_def)
  show "(if e = [] then ended x else stage x) \<and> (calm w \<longrightarrow> e = [] \<and> calm x)"
  proof (cases "he = []")
    case True
    then have "host_released u" using u(1) by simp
    from landsD [OF finish_lands [OF assms(1)] this f] show ?thesis
      using run True u(2) v(2) by (auto split: if_split_asm)
  next
    case False
    then show ?thesis using run u v(2) by auto
  qed
qed

lemma checkpoint_lands:
  assumes "\<And>w. P w \<Longrightarrow> kept_stage w \<or> (\<exists>q. cleaned_stage q w)" "blind P"
    "\<And>w. kept_stage w \<Longrightarrow> P w \<Longrightarrow> cleaned_record ''broker-cleaned'' (kw_record w)"
  shows "lands stage P (checkpoint_stop_phase env run ''broker-cleaned'') (cleaned_stage ''broker-cleaned'')"
proof (rule lands_checkpoint [OF _ _ _ assms(2)])
  show "''broker-cleaned'' \<in> set stop_phases" by (simp add: stop_phases_def)
  show "\<And>w. P w \<Longrightarrow> \<exists>q. ledger_at run q (kw_ledger w)"
    using assms(1) by (auto simp: kept_stage_def cleaned_stage_def)
  show "cleaned_stage ''broker-cleaned'' (w\<lparr>kw_ledger := l\<rparr>)" if p: "P w" and l: "ledger_at run ''broker-cleaned'' l" for w l
  proof (cases "kept_stage w")
    case True
    then show ?thesis using assms(3) [OF True p] l by (simp add: kept_stage_def cleaned_stage_def)
  next
    case False
    then obtain q where "cleaned_stage q w" using assms(1) [OF p] by blast
    then show ?thesis using l by (auto simp: cleaned_stage_def cleaned_record_def)
  qed
  show "stage w" if "P w" for w using assms(1) [OF that] kept_is_stage by blast
qed (rule kept_is_stage(2))

lemma kept_cleaned_record: "kept_stage w \<Longrightarrow> cleaned_record ''broker-cleaned'' (kw_record w)"
  by (auto simp: kept_stage_def cleaned_record_def)

lemma broker_phase_lands:
  assumes "env \<in> envs" "stoppable r"
  shows "kr_phase r = [] \<Longrightarrow> lands stage kept_stage (broker_phase env (mf_host m) run r (\<lambda>w. w)) ended"
    "kr_phase r = ''broker-cleaned'' \<Longrightarrow> lands stage (cleaned_stage q) (broker_phase env (mf_host m) run r (\<lambda>w. w)) ended"
proof -
  have check: "lands stage P (check_step (\<lambda>w. if kr_adapter r \<in> set supported_adapters then [] else [UnsupportedBroker (kr_adapter r)])) P"
    for P :: "'s stop_world \<Rightarrow> bool"
    by (rule lands_check) (simp add: stoppable_parts(1) [OF assms(2)])
  show "lands stage kept_stage (broker_phase env (mf_host m) run r (\<lambda>w. w)) ended" if p: "kr_phase r = []"
  proof -
    have b: "(if kr_phase r = [] \<or> kr_phase r = ''session-stopped'' then stop_retained_run env r else (\<lambda>w. ([], w)))
        = stop_retained_run env r" using p by simp
    have point: "lands stage kept_stage (checkpoint_stop_phase env run ''broker-cleaned'') (cleaned_stage ''broker-cleaned'')"
      by (rule checkpoint_lands) (simp_all add: blind_def kept_cleaned_record)
    show ?thesis
      unfolding broker_phase_def b
      by (rule lands_seq [OF check lands_seq [OF broker_lands [OF assms] lands_seq [OF point rest_lands [OF assms]]]])
  qed
  show "lands stage (cleaned_stage q) (broker_phase env (mf_host m) run r (\<lambda>w. w)) ended" if p: "kr_phase r = ''broker-cleaned''"
  proof -
    have b: "(if kr_phase r = [] \<or> kr_phase r = ''session-stopped'' then stop_retained_run env r else (\<lambda>w. ([], w)))
        = (\<lambda>w. ([], w))" using p by simp
    have point: "lands stage (cleaned_stage q) (checkpoint_stop_phase env run ''broker-cleaned'') (cleaned_stage ''broker-cleaned'')"
      by (rule checkpoint_lands) (auto simp: blind_def kept_cleaned_record)
    have idle: "lands stage (cleaned_stage q) (\<lambda>w. ([], w)) (cleaned_stage q)" by (rule lands_idle)
    show ?thesis
      unfolding broker_phase_def b
      by (rule lands_seq [OF check lands_seq [OF idle lands_seq [OF point rest_lands [OF assms]]]])
  qed
qed

end

context stop_host
begin

lemma read_kept:
  assumes "kw_record w = RunRecord r0"
  obtains r where "read_run_retention_record m (kw_record w) = Inr r" "stoppable r = stoppable r0" "kr_phase r = kr_phase r0"
    "\<not> kr_legacy r"
proof -
  have "\<exists>r. read_run_retention_record m (kw_record w) = Inr r \<and> stoppable r = stoppable r0 \<and> kr_phase r = kr_phase r0
      \<and> \<not> kr_legacy r"
    using assms by (auto simp: read_run_retention_record_def split: option.split)
  then show thesis using that by blast
qed

text \<open>A kept run: its mirror and the host side are checked, and then the broker stops it.\<close>

lemma recorded_kept:
  assumes "env \<in> envs" "kept_stage w" "stoppable r" "kr_phase r = []" "\<not> kr_legacy r"
    "stop_recorded_run env m run (\<lambda>w. w) r w = (e, u)"
  shows "(if e = [] then ended u else stage u) \<and> (calm w \<longrightarrow> e = [] \<and> calm u)"
proof -
  have p: "ledger_phase (kw_ledger w) run = []" using assms(2) by (simp add: kept_stage_def ledger_at_phase)
  have a: "adopted_phase (kw_ledger w) run r = r" using p by (simp add: adopted_phase_def stop_phases_def)
  have n: "\<not> cleanup_failed_running l run r" for l
    using stoppable_parts(3) [OF assms(3)] by (simp add: cleanup_failed_running_def split: sum.split)
  have check: "lands stage kept_stage (check_step (\<lambda>w. check_mirror env (mf_host m) run False r (kw_locks w))) kept_stage"
  proof (rule lands_check)
    fix w assume "kept_stage w"
    then have "mirror_held repo (mf_host m) run (kw_locks w)" by (simp add: kept_stage_def)
    then have "ensure_run_has_kept_lock repo (mf_host m) run a (kw_locks w) = Inr ()" for a
      by (rule kept_mirror_checks)
    then show "check_mirror env (mf_host m) run False r (kw_locks w) = []"
      using assms(4) repo [OF assms(1)] by (simp add: check_mirror_def errors_of_def)
  qed
  have host: "lands stage kept_stage (check_host_side env False r) kept_stage"
  proof -
    have "lands stage kept_stage (on_host (se_verify_kept env)) kept_stage"
      by (rule lands_host [of held "se_verify_kept env" held])
        (use verify [OF assms(1)] kept_host in \<open>auto simp: blind_def kept_is_stage kept_stage_def\<close>)
    then show ?thesis using assms(4) stoppable_parts(2) [OF assms(3)] by (simp add: check_host_side_def)
  qed
  have run: "stop_recorded_run env m run (\<lambda>w. w) r w
      = seq_step (check_step (\<lambda>w. check_mirror env (mf_host m) run False r (kw_locks w)))
         (seq_step (check_host_side env False r) (broker_phase env (mf_host m) run r (\<lambda>w. w))) w"
    using assms(4,5) by (simp add: stop_recorded_run_def a n active_cleanup_recovery_def Let_def)
  show ?thesis
    by (rule landsE [OF lands_seq [OF check lands_seq [OF host broker_phase_lands(1) [OF assms(1,3,4)]]] assms(2)])
      (use assms(6) run in simp)
qed

text \<open>A run whose session is stopped: the mirror may be gone, the host side is not asked again.\<close>

lemma recorded_cleaned:
  assumes "env \<in> envs" "cleaned_stage q w" "stoppable r" "\<not> kr_legacy r"
    "kr_phase r = ''broker-cleaned'' \<or> kr_phase r = [] \<and> q = ''broker-cleaned''"
    "stop_recorded_run env m run (\<lambda>w. w) r w = (e, u)"
  shows "(if e = [] then ended u else stage u) \<and> (calm w \<longrightarrow> e = [] \<and> calm u)"
proof -
  have p: "ledger_phase (kw_ledger w) run = q" using assms(2) by (simp add: cleaned_stage_def ledger_at_phase)
  define k where "k = r\<lparr>kr_phase := ''broker-cleaned''\<rparr>"
  have a: "adopted_phase (kw_ledger w) run r = k"
    using p assms(5) by (cases r) (auto simp: adopted_phase_def stop_phases_def k_def)
  have k: "stoppable k" "kr_phase k = ''broker-cleaned''" "\<not> kr_legacy k" using assms(3,4) by (simp_all add: k_def)
  have n: "\<not> cleanup_failed_running l run k" for l
    using k(2) by (simp add: cleanup_failed_running_def split: sum.split)
  have check: "lands stage (cleaned_stage q) (check_step (\<lambda>w. check_mirror env (mf_host m) run False k (kw_locks w))) (cleaned_stage q)"
  proof (rule lands_check)
    fix w assume "cleaned_stage q w"
    then have "mirror_held repo (mf_host m) run (kw_locks w) \<or> mirror_gone repo (mf_host m) (kw_locks w)"
      by (simp add: cleaned_stage_def)
    then have "ensure_run_has_cleanup_pending_lock repo (mf_host m) run True (kw_locks w) = Inr ()"
      by (rule pending_mirror_checks)
    then show "check_mirror env (mf_host m) run False k (kw_locks w) = []"
      using k(2) repo [OF assms(1)] by (simp add: check_mirror_def errors_of_def)
  qed
  have idle: "lands stage (cleaned_stage q) (check_host_side env False k) (cleaned_stage q)"
    using lands_idle [of "cleaned_stage q" "cleaned_stage q" stage] k(2) by (simp add: check_host_side_def)
  have run: "stop_recorded_run env m run (\<lambda>w. w) r w
      = seq_step (check_step (\<lambda>w. check_mirror env (mf_host m) run False k (kw_locks w)))
         (seq_step (check_host_side env False k) (broker_phase env (mf_host m) run k (\<lambda>w. w))) w"
    using k(2,3) by (simp add: stop_recorded_run_def a n active_cleanup_recovery_def Let_def)
  show ?thesis
    by (rule landsE [OF lands_seq [OF check lands_seq [OF idle broker_phase_lands(2) [OF assms(1) k(1,2)]]] assms(2)])
      (use assms(6) run in simp)
qed

lemma recorded_released:
  assumes "env \<in> envs" "released_stage w" "kw_manifest w = ManifestFile m" "kr_phase r \<in> {[], ''host-lock-released''}"
    "stop_recorded_run env m run (\<lambda>w. w) r w = (e, u)"
  shows "(if e = [] then ended u else stage u) \<and> (calm w \<longrightarrow> e = [] \<and> calm u)"
proof -
  have p: "ledger_phase (kw_ledger w) run = ''host-lock-released''"
    using assms(2) by (simp add: released_stage_def ledger_at_phase)
  have a: "kr_phase (adopted_phase (kw_ledger w) run r) = ''host-lock-released''"
    using p assms(4) by (auto simp: adopted_phase_def stop_phases_def)
  have "host_released w" using assms(2,3) by (simp add: host_released_def)
  then show ?thesis
    by (rule landsE [OF finish_lands [OF assms(1)]]) (use assms(5) a in \<open>simp add: stop_recorded_run_def Let_def\<close>)
qed

lemma kept_run_lands:
  assumes "env \<in> envs"
  shows "lands stage stage (stop_kept_run env run) ended"
proof (rule landsI)
  fix w e u assume s: "stage w" and r: "stop_kept_run env run w = (e, u)"
  have names: "validate_run_id run = Inr ()" "validate_host_id (mf_host m) = Inr ()"
    using s by (auto simp: stage_def stage_defs mirror_gone_def elim: mirror_heldE ledger_atE dest: read_record_check)
  note r = r [unfolded stop_kept_run_def stop_kept_run_after_broker_stop_def names sum.case]
  from s consider "kept_stage w" | q where "cleaned_stage q w" | "released_stage w" "kw_manifest w = ManifestFile m"
    | "released_stage w" "kw_manifest w = NoManifest"
    by (auto simp: stage_def released_stage_def)
  then show "(if e = [] then ended u else stage u) \<and> (calm w \<longrightarrow> e = [] \<and> calm u)"
  proof cases
    case 1
    then obtain r0 where r0: "kw_manifest w = ManifestFile m" "kw_record w = RunRecord r0" "stoppable r0" "kr_phase r0 = []"
      by (auto simp: kept_stage_def)
    obtain k where k: "read_run_retention_record m (kw_record w) = Inr k" "stoppable k" "kr_phase k = []" "\<not> kr_legacy k"
      using read_kept [OF r0(2)] r0(3,4) by metis
    have "stop_recorded_run env m run (\<lambda>w. w) k w = (e, u)" using r r0(1) k(1) by (simp add: names)
    then show ?thesis by (rule recorded_kept [OF assms 1 k(2,3,4)])
  next
    case (2 q)
    then obtain r0 where r0: "kw_manifest w = ManifestFile m" "kw_record w = RunRecord r0" "stoppable r0"
        "kr_phase r0 = ''broker-cleaned'' \<or> kr_phase r0 = [] \<and> q = ''broker-cleaned''"
      by (auto simp: cleaned_stage_def cleaned_record_def)
    obtain k where k: "read_run_retention_record m (kw_record w) = Inr k" "stoppable k" "kr_phase k = kr_phase r0" "\<not> kr_legacy k"
      using read_kept [OF r0(2)] r0(3) by metis
    have "stop_recorded_run env m run (\<lambda>w. w) k w = (e, u)" using r r0(1) k(1) by (simp add: names)
    then show ?thesis by (rule recorded_cleaned [OF assms 2 k(2,4) r0(4) [folded k(3)]])
  next
    case 3
    then have f: "released_record (kw_record w)" by (auto simp: released_stage_def)
    have "\<exists>k. read_run_retention_record m (kw_record w) = Inr k \<and> kr_phase k \<in> {[], ''host-lock-released''}"
    proof (cases "kw_record w = NoRunRecord")
      case True
      then show ?thesis by (simp add: read_run_retention_record_def fallback_run_retention_record_def)
    next
      case False
      then obtain r0 where r0: "kw_record w = RunRecord r0" "kr_phase r0 \<in> {[], ''host-lock-released''}"
        using f by (auto simp: released_record_def)
      obtain k where "read_run_retention_record m (kw_record w) = Inr k" "kr_phase k = kr_phase r0"
        using read_kept [OF r0(1)] by metis
      then show ?thesis using r0(2) by metis
    qed
    then obtain k where k: "read_run_retention_record m (kw_record w) = Inr k" "kr_phase k \<in> {[], ''host-lock-released''}"
      by blast
    have "stop_recorded_run env m run (\<lambda>w. w) k w = (e, u)" using r 3(2) k(1) by (simp add: names)
    then show ?thesis by (rule recorded_released [OF assms 3 k(2)])
  next
    case 4
    then have "last_stage w" "ledger_phase (kw_ledger w) run = ''host-lock-released''"
      by (simp_all add: stage_defs ledger_at_phase)
    moreover have "cleanup_run_state w = (e, u)" using r 4(2) calculation(2) by simp
    ultimately show ?thesis using landsD [OF cleanup_lands, of w e u] by simp
  qed
qed

end

subsection \<open>Attempts to stop a run\<close>

text \<open>
  The worlds a run may be in after attempts to stop it, each with its own faults, as long as the ledger
  has not recorded the run as settled.
\<close>

inductive interrupted :: "'s stop_env set \<Rightarrow> string \<Rightarrow> 's stop_world \<Rightarrow> 's stop_world \<Rightarrow> bool"
  for envs :: "'s stop_env set" and run :: string and w :: "'s stop_world" where
  start: "interrupted envs run w w"
| attempt: "interrupted envs run w v \<Longrightarrow> env \<in> envs \<Longrightarrow> stop_run env run (v\<lparr>kw_faults := faults\<rparr>) = (e, u) \<Longrightarrow>
     unsettled run (kw_ledger u) \<Longrightarrow> interrupted envs run w u"

context stop_host
begin

lemma stage_ledger:
  "stage w \<Longrightarrow> (\<And>q. ledger_at run q (kw_ledger w) \<Longrightarrow> ledger_at run q l) \<Longrightarrow> stage (w\<lparr>kw_ledger := l\<rparr>)"
  by (auto simp: stage_def stage_defs)

lemma stage_at: "stage w \<Longrightarrow> \<exists>q. ledger_at run q (kw_ledger w)"
  by (auto simp: stage_def stage_defs)

lemma stage_blind: "blind stage"
  by (simp add: blind_def)

lemma ledger_step:
  assumes "\<And>q l. ledger_at run q l \<Longrightarrow> ledger_at run q (snd (f l))"
  shows "triple stage (on_ledger f) stage stage"
  unfolding on_ledger_def
proof (rule triple_faulty [OF _ stage_blind])
  show "triple stage (\<lambda>w. case f (kw_ledger w) of (r, l) \<Rightarrow> (errors_of StopLedger r, w\<lparr>kw_ledger := l\<rparr>)) stage stage"
    by (rule tripleI) (use assms stage_ledger in \<open>auto simp: case_prod_unfold\<close>)
qed simp_all

lemma prepare_stage:
  assumes "stage w" "prepare_run_ledger_for_stop env run w = (e, v)"
  shows "stage v" "calm w \<Longrightarrow> calm v"
proof -
  obtain q where "ledger_at run q (kw_ledger w)" using stage_at [OF assms(1)] by blast
  then obtain l where l: "read_run_ledger_record (kw_ledger w) run = Inr l" "lr_state l \<noteq> ''submitted''"
    by (auto elim!: ledger_atE)
  then have r: "refresh_ledger env run w = (e, v)" using assms(2) by (simp add: prepare_run_ledger_for_stop_def)
  have "triple stage (refresh_ledger env run) stage stage"
    unfolding refresh_ledger_def by (rule triple_self, rule ledger_step) (rule refresh_at)
  from tripleD [OF this assms(1) r] show "stage v" by (simp split: if_splits)
  show "calm w \<Longrightarrow> calm v"
    using r by (auto simp: refresh_ledger_def on_ledger_def faulty_def next_fault_def calm_def case_prod_unfold)
qed

text \<open>An attempt that leaves the ledger unsettled leaves the run in a stage.\<close>

lemma attempt_stage:
  assumes "env \<in> envs" "stage w" "stop_run env run w = (e, u)" "unsettled run (kw_ledger u)"
  shows "stage u"
proof -
  obtain pe v where p: "prepare_run_ledger_for_stop env run w = (pe, v)" by fastforce
  have v: "stage v" by (rule prepare_stage [OF assms(2) p])
  obtain se x where s: "stop_kept_run env run v = (se, x)" by fastforce
  note x = landsD(1) [OF kept_run_lands [OF assms(1)] v s]
  obtain le y where l: "settle_ledger_after_stop env run (se \<noteq> []) x = (le, y)" by fastforce
  have u: "u = (if pe \<noteq> [] then v else y)" using assms(3) p s l by (simp add: stop_run_def split: if_splits)
  show ?thesis
  proof (cases "pe \<noteq> []")
    case True
    then show ?thesis using u v by simp
  next
    case False
    then have y: "u = y" using u by simp
    show ?thesis
    proof (cases "se = []")
      case False
      have "triple stage (settle_ledger_after_stop env run True) stage stage"
        unfolding settle_ledger_after_stop_def by (rule triple_self, rule ledger_step) (rule settle_failed_at)
      from tripleD [OF this] show ?thesis using x l y False by (simp split: if_splits)
    next
      case True
      then have d: "ended x" using x by simp
      then have sx: "stage x" by (simp add: ended_def stage_def)
      let ?f = "update_run_ledger_after_stop (se_enc env) (se_dec env) (se_available env) (kw_files x) run False (se_now env)"
      have "faulty ''ledger'' (\<lambda>w. case ?f (kw_ledger w) of (r, l) \<Rightarrow> (errors_of StopLedger r, w\<lparr>kw_ledger := l\<rparr>)) x = (le, y)"
        using l True by (simp add: settle_ledger_after_stop_def on_ledger_def)
      then show ?thesis
      proof (cases rule: faulty_cases)
        case (silent fs)
        then show ?thesis using sx y by simp
      next
        case (ran fs e1)
        have "ledger_at run ''host-lock-released'' (kw_ledger x)" "rf_state_events (kw_files x) = Absent"
          using d by (simp_all add: ended_def released_stage_def)
        from settle_done(2) [OF this] have "\<not> unsettled run (kw_ledger y)"
          using ran(1) by (auto simp: case_prod_unfold)
        then show ?thesis using assms(4) y by simp
      qed
    qed
  qed
qed

lemma interrupted_stage:
  assumes "interrupted envs run w v" "stage w"
  shows "stage v"
  using assms(1)
proof (induction rule: interrupted.induct)
  case start
  show ?case by (rule assms(2))
next
  case (attempt v env faults e u)
  then have "stage (v\<lparr>kw_faults := faults\<rparr>)" by simp
  then show ?case by (rule attempt_stage [OF attempt.hyps(2) _ attempt.hyps(3,4)])
qed

text \<open>And from a stage, an attempt without a fault ends the run, once the ledger could be refreshed.\<close>

lemma stage_finishes:
  assumes "env \<in> envs" "stage w" "calm w" "fst (prepare_run_ledger_for_stop env run w) = []"
  obtains u where "stop_run env run w = ([], u)" "kw_manifest u = NoManifest" "kw_record u = NoRunRecord"
    "mirror_gone repo (mf_host m) (kw_locks u)" "gone (kw_host u)" "\<not> unsettled run (kw_ledger u)"
proof -
  obtain v where p: "prepare_run_ledger_for_stop env run w = ([], v)" using assms(4) by (metis prod.collapse)
  have v: "stage v" "calm v" using prepare_stage [OF assms(2) p] assms(3) by blast+
  obtain se x where s: "stop_kept_run env run v = (se, x)" by fastforce
  have x: "se = []" "ended x" "calm x"
    using landsD [OF kept_run_lands [OF assms(1)] v(1) s] v(2) by (auto split: if_splits)
  let ?f = "update_run_ledger_after_stop (se_enc env) (se_dec env) (se_available env) (kw_files x) run False (se_now env)"
  define u where "u = x\<lparr>kw_ledger := snd (?f (kw_ledger x))\<rparr>"
  have "ledger_at run ''host-lock-released'' (kw_ledger x)" "rf_state_events (kw_files x) = Absent"
    using x(2) by (simp_all add: ended_def released_stage_def)
  note d = settle_done [OF this, of "se_enc env" "se_dec env" "se_available env" "se_now env"]
  have "settle_ledger_after_stop env run False x = ([], u)"
    using x(3) d(1) by (simp add: settle_ledger_after_stop_def on_ledger_def faulty_def next_fault_def calm_def u_def
        case_prod_unfold errors_of_def)
  then have "stop_run env run w = ([], u)" using p s x(1) by (simp add: stop_run_def)
  moreover have "kw_manifest u = NoManifest" "kw_record u = NoRunRecord" "mirror_gone repo (mf_host m) (kw_locks u)"
    "gone (kw_host u)" "\<not> unsettled run (kw_ledger u)"
    using x(2) d(2) by (simp_all add: u_def ended_def released_stage_def)
  ultimately show thesis by (rule that)
qed

end

subsection \<open>A host with a lock directory\<close>

text \<open>The lock in the work root of a host, held for the run or gone, and nobody in its mutex.\<close>

definition lock_held_for :: "maya_host_config \<Rightarrow> string \<Rightarrow> lock_world \<Rightarrow> bool" where
  "lock_held_for host run s \<longleftrightarrow> \<not> uses_real_ssh host
     \<and> (case fake_host_side_lock_dir host of
          None \<Rightarrow> False
        | Some dir \<Rightarrow>
            (let p = (dir, local_host_side_lock_id host) in
             snd s (mutex_path p) = None
             \<and> (case snd s p of Some (File d) \<Rightarrow> own_kept (parse_host_lock_owner d) = run | _ \<Rightarrow> False)))"

definition lock_gone_for :: "maya_host_config \<Rightarrow> lock_world \<Rightarrow> bool" where
  "lock_gone_for host s \<longleftrightarrow> \<not> uses_real_ssh host
     \<and> (case fake_host_side_lock_dir host of
          None \<Rightarrow> False
        | Some dir \<Rightarrow>
            (let p = (dir, local_host_side_lock_id host) in snd s (mutex_path p) = None \<and> snd s p = None))"

definition host_envs :: "maya_host_config \<Rightarrow> string \<Rightarrow> string \<Rightarrow> lock_world stop_env set" where
  "host_envs host run repo = {host_stop_env host run env | env. se_repo env = repo}"

lemma verify_held:
  assumes "fs (mutex_path p) = None" "fs p = Some (File d)" "own_kept (parse_host_lock_owner d) = run"
  shows "\<exists>fs'. verify_host_side_lock_for_run_at_dir pe pid now p run True False fs = (Inr (), fs')
    \<and> fs' (mutex_path p) = None \<and> fs' p = Some (File d)"
proof -
  define action where "action = (\<lambda>fs. case read_file fs p of
         None \<Rightarrow> (Inl LockMissing, fs)
       | Some content \<Rightarrow>
           (let own = parse_host_lock_owner content in
            if own_kept own = run then (Inr (), fs)
            else if True \<or> own_active own \<noteq> run \<or> \<not> False \<and> is_stale_host_side_owner now own
            then (Inl (OwnershipChanged (snd p)), fs)
            else (Inr (), fs)))"
  obtain fs1 where f: "\<And>q. q \<noteq> mutex_path p \<Longrightarrow> fs1 q = fs q" "fs1 (mutex_path p) \<noteq> None"
    and w: "verify_host_side_lock_for_run_at_dir pe pid now p run True False fs = (case action fs1 of (r, fs2) \<Rightarrow>
           if fs2 (mutex_path p) = None
           then (case r of Inl e \<Rightarrow> (Inl e, fs2) | Inr _ \<Rightarrow> (Inl (MutexMissing (snd p)), fs2))
           else (r, fs2(mutex_path p := None)))"
    using mutex_free [where p = p and fs = fs, OF assms(1), of pe pid action]
    unfolding verify_host_side_lock_for_run_at_dir_def action_def by blast
  have p: "fs1 p = Some (File d)" using f(1) mutex_path_other(2) assms(2) by metis
  have "action fs1 = (Inr (), fs1)" using p assms(3) by (simp add: action_def read_file_def)
  then show ?thesis unfolding w using f(2) p by simp
qed

lemma remove_held:
  assumes "fs (mutex_path p) = None" "fs p = None \<or> (\<exists>d. fs p = Some (File d) \<and> own_kept (parse_host_lock_owner d) = run)"
  shows "\<exists>fs'. remove_host_side_lock_for_run_at_dir pe pid p run fs = (Inr (), fs') \<and> fs' (mutex_path p) = None \<and> fs' p = None"
proof -
  define action where "action = (\<lambda>fs. case read_file fs p of
         None \<Rightarrow> (Inr (), fs)
       | Some content \<Rightarrow>
           (let own = parse_host_lock_owner content in
            if own_kept own \<noteq> run \<and> own_active own \<noteq> run
            then (Inl (OwnershipChanged (snd p)), fs)
            else (Inr (), fs(p := None))))"
  obtain fs1 where f: "\<And>q. q \<noteq> mutex_path p \<Longrightarrow> fs1 q = fs q" "fs1 (mutex_path p) \<noteq> None"
    and w: "remove_host_side_lock_for_run_at_dir pe pid p run fs = (case action fs1 of (r, fs2) \<Rightarrow>
           if fs2 (mutex_path p) = None
           then (case r of Inl e \<Rightarrow> (Inl e, fs2) | Inr _ \<Rightarrow> (Inl (MutexMissing (snd p)), fs2))
           else (r, fs2(mutex_path p := None)))"
    using mutex_free [where p = p and fs = fs, OF assms(1), of pe pid action]
    unfolding remove_host_side_lock_for_run_at_dir_def action_def by blast
  have p: "fs1 p = fs p" using f(1) mutex_path_other(2) by metis
  have "fst (action fs1) = Inr () \<and> snd (action fs1) p = None \<and> snd (action fs1) (mutex_path p) \<noteq> None"
    using assms(2) f(2) by (auto simp: action_def read_file_def p Let_def)
  then show ?thesis unfolding w by (auto split: prod.split)
qed

lemma local_verify_kept:
  assumes "lock_held_for host run s"
  shows "fst (verify_kept_host_side_lock_for_run pe pid now host run s) = Inr ()
    \<and> lock_held_for host run (snd (verify_kept_host_side_lock_for_run pe pid now host run s))"
    "kept_host_lock_fence pe pid now host run = Some f \<Longrightarrow> fst (f s) = Inr () \<and> lock_held_for host run (snd (f s))"
proof -
  obtain dir d where h: "\<not> uses_real_ssh host" "fake_host_side_lock_dir host = Some dir"
    "snd s (mutex_path (dir, local_host_side_lock_id host)) = None"
    "snd s (dir, local_host_side_lock_id host) = Some (File d)" "own_kept (parse_host_lock_owner d) = run"
    using assms by (auto simp: lock_held_for_def Let_def split: option.split_asm node.split_asm)
  from verify_held [OF h(3,4,5), of pe pid now] obtain fs where
    fs: "verify_host_side_lock_for_run_at_dir pe pid now (dir, local_host_side_lock_id host) run True False (snd s) = (Inr (), fs)"
      "fs (mutex_path (dir, local_host_side_lock_id host)) = None" "fs (dir, local_host_side_lock_id host) = Some (File d)"
    by blast
  have k: "lock_held_for host run (fst s, fs)"
    using h fs by (simp add: lock_held_for_def Let_def)
  show "fst (verify_kept_host_side_lock_for_run pe pid now host run s) = Inr ()
    \<and> lock_held_for host run (snd (verify_kept_host_side_lock_for_run pe pid now host run s))"
    using h(1,2) fs(1) k by (simp add: verify_kept_host_side_lock_for_run_def dispatch_lock_def on_files_def)
  show "fst (f s) = Inr () \<and> lock_held_for host run (snd (f s))" if "kept_host_lock_fence pe pid now host run = Some f"
    using that h(1,2) fs(1) k by (auto simp: kept_host_lock_fence_def on_files_def)
qed

lemma local_release:
  assumes "lock_held_for host run s \<or> lock_gone_for host s"
  shows "fst (release_host_side_lock pe pid host run s) = Inr ()
    \<and> lock_gone_for host (snd (release_host_side_lock pe pid host run s))"
proof -
  obtain dir where h: "\<not> uses_real_ssh host" "fake_host_side_lock_dir host = Some dir"
    "snd s (mutex_path (dir, local_host_side_lock_id host)) = None"
    "snd s (dir, local_host_side_lock_id host) = None
      \<or> (\<exists>d. snd s (dir, local_host_side_lock_id host) = Some (File d) \<and> own_kept (parse_host_lock_owner d) = run)"
    using assms by (auto simp: lock_held_for_def lock_gone_for_def Let_def split: option.split_asm node.split_asm)
  from remove_held [OF h(3,4), of pe pid] obtain fs where
    fs: "remove_host_side_lock_for_run_at_dir pe pid (dir, local_host_side_lock_id host) run (snd s) = (Inr (), fs)"
      "fs (mutex_path (dir, local_host_side_lock_id host)) = None" "fs (dir, local_host_side_lock_id host) = None"
    by blast
  then show ?thesis
    using h(1,2) by (simp add: release_host_side_lock_def dispatch_lock_def on_files_def lock_gone_for_def Let_def)
qed

interpretation directory_lock:
  stop_host "lock_held_for host run" "lock_gone_for host" "host_envs host run repo" repo run m
  for host run repo m
proof unfold_locales
  fix env s f assume "env \<in> host_envs host run repo"
  then obtain env0 where e: "env = host_stop_env host run env0" "se_repo env0 = repo" by (auto simp: host_envs_def)
  show "se_repo env = repo" by (simp add: e host_stop_env_def)
  show "fst (se_verify_kept env s) = Inr () \<and> lock_held_for host run (snd (se_verify_kept env s))" if "lock_held_for host run s"
    using local_verify_kept(1) [OF that] by (simp add: e host_stop_env_def)
  show "fst (f s) = Inr () \<and> lock_held_for host run (snd (f s))" if "se_fence env = Some f" "lock_held_for host run s"
    by (rule local_verify_kept(2) [OF that(2)]) (use that(1) in \<open>simp add: e host_stop_env_def\<close>)
  show "fst (se_release env s) = Inr () \<and> lock_gone_for host (snd (se_release env s))"
    if "lock_held_for host run s \<or> lock_gone_for host s"
    using local_release [OF that] by (simp add: e host_stop_env_def)
qed

text \<open>A kept run on such a host, with its mirror and its ledger.\<close>

definition kept_on :: "maya_host_config \<Rightarrow> string \<Rightarrow> string \<Rightarrow> stop_manifest \<Rightarrow> lock_world stop_world \<Rightarrow> bool" where
  "kept_on host repo run m w \<longleftrightarrow> kw_manifest w = ManifestFile m
     \<and> (case kw_record w of RunRecord r \<Rightarrow> stoppable r \<and> kr_phase r = [] | _ \<Rightarrow> False)
     \<and> ledger_at run [] (kw_ledger w) \<and> mirror_held repo (mf_host m) run (kw_locks w) \<and> lock_held_for host run (kw_host w)"


text \<open>The release of the host side fails, and the next attempt finishes.\<close>

definition failed_once :: "lock_world stop_world" where
  "failed_once = snd (stop_run (kept_env sample_alive) kept_run_id (kept_world [Works, Works, Works, Works, Fails]))"

lemma failed_once_unsettled:
  "unsettled kept_run_id (kw_ledger failed_once)"
  "fst (prepare_run_ledger_for_stop (kept_env sample_alive) kept_run_id (failed_once\<lparr>kw_faults := []\<rparr>)) = []"
  by code_simp+


end
