(* ===== verification/Event_Stream.thy ===== *)
theory Event_Stream
  imports Run_Ledger Control_Records
begin

text \<open>
  What the control plane tells of a run while it goes on (\<open>control_plane.go\<close>): the record a reader is
  given, the events from a sequence number on, and the stream that follows a run until it is done.
  A client keeps one cursor, the next sequence number it wants.

  The text filter of the answers is the argument \<open>clean\<close>, the decoder of JSON the argument \<open>dec\<close>.  Sequence
  numbers are those of a ledger that never held \<open>2 ^ 63\<close> events, so they do not wrap.  A connection that
  breaks leaves the client with the first records of the stream, of whatever number.
\<close>

subsection \<open>The record of a run\<close>

text \<open>\<open>readControlPlaneRunRecord\<close>: an assignment in the way answers for the ledger; whether it is active, and whether there is one.\<close>

definition read_control_plane_run_record ::
  "assignment_record option \<Rightarrow> string \<Rightarrow> ledger \<Rightarrow> (ledger_error, run_ledger_record) result \<times> bool \<times> bool" where
  "read_control_plane_run_record assignment run ledger =
     (case assignment of
        None \<Rightarrow> (read_run_ledger_record ledger run, False, False)
      | Some a \<Rightarrow>
          (let active = (ar_state a \<noteq> ''quarantined'') in
           case (ar_terminal_ledger a, ar_assigned_ledger a) of
             (terminal, assigned) \<Rightarrow>
               if \<not> active \<and> terminal \<noteq> None then (Inr (the terminal), False, True)
               else if ar_state a = ''finishing'' \<and> assigned \<noteq> None
               then (Inr ((the assigned)\<lparr>lr_state := ''finishing'', lr_status := [], lr_completed := []\<rparr>), True, True)
               else if active \<and> assigned \<noteq> None then (Inr (the assigned), True, True)
               else (read_run_ledger_record ledger run, active, True)))"

definition terminal_run_ledger_record :: "run_ledger_record \<Rightarrow> bool" where
  "terminal_run_ledger_record r \<longleftrightarrow> lr_state r \<in> {''completed'', ''failed'', ''canceled'', ''kept'', ''cleanup-failed''}"

subsection \<open>Reading events\<close>

text \<open>\<open>sanitizeControlPlaneValue\<close>: every string in a value.\<close>

fun sanitize_control_plane_value :: "(string \<Rightarrow> string) \<Rightarrow> json \<Rightarrow> json" where
  "sanitize_control_plane_value clean (JStr s) = JStr (clean s)"
| "sanitize_control_plane_value clean (JArr vs) = JArr (map (sanitize_control_plane_value clean) vs)"
| "sanitize_control_plane_value clean (JObj fs) = JObj (map (\<lambda>(k, v). (k, sanitize_control_plane_value clean v)) fs)"
| "sanitize_control_plane_value clean v = v"

definition sanitized_event :: "(string \<Rightarrow> string) \<Rightarrow> event \<Rightarrow> event" where
  "sanitized_event clean e = map (\<lambda>(k, v). (k, sanitize_control_plane_value clean v)) e"

text \<open>The scan of the retained lines: the events from a sequence on, the omitted range, and whether one of them lost its content.\<close>

record event_scan =
  es_events :: "event list"
  es_gap_first :: int
  es_gap_last :: int
  es_truncated :: bool

definition event_type :: "event \<Rightarrow> json option" where
  "event_type e = map_of e ''type''"

datatype scanned = NoEvent | OmittedRange int int | Scanned event

definition scan_line ::
  "(string \<Rightarrow> string) \<Rightarrow> (string \<Rightarrow> json option) \<Rightarrow> string \<Rightarrow> (event_error, scanned) result" where
  "scan_line clean dec line =
     (if trim_space line = [] then Inr NoEvent
      else (case dec_event dec line of
              None \<Rightarrow> Inl BadEvent
            | Some raw \<Rightarrow>
                (let e = sanitized_event clean raw in
                 if event_type e = Some (JStr ''run-ledger.events.truncated'')
                 then Inr (case omitted_event_count dec line of
                             Some n \<Rightarrow> if n > 0 then OmittedRange (ledger_event_sequence e) (ledger_event_sequence e + n - 1)
                                       else NoEvent
                           | None \<Rightarrow> NoEvent)
                 else Inr (Scanned e))))"

definition add_scanned :: "int \<Rightarrow> scanned \<Rightarrow> event_scan \<Rightarrow> event_scan" where
  "add_scanned from x sc =
     (case x of
        NoEvent \<Rightarrow> sc
      | OmittedRange a b \<Rightarrow> sc\<lparr>es_gap_first := a, es_gap_last := b\<rparr>
      | Scanned e \<Rightarrow>
          if ledger_event_sequence e \<ge> from
          then sc\<lparr>es_events := es_events sc @ [e],
                  es_truncated := es_truncated sc \<or> event_type e = Some (JStr ''run-ledger.event.truncated'')\<rparr>
          else sc)"

fun scan_events ::
  "(string \<Rightarrow> string) \<Rightarrow> (string \<Rightarrow> json option) \<Rightarrow> int \<Rightarrow> string list \<Rightarrow> event_scan \<Rightarrow> (event_error, event_scan) result" where
  "scan_events clean dec from [] sc = Inr sc"
| "scan_events clean dec from (line # lines) sc =
     rbind (scan_line clean dec line) (\<lambda>x. scan_events clean dec from lines (add_scanned from x sc))"

definition no_scan :: event_scan where
  "no_scan = \<lparr>es_events = [], es_gap_first = 0, es_gap_last = 0, es_truncated = False\<rparr>"

definition scan_content ::
  "(string \<Rightarrow> string) \<Rightarrow> (string \<Rightarrow> json option) \<Rightarrow> int \<Rightarrow> string \<Rightarrow> (event_error, event_scan) result" where
  "scan_content clean dec from content = scan_events clean dec from (split_on newline (trim_space content)) no_scan"

record events_response =
  ev_events :: "event list"
  ev_requested :: int
  ev_first_available :: int
  ev_next :: int
  ev_omitted :: int
  ev_truncated :: bool

text \<open>\<open>readControlPlaneEvents\<close>; without a requested sequence the cursors stay zero.\<close>

definition events_answer :: "int \<Rightarrow> bool \<Rightarrow> event_scan \<Rightarrow> events_response" where
  "events_answer from cursors sc =
     (let truncated = (es_gap_last sc > 0 \<and> from \<le> es_gap_last sc);
          first_available = (if truncated then es_gap_last sc + 1
                             else if es_events sc \<noteq> [] then ledger_event_sequence (hd (es_events sc)) else 0)
      in \<lparr>ev_events = es_events sc,
          ev_requested = (if cursors then from else 0),
          ev_first_available = (if cursors then first_available else 0),
          ev_next = (if \<not> cursors then 0
                     else if es_events sc \<noteq> [] then ledger_event_sequence (last (es_events sc)) + 1 else from),
          ev_omitted = (if truncated then es_gap_last sc - max from (es_gap_first sc) + 1 else 0),
          ev_truncated = (truncated \<or> es_truncated sc)\<rparr>)"

definition read_events_artifact :: "ledger \<Rightarrow> string \<Rightarrow> (ledger_error, string) result" where
  "read_events_artifact ledger run =
     rbind (read_run_ledger_record ledger run) (\<lambda>_.
       case ld_events (dir_of ledger run) of Regular c \<Rightarrow> Inr c | _ \<Rightarrow> Inl (LedgerIO run))"

definition read_control_plane_events ::
  "(string \<Rightarrow> string) \<Rightarrow> (string \<Rightarrow> json option) \<Rightarrow> ledger \<Rightarrow> string \<Rightarrow> int option \<Rightarrow> (ledger_error, events_response) result" where
  "read_control_plane_events clean dec ledger run requested =
     (let from = (case requested of None \<Rightarrow> 1 | Some n \<Rightarrow> n) in
      rbind (read_events_artifact ledger run) (\<lambda>content.
      rbind (under EventsError (scan_content clean dec from content)) (\<lambda>sc.
        Inr (events_answer from (requested \<noteq> None) sc))))"

subsection \<open>The stream\<close>

datatype stream_record =
    StreamEvent int event int
  | StreamGap int int
  | StreamTruncated int string
  | StreamEnd int string

text \<open>
  The writer: what was written, in order, and how many bytes.  \<open>bytes\<close> gives the
  length of a record's line; the last \<open>reserve\<close> bytes of the response are kept for the record that closes it.
\<close>

record stream_state =
  ss_out :: "stream_record list"
  ss_written :: int
  ss_last :: int

definition maximum_run_ledger_max_event_bytes :: int where
  "maximum_run_ledger_max_event_bytes = 64 * 1024 * 1024"

definition write_stream_record ::
  "(stream_record \<Rightarrow> int) \<Rightarrow> stream_record \<Rightarrow> int \<Rightarrow> stream_state \<Rightarrow> bool \<times> stream_state" where
  "write_stream_record bytes r reserve s =
     (if ss_written s + bytes r > maximum_run_ledger_max_event_bytes - reserve then (False, s)
      else (True, s\<lparr>ss_out := ss_out s @ [r], ss_written := ss_written s + bytes r\<rparr>))"

definition write_gap_marker ::
  "(stream_record \<Rightarrow> int) \<Rightarrow> string \<Rightarrow> events_response \<Rightarrow> stream_state \<Rightarrow> bool \<times> stream_state" where
  "write_gap_marker bytes state answer s =
     (case write_stream_record bytes (StreamGap (ev_omitted answer) (ev_first_available answer)) 512 s of
        (True, v) \<Rightarrow> (True, if ev_first_available answer - 1 > ss_last v then v\<lparr>ss_last := ev_first_available answer - 1\<rparr> else v)
      | (False, v) \<Rightarrow> (False, snd (write_stream_record bytes (StreamTruncated (ev_first_available answer) state) 0 v)))"

text \<open>The events of one snapshot; \<open>pending\<close> says that the omitted range was not announced yet.\<close>

fun emit_events ::
  "(stream_record \<Rightarrow> int) \<Rightarrow> string \<Rightarrow> events_response \<Rightarrow> bool \<Rightarrow> event list \<Rightarrow> stream_state \<Rightarrow> bool \<times> bool \<times> stream_state" where
  "emit_events bytes state answer pending [] s = (True, pending, s)"
| "emit_events bytes state answer pending (e # es) s =
     (if event_type e = Some (JStr ''run-ledger.events.truncated'') then emit_events bytes state answer pending es s
      else
       (let sequence = ledger_event_sequence e in
        case (if pending \<and> sequence \<ge> ev_first_available answer
              then (case write_gap_marker bytes state answer s of (ok, v) \<Rightarrow> (ok, False, v)) else (True, pending, s)) of
          (False, p, v) \<Rightarrow> (False, p, v)
        | (True, p, v) \<Rightarrow>
            if sequence \<le> ss_last v then emit_events bytes state answer p es v
            else (case write_stream_record bytes (StreamEvent sequence e (sequence + 1)) 512 v of
                    (True, u) \<Rightarrow> emit_events bytes state answer p es (u\<lparr>ss_last := sequence\<rparr>)
                  | (False, u) \<Rightarrow>
                      (False, p, snd (write_stream_record bytes (StreamTruncated (ss_last u + 1) state) 0 u)))))"

text \<open>One snapshot: its events, the gap if none of them came after it, and the end of a run that is done.  The result says whether to go on.\<close>

definition emit_snapshot ::
  "(stream_record \<Rightarrow> int) \<Rightarrow> run_ledger_record \<Rightarrow> events_response \<Rightarrow> stream_state \<Rightarrow> bool \<times> stream_state" where
  "emit_snapshot bytes r answer s =
     (let pending = (ev_truncated answer \<and> ev_omitted answer > 0 \<and> ev_first_available answer > 0) in
      case emit_events bytes (lr_state r) answer pending (ev_events answer) s of
        (False, _, v) \<Rightarrow> (False, v)
      | (True, p, v) \<Rightarrow>
          (case (if p then write_gap_marker bytes (lr_state r) answer v else (True, v)) of
             (False, u) \<Rightarrow> (False, u)
           | (True, u) \<Rightarrow>
               if terminal_run_ledger_record r
               then (False, snd (write_stream_record bytes (StreamEnd (ss_last u + 1) (lr_state r)) 0 u))
               else (True, u)))"

text \<open>
  What the loop sees at a poll: the assignment and the ledger when the record is read, and the ledger when
  the events are.  The refresh of the ledger before a poll is part of what is seen.
\<close>

record poll =
  po_assignment :: "assignment_record option"
  po_record_ledger :: ledger
  po_events_ledger :: ledger

type_synonym snapshot_identity = "string \<times> string \<times> int \<times> int \<times> int \<times> bool"

definition control_plane_event_snapshot :: "run_ledger_record \<Rightarrow> snapshot_identity" where
  "control_plane_event_snapshot r =
     (lr_state r, lr_updated r, lr_event_count r, lr_event_bytes r, lr_events_omitted r, lr_events_truncated r)"

text \<open>The loop of \<open>serveControlPlaneEventStream\<close>; the polls end when the client is gone.\<close>

fun follow_events ::
  "(string \<Rightarrow> string) \<Rightarrow> (string \<Rightarrow> json option) \<Rightarrow> (stream_record \<Rightarrow> int) \<Rightarrow> string \<Rightarrow> snapshot_identity option \<Rightarrow> poll list
     \<Rightarrow> stream_state \<Rightarrow> stream_state" where
  "follow_events clean dec bytes run seen [] s = s"
| "follow_events clean dec bytes run seen (p # ps) s =
     (case fst (read_control_plane_run_record (po_assignment p) run (po_record_ledger p)) of
        Inl _ \<Rightarrow> s
      | Inr r \<Rightarrow>
          if seen = Some (control_plane_event_snapshot r) then follow_events clean dec bytes run seen ps s
          else (case read_control_plane_events clean dec (po_events_ledger p) (lr_run r) (Some (ss_last s + 1)) of
                  Inl _ \<Rightarrow> s
                | Inr answer \<Rightarrow>
                    (case emit_snapshot bytes r answer s of
                       (False, v) \<Rightarrow> v
                     | (True, v) \<Rightarrow> follow_events clean dec bytes run (Some (control_plane_event_snapshot r)) ps v)))"

definition serve_control_plane_event_stream ::
  "(string \<Rightarrow> string) \<Rightarrow> (string \<Rightarrow> json option) \<Rightarrow> (stream_record \<Rightarrow> int) \<Rightarrow> string \<Rightarrow> int \<Rightarrow> poll list \<Rightarrow> stream_record list" where
  "serve_control_plane_event_stream clean dec bytes run from polls =
     ss_out (follow_events clean dec bytes run None polls \<lparr>ss_out = [], ss_written = 0, ss_last = from - 1\<rparr>)"

subsection \<open>Every sequence number is accounted for\<close>

text \<open>
  A client checks that a stream goes on where it is: an event has the sequence number it waits for, a gap
  tells how many numbers are missing from there on.  The result is the next number to ask for.
\<close>

fun accounts :: "int \<Rightarrow> stream_record list \<Rightarrow> int option" where
  "accounts c [] = Some c"
| "accounts c (StreamEvent n e next # rs) = (if n = c \<and> next = c + 1 then accounts next rs else None)"
| "accounts c (StreamGap k next # rs) = (if k > 0 \<and> next = c + k then accounts next rs else None)"
| "accounts c (StreamTruncated next st # rs) = (if next \<ge> c \<and> rs = [] then Some next else None)"
| "accounts c (StreamEnd next st # rs) = (if next = c \<and> rs = [] then Some next else None)"

text \<open>
  A retained stream that numbers its events without a hole, but for one omitted range it tells of.
\<close>

definition numbered :: "event_scan \<Rightarrow> bool" where
  "numbered sc \<longleftrightarrow>
     (let ns = map ledger_event_sequence (es_events sc) in
      if es_gap_last sc = 0 then ns = [1..int (length ns)]
      else 1 < es_gap_first sc \<and> es_gap_first sc \<le> es_gap_last sc
         \<and> ns = [1..es_gap_first sc - 1] @ [es_gap_last sc + 1..es_gap_last sc + int (length ns) - es_gap_first sc + 1])"

definition well_numbered :: "(string \<Rightarrow> string) \<Rightarrow> (string \<Rightarrow> json option) \<Rightarrow> ledger \<Rightarrow> string \<Rightarrow> bool" where
  "well_numbered clean dec ledger run \<longleftrightarrow>
     (case read_events_artifact ledger run of
        Inl _ \<Rightarrow> True
      | Inr content \<Rightarrow> (case scan_content clean dec 1 content of Inl _ \<Rightarrow> True | Inr sc \<Rightarrow> numbered sc))"

lemma accounts_append:
  "accounts c rs = Some d \<Longrightarrow> (\<forall>r\<in>set rs. case r of StreamEvent _ _ _ \<Rightarrow> True | StreamGap _ _ \<Rightarrow> True | _ \<Rightarrow> False) \<Longrightarrow>
     accounts c (rs @ qs) = accounts d qs"
  by (induction c rs rule: accounts.induct) (auto split: if_split_asm)

text \<open>Reading from a later sequence on leaves out the events before it, and nothing else.\<close>

lemma scan_events_from:
  assumes "scan_events clean dec 1 lines sc1 = Inr r1" "1 \<le> from"
    "es_events sc = filter (\<lambda>e. from \<le> ledger_event_sequence e) (es_events sc1)"
    "es_gap_first sc = es_gap_first sc1 \<and> es_gap_last sc = es_gap_last sc1"
  shows "\<exists>r. scan_events clean dec from lines sc = Inr r
       \<and> es_events r = filter (\<lambda>e. from \<le> ledger_event_sequence e) (es_events r1)
       \<and> es_gap_first r = es_gap_first r1 \<and> es_gap_last r = es_gap_last r1"
  using assms
proof (induction lines arbitrary: sc sc1)
  case (Cons line lines)
  obtain x where x: "scan_line clean dec line = Inr x" "scan_events clean dec 1 lines (add_scanned 1 x sc1) = Inr r1"
    using Cons.prems(1) by (auto simp: rbind_Inr)
  have "es_events (add_scanned from x sc) = filter (\<lambda>e. from \<le> ledger_event_sequence e) (es_events (add_scanned 1 x sc1))"
    "es_gap_first (add_scanned from x sc) = es_gap_first (add_scanned 1 x sc1)
      \<and> es_gap_last (add_scanned from x sc) = es_gap_last (add_scanned 1 x sc1)"
    using Cons.prems(2-4) by (auto simp: add_scanned_def split: scanned.split)
  from Cons.IH [OF x(2) Cons.prems(2) this] show ?case using x(1) by simp
qed simp

text \<open>The same scan from the start on, when one from a cursor succeeds.\<close>

lemma scan_events_total:
  assumes "scan_events clean dec from lines sc = Inr r"
  shows "\<exists>r1. scan_events clean dec c lines sc1 = Inr r1"
  using assms by (induction lines arbitrary: sc sc1) (auto simp: rbind_Inr)

lemma scan_from_cursor:
  assumes "scan_content clean dec from content = Inr sc" "1 \<le> from"
  obtains sc1 where "scan_content clean dec 1 content = Inr sc1"
    "es_events sc = filter (\<lambda>e. from \<le> ledger_event_sequence e) (es_events sc1)"
    "es_gap_first sc = es_gap_first sc1" "es_gap_last sc = es_gap_last sc1"
proof -
  let ?lines = "split_on newline (trim_space content)"
  obtain sc1 where sc1: "scan_events clean dec 1 ?lines no_scan = Inr sc1"
    using scan_events_total assms(1) unfolding scan_content_def by blast
  from scan_events_from [OF this assms(2), of no_scan] assms(1) sc1 show thesis
    by (intro that) (auto simp: scan_content_def no_scan_def)
qed

definition real_event :: "event \<Rightarrow> bool" where
  "real_event e \<longleftrightarrow> event_type e \<noteq> Some (JStr ''run-ledger.events.truncated'')"

lemma scan_line_real: "scan_line clean dec line = Inr (Scanned e) \<Longrightarrow> real_event e"
  by (auto simp: scan_line_def real_event_def Let_def split: if_split_asm option.split_asm)

lemma scan_real:
  assumes "scan_events clean dec from lines sc = Inr r" "\<forall>e\<in>set (es_events sc). real_event e"
  shows "\<forall>e\<in>set (es_events r). real_event e"
  using assms
proof (induction lines arbitrary: sc)
  case (Cons line lines)
  obtain x where x: "scan_line clean dec line = Inr x" "scan_events clean dec from lines (add_scanned from x sc) = Inr r"
    using Cons.prems(1) by (auto simp: rbind_Inr)
  have "\<forall>e\<in>set (es_events (add_scanned from x sc)). real_event e"
    using Cons.prems(2) scan_line_real x(1) by (auto simp: add_scanned_def split: scanned.split)
  with x(2) show ?case by (rule Cons.IH)
qed simp

subsection \<open>One snapshot\<close>

definition goes_on :: "stream_record \<Rightarrow> bool" where
  "goes_on r \<longleftrightarrow> (case r of StreamEvent _ _ _ \<Rightarrow> True | StreamGap _ _ \<Rightarrow> True | _ \<Rightarrow> False)"

text \<open>An open stream has accounted for every number up to its last one.\<close>

definition open_stream :: "int \<Rightarrow> stream_state \<Rightarrow> bool" where
  "open_stream from s \<longleftrightarrow> accounts from (ss_out s) = Some (ss_last s + 1) \<and> list_all goes_on (ss_out s)"

definition told :: "int \<Rightarrow> stream_state \<Rightarrow> bool" where
  "told from s \<longleftrightarrow> accounts from (ss_out s) \<noteq> None"

lemma open_told: "open_stream from s \<Longrightarrow> told from s"
  by (simp add: open_stream_def told_def)

lemma accounts_snoc:
  assumes "accounts from rs = Some c" "list_all goes_on rs"
  shows "accounts from (rs @ qs) = accounts c qs"
  using assms(1) by (rule accounts_append) (use assms(2) in \<open>simp add: list_all_iff goes_on_def\<close>)

lemma write_cases:
  assumes "write_stream_record bytes r reserve s = (ok, v)"
  obtains "\<not> ok" "v = s" | "ok" "v = s\<lparr>ss_out := ss_out s @ [r], ss_written := ss_written s + bytes r\<rparr>"
  using assms by (cases ok) (auto simp: write_stream_record_def split: if_split_asm)

lemma write_close:
  assumes "open_stream from s" "accounts (ss_last s + 1) [r] \<noteq> None"
  shows "told from (snd (write_stream_record bytes r reserve s))"
proof -
  obtain ok v where w: "write_stream_record bytes r reserve s = (ok, v)" by fastforce
  then show ?thesis
  proof (cases rule: write_cases)
    case 1
    then show ?thesis using w assms(1) by (simp add: open_told)
  next
    case 2
    then show ?thesis
      using w assms accounts_snoc [of "from" "ss_out s" "ss_last s + 1" "[r]"] by (simp add: open_stream_def told_def)
  qed
qed

lemma write_open:
  assumes "open_stream from s" "accounts (ss_last s + 1) [r] = Some (n + 1)" "goes_on r"
    "write_stream_record bytes r reserve s = (True, v)"
  shows "open_stream from (v\<lparr>ss_last := n\<rparr>)"
  using assms accounts_snoc [of "from" "ss_out s" "ss_last s + 1" "[r]"]
  by (auto simp: open_stream_def elim: write_cases)

lemma marker_told:
  assumes "open_stream from s" "ev_omitted a > 0" "ev_first_available a = ss_last s + 1 + ev_omitted a"
    "write_gap_marker bytes st a s = (ok, v)"
  shows "if ok then open_stream from v \<and> ss_last v = ev_first_available a - 1 else told from v"
proof -
  let ?r = "StreamGap (ev_omitted a) (ev_first_available a)"
  obtain o1 s1 where w: "write_stream_record bytes ?r 512 s = (o1, s1)" by fastforce
  from w show ?thesis
  proof (cases rule: write_cases)
    case 1
    have "told from (snd (write_stream_record bytes (StreamTruncated (ev_first_available a) st) 0 s))"
      by (rule write_close [OF assms(1)]) (use assms(2,3) in simp)
    then show ?thesis using assms(4) w 1 by (auto simp: write_gap_marker_def)
  next
    case 2
    have "open_stream from (s1\<lparr>ss_last := ev_first_available a - 1\<rparr>)"
      by (rule write_open [OF assms(1)]) (use assms(2,3) w 2 in \<open>auto simp: goes_on_def\<close>)
    moreover have "ss_last s1 = ss_last s" using 2 by simp
    ultimately show ?thesis using assms(2-4) w 2 by (auto simp: write_gap_marker_def)
  qed
qed

lemma emit_append:
  "emit_events bytes st a p (es @ fs) s =
     (case emit_events bytes st a p es s of (False, q, v) \<Rightarrow> (False, q, v) | (True, q, v) \<Rightarrow> emit_events bytes st a q fs v)"
proof (induction es arbitrary: p s)
  case (Cons e es)
  show ?case by (simp add: Cons.IH Let_def split: prod.split bool.split)
qed simp

text \<open>Events without a hole from the cursor on, before any gap that is still to be announced.\<close>

lemma emit_plain:
  assumes "map ledger_event_sequence es = [ss_last s + 1..ss_last s + int (length es)]" "\<forall>e\<in>set es. real_event e"
    "open_stream from s" "p \<longrightarrow> (\<forall>e\<in>set es. ledger_event_sequence e < ev_first_available a)"
    "emit_events bytes st a p es s = (ok, q, v)"
  shows "q = p \<and> (if ok then open_stream from v \<and> ss_last v = ss_last s + int (length es) else told from v)"
  using assms
proof (induction es arbitrary: s)
  case (Cons e es)
  have seq: "ledger_event_sequence e = ss_last s + 1"
    "map ledger_event_sequence es = [ss_last s + 2..ss_last s + 1 + int (length es)]"
    using Cons.prems(1) by (simp_all add: upto_rec1 ac_simps)
  have e: "event_type e \<noteq> Some (JStr ''run-ledger.events.truncated'')" using Cons.prems(2) by (simp add: real_event_def)
  have m: "\<not> (p \<and> ledger_event_sequence e \<ge> ev_first_available a)" using Cons.prems(4) by auto
  let ?r = "StreamEvent (ledger_event_sequence e) e (ledger_event_sequence e + 1)"
  obtain o1 s1 where w: "write_stream_record bytes ?r 512 s = (o1, s1)" by fastforce
  have r: "(ok, q, v) = (if o1 then emit_events bytes st a p es (s1\<lparr>ss_last := ledger_event_sequence e\<rparr>)
      else (False, p, snd (write_stream_record bytes (StreamTruncated (ss_last s1 + 1) st) 0 s1)))"
    using Cons.prems(5) e m w seq(1) by (simp add: Let_def split: if_split_asm bool.split_asm)
  show ?case
  proof (cases o1)
    case False
    then have s1: "s1 = s" using w by (auto elim: write_cases)
    have "told from (snd (write_stream_record bytes (StreamTruncated (ss_last s + 1) st) 0 s))"
      by (rule write_close [OF Cons.prems(3)]) simp
    then show ?thesis using r False s1 by simp
  next
    case True
    let ?s = "s1\<lparr>ss_last := ledger_event_sequence e\<rparr>"
    have o: "open_stream from ?s"
      by (rule write_open [OF Cons.prems(3)]) (use w True seq(1) in \<open>auto simp: goes_on_def\<close>)
    have "q = p \<and> (if ok then open_stream from v \<and> ss_last v = ss_last ?s + int (length es) else told from v)"
      by (rule Cons.IH) (use o r True seq Cons.prems in \<open>auto simp: ac_simps\<close>)
    then show ?thesis using seq(1) by (auto simp: ac_simps)
  qed
qed simp

lemma filter_upto: "filter (\<lambda>n. c \<le> n) [a..b] = [max a c..(b::int)]"
proof (induction a b rule: upto.induct)
  case (1 a b)
  then show ?case by (cases "a \<le> b") (auto simp: upto_rec1 [of a b] upto_rec1 [of c b] max_def)
qed

lemma upto_length: "ns = [c..b] \<Longrightarrow> ns = [c..c + int (length ns) - 1]"
  by (cases "c \<le> b") auto

text \<open>What an answer holds: all numbers from the cursor on, or those before and those after the range it tells of.\<close>

lemma answer_cases:
  assumes "numbered sc1" "1 \<le> c" "es_events sc = filter (\<lambda>e. c \<le> ledger_event_sequence e) (es_events sc1)"
    "es_gap_first sc = es_gap_first sc1" "es_gap_last sc = es_gap_last sc1"
  obtains
    (whole) "ev_omitted (events_answer c True sc) = 0"
      "map ledger_event_sequence (es_events sc) = [c..c + int (length (es_events sc)) - 1]"
  | (gap) fs gs where "es_events sc = fs @ gs" "map ledger_event_sequence fs = [c..c + int (length fs) - 1]"
      "ev_omitted (events_answer c True sc) > 0" "ev_truncated (events_answer c True sc)"
      "ev_first_available (events_answer c True sc) = c + int (length fs) + ev_omitted (events_answer c True sc)"
      "map ledger_event_sequence gs
        = [ev_first_available (events_answer c True sc)..ev_first_available (events_answer c True sc) + int (length gs) - 1]"
proof (cases "es_gap_last sc = 0 \<or> es_gap_last sc < c")
  case True
  have "\<exists>b. map ledger_event_sequence (es_events sc) = [c..b]"
  proof (cases "es_gap_last sc = 0")
    case g: True
    then have "map ledger_event_sequence (es_events sc1) = [1..int (length (es_events sc1))]"
      using assms(1,5) by (simp add: numbered_def)
    then have "map ledger_event_sequence (es_events sc) = [max 1 c..int (length (es_events sc1))]"
      using assms(3) filter_map [of "\<lambda>n. c \<le> n" ledger_event_sequence "es_events sc1"] by (simp add: filter_upto comp_def)
    then show ?thesis using assms(2) by (auto simp: max_def)
  next
    case g: False
    then obtain b where "map ledger_event_sequence (es_events sc1) = [1..es_gap_first sc - 1] @ [es_gap_last sc + 1..b]"
        "es_gap_first sc \<le> es_gap_last sc"
      using assms(1,4,5) by (auto simp: numbered_def Let_def)
    then have "map ledger_event_sequence (es_events sc)
        = [max 1 c..es_gap_first sc - 1] @ [max (es_gap_last sc + 1) c..b]"
      using assms(3) filter_map [of "\<lambda>n. c \<le> n" ledger_event_sequence "es_events sc1"] by (simp add: filter_upto comp_def)
    moreover have "max 1 c > es_gap_first sc - 1" "max (es_gap_last sc + 1) c = c"
      using True g \<open>es_gap_first sc \<le> es_gap_last sc\<close> by auto
    ultimately have "map ledger_event_sequence (es_events sc) = [c..b]" by simp
    then show ?thesis by blast
  qed
  then have "map ledger_event_sequence (es_events sc) = [c..c + int (length (es_events sc)) - 1]"
    using upto_length by (metis length_map)
  moreover have "ev_omitted (events_answer c True sc) = 0" using True assms(2) by (auto simp: events_answer_def Let_def)
  ultimately show ?thesis by (rule whole [rotated])
next
  case False
  then obtain b where b: "map ledger_event_sequence (es_events sc1) = [1..es_gap_first sc - 1] @ [es_gap_last sc + 1..b]"
      "1 < es_gap_first sc" "es_gap_first sc \<le> es_gap_last sc" "c \<le> es_gap_last sc"
    using assms(1,4,5) by (auto simp: numbered_def Let_def)
  then have "map ledger_event_sequence (es_events sc)
      = [max 1 c..es_gap_first sc - 1] @ [max (es_gap_last sc + 1) c..b]"
    using assms(3) filter_map [of "\<lambda>n. c \<le> n" ledger_event_sequence "es_events sc1"] by (simp add: filter_upto comp_def)
  then have "map ledger_event_sequence (es_events sc) = [c..es_gap_first sc - 1] @ [es_gap_last sc + 1..b]"
    using assms(2) b(4) by (simp add: max_def)
  then obtain fs gs where s: "es_events sc = fs @ gs" "map ledger_event_sequence fs = [c..es_gap_first sc - 1]"
      "map ledger_event_sequence gs = [es_gap_last sc + 1..b]"
    by (auto simp: map_eq_append_conv)
  have "length (map ledger_event_sequence fs) = nat (es_gap_first sc - c)" by (simp only: s(2)) simp
  then have l: "int (length fs) = max 0 (es_gap_first sc - c)" by simp
  have a: "ev_omitted (events_answer c True sc) = es_gap_last sc - max c (es_gap_first sc) + 1"
      "ev_first_available (events_answer c True sc) = es_gap_last sc + 1" "ev_truncated (events_answer c True sc)"
    using b by (auto simp: events_answer_def Let_def)
  show ?thesis
  proof (rule gap [OF s(1)])
    show "map ledger_event_sequence fs = [c..c + int (length fs) - 1]"
      using upto_length [OF s(2)] by simp
    show "map ledger_event_sequence gs
        = [ev_first_available (events_answer c True sc)..ev_first_available (events_answer c True sc) + int (length gs) - 1]"
      using upto_length [OF s(3)] by (simp add: a)
  qed (use a b l in \<open>auto simp: max_def\<close>)
qed

lemma emit_marked:
  assumes "real_event e" "ledger_event_sequence e = ev_first_available a"
  shows "emit_events bytes st a True (e # es) s =
     (case write_gap_marker bytes st a s of (False, v) \<Rightarrow> (False, False, v) | (True, v) \<Rightarrow> emit_events bytes st a False (e # es) v)"
  using assms by (auto simp: real_event_def Let_def split: prod.split bool.split)

lemma close_told:
  assumes "open_stream from v"
  shows "told from (snd (if b then (False, snd (write_stream_record bytes (StreamEnd (ss_last v + 1) st) 0 v)) else (True, v)))"
  using write_close [OF assms, of "StreamEnd (ss_last v + 1) st"] open_told [OF assms] by simp

text \<open>The events after the range, with its marker before them.\<close>

lemma emit_after_gap:
  assumes "open_stream from s" "ev_omitted a > 0" "ev_first_available a = ss_last s + 1 + ev_omitted a"
    "map ledger_event_sequence gs = [ev_first_available a..ev_first_available a + int (length gs) - 1]"
    "\<forall>e\<in>set gs. real_event e"
    "(case emit_events bytes st a True gs s of
        (False, _, v) \<Rightarrow> (False, v)
      | (True, p, v) \<Rightarrow> if p then write_gap_marker bytes st a v else (True, v)) = (ok, u)"
  shows "if ok then open_stream from u else told from u"
proof (cases gs)
  case Nil
  then show ?thesis using assms(6) marker_told [OF assms(1-3)] by (auto split: if_split_asm)
next
  case (Cons e es)
  then have e: "real_event e" "ledger_event_sequence e = ev_first_available a"
    using assms(4,5) by (auto simp: upto_rec1)
  obtain ok1 v where m: "write_gap_marker bytes st a s = (ok1, v)" by fastforce
  note t = marker_told [OF assms(1-3) m]
  show ?thesis
  proof (cases ok1)
    case False
    then show ?thesis using assms(6) Cons emit_marked [OF e] m t by auto
  next
    case True
    then have v: "open_stream from v" "ev_first_available a = ss_last v + 1" using t by simp_all
    obtain ok2 q w where r: "emit_events bytes st a False gs v = (ok2, q, w)" by (metis prod.exhaust)
    have "q = False \<and> (if ok2 then open_stream from w \<and> ss_last w = ss_last v + int (length gs) else told from w)"
      by (rule emit_plain [OF _ assms(5) _ _ r]) (use v(1) assms(4) [unfolded v(2)] in \<open>simp_all add: ac_simps\<close>)
    then show ?thesis using assms(6) Cons emit_marked [OF e] m True r by (auto split: if_split_asm)
  qed
qed

text \<open>A snapshot taken up at the cursor leaves the stream open, or closes it with every number told.\<close>

lemma snapshot_told:
  assumes "numbered sc1" "0 \<le> ss_last s" "open_stream from s" "\<forall>e\<in>set (es_events sc). real_event e"
    "es_events sc = filter (\<lambda>e. ss_last s + 1 \<le> ledger_event_sequence e) (es_events sc1)"
    "es_gap_first sc = es_gap_first sc1" "es_gap_last sc = es_gap_last sc1"
    "emit_snapshot bytes r (events_answer (ss_last s + 1) True sc) s = (ok, v)"
  shows "if ok then open_stream from v else told from v"
proof -
  let ?a = "events_answer (ss_last s + 1) True sc"
  let ?st = "lr_state r"
  have es: "ev_events ?a = es_events sc" by (simp add: events_answer_def Let_def)
  have last: "if ok then open_stream from v else told from v"
    if "(if terminal_run_ledger_record r then (False, snd (write_stream_record bytes (StreamEnd (ss_last u + 1) ?st) 0 u))
         else (True, u)) = (ok, v)" "open_stream from u" for u
    using close_told [OF that(2), of "terminal_run_ledger_record r" bytes ?st] that by (auto split: if_split_asm)
  have c: "1 \<le> ss_last s + 1" using assms(2) by simp
  show ?thesis
    using assms(1) c assms(5-7)
  proof (cases rule: answer_cases)
    case whole
    obtain ok1 q u where r: "emit_events bytes ?st ?a False (es_events sc) s = (ok1, q, u)" by (metis prod.exhaust)
    have "q = False \<and> (if ok1 then open_stream from u \<and> ss_last u = ss_last s + int (length (es_events sc)) else told from u)"
      by (rule emit_plain [OF _ assms(4) assms(3) _ r]) (use whole(2) in \<open>simp_all add: ac_simps\<close>)
    moreover have "(ok, v) = (if ok1 then (if terminal_run_ledger_record r
          then (False, snd (write_stream_record bytes (StreamEnd (ss_last u + 1) ?st) 0 u)) else (True, u)) else (False, u))"
      if "q = False" using assms(8) r whole(1) that by (simp add: emit_snapshot_def es split: if_split_asm bool.split_asm)
    ultimately show ?thesis using last [of u] by (cases ok1) simp_all
  next
    case (gap fs gs)
    obtain ok1 q u where r: "emit_events bytes ?st ?a True fs s = (ok1, q, u)" by (metis prod.exhaust)
    have fs: "q = True \<and> (if ok1 then open_stream from u \<and> ss_last u = ss_last s + int (length fs) else told from u)"
    proof (rule emit_plain [OF _ _ assms(3) _ r])
      show "map ledger_event_sequence fs = [ss_last s + 1..ss_last s + int (length fs)]" using gap(2) by (simp add: ac_simps)
      have "ledger_event_sequence e < ev_first_available ?a" if "e \<in> set fs" for e
      proof -
        have "ledger_event_sequence e \<in> set (map ledger_event_sequence fs)" using that by simp
        then show ?thesis unfolding gap(2) using gap(3,5) by simp
      qed
      then show "True \<longrightarrow> (\<forall>e\<in>set fs. ledger_event_sequence e < ev_first_available ?a)" by simp
    qed (use assms(4) gap(1) in simp)
    have p: "ev_truncated ?a \<and> ev_omitted ?a > 0 \<and> ev_first_available ?a > 0" using gap assms(2) by simp
    show ?thesis
    proof (cases ok1)
      case False
      then show ?thesis using assms(8) r fs p by (simp add: emit_snapshot_def es gap(1) emit_append)
    next
      case True
      have u: "open_stream from u" "ev_first_available ?a = ss_last u + 1 + ev_omitted ?a" using fs True gap(5) by simp_all
      let ?g = "case emit_events bytes ?st ?a True gs u of
          (False, _, v) \<Rightarrow> (False, v) | (True, p, v) \<Rightarrow> if p then write_gap_marker bytes ?st ?a v else (True, v)"
      obtain ok2 w where g: "?g = (ok2, w)" by fastforce
      have t: "if ok2 then open_stream from w else told from w"
        by (rule emit_after_gap [OF u(1) gap(3) u(2) gap(6) _ g]) (use assms(4) gap(1) in simp)
      have "(ok, v) = (if ok2 then (if terminal_run_ledger_record r
            then (False, snd (write_stream_record bytes (StreamEnd (ss_last w + 1) ?st) 0 w)) else (True, w)) else (False, w))"
        using assms(8) r fs p True g
        by (auto simp: emit_snapshot_def es gap(1) emit_append split: prod.split_asm bool.split_asm if_split_asm)
      then show ?thesis using t last [of w] by (auto split: if_split_asm)
    qed
  qed
qed

subsection \<open>The whole stream\<close>

lemma accounts_grow: "accounts c rs = Some d \<Longrightarrow> c \<le> d"
  by (induction c rs rule: accounts.induct) (fastforce split: if_split_asm)+

lemma accounts_take: "accounts c rs \<noteq> None \<Longrightarrow> accounts c (take n rs) \<noteq> None"
  by (induction c rs arbitrary: n rule: accounts.induct) (auto simp: take_Cons split: nat.split if_split_asm)

text \<open>The records an assignment carries are those of its run.\<close>

definition names_run :: "string \<Rightarrow> poll \<Rightarrow> bool" where
  "names_run run p \<longleftrightarrow>
     (case po_assignment p of
        None \<Rightarrow> True
      | Some a \<Rightarrow> (\<forall>r. ar_terminal_ledger a = Some r \<or> ar_assigned_ledger a = Some r \<longrightarrow> lr_run r = run))"

lemma read_run_ledger_record_names: "read_run_ledger_record ledger run = Inr r \<Longrightarrow> lr_run r = run"
  by (auto simp: read_run_ledger_record_def check_run_ledger_record_def
      split: sum.split_asm option.split_asm ledger_entry.split_asm stored_record.split_asm if_split_asm)

lemma record_names:
  assumes "names_run run p" "fst (read_control_plane_run_record (po_assignment p) run (po_record_ledger p)) = Inr r"
  shows "lr_run r = run"
  using assms read_run_ledger_record_names
  by (fastforce simp: names_run_def read_control_plane_run_record_def Let_def split: option.split_asm if_split_asm)

lemma read_events_Inr:
  assumes "read_control_plane_events clean dec ledger run (Some c) = Inr a"
  obtains content sc where "read_events_artifact ledger run = Inr content" "scan_content clean dec c content = Inr sc"
    "a = events_answer c True sc"
proof -
  obtain content where c: "read_events_artifact ledger run = Inr content"
    using assms by (auto simp: read_control_plane_events_def)
  obtain sc where "scan_content clean dec c content = Inr sc"
    using assms c by (cases "scan_content clean dec c content") (auto simp: read_control_plane_events_def under_def)
  with assms c show thesis by (intro that) (auto simp: read_control_plane_events_def under_def)
qed

lemma follow_told:
  assumes "\<forall>p\<in>set polls. well_numbered clean dec (po_events_ledger p) run \<and> names_run run p"
    "open_stream from s" "1 \<le> from"
  shows "told from (follow_events clean dec bytes run seen polls s)"
  using assms(1,2)
proof (induction polls arbitrary: seen s)
  case Nil
  then show ?case by (simp add: open_told)
next
  case (Cons p ps)
  let ?read = "fst (read_control_plane_run_record (po_assignment p) run (po_record_ledger p))"
  show ?case
  proof (cases ?read)
    case (Inl e)
    then show ?thesis using Cons.prems(2) by (simp add: open_told)
  next
    case (Inr r)
    have run: "lr_run r = run" using record_names [OF _ Inr] Cons.prems(1) by simp
    let ?answer = "read_control_plane_events clean dec (po_events_ledger p) run (Some (ss_last s + 1))"
    show ?thesis
    proof (cases "seen = Some (control_plane_event_snapshot r)")
      case True
      then show ?thesis using Inr Cons.IH Cons.prems by simp
    next
      case seen: False
      show ?thesis
      proof (cases ?answer)
        case (Inl e)
        then show ?thesis using Inr run seen Cons.prems(2) by (simp add: open_told)
      next
        case answer: (Inr a)
        obtain content sc where sc: "read_events_artifact (po_events_ledger p) run = Inr content"
          "scan_content clean dec (ss_last s + 1) content = Inr sc" "a = events_answer (ss_last s + 1) True sc"
          using answer by (rule read_events_Inr)
        have low: "0 \<le> ss_last s" 
          using accounts_grow [of "from" "ss_out s" "ss_last s + 1"] Cons.prems(2) assms(3) by (simp add: open_stream_def)
        obtain sc1 where sc1: "scan_content clean dec 1 content = Inr sc1" "numbered sc1"
          "es_events sc = filter (\<lambda>e. ss_last s + 1 \<le> ledger_event_sequence e) (es_events sc1)"
          "es_gap_first sc = es_gap_first sc1" "es_gap_last sc = es_gap_last sc1"
        proof (rule scan_from_cursor [OF sc(2)])
          fix sc1 assume a: "scan_content clean dec 1 content = Inr sc1"
          moreover have "well_numbered clean dec (po_events_ledger p) run" using Cons.prems(1) by simp
          ultimately have "numbered sc1" using sc(1) by (simp add: well_numbered_def)
          with a show "es_events sc = filter (\<lambda>e. ss_last s + 1 \<le> ledger_event_sequence e) (es_events sc1) \<Longrightarrow>
            es_gap_first sc = es_gap_first sc1 \<Longrightarrow> es_gap_last sc = es_gap_last sc1 \<Longrightarrow> thesis" by (rule that)
        qed (use low in simp)
        have real: "\<forall>e\<in>set (es_events sc). real_event e"
          using scan_real [of clean dec _ _ no_scan sc] sc(2) by (simp add: scan_content_def no_scan_def)
        obtain ok v where v: "emit_snapshot bytes r a s = (ok, v)" by fastforce
        have t: "if ok then open_stream from v else told from v"
          by (rule snapshot_told [OF sc1(2) low Cons.prems(2) real sc1(3-5) v [unfolded sc(3)]])
        show ?thesis
          using Inr run seen answer v t Cons.IH [of v "Some (control_plane_event_snapshot r)"] Cons.prems(1)
          by (cases ok) simp_all
      qed
    qed
  qed
qed

text \<open>With room for all of them the events of a snapshot are written one by one.\<close>

definition event_record :: "event \<Rightarrow> stream_record" where
  "event_record e = StreamEvent (ledger_event_sequence e) e (ledger_event_sequence e + 1)"

lemma emit_all:
  assumes "map ledger_event_sequence es = [ss_last s + 1..ss_last s + int (length es)]" "\<forall>e\<in>set es. real_event e"
    "\<forall>r. 0 \<le> bytes r"
    "ss_written s + sum_list (map (bytes \<circ> event_record) es) \<le> maximum_run_ledger_max_event_bytes - 512"
  shows "emit_events bytes st a False es s =
     (True, False, s\<lparr>ss_out := ss_out s @ map event_record es,
                     ss_written := ss_written s + sum_list (map (bytes \<circ> event_record) es),
                     ss_last := ss_last s + int (length es)\<rparr>)"
  using assms
proof (induction es arbitrary: s)
  case (Cons e es)
  have seq: "ledger_event_sequence e = ss_last s + 1"
    "map ledger_event_sequence es = [ss_last s + 1 + 1..ss_last s + 1 + int (length es)]"
    using Cons.prems(1) by (simp_all add: upto_rec1 ac_simps)
  have e: "event_type e \<noteq> Some (JStr ''run-ledger.events.truncated'')" using Cons.prems(2) by (simp add: real_event_def)
  let ?s = "s\<lparr>ss_out := ss_out s @ [event_record e], ss_written := ss_written s + bytes (event_record e),
              ss_last := ledger_event_sequence e\<rparr>"
  have n: "0 \<le> sum_list (map (bytes \<circ> event_record) es)" using Cons.prems(3) by (intro sum_list_nonneg) auto
  then have w: "write_stream_record bytes (event_record e) 512 s
      = (True, s\<lparr>ss_out := ss_out s @ [event_record e], ss_written := ss_written s + bytes (event_record e)\<rparr>)"
    using Cons.prems(4) by (simp add: write_stream_record_def comp_def)
  have "emit_events bytes st a False (e # es) s = emit_events bytes st a False es ?s"
    using e w seq(1) by (simp add: Let_def event_record_def)
  also have "\<dots> = (True, False, ?s\<lparr>ss_out := ss_out ?s @ map event_record es,
                     ss_written := ss_written ?s + sum_list (map (bytes \<circ> event_record) es),
                     ss_last := ss_last ?s + int (length es)\<rparr>)"
    by (rule Cons.IH) (use Cons.prems(2-4) seq in \<open>simp_all add: ac_simps\<close>)
  finally show ?case using seq(1) by (simp add: ac_simps comp_def del: emit_events.simps)
qed simp


text \<open>C28. The stream of a run that is done is complete.  If nothing was omitted and the response
  has room, a client is sent exactly the retained events from its cursor on, each once and in order, and then the end.\<close>

theorem finished_run_streamed:
  assumes "fst (read_control_plane_run_record (po_assignment p) run (po_record_ledger p)) = Inr r"
    "terminal_run_ledger_record r" "names_run run p" "1 \<le> start" "\<forall>r. 0 \<le> bytes r"
    "read_events_artifact (po_events_ledger p) run = Inr content"
    "scan_content clean dec 1 content = Inr sc" "numbered sc" "es_gap_last sc = 0"
    "told_events = filter (\<lambda>e. start \<le> ledger_event_sequence e) (es_events sc)"
    "out = map event_record told_events @ [StreamEnd (start + int (length told_events)) (lr_state r)]"
    "sum_list (map bytes out) + 512 \<le> maximum_run_ledger_max_event_bytes"
  shows "serve_control_plane_event_stream clean dec bytes run start (p # ps) = out"
proof -
  let ?s = "\<lparr>ss_out = [], ss_written = 0, ss_last = start - 1\<rparr>"
  obtain sc' where sc': "scan_content clean dec start content = Inr sc'" "es_events sc' = told_events"
    "es_gap_first sc' = es_gap_first sc" "es_gap_last sc' = es_gap_last sc"
    using scan_events_from [of clean dec _ no_scan sc start no_scan] assms(4,7,10) by (auto simp: scan_content_def no_scan_def)
  let ?a = "events_answer start True sc'"
  have ev: "ev_events ?a = told_events" "ev_omitted ?a = 0"
    using sc'(2,4) assms(9) by (simp_all add: events_answer_def Let_def)
  have "map ledger_event_sequence told_events = [ss_last ?s + 1..ss_last ?s + int (length told_events)]"
    using assms(8,4) trans [OF sc'(2) assms(10)] sc'(3,4)
  proof (cases rule: answer_cases)
    case whole
    moreover have "start + int k - 1 = start - 1 + int k" for k by simp
    ultimately show ?thesis by (simp only: sc'(2) stream_state.simps) simp
  qed (use ev(2) in simp)
  moreover have "\<forall>e\<in>set told_events. real_event e"
    using scan_real [of clean dec _ _ no_scan sc'] sc'(1,2) by (simp add: scan_content_def no_scan_def)
  moreover have room: "sum_list (map (bytes \<circ> event_record) told_events) \<le> maximum_run_ledger_max_event_bytes - 512"
    using assms(5) [rule_format, of "StreamEnd (start + int (length told_events)) (lr_state r)"] assms(11,12) by simp
  ultimately have "emit_events bytes (lr_state r) ?a False told_events ?s =
     (True, False, ?s\<lparr>ss_out := map event_record told_events,
                      ss_written := sum_list (map (bytes \<circ> event_record) told_events),
                      ss_last := start - 1 + int (length told_events)\<rparr>)"
    using emit_all [of told_events ?s bytes "lr_state r" ?a] assms(5) room by simp
  then have e: "emit_snapshot bytes r ?a ?s = (False, v) \<Longrightarrow> ss_out v = out" for v
    using assms(2,11,12) by (auto simp: emit_snapshot_def ev write_stream_record_def comp_def ac_simps)
  have "read_control_plane_events clean dec (po_events_ledger p) (lr_run r) (Some start) = Inr ?a"
    using record_names [OF assms(3,1)] assms(6) sc'(1) by (simp add: read_control_plane_events_def under_def)
  moreover have "\<exists>v. emit_snapshot bytes r ?a ?s = (False, v)"
    using \<open>emit_events _ _ _ _ _ _ = _\<close> assms(2) by (auto simp: emit_snapshot_def ev)
  ultimately show ?thesis
    using assms(1) e by (auto simp: serve_control_plane_event_stream_def)
qed

subsection \<open>A concrete stream\<close>

text \<open>A line is one character: a digit is an event's number, a \<open>g\<close> a range of five numbers from 2 on.\<close>

definition told_dec :: "string \<Rightarrow> json option" where
  "told_dec s =
     (case s of
        [c] \<Rightarrow> Some (JObj (if c = CHR ''g'' then omitted_event 1 (JStr []) 5
                         else [(''type'', JStr ''run''), (''sequence'', jint (of_char c - 48))]))
      | _ \<Rightarrow> None)"

definition told_ledger :: "string \<Rightarrow> string \<Rightarrow> ledger" where
  "told_ledger state lines =
     [(''r1'', LedgerDir \<lparr>ld_record = StoredRecord (sample_record ''r1'' state []),
        ld_events = Regular (concat (map (\<lambda>c. [c, newline]) lines)), ld_log = Regular []\<rparr>)]"

definition told_poll :: "string \<Rightarrow> string \<Rightarrow> poll" where
  "told_poll state lines =
     \<lparr>po_assignment = None, po_record_ledger = told_ledger state lines, po_events_ledger = told_ledger state lines\<rparr>"

definition told_polls :: "poll list" where
  "told_polls = [told_poll ''running'' ''12'', told_poll ''running'' ''12'', told_poll ''completed'' ''1g78'']"

definition outline :: "stream_record list \<Rightarrow> (int \<times> int) list" where
  "outline rs = map (\<lambda>r. case r of StreamEvent n _ next \<Rightarrow> (n, next) | StreamGap k next \<Rightarrow> (- k, next)
                         | StreamTruncated next _ \<Rightarrow> (0, next) | StreamEnd next _ \<Rightarrow> (0, next)) rs"

lemma told_outline:
  "outline (serve_control_plane_event_stream (\<lambda>s. s) told_dec (\<lambda>_. 100) ''r1'' 1 told_polls)
     = [(1, 2), (2, 3), (-4, 7), (7, 8), (8, 9), (0, 9)]"
  by code_simp

lemma told_numbered:
  "list_all (\<lambda>p. well_numbered (\<lambda>s. s) told_dec (po_events_ledger p) ''r1'') told_polls"
  by code_simp


theorem finished_run_streamed_witness:
  "outline (serve_control_plane_event_stream (\<lambda>s. s) told_dec (\<lambda>_. 100) ''r1'' 2 [told_poll ''completed'' ''123''])
     = [(2, 3), (3, 4), (0, 4)]"
proof -
  let ?p = "told_poll ''completed'' ''123''"
  let ?content = "[CHR ''1'', newline, CHR ''2'', newline, CHR ''3'', newline]"
  let ?e = "\<lambda>n. [(''type'', JStr ''run''), (''sequence'', jint n)]"
  let ?sc = "no_scan\<lparr>es_events := [?e 1, ?e 2, ?e 3]\<rparr>"
  have r: "fst (read_control_plane_run_record (po_assignment ?p) ''r1'' (po_record_ledger ?p))
      = Inr (sample_record ''r1'' ''completed'' [])" by code_simp
  have t: "terminal_run_ledger_record (sample_record ''r1'' ''completed'' [])" by code_simp
  have n: "names_run ''r1'' ?p" by (simp add: names_run_def told_poll_def)
  have c: "read_events_artifact (po_events_ledger ?p) ''r1'' = Inr ?content" by code_simp
  have s: "scan_content (\<lambda>s. s) told_dec 1 ?content = Inr ?sc" by code_simp
  have w: "numbered ?sc" "es_gap_last ?sc = 0" by code_simp+
  have f: "[?e 2, ?e 3] = filter (\<lambda>e. 2 \<le> ledger_event_sequence e) (es_events ?sc)" by code_simp
  have b: "sum_list (map (\<lambda>_. 100) (map event_record [?e 2, ?e 3] @ [StreamEnd (2 + int (length [?e 2, ?e 3]))
      (lr_state (sample_record ''r1'' ''completed'' []))])) + 512 \<le> maximum_run_ledger_max_event_bytes" by code_simp
  have "serve_control_plane_event_stream (\<lambda>s. s) told_dec (\<lambda>_. 100) ''r1'' 2 [?p]
      = map event_record [?e 2, ?e 3] @ [StreamEnd (2 + int (length [?e 2, ?e 3])) (lr_state (sample_record ''r1'' ''completed'' []))]"
    by (rule finished_run_streamed [OF r t n _ _ c s w f refl b]) simp_all
  moreover have "outline (map event_record [?e 2, ?e 3]
      @ [StreamEnd (2 + int (length [?e 2, ?e 3])) (lr_state (sample_record ''r1'' ''completed'' []))])
      = [(2, 3), (3, 4), (0, 4)]" by code_simp
  ultimately show ?thesis by simp
qed

end
