(* ===== verification/Spec2Isabelle.thy ===== *)
theory Spec2Isabelle
  imports Scenario Lock_System Remote_Lock Queue_Recovery Agent_Progress Fresh_Run Kept_Resume Event_Stream
begin

text \<open>
  Maya Stall runs scenarios in Autodesk Maya on leased Windows hosts and keeps evidence of every
  run.  This is a model of its core logic (the Go package under \<open>src/internal/cli\<close>) with the
  theorems that make the parts correct.

  \<^bold>\<open>The program.\<close>  A run reads a scenario contract from the repository, chooses a Maya Host that
  satisfies its requirements, takes the host's lock, runs under it, and retains a bounded record
  of what happened.  Runs start from the command line, or through a control plane to which
  Windows Host Agents connect; the control plane queues runs, assigns each to one agent, and
  keeps its own durable state in step with the host locks.

  \<^bold>\<open>The theories.\<close>
  \<^item> \<open>Stall_Prelude\<close>: results, Go's string functions on bytes, decimal numbers, \<open>sort.Slice\<close> with the
    locales \<open>strict_weak\<close> and \<open>strict_total\<close> every comparison function is shown to satisfy.
  \<^item> \<open>Repo_Config\<close> (\<open>config.go\<close>, \<open>host_pool.go\<close>): the decoded configuration.
  \<^item> \<open>Capabilities\<close> (\<open>capabilities.go\<close>): version order, requirements, the compatibility decision, the
    candidate list of agents.
  \<^item> \<open>Scenario_Paths\<close>, \<open>Scenario\<close> (\<open>scenario.go\<close>, \<open>runtime_inputs.go\<close>, \<open>run.go\<close>): path checks, contracts,
    the payload and its snapshot.
  \<^item> \<open>Windows_Paths\<close> (\<open>ssh_transport.go\<close>, \<open>trusted_plugin_allowlist.go\<close>): canonical Windows paths and the
    separation of the trusted root.
  \<^item> \<open>Go_Time\<close>, \<open>Go_Duration\<close>: RFC 3339 times and durations as Go reads and writes them.
  \<^item> \<open>Host_Lock\<close>, \<open>Lock_System\<close>, \<open>Remote_Lock\<close> (\<open>host_pool.go\<close>, \<open>run_state.go\<close>, \<open>host_lock_ssh.go\<close>): the lock
    file of a host, its owners and leases, the interleavings of contending processes, and the
    same contract kept by PowerShell scripts over SSH, both instances of the locale \<open>owner_store\<close>.
  \<^item> \<open>Host_Pool\<close> (\<open>host_pool.go\<close>): host checks, runtime resolution, the selection loop.
  \<^item> \<open>Ledger_Log\<close>, \<open>Ledger_Events\<close>, \<open>Run_Ledger\<close> (\<open>run_ledger.go\<close>): the retained log, events and records.
  \<^item> \<open>Control_Records\<close>, \<open>Transition_Store\<close> (\<open>host_agent_transition_store.go\<close>): assignments and the
    journal that commits them, on a disk with explicit faults.
  \<^item> \<open>Agent_Control\<close> (\<open>host_agent.go\<close>): enrollment, sessions and assignments of agents, one definition
    for each region under the control plane's mutex; \<open>Agent_System\<close>: their interleavings, and that a
    host never has two live assignments.
  \<^item> \<open>Run_Queue\<close>, \<open>Queue_System\<close>, \<open>Queue_Recovery\<close> (\<open>run_queue.go\<close>): places, dispatch and cancellation of
    queued runs, their interleavings, and the queue a restart rebuilds.
  \<^item> \<open>Agent_Progress\<close> (\<open>host_agent.go\<close>): the checkpoints an agent sends, merged into what is acknowledged.
  \<^item> \<open>Step_Logic\<close>: steps that change a state and may fail, and triples over them.
  \<^item> \<open>Fresh_Run\<close> (\<open>fresh_run.go\<close>): the life of a fresh run from the lock to its release, on every error path.
  \<^item> \<open>Kept_Stop\<close>, \<open>Kept_Release\<close>, \<open>Kept_Sweep\<close>, \<open>Kept_Resume\<close> (\<open>run_state.go\<close>, \<open>run_retention_expiry.go\<close>): stopping
    and sweeping kept runs, the order in which they give up what they hold, and that a stop which
    failed half way can be finished (locale \<open>stop_host\<close>, shown for the lock of a directory).
  \<^item> \<open>Event_Stream\<close> (\<open>control_plane.go\<close>): the events a client is told of while a run goes on.

  \<^bold>\<open>How they interact.\<close>  A fresh run and a stop take and release the locks of \<open>Host_Lock\<close> or
  \<open>Remote_Lock\<close> and settle their record in \<open>Run_Ledger\<close>; the handlers of \<open>Agent_Control\<close> commit through
  \<open>Transition_Store\<close>, are fed by \<open>Run_Queue\<close>, and write the events \<open>Event_Stream\<close> reads.

  \<^bold>\<open>Conventions.\<close>  A Go string is the list of its bytes; a time is its nanoseconds since the epoch; an
  error is a constructor of an error datatype; the file system, the clock, the network and fresh
  random tokens are arguments or parts of an explicit state.  A Go map is a list of entries (its
  iteration order is the list's) or a partial function where the order is never seen.  JSON
  encoding and decoding of events are the parameters \<open>enc\<close> and \<open>dec\<close>.  What lies outside the
  program answers: a record of answers (\<open>kw_\<close>, \<open>po_\<close>, the hosts of a run) or a list of them is part of the
  state and a theorem holds for all of them; a fault is a step that changes nothing or part of what it should.
  A theorem about interleavings is proved by induction over the paths of an inductive step relation.

  \<^bold>\<open>Bounds and fuel.\<close>  The log marker settles within a fuel of 64 rounds (its length only grows, by at
  most a digit a round); the selection loop has a fuel of the wait in units of its shortest delay
  plus two, enough for every round before the deadline; a duration is read with as much fuel as
  its text is long.

  At most 1000 runs are queued, as in the code.  Integers that come from outside keep their width
  (\<open>wrap64\<close>, \<open>float64_of\<close>); counters of events are unbounded, since no ledger holds \<open>2 ^ 63\<close> of them.
  The event stream needs no fuel: it is a recursion over the polls that happened.

  \<^bold>\<open>Not modelled.\<close>
  \<^item> The HTTP routing and authentication of the control plane, the upload and materialisation of a
    submission, its history and log answers, and the client's side of all of it (\<open>control_plane.go\<close>).
  \<^item> The transport of the session broker and its processes (\<open>sessiond_broker.go\<close>), SSH and SFTP sessions, the
    local Windows host, the advisory locks of ledger files: they are answers or atomic regions of the model.
  \<^item> The validators of session logs and run outputs in \<open>run.go\<close> that read files of Maya's own making.
  \<^item> Publication, review comments, proof artefacts and evidence bundles, visual evidence, desktop capture
    and control, operations on the desktop of a running scenario.
  \<^item> The command line, \<open>plan\<close> and \<open>doctor\<close>, and the listing of kept runs: they parse arguments and print.
\<close>

end
